(* ===== verification/Prelude.thy ===== *)
theory Prelude
  imports Main "HOL-Library.Word"
begin

unbundle bit_operations_syntax

text \<open>
  The vocabulary every component shares: machine integers, byte buffers, C strings, the
  exceptions a MicroPython module function raises, and the generic facts about lists and words
  that carry the component proofs.

  \<^item> A C buffer or the data of a Python \<open>str\<close> or \<open>bytes\<close> object is a list of 8-bit words.
  \<^item> A function that may raise returns a sum: \<open>Inl\<close> the exception, \<open>Inr\<close> the value. The numeric
    values of MicroPython's \<open>MP_E*\<close> codes belong to MicroPython, so they are constructors here.
  \<^item> \<open>char *\<close> arguments obtained with \<open>mp_obj_str_get_str\<close> end at the first NUL: \<open>cstr\<close>.
\<close>

section \<open>Types\<close>

type_synonym byte = "8 word"
type_synonym u16 = "16 word"
type_synonym u32 = "32 word"
type_synonym bytes = "8 word list"

datatype errno =
    MP_ENOENT | MP_EIO | MP_E2BIG | MP_EBADF | MP_EAGAIN | MP_ENOMEM
  | MP_EACCES | MP_EEXIST | MP_EINVAL | MP_EMFILE | MP_ENOTCONN

datatype mp_exc =
    OSError errno
  | ValueError string
  | TypeError

type_synonym 'a mp_result = "mp_exc + 'a"

section \<open>Characters and C strings\<close>

text \<open>String literals of the source, as bytes.\<close>

definition str :: "string \<Rightarrow> bytes" where
  "str s = map of_char s"

abbreviation ch_tab :: byte where "ch_tab \<equiv> 0x09"
abbreviation ch_lf :: byte where "ch_lf \<equiv> 0x0A"
abbreviation ch_cr :: byte where "ch_cr \<equiv> 0x0D"
abbreviation ch_space :: byte where "ch_space \<equiv> 0x20"
abbreviation ch_hash :: byte where "ch_hash \<equiv> 0x23"
abbreviation ch_percent :: byte where "ch_percent \<equiv> 0x25"
abbreviation ch_amp :: byte where "ch_amp \<equiv> 0x26"
abbreviation ch_star :: byte where "ch_star \<equiv> 0x2A"
abbreviation ch_plus :: byte where "ch_plus \<equiv> 0x2B"
abbreviation ch_minus :: byte where "ch_minus \<equiv> 0x2D"
abbreviation ch_dot :: byte where "ch_dot \<equiv> 0x2E"
abbreviation ch_slash :: byte where "ch_slash \<equiv> 0x2F"
abbreviation ch_0 :: byte where "ch_0 \<equiv> 0x30"
abbreviation ch_9 :: byte where "ch_9 \<equiv> 0x39"
abbreviation ch_colon :: byte where "ch_colon \<equiv> 0x3A"
abbreviation ch_semi :: byte where "ch_semi \<equiv> 0x3B"
abbreviation ch_eq :: byte where "ch_eq \<equiv> 0x3D"
abbreviation ch_quest :: byte where "ch_quest \<equiv> 0x3F"
abbreviation ch_A :: byte where "ch_A \<equiv> 0x41"
abbreviation ch_F :: byte where "ch_F \<equiv> 0x46"
abbreviation ch_Z :: byte where "ch_Z \<equiv> 0x5A"
abbreviation ch_backslash :: byte where "ch_backslash \<equiv> 0x5C"
abbreviation ch_underscore :: byte where "ch_underscore \<equiv> 0x5F"
abbreviation ch_a :: byte where "ch_a \<equiv> 0x61"
abbreviation ch_f :: byte where "ch_f \<equiv> 0x66"
abbreviation ch_z :: byte where "ch_z \<equiv> 0x7A"
abbreviation ch_tilde :: byte where "ch_tilde \<equiv> 0x7E"

text \<open>The C string at a \<open>char *\<close> into a Python string's data: it ends at the first NUL.\<close>

definition cstr :: "bytes \<Rightarrow> bytes" where
  "cstr s = takeWhile (\<lambda>c. c \<noteq> 0) s"

section \<open>Proof collections\<close>

named_theorems frame_rules "what an operation leaves unchanged"

section \<open>Shared lemmas\<close>

lemma cstr_no_nul [simp]: "0 \<notin> set (cstr s)"
  by (auto simp: cstr_def dest: set_takeWhileD)

lemma cstr_id [simp]: "0 \<notin> set s \<Longrightarrow> cstr s = s"
  by (auto simp: cstr_def takeWhile_eq_all_conv)

lemma cstr_idem [simp]: "cstr (cstr s) = cstr s"
  by simp

lemma length_cstr_le: "length (cstr s) \<le> length s"
  by (simp add: cstr_def length_takeWhile_le)

text \<open>A property of every byte, from its 256 instances.\<close>

lemma byte_forall_upt:
  fixes P :: "byte \<Rightarrow> bool"
  assumes "\<forall>n\<in>set [0..<256]. P (word_of_nat n)"
  shows "P b"
proof -
  have "unat b < 2 ^ LENGTH(8)"
    by (rule unsigned_less)
  then have "unat b \<in> set [0..<256]"
    by simp
  then have "P (word_of_nat (unat b))"
    using assms by blast
  then show ?thesis by simp
qed

lemma bit_byte_ge [simp]: "8 \<le> n \<Longrightarrow> \<not> bit (b :: byte) n"
  by (auto dest: bit_imp_le_length)

lemma bit_byte_less: "bit (b :: byte) n \<Longrightarrow> n < 8"
  by (auto dest: bit_imp_le_length)

text \<open>Two bytes agree when their eight bits do.\<close>

lemma byte_eqI:
  fixes a b :: byte
  assumes "bit a 0 = bit b 0" "bit a 1 = bit b 1" "bit a 2 = bit b 2" "bit a 3 = bit b 3"
    and "bit a 4 = bit b 4" "bit a 5 = bit b 5" "bit a 6 = bit b 6" "bit a 7 = bit b 7"
  shows "a = b"
proof (rule bit_word_eqI)
  fix n assume "n < LENGTH(8)"
  then have "n \<in> {0, 1, 2, 3, 4, 5, 6, 7}" by (simp, arith)
  with assms show "bit a n \<longleftrightarrow> bit b n" by auto
qed

text \<open>Nibbles, for the hexadecimal codecs.\<close>

lemma nibble_less: "unat (b AND 0x0F :: byte) < 16"
proof -
  have "b AND 0x0F \<le> (0x0F :: byte)"
    by (rule word_and_le1)
  then show ?thesis by (simp add: word_le_nat_alt)
qed

lemma byte_of_nibbles: "push_bit 4 (drop_bit 4 b AND 0x0F) OR (b AND 0x0F) = (b :: byte)"
  by (rule byte_eqI; simp add: bit_simps)

text \<open>The bytes of a 32-bit word.\<close>

lemma low_byte_mask: "ucast (w AND 0xFF) = (ucast (w :: u32) :: byte)"
proof -
  have "(0xFF :: u32) = mask 8" by (simp add: mask_eq_exp_minus_1)
  then have "w AND 0xFF = take_bit 8 w" by (simp only: take_bit_eq_mask)
  then show ?thesis by (auto intro!: bit_word_eqI simp: bit_simps)
qed

lemma unat_byte_at: "unat (ucast (drop_bit k w AND 0xFF) :: byte) = unat (w :: u32) div 2 ^ k mod 256"
proof -
  have "unat (ucast (drop_bit k w) :: byte) = unat (drop_bit k w) mod 256"
    by (simp add: unsigned_ucast_eq take_bit_eq_mod)
  moreover have "unat (drop_bit k w) = unat w div 2 ^ k"
    using unsigned_less[where w = w and 'a = nat]
    by (subst unsigned_drop_bit_eq) (simp add: drop_bit_eq_div take_bit_nat_eq_self)
  ultimately show ?thesis by (simp only: low_byte_mask)
qed

end
