(* ===== verification/Base64.thy ===== *)
theory Base64
  imports Prelude
begin

text \<open>
  The \<open>base64\<close> module of \<open>base64_uc386dos.c\<close>: RFC 4648 base64 and base16, over byte buffers.

  The two encoders and the two decoders are total functions on byte lists; a
  \<open>mp_raise_ValueError\<close> is an \<open>Inl\<close>. The decoder's accumulator \<open>bits\<close> is an \<open>int\<close> that the C code
  shifts left by six for every character and never masks, so it is kept at 32 bits here, with the
  arithmetic right shift of a signed \<open>int\<close>. (C leaves the overflow of a signed shift undefined; the
  model takes the two's-complement result, of which only the low fourteen bits are ever used.)

  Shown below: encoding and decoding are inverse, the encoder is the bit-stream encoder of the RFC,
  its output fills the buffer it allocated exactly, white space is transparent to the decoder, and
  the decoder fails on exactly the inputs with a foreign character before the padding.
\<close>

section \<open>Definitions\<close>

definition b64_alphabet :: bytes where
  "b64_alphabet = str ''ABCDEFGHIJKLMNOPQRSTUVWXYZabcdefghijklmnopqrstuvwxyz0123456789+/''"

definition b64_decode_char :: "byte \<Rightarrow> int" where
  "b64_decode_char c =
     (if ch_A \<le> c \<and> c \<le> ch_Z then uint c - uint ch_A
      else if ch_a \<le> c \<and> c \<le> ch_z then uint c - uint ch_a + 26
      else if ch_0 \<le> c \<and> c \<le> ch_9 then uint c - uint ch_0 + 52
      else if c = ch_plus then 62
      else if c = ch_slash then 63
      else -1)"

definition b64_sextet :: "u32 \<Rightarrow> nat \<Rightarrow> byte" where
  "b64_sextet v k = b64_alphabet ! unat (drop_bit k v AND 0x3F)"

fun base64_b64encode :: "bytes \<Rightarrow> bytes" where
  "base64_b64encode (a # b # c # rest) =
     (let v = push_bit 16 (ucast a) OR push_bit 8 (ucast b) OR ucast c
      in [b64_sextet v 18, b64_sextet v 12, b64_sextet v 6, b64_sextet v 0] @ base64_b64encode rest)"
| "base64_b64encode [a] =
     (let v = push_bit 16 (ucast a)
      in [b64_sextet v 18, b64_sextet v 12, ch_eq, ch_eq])"
| "base64_b64encode [a, b] =
     (let v = push_bit 16 (ucast a) OR push_bit 8 (ucast b)
      in [b64_sextet v 18, b64_sextet v 12, b64_sextet v 6, ch_eq])"
| "base64_b64encode [] = []"

definition b64_skipped :: "byte \<Rightarrow> bool" where
  "b64_skipped c \<longleftrightarrow> c = ch_cr \<or> c = ch_lf \<or> c = ch_space \<or> c = ch_tab"

definition b64_shift_in :: "u32 \<Rightarrow> u32 \<Rightarrow> u32" where
  "b64_shift_in bits v = push_bit 6 bits OR v"

definition b64_octet :: "u32 \<Rightarrow> nat \<Rightarrow> byte" where
  "b64_octet bits collected = ucast (signed_drop_bit collected bits AND 0xFF)"

fun b64decode_loop :: "bytes \<Rightarrow> u32 \<Rightarrow> nat \<Rightarrow> bytes \<Rightarrow> bytes mp_result" where
  "b64decode_loop [] bits collected out = Inr out"
| "b64decode_loop (c # rest) bits collected out =
     (if b64_skipped c then b64decode_loop rest bits collected out
      else if c = ch_eq then Inr out
      else let v = b64_decode_char c in
        if v < 0 then Inl (ValueError ''invalid base64 character'')
        else let bits = b64_shift_in bits (word_of_int v); collected = collected + 6 in
          if collected \<ge> 8
          then b64decode_loop rest bits (collected - 8) (out @ [b64_octet bits (collected - 8)])
          else b64decode_loop rest bits collected out)"

definition base64_b64decode :: "bytes \<Rightarrow> bytes mp_result" where
  "base64_b64decode s = b64decode_loop s 0 0 []"

definition hexdigits :: bytes where
  "hexdigits = str ''0123456789ABCDEF''"

fun base64_b16encode :: "bytes \<Rightarrow> bytes" where
  "base64_b16encode [] = []"
| "base64_b16encode (b # rest) =
     hexdigits ! unat (drop_bit 4 b AND 0x0F) # hexdigits ! unat (b AND 0x0F) # base64_b16encode rest"

definition hex_digit :: "byte \<Rightarrow> int" where
  "hex_digit c =
     (if ch_0 \<le> c \<and> c \<le> ch_9 then uint c - uint ch_0
      else if ch_A \<le> c \<and> c \<le> ch_F then uint c - uint ch_A + 10
      else if ch_a \<le> c \<and> c \<le> ch_f then uint c - uint ch_a + 10
      else -1)"

text \<open>The loop of \<open>base64_b16decode\<close>, entered with an even number of characters left.\<close>

fun b16decode_loop :: "bytes \<Rightarrow> bytes \<Rightarrow> bytes mp_result" where
  "b16decode_loop (h # l # rest) out =
     (let hi = hex_digit h; lo = hex_digit l in
      if hi < 0 \<or> lo < 0 then Inl (ValueError ''invalid base16 character'')
      else b16decode_loop rest (out @ [push_bit 4 (word_of_int hi) OR word_of_int lo]))"
| "b16decode_loop _ out = Inr out"

definition base64_b16decode :: "bytes \<Rightarrow> bytes mp_result" where
  "base64_b16decode s =
     (if length s mod 2 = 1 then Inl (ValueError ''odd-length base16 input'')
      else b16decode_loop s [])"

section \<open>The reference encoder\<close>

text \<open>
  RFC 4648, section 4, read as a bit stream: the octets' bits, most significant first, are cut into
  groups of six; a last short group is filled with zero bits; each group names a letter of the
  alphabet; \<open>=\<close> pads the output to a multiple of four letters.
\<close>

definition octet_bits :: "byte \<Rightarrow> bool list" where
  "octet_bits b = map (bit b) [7, 6, 5, 4, 3, 2, 1, 0]"

fun sextets :: "bool list \<Rightarrow> nat list" where
  "sextets (p # q # r # s # t # u # bs) = horner_sum of_bool 2 [u, t, s, r, q, p] # sextets bs"
| "sextets [] = []"
| "sextets bs = [horner_sum of_bool 2 (rev (take 6 (bs @ [False, False, False, False, False])))]"

definition rfc4648_encode :: "bytes \<Rightarrow> bytes" where
  "rfc4648_encode bs =
     (let digits = map (\<lambda>i. b64_alphabet ! i) (sextets (concat (map octet_bits bs)))
      in digits @ replicate ((4 - length digits mod 4) mod 4) ch_eq)"

section \<open>Lemmas\<close>

lemma b64_alphabet_code: "b64_alphabet =
  [65, 66, 67, 68, 69, 70, 71, 72, 73, 74, 75, 76, 77, 78, 79, 80, 81, 82, 83, 84, 85, 86, 87, 88,
   89, 90, 97, 98, 99, 100, 101, 102, 103, 104, 105, 106, 107, 108, 109, 110, 111, 112, 113, 114,
   115, 116, 117, 118, 119, 120, 121, 122, 48, 49, 50, 51, 52, 53, 54, 55, 56, 57, 43, 47]"
  by (simp add: b64_alphabet_def str_def)

lemma decode_alphabet_upt:
  "list_all2 (\<lambda>c n. b64_decode_char c = int n \<and> c \<noteq> ch_eq \<and> \<not> b64_skipped c)
     b64_alphabet [0..<64]"
  by (simp add: b64_alphabet_code upt_conv_Cons b64_decode_char_def b64_skipped_def)


lemma decode_sextet:
  "b64_decode_char (b64_sextet v k) = uint (drop_bit k v AND 0x3F)" (is ?dec)
  "b64_sextet v k \<noteq> ch_eq" (is ?noteq) "\<not> b64_skipped (b64_sextet v k)" (is ?noskip)
proof -
  have "drop_bit k v AND 0x3F \<le> (0x3F :: u32)"
    by (rule word_and_le1)
  then have "unat (drop_bit k v AND 0x3F) < length b64_alphabet"
    by (simp add: word_le_nat_alt b64_alphabet_code)
  then show ?dec ?noteq ?noskip
    using list_all2_nthD[OF decode_alphabet_upt]
    by (simp_all add: b64_sextet_def b64_alphabet_code del: upt_rec_numeral)
qed

lemma b64decode_sextet:
  "b64decode_loop (b64_sextet v k # rest) bits collected out =
     (let bits = b64_shift_in bits (drop_bit k v AND 0x3F); collected = collected + 6 in
      if collected \<ge> 8
      then b64decode_loop rest bits (collected - 8) (out @ [b64_octet bits (collected - 8)])
      else b64decode_loop rest bits collected out)"
  by (simp add: decode_sextet Let_def)

lemma b64_octets:
  fixes v bits :: u32
  defines "b1 \<equiv> b64_shift_in (b64_shift_in bits (drop_bit 18 v AND 0x3F)) (drop_bit 12 v AND 0x3F)"
  defines "b2 \<equiv> b64_shift_in b1 (drop_bit 6 v AND 0x3F)"
  defines "b3 \<equiv> b64_shift_in b2 (drop_bit 0 v AND 0x3F)"
  shows "b64_octet b1 4 = ucast (drop_bit 16 v)"
    and "b64_octet b2 2 = ucast (drop_bit 8 v)"
    and "b64_octet b3 0 = ucast v"
  unfolding b3_def b2_def b1_def b64_octet_def b64_shift_in_def
  by (rule byte_eqI; simp add: bit_simps)+

text \<open>The decoder takes four letters of a group back to the group's three octets.\<close>

lemmas b64decode_letters = b64decode_sextet Let_def b64_octets b64decode_loop.simps(1)

lemma b64decode_pad: "b64decode_loop (ch_eq # rest) bits collected out = Inr out"
  by (simp add: b64_skipped_def)

lemma b64decode_group:
  "\<exists>bits'. b64decode_loop
      (b64_sextet v 18 # b64_sextet v 12 # b64_sextet v 6 # b64_sextet v 0 # rest) bits 0 out =
    b64decode_loop rest bits' 0 (out @ [ucast (drop_bit 16 v), ucast (drop_bit 8 v), ucast v])"
  by (rule exI) (simp add: b64decode_letters del: b64decode_loop.simps drop_bit_0)

lemma b64decode_tail1:
  "b64decode_loop [b64_sextet v 18, b64_sextet v 12, ch_eq, ch_eq] bits 0 out =
    Inr (out @ [ucast (drop_bit 16 v)])"
  by (simp add: b64decode_letters b64decode_pad del: b64decode_loop.simps)

lemma b64decode_tail2:
  "b64decode_loop [b64_sextet v 18, b64_sextet v 12, b64_sextet v 6, ch_eq] bits 0 out =
    Inr (out @ [ucast (drop_bit 16 v), ucast (drop_bit 8 v)])"
  by (simp add: b64decode_letters b64decode_pad del: b64decode_loop.simps)

lemma b64_group_octets:
  fixes a b c :: byte and v :: u32
  defines "v \<equiv> push_bit 16 (ucast a) OR push_bit 8 (ucast b) OR ucast c"
  shows "ucast (drop_bit 16 v) = a" "ucast (drop_bit 8 v) = b" "ucast v = c"
  unfolding v_def by (rule byte_eqI; simp add: bit_simps)+

lemma b64_tail_octets:
  fixes a b :: byte
  shows "ucast (drop_bit 16 (push_bit 16 (ucast a) :: u32)) = a"
    and "ucast (drop_bit 16 (push_bit 16 (ucast a) OR push_bit 8 (ucast b) :: u32)) = a"
    and "ucast (drop_bit 8 (push_bit 16 (ucast a) OR push_bit 8 (ucast b) :: u32)) = b"
  by (rule byte_eqI; simp add: bit_simps)+

lemma b64decode_encode:
  "b64decode_loop (base64_b64encode bs) bits 0 out = Inr (out @ bs)"
proof (induction bs arbitrary: bits out rule: base64_b64encode.induct)
  case (1 a b c rest)
  define v :: u32 where "v = push_bit 16 (ucast a) OR push_bit 8 (ucast b) OR ucast c"
  have octets: "ucast (drop_bit 16 v) = a" "ucast (drop_bit 8 v) = b" "ucast v = c"
    unfolding v_def by (rule b64_group_octets)+
  obtain bits' where "b64decode_loop (base64_b64encode (a # b # c # rest)) bits 0 out =
      b64decode_loop (base64_b64encode rest) bits' 0 (out @ [a, b, c])"
    using b64decode_group[of v "base64_b64encode rest" bits out]
    by (auto simp: octets Let_def simp flip: v_def simp del: b64decode_loop.simps drop_bit_0)
  then show ?case by (simp add: 1)
qed (simp_all add: b64decode_tail1 b64decode_tail2 b64_tail_octets Let_def
    del: b64decode_loop.simps(2) drop_bit_or)

lemma b64decode_filter:
  "b64decode_loop (filter (\<lambda>c. \<not> b64_skipped c) s) bits collected out =
    b64decode_loop s bits collected out"
  by (induction s bits collected out rule: b64decode_loop.induct) (simp_all add: Let_def)

text \<open>What stops the decoder: the first padding character, or a character outside the alphabet.\<close>

definition b64_foreign :: "byte \<Rightarrow> bool" where
  "b64_foreign c \<longleftrightarrow> \<not> b64_skipped c \<and> b64_decode_char c < 0"

lemma b64_eq_foreign: "b64_foreign ch_eq"
  by (simp add: b64_foreign_def b64_skipped_def b64_decode_char_def)

lemma b64decode_fails:
  "(\<exists>e. b64decode_loop s bits collected out = Inl e) \<longleftrightarrow>
    (\<exists>c\<in>set (takeWhile (\<lambda>c. c \<noteq> ch_eq) s). b64_foreign c)"
proof (induction s bits collected out rule: b64decode_loop.induct)
  case (2 c rest bits collected out)
  then show ?case
    by (cases "b64_skipped c"; cases "c = ch_eq"; cases "b64_decode_char c < 0")
      (auto simp: b64_foreign_def b64_skipped_def Let_def)
qed simp

lemma length_b64encode: "length (base64_b64encode bs) = (length bs + 2) div 3 * 4"
proof (induction bs rule: base64_b64encode.induct)
  case (1 a b c rest)
  have "(length (a # b # c # rest) + 2) div 3 = (length rest + 2) div 3 + 1"
    by simp
  then show ?case by (simp add: 1 Let_def del: length_Cons)
qed (simp_all add: Let_def)


text \<open>A masked six-bit field of a word is the number of its six bits.\<close>

lemma unat_sextet:
  fixes v :: u32
  shows "unat (drop_bit k v AND 0x3F) =
    horner_sum of_bool 2 (map (\<lambda>i. bit v (k + i)) [0, 1, 2, 3, 4, 5])"
proof -
  have "drop_bit k v AND 0x3F = take_bit 6 (drop_bit k v)"
    by (simp add: take_bit_eq_mask mask_eq_decr_exp)
  then have "unat (drop_bit k v AND 0x3F) = take_bit 6 (unat (drop_bit k v))"
    by (simp add: unsigned_take_bit_eq)
  also have "\<dots> = horner_sum of_bool 2 (map (bit (unat (drop_bit k v))) [0..<6])"
    by (simp only: horner_sum_bit_eq_take_bit)
  also have "[0..<6] = [0, 1, 2, 3, 4, 5 :: nat]"
    by (simp add: upt_conv_Cons)
  finally show ?thesis
    by (simp add: bit_simps)
qed


lemma b64_sextet_bits:
  "b64_sextet v k =
    b64_alphabet ! horner_sum of_bool 2 (map (\<lambda>i. bit v (k + i)) [0, 1, 2, 3, 4, 5])"
  by (simp only: b64_sextet_def unat_sextet)

lemmas b64_letter = b64_sextet_bits bit_simps numeral_2_eq_2

lemma rfc4648_encode_group:
  "rfc4648_encode (a # b # c # rest) = base64_b64encode [a, b, c] @ rfc4648_encode rest"
  by (simp add: rfc4648_encode_def octet_bits_def Let_def b64_letter)

lemma b64encode_rfc4648: "base64_b64encode bs = rfc4648_encode bs"
proof (induction bs rule: base64_b64encode.induct)
  case (1 a b c rest)
  then show ?case by (simp add: rfc4648_encode_group Let_def)
qed (simp_all add: rfc4648_encode_def octet_bits_def Let_def b64_letter)

subsection \<open>Base16\<close>

lemma hexdigits_code: "hexdigits = [48, 49, 50, 51, 52, 53, 54, 55, 56, 57, 65, 66, 67, 68, 69, 70]"
  by (simp add: hexdigits_def str_def)

lemma hex_digit_table: "list_all2 (\<lambda>c n. hex_digit c = int n) hexdigits [0..<16]"
  by (simp add: hexdigits_code upt_conv_Cons hex_digit_def)

lemma hex_digit_nibble: "hex_digit (hexdigits ! unat (b AND 0x0F)) = uint (b AND 0x0F)" for b :: byte
  using list_all2_nthD[OF hex_digit_table] nibble_less[of b]
  by (simp add: hexdigits_code del: upt_rec_numeral)

lemma b16decode_encode: "b16decode_loop (base64_b16encode bs) out = Inr (out @ bs)"
  by (induction bs arbitrary: out) (simp_all add: hex_digit_nibble byte_of_nibbles Let_def
    del: push_bit_and)

lemma length_b16encode: "length (base64_b16encode bs) = 2 * length bs"
  by (induction bs) simp_all

lemma b16decode_fails:
  "even (length s) \<Longrightarrow>
    (\<exists>e. b16decode_loop s out = Inl e) \<longleftrightarrow> (\<exists>c\<in>set s. hex_digit c < 0)"
  by (induction s out rule: b16decode_loop.induct) (auto simp: Let_def)


section \<open>Properties\<close>

text \<open>C24. Decoding what \<open>base64.b64encode\<close> produced gives the data back, for every buffer.\<close>

theorem b64_roundtrip: "base64_b64decode (base64_b64encode bs) = Inr bs"
  by (simp add: base64_b64decode_def b64decode_encode)

text \<open>C25. The table-driven, three-bytes-at-a-time encoder computes the bit-stream encoding of
  RFC 4648, and its output has exactly the length the C code reserves with \<open>vstr_init_len\<close>.\<close>

theorem b64_encode_is_rfc4648:
  "base64_b64encode bs = rfc4648_encode bs \<and>
   length (base64_b64encode bs) = ((length bs + 2) div 3) * 4"
  by (simp add: b64encode_rfc4648[symmetric] length_b64encode)

text \<open>The decoder raises \<open>ValueError\<close> exactly when a character that is neither a base64 letter
  nor white space stands before the first padding character; white space changes nothing.\<close>

theorem b64_decode_errors:
  "((\<exists>e. base64_b64decode s = Inl e) \<longleftrightarrow>
     (\<exists>c\<in>set (takeWhile (\<lambda>c. c \<noteq> ch_eq) s). \<not> b64_skipped c \<and> b64_decode_char c = -1)) \<and>
   base64_b64decode (filter (\<lambda>c. \<not> b64_skipped c) s) = base64_b64decode s"
proof -
  have "b64_decode_char c < 0 \<longleftrightarrow> b64_decode_char c = -1" for c
    by (simp add: b64_decode_char_def word_le_def)
  then show ?thesis
    by (simp add: base64_b64decode_def b64decode_fails b64_foreign_def b64decode_filter)
qed

text \<open>Base16 decoding inverts base16 encoding, and fails exactly on an odd number of characters
  or on a character that is no hexadecimal digit (either case is accepted).\<close>

theorem b16_roundtrip:
  "base64_b16decode (base64_b16encode bs) = Inr bs \<and>
   ((\<exists>e. base64_b16decode s = Inl e) \<longleftrightarrow> length s mod 2 = 1 \<or> (\<exists>c\<in>set s. hex_digit c < 0))"
  using b16decode_fails[of s "[]"]
  by (auto simp: base64_b16decode_def b16decode_encode length_b16encode even_iff_mod_2_eq_zero)

end
