(* ===== verification/Urllib_Parse.thy ===== *)
theory Urllib_Parse
  imports Prelude
begin

text \<open>
  The \<open>urllib.parse\<close> module of \<open>urllib_parse_uc386dos.c\<close>: percent encoding and decoding, \<open>urlsplit\<close>,
  \<open>urlencode\<close> and \<open>parse_qsl\<close>.

  A function's result is the content of the \<open>vstr\<close> it hands to \<open>mp_obj_new_str_from_vstr\<close>. A
  \<open>while (pos < n && p(url[pos])) pos++\<close> over the buffer is \<open>takeWhile\<close> for the slice it delimits and
  \<open>dropWhile\<close> for the rest. Python objects other than \<open>str\<close> and \<open>bytes\<close> occur only as arguments of
  \<open>urlencode\<close>, where they are printed by MicroPython's \<open>str()\<close>, a parameter.
\<close>

section \<open>Definitions\<close>

subsection \<open>Percent encoding\<close>

definition is_unreserved :: "byte \<Rightarrow> bool" where
  "is_unreserved c \<longleftrightarrow>
     (ch_A \<le> c \<and> c \<le> ch_Z) \<or> (ch_a \<le> c \<and> c \<le> ch_z) \<or> (ch_0 \<le> c \<and> c \<le> ch_9) \<or>
     c = ch_minus \<or> c = ch_underscore \<or> c = ch_dot \<or> c = ch_tilde"

definition hex_value :: "byte \<Rightarrow> int" where
  "hex_value c =
     (if ch_0 \<le> c \<and> c \<le> ch_9 then uint c - uint ch_0
      else if ch_A \<le> c \<and> c \<le> ch_F then uint c - uint ch_A + 10
      else if ch_a \<le> c \<and> c \<le> ch_f then uint c - uint ch_a + 10
      else -1)"

definition pct_hex :: bytes where
  "pct_hex = str ''0123456789ABCDEF''"

definition vstr_add_pct :: "bytes \<Rightarrow> byte \<Rightarrow> bytes" where
  "vstr_add_pct vstr b =
     vstr @ [ch_percent, pct_hex ! unat (drop_bit 4 b AND 0x0F), pct_hex ! unat (b AND 0x0F)]"

text \<open>
  \<open>quote_inner(string, safe, plus)\<close>. The \<open>safe\<close> argument counts only when it is a \<open>str\<close> or \<open>bytes\<close>
  object; \<open>None\<close> stands for every other object. The default safe slash is in force whenever the safe
  set in use is empty, so also when the caller passes an empty one.
\<close>

definition quote_step :: "bytes \<Rightarrow> bool \<Rightarrow> bytes \<Rightarrow> byte \<Rightarrow> bytes" where
  "quote_step safe use_plus vstr c =
     (let default_safe_slash = (\<not> use_plus \<and> safe = []);
          passthrough = (is_unreserved c \<or> (default_safe_slash \<and> c = ch_slash) \<or> c \<in> set safe)
      in if use_plus \<and> c = ch_space then vstr @ [ch_plus]
         else if passthrough then vstr @ [c]
         else vstr_add_pct vstr c)"

definition quote_inner :: "bytes \<Rightarrow> bytes option \<Rightarrow> bool \<Rightarrow> bytes" where
  "quote_inner string safe_in use_plus =
     foldl (quote_step (case safe_in of None \<Rightarrow> [] | Some s \<Rightarrow> s) use_plus) [] string"

definition urllib_quote :: "bytes \<Rightarrow> bytes option \<Rightarrow> bytes" where
  "urllib_quote string safe = quote_inner string safe False"

definition urllib_quote_plus :: "bytes \<Rightarrow> bytes option \<Rightarrow> bytes" where
  "urllib_quote_plus string safe = quote_inner string safe True"

fun unquote_loop :: "bool \<Rightarrow> bytes \<Rightarrow> bytes \<Rightarrow> bytes" where
  "unquote_loop use_plus [] vstr = vstr"
| "unquote_loop use_plus (c # h # l # rest) vstr =
     (if use_plus \<and> c = ch_plus then unquote_loop use_plus (h # l # rest) (vstr @ [ch_space])
      else if c = ch_percent then
        (let hi = hex_value h; lo = hex_value l in
         if hi \<ge> 0 \<and> lo \<ge> 0
         then unquote_loop use_plus rest (vstr @ [push_bit 4 (word_of_int hi) OR word_of_int lo])
         else unquote_loop use_plus (h # l # rest) (vstr @ [c]))
      else unquote_loop use_plus (h # l # rest) (vstr @ [c]))"
| "unquote_loop use_plus (c # rest) vstr =
     (if use_plus \<and> c = ch_plus then unquote_loop use_plus rest (vstr @ [ch_space])
      else unquote_loop use_plus rest (vstr @ [c]))"

definition do_unquote :: "bytes \<Rightarrow> bool \<Rightarrow> bytes" where
  "do_unquote s use_plus = unquote_loop use_plus s []"

definition urllib_unquote :: "bytes \<Rightarrow> bytes" where
  "urllib_unquote s = do_unquote s False"

definition urllib_unquote_plus :: "bytes \<Rightarrow> bytes" where
  "urllib_unquote_plus s = do_unquote s True"

subsection \<open>urlsplit\<close>

record split_result =
  sr_scheme :: bytes
  sr_netloc :: bytes
  sr_path :: bytes
  sr_query :: bytes
  sr_fragment :: bytes

definition is_alpha :: "byte \<Rightarrow> bool" where
  "is_alpha c \<longleftrightarrow> (ch_A \<le> c \<and> c \<le> ch_Z) \<or> (ch_a \<le> c \<and> c \<le> ch_z)"

definition is_scheme_char :: "byte \<Rightarrow> bool" where
  "is_scheme_char c \<longleftrightarrow>
     is_alpha c \<or> (ch_0 \<le> c \<and> c \<le> ch_9) \<or> c = ch_plus \<or> c = ch_minus \<or> c = ch_dot"

text \<open>The scheme, if the scan from the second character reaches a colon, and what follows it.\<close>

definition split_scheme :: "bytes \<Rightarrow> bytes \<times> bytes" where
  "split_scheme url =
     (case url of
        [] \<Rightarrow> ([], url)
      | c # cs \<Rightarrow>
          if is_alpha c then
            (case dropWhile is_scheme_char cs of
               d # rest \<Rightarrow>
                 if d = ch_colon then (c # takeWhile is_scheme_char cs, rest) else ([], url)
             | [] \<Rightarrow> ([], url))
          else ([], url))"

definition not_netloc_end :: "byte \<Rightarrow> bool" where
  "not_netloc_end c \<longleftrightarrow> c \<noteq> ch_slash \<and> c \<noteq> ch_quest \<and> c \<noteq> ch_hash"

definition split_netloc :: "bytes \<Rightarrow> bytes \<times> bytes" where
  "split_netloc s =
     (case s of
        a # b # rest \<Rightarrow>
          if a = ch_slash \<and> b = ch_slash
          then (takeWhile not_netloc_end rest, dropWhile not_netloc_end rest)
          else ([], s)
      | _ \<Rightarrow> ([], s))"

definition not_path_end :: "byte \<Rightarrow> bool" where
  "not_path_end c \<longleftrightarrow> c \<noteq> ch_quest \<and> c \<noteq> ch_hash"

definition split_query :: "bytes \<Rightarrow> bytes \<times> bytes" where
  "split_query s =
     (case s of
        c # rest \<Rightarrow>
          if c = ch_quest
          then (takeWhile (\<lambda>d. d \<noteq> ch_hash) rest, dropWhile (\<lambda>d. d \<noteq> ch_hash) rest)
          else ([], s)
      | [] \<Rightarrow> ([], s))"

definition split_fragment :: "bytes \<Rightarrow> bytes" where
  "split_fragment s = (case s of c # rest \<Rightarrow> if c = ch_hash then rest else s | [] \<Rightarrow> s)"

definition urllib_urlsplit :: "bytes \<Rightarrow> split_result" where
  "urllib_urlsplit url =
     (let (scheme, s1) = split_scheme url;
          (netloc, s2) = split_netloc s1;
          path = takeWhile not_path_end s2;
          (query, s3) = split_query (dropWhile not_path_end s2)
      in \<lparr>sr_scheme = scheme, sr_netloc = netloc, sr_path = path, sr_query = query,
          sr_fragment = split_fragment s3\<rparr>)"

subsection \<open>urlencode and parse\_qsl\<close>

datatype 'o py_obj = StrOrBytes bytes | OtherObj 'o

datatype 'o query_arg =
    DictSlots "('o py_obj \<times> 'o py_obj) option list"  \<comment> \<open>the slots of the dict's map, filled or not\<close>
  | PairIter "'o py_obj list list"                     \<comment> \<open>an iterable of tuples or lists\<close>

definition quote_obj :: "'o py_obj \<Rightarrow> bytes mp_result" where
  "quote_obj ob = (case ob of StrOrBytes s \<Rightarrow> Inr (quote_inner s None True) | OtherObj _ \<Rightarrow> Inl TypeError)"

definition urlencode_pair ::
    "('o \<Rightarrow> bytes) \<Rightarrow> 'o py_obj \<Rightarrow> 'o py_obj \<Rightarrow> bytes \<times> bool \<Rightarrow> (bytes \<times> bool) mp_result" where
  "urlencode_pair mp_str key val st =
     (let (vstr, first) = st;
          vstr = (if first then vstr else vstr @ [ch_amp])
      in case quote_obj key of
           Inl e \<Rightarrow> Inl e
         | Inr k_quoted \<Rightarrow>
             (let val = (case val of StrOrBytes _ \<Rightarrow> val | OtherObj x \<Rightarrow> StrOrBytes (mp_str x))
              in case quote_obj val of
                   Inl e \<Rightarrow> Inl e
                 | Inr v_quoted \<Rightarrow> Inr (vstr @ k_quoted @ [ch_eq] @ v_quoted, False)))"

fun urlencode_slots ::
    "('o \<Rightarrow> bytes) \<Rightarrow> ('o py_obj \<times> 'o py_obj) option list \<Rightarrow> bytes \<times> bool \<Rightarrow> bytes mp_result" where
  "urlencode_slots mp_str [] st = Inr (fst st)"
| "urlencode_slots mp_str (None # slots) st = urlencode_slots mp_str slots st"
| "urlencode_slots mp_str (Some (k, v) # slots) st =
     (case urlencode_pair mp_str k v st of
        Inl e \<Rightarrow> Inl e
      | Inr st' \<Rightarrow> urlencode_slots mp_str slots st')"

fun urlencode_iter ::
    "('o \<Rightarrow> bytes) \<Rightarrow> 'o py_obj list list \<Rightarrow> bytes \<times> bool \<Rightarrow> bytes mp_result" where
  "urlencode_iter mp_str [] st = Inr (fst st)"
| "urlencode_iter mp_str (items # pairs) st =
     (case items of
        [k, v] \<Rightarrow> (case urlencode_pair mp_str k v st of
                    Inl e \<Rightarrow> Inl e
                  | Inr st' \<Rightarrow> urlencode_iter mp_str pairs st')
      | _ \<Rightarrow> Inl (ValueError ''urlencode pair not a 2-tuple''))"

definition urllib_urlencode :: "('o \<Rightarrow> bytes) \<Rightarrow> 'o query_arg \<Rightarrow> bytes mp_result" where
  "urllib_urlencode mp_str query =
     (case query of
        DictSlots slots \<Rightarrow> urlencode_slots mp_str slots ([], True)
      | PairIter pairs \<Rightarrow> urlencode_iter mp_str pairs ([], True))"

definition not_pair_end :: "byte \<Rightarrow> bool" where
  "not_pair_end c \<longleftrightarrow> c \<noteq> ch_amp \<and> c \<noteq> ch_semi"

definition parse_pair :: "bool \<Rightarrow> bytes \<Rightarrow> (bytes \<times> bytes) list" where
  "parse_pair keep_blank pair =
     (let key_raw = takeWhile (\<lambda>c. c \<noteq> ch_eq) pair;
          val_raw = drop 1 (dropWhile (\<lambda>c. c \<noteq> ch_eq) pair)
      in if key_raw \<noteq> [] \<and> (val_raw \<noteq> [] \<or> keep_blank)
         then [(do_unquote key_raw True, do_unquote val_raw True)] else [])"

function parse_qsl_loop :: "bool \<Rightarrow> bytes \<Rightarrow> (bytes \<times> bytes) list" where
  "parse_qsl_loop keep_blank qs =
     (if qs = [] then []
      else parse_pair keep_blank (takeWhile not_pair_end qs) @
           parse_qsl_loop keep_blank (drop 1 (dropWhile not_pair_end qs)))"
  by pat_completeness auto
termination
proof (relation "measure (\<lambda>(k, qs). length qs)")
  fix keep_blank :: bool and qs :: bytes
  assume "qs \<noteq> []"
  moreover have "length (dropWhile not_pair_end qs) \<le> length qs"
    by (rule length_dropWhile_le)
  ultimately show "((keep_blank, drop 1 (dropWhile not_pair_end qs)), keep_blank, qs)
      \<in> measure (\<lambda>(k, qs). length qs)"
    by (cases qs) auto
qed simp

declare parse_qsl_loop.simps [simp del]

definition urllib_parse_qsl :: "bytes \<Rightarrow> bool \<Rightarrow> (bytes \<times> bytes) list" where
  "urllib_parse_qsl qs keep_blank = parse_qsl_loop keep_blank qs"

section \<open>Percent coding: lemmas\<close>

lemma quote_step_append: "quote_step safe p vstr c = vstr @ quote_step safe p [] c"
  by (simp add: quote_step_def vstr_add_pct_def Let_def)

lemma quote_fold: "foldl (quote_step safe p) vstr s = vstr @ concat (map (quote_step safe p []) s)"
proof (induction s arbitrary: vstr)
  case (Cons c s)
  then show ?case by (simp add: quote_step_append[of safe p vstr c])
qed simp

lemma unquote_plain:
  assumes "c \<noteq> ch_percent" "\<not> (p \<and> c = ch_plus)"
  shows "unquote_loop p (c # rest) vstr = unquote_loop p rest (vstr @ [c])"
  using assms by (cases "(p, c # rest, vstr)" rule: unquote_loop.cases) auto

lemma unquote_plus_space:
  "unquote_loop True (ch_plus # rest) vstr = unquote_loop True rest (vstr @ [ch_space])"
  by (cases "(True, ch_plus # rest, vstr)" rule: unquote_loop.cases) auto

lemma pct_hex_code: "pct_hex = [48, 49, 50, 51, 52, 53, 54, 55, 56, 57, 65, 66, 67, 68, 69, 70]"
  by (simp add: pct_hex_def str_def)

lemma hex_value_table: "list_all2 (\<lambda>c n. hex_value c = int n) pct_hex [0..<16]"
  by (simp add: pct_hex_code upt_conv_Cons hex_value_def)

lemma hex_value_nibble: "hex_value (pct_hex ! unat (b AND 0x0F)) = uint (b AND 0x0F)" for b :: byte
  using list_all2_nthD[OF hex_value_table] nibble_less[of b]
  by (simp add: pct_hex_code del: upt_rec_numeral)

lemma unquote_pct: "unquote_loop p (vstr_add_pct [] c @ rest) vstr = unquote_loop p rest (vstr @ [c])"
  by (simp add: vstr_add_pct_def hex_value_nibble byte_of_nibbles Let_def del: push_bit_and)

lemma unquote_quote_step:
  assumes "ch_percent \<notin> set safe" "\<not> (p \<and> ch_plus \<in> set safe)"
  shows "unquote_loop p (quote_step safe p [] c @ rest) vstr = unquote_loop p rest (vstr @ [c])"
proof (cases "p \<and> c = ch_space")
  case True
  then show ?thesis by (simp add: quote_step_def unquote_plus_space)
next
  case False
  have "\<not> is_unreserved ch_percent" "\<not> is_unreserved ch_plus"
    by (simp_all add: is_unreserved_def)
  with False assms show ?thesis
    by (auto simp: quote_step_def Let_def unquote_pct intro!: unquote_plain)
qed

lemma unquote_quote:
  assumes "ch_percent \<notin> set safe" "\<not> (p \<and> ch_plus \<in> set safe)"
  shows "unquote_loop p (concat (map (quote_step safe p []) s)) vstr = vstr @ s"
  by (induction s arbitrary: vstr) (simp_all add: unquote_quote_step assms)

lemma quote_step_chars:
  "set (quote_step safe p [] c) \<subseteq>
     {d. is_unreserved d} \<union> {ch_percent, ch_plus, ch_slash} \<union> set safe"
proof -
  have "list_all is_unreserved pct_hex"
    by (simp add: pct_hex_code is_unreserved_def)
  then have "is_unreserved (pct_hex ! unat (b AND 0x0F))" for b :: byte
    using nibble_less[of b] by (simp add: list_all_length pct_hex_code)
  then show ?thesis
    by (auto simp: quote_step_def vstr_add_pct_def Let_def)
qed

lemma set_quote_inner:
  "set (quote_inner s safe_in p) \<subseteq>
     {d. is_unreserved d} \<union> {ch_percent, ch_plus, ch_slash} \<union>
     (case safe_in of None \<Rightarrow> {} | Some safe \<Rightarrow> set safe)"
  using quote_step_chars by (fastforce simp: quote_inner_def quote_fold split: option.splits)

section \<open>Query strings: lemmas\<close>

text \<open>A query string built from quoted fields.\<close>

definition join_field :: "(bytes \<Rightarrow> bytes) \<Rightarrow> bytes \<times> bytes \<Rightarrow> bytes" where
  "join_field enc kv = enc (fst kv) @ [ch_eq] @ enc (snd kv)"

fun join_fields :: "(bytes \<Rightarrow> bytes) \<Rightarrow> (bytes \<times> bytes) list \<Rightarrow> bytes" where
  "join_fields enc [] = []"
| "join_fields enc [kv] = join_field enc kv"
| "join_fields enc (kv # kvs) = join_field enc kv @ [ch_amp] @ join_fields enc kvs"

lemma join_fields_Cons:
  "join_fields enc (kv # kvs) =
     join_field enc kv @ (if kvs = [] then [] else ch_amp # join_fields enc kvs)"
  by (cases kvs) simp_all

lemma parse_qsl_Nil: "parse_qsl_loop keep [] = []"
  by (simp add: parse_qsl_loop.simps)

text \<open>
  What \<open>parse_qsl\<close> needs of the quoting it undoes: its own unquoting inverts it, it emits no
  separator, and it keeps a field empty or non-empty.
\<close>

locale field_quoting =
  fixes enc :: "bytes \<Rightarrow> bytes"
  assumes unquote_enc: "do_unquote (enc s) True = s"
    and enc_separators: "set (enc s) \<inter> {ch_amp, ch_semi, ch_eq} = {}"
    and enc_empty: "enc s = [] \<longleftrightarrow> s = []"
begin

lemma no_separator [simp]:
  "c \<in> set (enc s) \<Longrightarrow> c \<noteq> ch_eq" "c \<in> set (enc s) \<Longrightarrow> not_pair_end c"
  using enc_separators[of s] by (auto simp: not_pair_end_def)

lemma parse_pair_join:
  "parse_pair keep (join_field enc kv) =
     (if fst kv \<noteq> [] \<and> (snd kv \<noteq> [] \<or> keep) then [kv] else [])"
proof -
  have "takeWhile (\<lambda>c. c \<noteq> ch_eq) (enc (fst kv) @ ch_eq # enc (snd kv)) = enc (fst kv)"
    and "dropWhile (\<lambda>c. c \<noteq> ch_eq) (enc (fst kv) @ ch_eq # enc (snd kv)) = ch_eq # enc (snd kv)"
    by (simp_all add: takeWhile_append2 dropWhile_append2)
  then show ?thesis
    by (simp add: parse_pair_def join_field_def enc_empty unquote_enc)
qed

lemma join_field_pair_end: "c \<in> set (join_field enc kv) \<Longrightarrow> not_pair_end c"
  by (auto simp: join_field_def not_pair_end_def[of ch_eq])

lemma parse_qsl_join:
  "parse_qsl_loop keep (join_fields enc kvs) =
     filter (\<lambda>kv. fst kv \<noteq> [] \<and> (snd kv \<noteq> [] \<or> keep)) kvs"
proof (induction kvs)
  case (Cons kv kvs)
  let ?tail = "if kvs = [] then [] else ch_amp # join_fields enc kvs"
  have qs: "join_fields enc (kv # kvs) = join_field enc kv @ ?tail"
    by (rule join_fields_Cons)
  have "takeWhile not_pair_end (join_field enc kv @ ?tail) = join_field enc kv"
    and "dropWhile not_pair_end (join_field enc kv @ ?tail) = ?tail"
    by (simp_all add: join_field_pair_end takeWhile_append2 dropWhile_append2 not_pair_end_def[of ch_amp])
  moreover have "join_field enc kv \<noteq> []"
    by (simp add: join_field_def)
  ultimately show ?case
    using Cons
    by (auto simp add: qs parse_qsl_loop.simps[of keep "join_field enc kv @ ?tail"] parse_pair_join
        parse_qsl_Nil simp del: takeWhile_eq_all_conv dropWhile_eq_Nil_conv split: if_split_asm)
qed (simp add: parse_qsl_Nil)

end

text \<open>\<open>quote_plus\<close> with the default safe set meets the contract.\<close>

interpretation qp: field_quoting "\<lambda>s. quote_inner s None True"
proof
  fix s
  show "do_unquote (quote_inner s None True) True = s"
    by (simp add: do_unquote_def quote_inner_def quote_fold unquote_quote)
  have "\<not> is_unreserved ch_amp" "\<not> is_unreserved ch_semi" "\<not> is_unreserved ch_eq"
    by (simp_all add: is_unreserved_def)
  then show "set (quote_inner s None True) \<inter> {ch_amp, ch_semi, ch_eq} = {}"
    using set_quote_inner[of s None True] by auto
  have "quote_step [] True [] c \<noteq> []" for c
    by (simp add: quote_step_def vstr_add_pct_def Let_def)
  then show "quote_inner s None True = [] \<longleftrightarrow> s = []"
    by (cases s) (simp_all add: quote_inner_def quote_fold)
qed

definition str_pair :: "bytes \<times> bytes \<Rightarrow> 'o py_obj list" where
  "str_pair kv = [StrOrBytes (fst kv), StrOrBytes (snd kv)]"

lemma urlencode_iter_join:
  "urlencode_iter mp_str (map str_pair kvs) (vstr, first) =
     Inr (vstr @ (if kvs = [] \<or> first then [] else [ch_amp]) @
          join_fields (\<lambda>s. quote_inner s None True) kvs)"
proof (induction kvs arbitrary: vstr first)
  case (Cons kv kvs)
  then show ?case
    by (simp add: join_fields_Cons str_pair_def urlencode_pair_def quote_obj_def join_field_def
        del: join_fields.simps(2,3))
qed simp

lemma urlencode_slots_iter:
  "urlencode_slots mp_str slots st =
     urlencode_iter mp_str (map (\<lambda>(k, v). [k, v]) (List.map_filter id slots)) st"
  by (induction mp_str slots st rule: urlencode_slots.induct)
    (auto simp: map_filter_simps split: sum.splits)

section \<open>urlsplit: lemmas\<close>

lemma split_scheme_cases:
  "(\<exists>c s rest. split_scheme url = (c # s, rest) \<and> is_alpha c \<and> list_all is_scheme_char s \<and>
      url = c # s @ ch_colon # rest) \<or>
   split_scheme url = ([], url)"
proof (cases url)
  case (Cons c cs)
  show ?thesis
  proof (cases "dropWhile is_scheme_char cs")
    case Nil
    then show ?thesis by (simp add: Cons split_scheme_def del: dropWhile_eq_Nil_conv)
  next
    case (Cons d rest)
    then have "cs = takeWhile is_scheme_char cs @ d # rest"
      by (metis takeWhile_dropWhile_id)
    moreover have "list_all is_scheme_char (takeWhile is_scheme_char cs)"
      by (auto simp: list_all_iff dest: set_takeWhileD)
    ultimately show ?thesis
      using Cons \<open>url = c # cs\<close> by (auto simp: split_scheme_def)
  qed
qed (simp add: split_scheme_def)

lemma split_netloc_cases:
  "(\<exists>rest. s = ch_slash # ch_slash # fst (split_netloc s) @ snd (split_netloc s) \<and>
      (\<forall>c\<in>set (fst (split_netloc s)). not_netloc_end c)) \<or>
   split_netloc s = ([], s)"
  by (auto simp: split_netloc_def dest: set_takeWhileD split: list.splits)

lemma split_query_cases:
  "(s = ch_quest # fst (split_query s) @ snd (split_query s) \<and> ch_hash \<notin> set (fst (split_query s))) \<or>
   split_query s = ([], s)"
  by (auto simp: split_query_def dest: set_takeWhileD split: list.splits)

lemma split_fragment_after_query:
  "snd (split_query (dropWhile not_path_end s)) = [] \<or>
   (\<exists>rest. snd (split_query (dropWhile not_path_end s)) = ch_hash # rest)"
proof (cases "dropWhile not_path_end s")
  case (Cons d rest)
  then have "\<not> not_path_end d"
    using hd_dropWhile[of not_path_end s] by simp
  then show ?thesis
    using Cons hd_dropWhile[of "\<lambda>d. d \<noteq> ch_hash" rest]
    by (cases "dropWhile (\<lambda>d. d \<noteq> ch_hash) rest") (auto simp: split_query_def not_path_end_def)
qed (simp add: split_query_def del: dropWhile_eq_Nil_conv)

section \<open>Properties\<close>

text \<open>Unquoting undoes quoting, for \<open>quote\<close>/\<open>unquote\<close> and \<open>quote_plus\<close>/\<open>unquote_plus\<close> alike, as long
  as the caller has not declared \<open>%\<close> safe (nor \<open>+\<close>, in the plus variant).\<close>

theorem quote_unquote:
  assumes "\<forall>safe. safe_in = Some safe \<longrightarrow> ch_percent \<notin> set safe \<and> \<not> (use_plus \<and> ch_plus \<in> set safe)"
  shows "do_unquote (quote_inner s safe_in use_plus) use_plus = s"
  using assms
  by (cases safe_in) (simp_all add: do_unquote_def quote_inner_def quote_fold unquote_quote)

theorem quote_unquote_witness:
  "do_unquote (quote_inner (str ''a b%/+'') (Some (str ''/:'')) True) True = str ''a b%/+''"
  by (rule quote_unquote) (simp add: str_def)

text \<open>\<open>quote\<close> emits only unreserved characters, percent escapes, \<open>+\<close>, \<open>/\<close> and what the caller
  declared safe.\<close>

theorem quote_output_chars:
  "set (quote_inner s safe_in use_plus) \<subseteq>
     {c. is_unreserved c} \<union> {ch_percent, ch_plus, ch_slash} \<union>
     (case safe_in of None \<Rightarrow> {} | Some safe \<Rightarrow> set safe)"
  by (rule set_quote_inner)

text \<open>C26. Parsing the query string that \<open>urlencode\<close> builds from a sequence of string pairs gives the
  pairs back in order, less those with an empty key and, unless blank values are kept, those with an
  empty value. In particular \<open>urlencode\<close> never fails on such a sequence.\<close>

theorem urlencode_parse_qsl:
  "\<exists>qs. urllib_urlencode mp_str (PairIter (map str_pair kvs)) = Inr qs \<and>
     urllib_parse_qsl qs keep = filter (\<lambda>kv. fst kv \<noteq> [] \<and> (if snd kv = [] then keep else True)) kvs"
  by (auto simp: urllib_urlencode_def urlencode_iter_join urllib_parse_qsl_def qp.parse_qsl_join intro!: filter_cong)

text \<open>\<open>urlsplit\<close> loses nothing and cuts at the delimiters: the URL is the concatenation of the
  five components with the delimiters that introduce those that are present, the scheme has only
  scheme characters, the network location has no \<open>/\<close>, \<open>?\<close> or \<open>#\<close>, the path no \<open>?\<close> or \<open>#\<close>, the query
  no \<open>#\<close>.\<close>

theorem urlsplit_lossless:
  defines "opt \<equiv> \<lambda>b xs. if b then xs else [] :: bytes"
  shows "\<exists>s n q f. let r = urllib_urlsplit url in
     url = opt s (sr_scheme r @ [ch_colon]) @ opt n ([ch_slash, ch_slash] @ sr_netloc r) @
           sr_path r @ opt q (ch_quest # sr_query r) @ opt f (ch_hash # sr_fragment r) \<and>
     list_all is_scheme_char (sr_scheme r) \<and> list_all not_netloc_end (sr_netloc r) \<and>
     list_all not_path_end (sr_path r) \<and> ch_hash \<notin> set (sr_query r)"
proof -
  obtain scheme s1 where sch: "split_scheme url = (scheme, s1)" by fastforce
  obtain netloc s2 where net: "split_netloc s1 = (netloc, s2)" by fastforce
  obtain query s3 where qry: "split_query (dropWhile not_path_end s2) = (query, s3)" by fastforce
  let ?r = "urllib_urlsplit url" and ?path = "takeWhile not_path_end s2"
  have r: "?r = \<lparr>sr_scheme = scheme, sr_netloc = netloc, sr_path = ?path, sr_query = query,
      sr_fragment = split_fragment s3\<rparr>"
    by (simp add: urllib_urlsplit_def sch net qry)
  obtain s where u1: "url = opt s (scheme @ [ch_colon]) @ s1" "list_all is_scheme_char scheme"
    using split_scheme_cases[of url] sch
    by (auto simp: opt_def is_scheme_char_def[of c for c] intro: that[of True] that[of False])
  obtain n where u2: "s1 = opt n ([ch_slash, ch_slash] @ netloc) @ s2" "list_all not_netloc_end netloc"
    using split_netloc_cases[of s1] net
    by (auto simp: opt_def list_all_iff intro: that[of True] that[of False])
  have u3: "s2 = ?path @ dropWhile not_path_end s2" "list_all not_path_end ?path"
    by (auto simp: list_all_iff dest: set_takeWhileD)
  obtain q where u4: "dropWhile not_path_end s2 = opt q (ch_quest # query) @ s3"
      "ch_hash \<notin> set query"
    using split_query_cases[of "dropWhile not_path_end s2"] qry
    by (auto simp: opt_def intro: that[of True] that[of False])
  obtain f where u5: "s3 = opt f (ch_hash # split_fragment s3)"
    using split_fragment_after_query[of s2] qry
    by (auto simp: opt_def split_fragment_def intro: that[of True] that[of False])
  have "url = opt s (scheme @ [ch_colon]) @ opt n ([ch_slash, ch_slash] @ netloc) @
      ?path @ opt q (ch_quest # query) @ opt f (ch_hash # split_fragment s3)"
    using u1(1) u2(1) u3(1) u4(1) u5 by metis
  then show ?thesis
    unfolding r Let_def split_result.simps using u1(2) u2(2) u3(2) u4(2) by blast
qed

end
