(* ===== verification/Math_Gamma.thy ===== *)
theory Math_Gamma
  imports Complex_Main
begin

text \<open>
  \<open>math_gamma.c\<close>: the gamma function and its logarithm, the Lanczos approximation with the reflection
  formula for arguments below one half.

  The arithmetic of \<open>double\<close> and the functions of the C library are a record of operations on a type \<open>'d\<close>,
  so nothing here depends on rounding; a literal is its decimal digits and exponent. \<open>tgamma\<close> calls itself,
  so it is a partial function, \<open>None\<close> when the calls do not end.
\<close>

section \<open>Definitions\<close>

record 'd fp =
  lit :: "int \<Rightarrow> int \<Rightarrow> 'd"
  fadd :: "'d \<Rightarrow> 'd \<Rightarrow> 'd"
  fsub :: "'d \<Rightarrow> 'd \<Rightarrow> 'd"
  fmul :: "'d \<Rightarrow> 'd \<Rightarrow> 'd"
  fdiv :: "'d \<Rightarrow> 'd \<Rightarrow> 'd"
  fneg :: "'d \<Rightarrow> 'd"
  flt :: "'d \<Rightarrow> 'd \<Rightarrow> bool"
  feq :: "'d \<Rightarrow> 'd \<Rightarrow> bool"
  isnan :: "'d \<Rightarrow> bool"
  isinf :: "'d \<Rightarrow> bool"
  via_long_long :: "'d \<Rightarrow> 'd"
  fsin :: "'d \<Rightarrow> 'd"
  fpow :: "'d \<Rightarrow> 'd \<Rightarrow> 'd"
  fexp :: "'d \<Rightarrow> 'd"
  flog :: "'d \<Rightarrow> 'd"

definition LANCZOS_G :: "'d fp \<Rightarrow> 'd" where
  "LANCZOS_G F = lit F 50 (-1)"

definition LANCZOS_C :: "'d fp \<Rightarrow> 'd list" where
  "LANCZOS_C F =
     [lit F 1000000000190015 (-15),
      lit F 7618009172947146 (-14),
      lit F (-8650532032941677) (-14),
      lit F 2401409824083091 (-14),
      lit F (-1231739572450155) (-15),
      lit F 1208650973866179 (-18),
      lit F (-5395239384953) (-18)]"

definition LANCZOS_SQRT_2PI :: "'d fp \<Rightarrow> 'd" where
  "LANCZOS_SQRT_2PI F = lit F 25066282746310005 (-16)"

definition lanczos_sum :: "'d fp \<Rightarrow> 'd \<Rightarrow> 'd" where
  "lanczos_sum F z = foldl (\<lambda>s k. fadd F s (fdiv F (LANCZOS_C F ! k) (fadd F z (lit F (int k) 0)))) (LANCZOS_C F ! 0) [1..<7]"

definition lanczos :: "'d fp \<Rightarrow> 'd \<Rightarrow> 'd" where
  "lanczos F x =
     (let z = fsub F x (lit F 10 (-1));
          t = fadd F (fadd F z (LANCZOS_G F)) (lit F 5 (-1))
      in fmul F (fmul F (fmul F (LANCZOS_SQRT_2PI F) (fpow F t (fadd F z (lit F 5 (-1))))) (fexp F (fneg F t))) (lanczos_sum F z))"

partial_function (option) tgamma :: "'d fp \<Rightarrow> 'd \<Rightarrow> 'd option" where
  "tgamma F x =
     (if isnan F x then Some x
      else if feq F x (lit F 0 (-1)) then Some (fdiv F (lit F 10 (-1)) x)
      else if flt F x (lit F 0 (-1)) \<and> feq F x (via_long_long F x) then Some (fdiv F (lit F 0 (-1)) (lit F 0 (-1)))
      else if isinf F x \<and> flt F (lit F 0 (-1)) x then Some x
      else if flt F x (lit F 5 (-1))
      then let pi' = lit F 3141592653589793 (-15)
           in Option.bind (tgamma F (fsub F (lit F 10 (-1)) x)) (\<lambda>g. Some (fdiv F pi' (fmul F (fsin F (fmul F pi' x)) g)))
      else Some (lanczos F x))"

declare tgamma.simps [code]

definition lgamma :: "'d fp \<Rightarrow> 'd \<Rightarrow> 'd option" where
  "lgamma F x =
     (if isnan F x then Some x
      else if isinf F x then Some (if flt F (lit F 0 (-1)) x then x else fneg F x)
      else map_option (\<lambda>g. flog F (if flt F g (lit F 0 (-1)) then fneg F g else g)) (tgamma F x))"

section \<open>Lemmas\<close>

text \<open>What the recursion rests on: below one half, the reflected argument is not below one half.\<close>

definition reflects :: "'d fp \<Rightarrow> bool" where
  "reflects F \<longleftrightarrow> (\<forall>x. flt F x (lit F 5 (-1)) \<longrightarrow> \<not> flt F (fsub F (lit F 10 (-1)) x) (lit F 5 (-1)))"

lemma tgamma_direct: "\<not> flt F x (lit F 5 (-1)) \<Longrightarrow> \<exists>y. tgamma F x = Some y"
  by (subst tgamma.simps) simp

lemma tgamma_total: "reflects F \<Longrightarrow> \<exists>y. tgamma F x = Some y"
  using tgamma_direct[of F "fsub F (lit F 10 (-1)) x"]
  by (subst tgamma.simps) (auto simp: reflects_def Let_def)

text \<open>Exact arithmetic on the reals, with the library functions it approximates.\<close>

definition real_fp :: "real fp" where
  "real_fp = \<lparr>lit = (\<lambda>m e. of_int m * 10 powr of_int e), fadd = (+), fsub = (-), fmul = (*), fdiv = (/), fneg = uminus,
     flt = (<), feq = (=), isnan = (\<lambda>_. False), isinf = (\<lambda>_. False), via_long_long = (\<lambda>x. of_int (if x < 0 then \<lceil>x\<rceil> else \<lfloor>x\<rfloor>)),
     fsin = sin, fpow = (powr), fexp = exp, flog = ln\<rparr>"

lemma real_lits: "lit real_fp 5 (-1) = 1 / 2" "lit real_fp 10 (-1) = 1" "lit real_fp 0 (-1) = 0"
  by (simp_all add: real_fp_def powr_minus_divide)

lemma real_reflects: "reflects real_fp"
  by (simp add: reflects_def real_lits) (simp add: real_fp_def)

section \<open>Properties\<close>

text \<open>
  Both functions return for every argument: \<open>tgamma\<close> calls itself at most once, because the reflected
  argument takes the direct branch.
\<close>

theorem gamma_returns:
  assumes "reflects F"
  shows "(\<exists>y. tgamma F x = Some y) \<and> (\<exists>y. lgamma F x = Some y)"
  using tgamma_total[OF assms, of x] by (auto simp: lgamma_def)

theorem gamma_returns_witness:
  "(\<exists>y. tgamma real_fp (- 5 / 2) = Some y) \<and> (\<exists>y. lgamma real_fp (- 5 / 2) = Some y)"
  by (rule gamma_returns[OF real_reflects])

end
