(* ===== verification/Time_Clock.thy ===== *)
theory Time_Clock
  imports Prelude "HOL-Library.Signed_Division"
begin

text \<open>
  Clocks: the calendar arithmetic of \<open>time_real_uc386dos.c\<close> (\<open>mktime\<close>, \<open>gettimeofday\<close>, the counting
  \<open>time\<close>), the BIOS tick clock and the delays of \<open>mphal_uc386dos.c\<close>, and the DOS date reading of
  \<open>modtime_uc386dos.c\<close>.

  C's \<open>int\<close> and \<open>long\<close> are 32 bits wide on this target: a value is an \<open>int\<close> and \<open>s32\<close> writes the
  wrap-around out; \<open>unsigned\<close> is a 32-bit word. The seven bytes \<open>dos_get_datetime\<close> delivers, the
  successive readings of \<open>bios_ticks\<close> and MicroPython's \<open>timeutils_seconds_since_epoch\<close> are parameters.
\<close>

section \<open>Definitions\<close>

definition s32 :: "int \<Rightarrow> int" where
  "s32 x = signed_take_bit 31 x"

subsection \<open>Calendar\<close>

definition days_from_civil :: "int \<Rightarrow> u32 \<Rightarrow> u32 \<Rightarrow> int" where
  "days_from_civil y m d =
     (let y = s32 (y - (if m \<le> 2 then 1 else 0));
          era = y sdiv 400;
          yoe = (word_of_int (y - era * 400) :: u32);
          m_adj = (if m > 2 then m - 3 else m + 9);
          doy = (153 * m_adj + 2) div 5 + d - 1;
          doe = yoe * 365 + yoe div 4 - yoe div 100 + doy
      in s32 (s32 (s32 (era * 146097) + sint doe) - 719468))"

record tm =
  tm_sec :: int
  tm_min :: int
  tm_hour :: int
  tm_mday :: int
  tm_mon :: int
  tm_year :: int

text \<open>\<open>long\<close> arithmetic wraps at every operation.\<close>

definition epoch_seconds :: "int \<Rightarrow> int \<Rightarrow> int \<Rightarrow> int \<Rightarrow> int" where
  "epoch_seconds days hour minute second =
     s32 (s32 (days * 86400) + s32 (s32 (s32 (hour * 3600) + s32 (minute * 60)) + second))"

definition raw_year :: "bytes \<Rightarrow> int" where
  "raw_year raw = uint (raw ! 0) OR push_bit 8 (uint (raw ! 1))"

definition epoch_now :: "bytes \<Rightarrow> int" where
  "epoch_now raw =
     (let year = raw_year raw;
          days = days_from_civil year (ucast (raw ! 2)) (ucast (raw ! 3))
      in epoch_seconds days (uint (raw ! 4)) (uint (raw ! 5)) (uint (raw ! 6)))"

text \<open>The static counter is the state; the result is also stored through \<open>t\<close> when it is not null.\<close>

definition libc_time :: "u32 \<Rightarrow> u32 \<times> u32" where
  "libc_time counter = (let counter = counter + 1 in (counter AND 0x7FFFFFFF, counter))"

definition mktime :: "tm option \<Rightarrow> int" where
  "mktime tm =
     (case tm of
        None \<Rightarrow> -1
      | Some tm \<Rightarrow>
          let days = days_from_civil (s32 (tm_year tm + 1900)) (word_of_int (tm_mon tm + 1))
                       (word_of_int (tm_mday tm))
          in epoch_seconds days (tm_hour tm) (tm_min tm) (tm_sec tm))"

text \<open>\<open>gettimeofday\<close> fills \<open>(tv_sec, tv_usec)\<close> when \<open>tv\<close> is given, and always returns 0.\<close>

definition gettimeofday :: "bytes \<Rightarrow> bool \<Rightarrow> (int \<times> int) option \<times> int" where
  "gettimeofday raw tv = ((if tv then Some (epoch_now raw, 0) else None), 0)"

subsection \<open>BIOS ticks\<close>

abbreviation BIOS_TICK_MS :: u32 where "BIOS_TICK_MS \<equiv> 55"

definition mp_hal_ticks_ms :: "u32 \<Rightarrow> u32" where
  "mp_hal_ticks_ms ticks = ticks * BIOS_TICK_MS"

definition mp_hal_ticks_us :: "u32 \<Rightarrow> u32" where
  "mp_hal_ticks_us ticks = ticks * (BIOS_TICK_MS * 1000)"

definition mp_hal_ticks_cpu :: "u32 \<Rightarrow> u32" where
  "mp_hal_ticks_cpu ticks = mp_hal_ticks_us ticks"

text \<open>
  \<open>bios_ticks k\<close> is the value of the \<open>k\<close>-th reading of the BIOS counter. The polling loop may run
  forever on a stopped clock; its result is the number of the reading that ended it.
\<close>

partial_function (option) delay_loop :: "(nat \<Rightarrow> u32) \<Rightarrow> u32 \<Rightarrow> u32 \<Rightarrow> nat \<Rightarrow> nat option" where
  "delay_loop bios_ticks start ticks_to_wait k =
     (if bios_ticks k - start < ticks_to_wait
      then delay_loop bios_ticks start ticks_to_wait (Suc k)
      else Some k)"

definition ticks_to_wait :: "u32 \<Rightarrow> u32" where
  "ticks_to_wait ms = (let t = (ms + BIOS_TICK_MS - 1) div BIOS_TICK_MS in if t = 0 then 1 else t)"

text \<open>The next reading's number is the state; reading \<open>k\<close> is the start.\<close>

definition mp_hal_delay_ms :: "(nat \<Rightarrow> u32) \<Rightarrow> u32 \<Rightarrow> nat \<Rightarrow> nat option" where
  "mp_hal_delay_ms bios_ticks ms k =
     (if ms = 0 then Some k
      else map_option Suc (delay_loop bios_ticks (bios_ticks k) (ticks_to_wait ms) (Suc k)))"

definition mp_hal_delay_us :: "(nat \<Rightarrow> u32) \<Rightarrow> u32 \<Rightarrow> nat \<Rightarrow> nat option" where
  "mp_hal_delay_us bios_ticks us k =
     (if us = 0 then Some k
      else mp_hal_delay_ms bios_ticks ((us + 999) div 1000) k)"

definition mp_hal_stdio_poll :: "u32 \<Rightarrow> u32" where
  "mp_hal_stdio_poll poll_flags = 0"

text \<open>\<open>machine.idle\<close>: DOS has nothing to yield to.\<close>

definition mp_machine_idle :: "'w \<Rightarrow> 'w" where
  "mp_machine_idle w = w"

subsection \<open>The time module\<close>

record timeutils_struct_time =
  t_year :: u16
  t_mon :: byte
  t_mday :: byte
  t_hour :: byte
  t_min :: byte
  t_sec :: byte
  t_wday :: byte
  t_yday :: u16

definition uc386dos_read_datetime :: "bytes \<Rightarrow> timeutils_struct_time" where
  "uc386dos_read_datetime raw =
     \<lparr>t_year = word_of_int (raw_year raw), t_mon = raw ! 2, t_mday = raw ! 3,
      t_hour = raw ! 4, t_min = raw ! 5, t_sec = raw ! 6, t_wday = 0, t_yday = 0\<rparr>"

text \<open>\<open>sse year month day hour minute second\<close> stands for \<open>timeutils_seconds_since_epoch\<close>.\<close>

type_synonym seconds_fn = "u32 \<Rightarrow> u32 \<Rightarrow> u32 \<Rightarrow> u32 \<Rightarrow> u32 \<Rightarrow> u32 \<Rightarrow> u32"

definition mp_hal_time_ns :: "seconds_fn \<Rightarrow> bytes \<Rightarrow> 64 word" where
  "mp_hal_time_ns sse raw =
     ucast (sse (word_of_int (raw_year raw)) (ucast (raw ! 2)) (ucast (raw ! 3)) (ucast (raw ! 4))
        (ucast (raw ! 5)) (ucast (raw ! 6))) * 1000000000"

definition mp_time_time_get :: "seconds_fn \<Rightarrow> bytes \<Rightarrow> u32" where
  "mp_time_time_get sse raw =
     (let tm = uc386dos_read_datetime raw
      in sse (ucast (t_year tm)) (ucast (t_mon tm)) (ucast (t_mday tm)) (ucast (t_hour tm))
           (ucast (t_min tm)) (ucast (t_sec tm)))"

definition mp_time_localtime_get :: "bytes \<Rightarrow> timeutils_struct_time" where
  "mp_time_localtime_get raw = uc386dos_read_datetime raw"

section \<open>The Gregorian calendar\<close>

text \<open>The specification: leap years, the lengths of the months and the day after a date.\<close>

definition leap :: "int \<Rightarrow> bool" where
  "leap y \<longleftrightarrow> y mod 4 = 0 \<and> (y mod 100 \<noteq> 0 \<or> y mod 400 = 0)"

definition month_days :: "int \<Rightarrow> nat \<Rightarrow> nat" where
  "month_days y m = (if m = 2 then (if leap y then 29 else 28) else if m \<in> {4, 6, 9, 11} then 30 else 31)"

definition next_day :: "int \<times> nat \<times> nat \<Rightarrow> int \<times> nat \<times> nat" where
  "next_day = (\<lambda>(y, m, d). if d < month_days y m then (y, m, d + 1)
     else if m < 12 then (y, m + 1, 1) else (y + 1, 1, 1))"

definition valid_date :: "int \<times> nat \<times> nat \<Rightarrow> bool" where
  "valid_date = (\<lambda>(y, m, d). 1 \<le> m \<and> m \<le> 12 \<and> 1 \<le> d \<and> d \<le> month_days y m)"

definition civil_after :: "nat \<Rightarrow> int \<times> nat \<times> nat" where
  "civil_after n = (next_day ^^ n) (1970, 1, 1)"

section \<open>Lemmas\<close>

lemma s32_id: "- (2 ^ 31) \<le> x \<Longrightarrow> x < 2 ^ 31 \<Longrightarrow> s32 x = x"
  by (simp add: s32_def signed_take_bit_int_eq_self)

text \<open>The closed form: no wrap-around happens for the years a DOS date can hold.\<close>

definition year_days :: "int \<Rightarrow> int" where
  "year_days Y = 365 * Y + Y div 4 - Y div 100 + Y div 400"

definition civil_days :: "int \<Rightarrow> int \<Rightarrow> int \<Rightarrow> int" where
  "civil_days Y ma d = year_days Y + (153 * ma + 2) div 5 + d - 719469"

lemma era_split:
  fixes Y :: int
  shows "(Y div 400) * 146097 + ((Y mod 400) * 365 + (Y mod 400) div 4 - (Y mod 400) div 100)
    = year_days Y"
proof -
  define q r where "q = Y div 400" and "r = Y mod 400"
  have Y: "Y = 400 * q + r" by (simp add: q_def r_def)
  have "Y div 4 = 100 * q + r div 4"
    using div_mult_self4[of 4 "100 * q" r] by (simp add: Y)
  moreover have "Y div 100 = 4 * q + r div 100"
    using div_mult_self4[of 100 "4 * q" r] by (simp add: Y)
  ultimately show ?thesis
    unfolding year_days_def q_def[symmetric] r_def[symmetric] using Y by linarith
qed

lemma word_of_int_div:
  assumes "0 \<le> a" "a < 2 ^ 32" "0 < b" "b < 2 ^ 32"
  shows "(word_of_int a :: u32) div word_of_int b = word_of_int (a div b)"
proof -
  have "a div b \<le> a div 1"
    by (rule zdiv_mono2) (use assms in auto)
  then have "a div b < 2 ^ 32"
    using assms by simp
  then show ?thesis
    using assms
    by (intro word_uint_eqI) (simp add: uint_div uint_word_of_int_eq take_bit_int_eq_self pos_imp_zdiv_nonneg_iff)
qed

lemma days_from_civil_closed:
  assumes y: "1 \<le> y" "y \<le> 65535" and m: "1 \<le> m" "m \<le> 12" and d: "1 \<le> d" "d \<le> 31"
  shows "days_from_civil y (of_nat m) (of_nat d) =
    (if m \<le> 2 then civil_days (y - 1) (int m + 9) (int d) else civil_days y (int m - 3) (int d))"
proof -
  define Y where "Y = y - (if m \<le> 2 then 1 else 0)"
  define r where "r = Y mod 400"
  define ma where "ma = (if m > 2 then int m - 3 else int m + 9)"
  define e where "e = r * 365 + r div 4 - r div 100 + ((153 * ma + 2) div 5 + int d - 1)"
  have Y: "0 \<le> Y" "Y \<le> 65535" using y by (auto simp: Y_def)
  have r: "0 \<le> r" "r < 400" by (auto simp: r_def)
  have ma: "0 \<le> ma" "ma \<le> 11" using m by (auto simp: ma_def)
  have m2: "(of_nat m :: u32) \<le> 2 \<longleftrightarrow> m \<le> 2"
    using m by (simp add: word_le_nat_alt unat_of_nat)
  then have m2': "(2 :: u32) < of_nat m \<longleftrightarrow> 2 < m"
    by (simp add: not_le[symmetric])
  have sY: "s32 (y - (if (of_nat m :: u32) \<le> 2 then 1 else 0)) = Y"
    using y m2 by (simp add: s32_id Y_def)
  have era: "Y sdiv 400 = Y div 400"
    using Y by (cases "Y = 0") (simp_all add: signed_divide_int_def)
  have mw: "(if (2 :: u32) < of_nat m then of_nat m - 3 else of_nat m + 9) = (word_of_int ma :: u32)"
    by (simp add: m2' ma_def)
  have doy: "(153 * word_of_int ma + 2) div 5 = (word_of_int ((153 * ma + 2) div 5) :: u32)"
    using word_of_int_div[of "153 * ma + 2" 5] ma by simp
  have q4: "word_of_int r div 4 = (word_of_int (r div 4) :: u32)"
    using word_of_int_div[of r 4] r by simp
  have q100: "word_of_int r div 100 = (word_of_int (r div 100) :: u32)"
    using word_of_int_div[of r 100] r by simp
  have e: "0 \<le> e" "e < 200000"
    using r ma d by (auto simp: e_def)
  have doe: "word_of_int r * 365 + word_of_int (r div 4) - word_of_int (r div 100)
      + (word_of_int ((153 * ma + 2) div 5) + of_nat d - 1) = (word_of_int e :: u32)"
    by (simp add: e_def)
  have se: "sint (word_of_int e :: u32) = e"
    using e by (simp add: signed_take_bit_int_eq_self sint_sbintrunc')
  have Yr: "Y - Y div 400 * 400 = r" by (simp add: r_def minus_div_mult_eq_mod)
  have "days_from_civil y (of_nat m) (of_nat d) = s32 (s32 (s32 (Y div 400 * 146097) + e) - 719468)"
    unfolding days_from_civil_def Let_def sY era Yr mw doy q4 q100 doe se ..
  also have "\<dots> = Y div 400 * 146097 + e - 719468"
    using Y e by (simp add: s32_id)
  also have "\<dots> = civil_days Y ma (int d)"
    using era_split[of Y] by (simp add: e_def civil_days_def r_def)
  finally show ?thesis by (simp add: Y_def ma_def)
qed

text \<open>The closed form counts days: the next date is one day later.\<close>

definition date_days :: "int \<times> nat \<times> nat \<Rightarrow> int" where
  "date_days = (\<lambda>(y, m, d). if m \<le> 2 then civil_days (y - 1) (int m + 9) (int d)
     else civil_days y (int m - 3) (int d))"

lemma div_pred: "0 < (k :: int) \<Longrightarrow> (y - 1) div k = y div k - (if y mod k = 0 then 1 else 0)"
proof -
  assume k: "0 < k"
  have y: "y = k * (y div k) + y mod k" by simp
  show ?thesis
  proof (cases "y mod k = 0")
    case True
    then have "y - 1 = (k - 1) + k * (y div k - 1)"
      using y by (simp add: algebra_simps)
    then have "(y - 1) div k = (y div k - 1) + (k - 1) div k"
      using k by (metis add.commute div_mult_self2 less_le)
    then show ?thesis using k True by (simp add: div_pos_pos_trivial)
  next
    case False
    then have "y - 1 = (y mod k - 1) + k * (y div k)"
      using y by (simp add: algebra_simps)
    moreover have "0 \<le> y mod k - 1" "y mod k - 1 < k"
      using False pos_mod_bound[OF k, of y] pos_mod_sign[OF k, of y] by linarith+
    ultimately have "(y - 1) div k = y div k"
      using k by (metis add.commute add.left_neutral div_mult_self2 div_pos_pos_trivial less_le)
    then show ?thesis using False by simp
  qed
qed

lemma leap_count: "year_days (y - 1) = year_days y - (if leap y then 366 else 365)"
proof -
  have "(100 :: int) dvd 400" "(4 :: int) dvd 100" by simp_all
  then have l: "y mod 400 = 0 \<Longrightarrow> y mod 100 = 0" "y mod 100 = 0 \<Longrightarrow> y mod 4 = 0"
    by (meson dvd_trans mod_eq_0_iff_dvd)+
  have d: "(y - 1) div 4 = y div 4 - (if y mod 4 = 0 then 1 else 0)"
    "(y - 1) div 100 = y div 100 - (if y mod 100 = 0 then 1 else 0)"
    "(y - 1) div 400 = y div 400 - (if y mod 400 = 0 then 1 else 0)"
    by (rule div_pred, simp)+
  consider "y mod 4 \<noteq> 0" "y mod 100 \<noteq> 0" "y mod 400 \<noteq> 0" | "y mod 4 = 0" "y mod 100 \<noteq> 0" "y mod 400 \<noteq> 0"
    | "y mod 4 = 0" "y mod 100 = 0" "y mod 400 \<noteq> 0" | "y mod 4 = 0" "y mod 100 = 0" "y mod 400 = 0"
    using l by metis
  then show ?thesis
    unfolding year_days_def d leap_def by cases (simp_all only: if_True if_False simp_thms, simp_all)
qed

lemma date_days_next:
  assumes "valid_date p"
  shows "date_days (next_day p) = date_days p + 1"
proof -
  obtain y m d where p: "p = (y, m, d)" by (cases p)
  have d: "1 \<le> d" "d \<le> month_days y m" and "1 \<le> m" "m \<le> 12"
    using assms by (auto simp: p valid_date_def)
  then have "m = 1 \<or> m = 2 \<or> m = 3 \<or> m = 4 \<or> m = 5 \<or> m = 6 \<or> m = 7 \<or> m = 8 \<or> m = 9 \<or> m = 10 \<or> m = 11 \<or> m = 12"
    using \<open>1 \<le> m\<close> \<open>m \<le> 12\<close> by (auto simp: le_Suc_eq numeral_eq_Suc)
  with d show ?thesis
    using leap_count[of y] leap_count[of "y + 1"]
    by (elim disjE) (auto simp: p next_day_def date_days_def civil_days_def month_days_def)
qed

lemma next_day_valid: "valid_date p \<Longrightarrow> valid_date (next_day p)"
  by (auto simp: valid_date_def next_day_def month_days_def split: if_splits)

lemma civil_after_Suc [simp]: "civil_after (Suc n) = next_day (civil_after n)"
  by (simp add: civil_after_def)

lemma civil_after_inv:
  "valid_date (civil_after n) \<and> date_days (civil_after n) = int n
   \<and> 1970 \<le> fst (civil_after n) \<and> fst (civil_after n) \<le> 1970 + int n"
proof (induction n)
  case 0
  then show ?case by (simp add: year_days_def civil_after_def valid_date_def month_days_def date_days_def civil_days_def)
next
  case (Suc n)
  have "fst (civil_after n) \<le> fst (next_day (civil_after n))"
    "fst (next_day (civil_after n)) \<le> fst (civil_after n) + 1"
    by (auto simp: next_day_def split: prod.split)
  with Suc have "1970 \<le> fst (next_day (civil_after n))" "fst (next_day (civil_after n)) \<le> 1970 + int (Suc n)"
    by linarith+
  with Suc show ?case
    by (simp add: next_day_valid date_days_next)
qed

lemma days_from_civil_after:
  assumes "n \<le> 60000" "civil_after n = (y, m, d)"
  shows "days_from_civil y (of_nat m) (of_nat d) = int n"
proof -
  have inv: "valid_date (y, m, d)" "date_days (y, m, d) = int n" "1970 \<le> y" "y \<le> 1970 + int n"
    using civil_after_inv[of n] assms(2) by auto
  then have "d \<le> 31"
    by (auto simp: valid_date_def month_days_def split: if_splits)
  then show ?thesis
    using inv assms(1) days_from_civil_closed[of y m d]
    by (auto simp: valid_date_def date_days_def)
qed

lemma epoch_seconds_exact:
  assumes "0 \<le> days" "0 \<le> h" "h < 24" "0 \<le> mi" "mi < 60" "0 \<le> s" "s < 60"
    and "days * 86400 + h * 3600 + mi * 60 + s < 2 ^ 31"
  shows "epoch_seconds days h mi s = days * 86400 + h * 3600 + mi * 60 + s"
  using assms by (simp add: epoch_seconds_def s32_id)

subsection \<open>Raw dates\<close>

lemma raw_year_bounds: "0 \<le> raw_year raw \<and> raw_year raw < 65536"
proof -
  have "push_bit 8 (uint (raw ! 1)) < 2 ^ 16"
    using uint_lt2p[of "raw ! 1"] by (simp add: push_bit_eq_mult)
  moreover have "uint (raw ! 0) < 2 ^ 16"
    using uint_lt2p[of "raw ! 0"] by simp
  ultimately have "uint (raw ! 0) OR push_bit 8 (uint (raw ! 1)) < 2 ^ 16"
    by (intro OR_upper) auto
  then show ?thesis
    by (simp add: raw_year_def)
qed

lemma ucast_year: "ucast (word_of_int (raw_year raw) :: u16) = (word_of_int (raw_year raw) :: u32)"
  using raw_year_bounds[of raw]
  by (intro word_uint_eqI) (simp add: uint_word_of_int_eq take_bit_int_eq_self unsigned_ucast_eq)

subsection \<open>Delays\<close>

lemma delay_loop_least:
  assumes "k \<le> j" "\<not> bt j - start < n" "\<forall>i. k \<le> i \<and> i < j \<longrightarrow> bt i - start < n"
  shows "delay_loop bt start n k = Some j"
  using assms
proof (induction "j - k" arbitrary: k)
  case 0
  then show ?case by (subst delay_loop.simps) simp
next
  case (Suc x)
  then have "delay_loop bt start n (Suc k) = Some j" by simp
  with Suc show ?case by (subst delay_loop.simps) auto
qed

lemma delay_loop_Some:
  assumes "delay_loop bt start n k = Some j"
  shows "k \<le> j \<and> \<not> bt j - start < n"
  using assms
proof (induction rule: delay_loop.raw_induct[rotated 1, consumes 1])
  case (1 rec bt start n k j)
  then show ?case by (fastforce split: if_splits dest: Suc_leD)
qed

lemma ticks_to_wait_value:
  assumes "unat ms \<le> 2 ^ 32 - 56" "ms \<noteq> 0"
  shows "unat (ticks_to_wait ms) = (unat ms + 54) div 55"
proof -
  have sum: "unat (ms + 54) = unat ms + 54"
    using assms by (simp add: unat_word_ariths)
  have t: "unat ((ms + 54) div 55) = (unat ms + 54) div 55"
    by (simp add: unat_div sum)
  have "0 < (unat ms + 54) div 55"
    using assms(2) unat_gt_0[of ms] by (simp add: div_greater_zero_iff)
  then have "ticks_to_wait ms = (ms + 54) div 55"
    using t by (auto simp: ticks_to_wait_def Let_def add.commute)
  with t show ?thesis by simp
qed

text \<open>
  The BIOS counter counts the ticks of the day: \<open>T k\<close> is the number of ticks, from some midnight on, at the
  \<open>k\<close>-th reading, which gives \<open>T k\<close> less the whole days of \<open>1800B0h\<close> ticks. \<open>polled T\<close> says that the clock
  runs and is read at every tick.
\<close>

abbreviation day_ticks :: nat where "day_ticks \<equiv> 0x1800B0"

definition reading :: "(nat \<Rightarrow> nat) \<Rightarrow> nat \<Rightarrow> u32" where
  "reading T k = of_nat (T k mod day_ticks)"

definition next_midnight :: "nat \<Rightarrow> nat" where
  "next_midnight t = day_ticks * Suc (t div day_ticks)"

definition polled :: "(nat \<Rightarrow> nat) \<Rightarrow> bool" where
  "polled T \<longleftrightarrow> (\<forall>i. T (Suc i) \<le> Suc (T i)) \<and> (\<forall>m. \<exists>i. m \<le> T i)"

lemma unat_reading: "unat (reading T k) = T k mod day_ticks"
proof -
  have "T k mod day_ticks < 2 ^ 32" using mod_less_divisor[of day_ticks "T k"] by simp
  then show ?thesis by (simp add: reading_def unat_of_nat)
qed

lemma next_midnight_less: "t < next_midnight t"
  using mod_less_divisor[of day_ticks t] mult_div_mod_eq[of day_ticks t]
  unfolding next_midnight_def mult_Suc_right by linarith

lemma reading_same_day:
  assumes "T k \<le> T i" "T i < next_midnight (T k)"
  shows "unat (reading T i - reading T k) = T i - T k"
proof -
  have "T i div day_ticks < Suc (T k div day_ticks)"
    using assms(2) by (simp add: next_midnight_def less_mult_imp_div_less mult.commute)
  moreover have "T k div day_ticks \<le> T i div day_ticks" using assms(1) by (rule div_le_mono)
  ultimately have q: "T i div day_ticks = T k div day_ticks" by linarith
  note parts = mult_div_mod_eq[of day_ticks "T i", unfolded q] mult_div_mod_eq[of day_ticks "T k"]
  from parts assms(1) have "T k mod day_ticks \<le> T i mod day_ticks" by linarith
  then have "unat (reading T i - reading T k) = T i mod day_ticks - T k mod day_ticks"
    by (simp only: unat_sub word_le_nat_alt unat_reading)
  with parts assms(1) show ?thesis by linarith
qed

lemma reading_at_midnight:
  assumes "T i = next_midnight (T k)" "T k mod day_ticks \<noteq> 0"
  shows "2 ^ 32 - day_ticks < unat (reading T i - reading T k)"
proof -
  have "reading T i = 0" by (simp add: assms(1) reading_def next_midnight_def)
  moreover have "0 < unat (reading T k)" "unat (reading T k) < day_ticks"
    using assms(2) by (simp_all add: unat_reading)
  ultimately show ?thesis by (simp add: unat_sub_if_size[of 0, simplified] word_size)
qed

text \<open>When the wait is over: after \<open>n\<close> ticks or at midnight, whichever is first.\<close>

abbreviation wait_end :: "nat \<Rightarrow> nat \<Rightarrow> nat" where
  "wait_end t n \<equiv> min (t + n) (next_midnight t)"

lemma delay_not_before:
  assumes "mono T" "delay_loop (reading T) (reading T k) n (Suc k) = Some r"
  shows "k < r \<and> wait_end (T k) (unat n) \<le> T r"
proof -
  have r: "k < r" "\<not> reading T r - reading T k < n" using delay_loop_Some[OF assms(2)] by auto
  have le: "T k \<le> T r" using assms(1) r(1) by (simp add: mono_def)
  have "T k + unat n \<le> T r" if "T r < next_midnight (T k)"
    using r(2) reading_same_day[where T = T and k = k and i = r, OF le that] le by (simp add: word_less_nat_alt)
  with r(1) show ?thesis by linarith
qed

lemma polled_hits:
  assumes "mono T" "polled T" "T k < m"
  shows "\<exists>j>k. T j = m \<and> (\<forall>i. k < i \<and> i < j \<longrightarrow> T i < m)"
proof -
  obtain i where i: "m \<le> T i" using assms(2) by (auto simp: polled_def)
  define j where "j = (LEAST j. m \<le> T j)"
  have j: "m \<le> T j" unfolding j_def by (rule LeastI[of _ i]) (rule i)
  have least: "T i' < m" if "i' < j" for i' using that not_less_Least[of i' "\<lambda>j. m \<le> T j"] by (auto simp: j_def)
  have kj: "k < j"
    using j assms(3) monoD[OF assms(1), of j k] by (meson leI le_less_trans not_less)
  then obtain j' where j': "j = Suc j'" by (cases j) auto
  have "T j \<le> Suc (T j')" using assms(2) by (simp add: polled_def j')
  with least[of j'] j have "T j = m" by (simp add: j')
  with kj least show ?thesis by blast
qed

lemma delay_ends_on_time:
  assumes "mono T" "polled T" "0 < unat n" "unat n < 2 ^ 32 - day_ticks" "T k mod day_ticks \<noteq> 0 \<or> unat n < day_ticks"
  shows "\<exists>r>k. delay_loop (reading T) (reading T k) n (Suc k) = Some r \<and> T r = wait_end (T k) (unat n)"
proof -
  let ?m = "wait_end (T k) (unat n)"
  have "T k < ?m" using next_midnight_less assms(3) by simp
  then obtain j where j: "k < j" "T j = ?m" "\<forall>i. k < i \<and> i < j \<longrightarrow> T i < ?m"
    using polled_hits[OF assms(1,2)] by blast
  have before: "reading T i - reading T k < n" if "Suc k \<le> i" "i < j" for i
  proof -
    have "T k \<le> T i" "T i < ?m" using that j(3) assms(1) by (simp_all add: mono_def)
    then show ?thesis using reading_same_day[where T = T and k = k and i = i] unfolding word_less_nat_alt by linarith
  qed
  have "\<not> reading T j - reading T k < n"
  proof (cases "T j < next_midnight (T k)")
    case True
    then have "T j = T k + unat n" using j(2) by simp
    then show ?thesis using reading_same_day[where T = T and k = k and i = j] True by (simp add: word_less_nat_alt)
  next
    case False
    then have m: "T j = next_midnight (T k)" "next_midnight (T k) \<le> T k + unat n" using j(2) by auto
    have "T k mod day_ticks \<noteq> 0"
      using assms(5) m(2) mult_div_mod_eq[of day_ticks "T k"] unfolding next_midnight_def mult_Suc_right by linarith
    from reading_at_midnight[where T = T and i = j and k = k, OF m(1) this] assms(4) show ?thesis by (simp add: word_less_nat_alt)
  qed
  then have "delay_loop (reading T) (reading T k) n (Suc k) = Some j"
    using delay_loop_least[of "Suc k" j "reading T" "reading T k" n] before j(1) by simp
  with j show ?thesis by blast
qed

lemma delay_from_midnight:
  assumes "T k mod day_ticks = 0" "day_ticks \<le> unat n"
  shows "delay_loop (reading T) (reading T k) n (Suc k) = None"
proof (rule ccontr)
  assume "delay_loop (reading T) (reading T k) n (Suc k) \<noteq> None"
  then obtain r where "\<not> reading T r - reading T k < n" using delay_loop_Some by blast
  moreover have "reading T k = 0" using assms(1) by (simp add: reading_def)
  ultimately have "day_ticks \<le> T r mod day_ticks"
    using assms(2) unat_reading[of T r] by (simp add: word_less_nat_alt)
  then show False using mod_less_divisor[of day_ticks "T r"] by simp
qed

section \<open>Properties\<close>

text \<open>
  \<open>days_from_civil\<close> counts days: on the date \<open>n\<close> days after 1970-01-01, by the Gregorian rule
  for the lengths of months and years, it returns \<open>n\<close>. The bound takes in every DOS date (2099-12-31
  is day 47481) and the 32-bit arithmetic never wraps there.
\<close>

theorem days_from_civil_counts_days:
  assumes "n \<le> 60000"
  shows "case civil_after n of (y, m, d) \<Rightarrow> days_from_civil y (of_nat m) (of_nat d) = int n"
  using days_from_civil_after[OF assms] by (auto split: prod.split)

theorem days_from_civil_counts_days_witness:
  "civil_after 59 = (1970, 3, 1) \<and> days_from_civil 1970 3 1 = 59"
proof -
  have "civil_after 59 = (1970, 3, 1)" by code_simp
  with days_from_civil_counts_days[of 59] show ?thesis by simp
qed

text \<open>
  C29. Certificate dates: \<open>mktime\<close> returns the exact number of seconds since 1970 for every valid
  calendar time whose count fits a 32-bit \<open>time_t\<close>, and the clock \<open>gettimeofday\<close> reports agrees with
  it: \<open>epoch_now\<close> is \<open>mktime\<close> of the fields the DOS clock delivers.
\<close>

theorem mktime_exact:
  "epoch_now raw = mktime (Some \<lparr>tm_sec = uint (raw ! 6), tm_min = uint (raw ! 5), tm_hour = uint (raw ! 4),
      tm_mday = uint (raw ! 3), tm_mon = uint (raw ! 2) - 1, tm_year = raw_year raw - 1900\<rparr>)
   \<and> (civil_after n = (tm_year t + 1900, nat (tm_mon t + 1), nat (tm_mday t)) \<and> tm_mon t \<in> {0..11}
      \<and> tm_hour t \<in> {0..23} \<and> tm_min t \<in> {0..59} \<and> tm_sec t \<in> {0..59}
      \<and> int n * 86400 + tm_hour t * 3600 + tm_min t * 60 + tm_sec t < 2 ^ 31
      \<longrightarrow> mktime (Some t) = int n * 86400 + tm_hour t * 3600 + tm_min t * 60 + tm_sec t)"
proof (intro conjI impI, goal_cases)
  case 1
  have "s32 (raw_year raw) = raw_year raw"
    using raw_year_bounds[of raw] by (simp add: s32_id)
  then show ?case
    by (simp add: epoch_now_def mktime_def Let_def unsigned_ucast_eq)
next
  case 2
  then have n: "n \<le> 60000" by simp
  have y: "1970 \<le> tm_year t + 1900" "tm_year t + 1900 \<le> 1970 + int n" and d: "0 < nat (tm_mday t)"
    using civil_after_inv[of n] 2 by (auto simp: valid_date_def)
  have "of_nat (nat (tm_mon t + 1)) = (word_of_int (tm_mon t + 1) :: u32)"
       "of_nat (nat (tm_mday t)) = (word_of_int (tm_mday t) :: u32)"
    using 2 d by (simp_all add: of_nat_nat)
  then have "days_from_civil (s32 (tm_year t + 1900)) (word_of_int (tm_mon t + 1)) (word_of_int (tm_mday t)) = int n"
    using days_from_civil_after[OF n, of "tm_year t + 1900"] 2 y n by (simp add: s32_id)
  then show ?case
    using 2 by (simp add: mktime_def Let_def epoch_seconds_exact)
qed

theorem mktime_exact_witness:
  "mktime (Some \<lparr>tm_sec = 1, tm_min = 2, tm_hour = 3, tm_mday = 1, tm_mon = 2, tm_year = 70\<rparr>) = 5108521"
proof -
  have "civil_after 59 = (1970, 3, 1)" by code_simp
  then show ?thesis
    using mktime_exact[of "[]" 59 "\<lparr>tm_sec = 1, tm_min = 2, tm_hour = 3, tm_mday = 1, tm_mon = 2, tm_year = 70\<rparr>"]
    by simp
qed

text \<open>
  C39. How long \<open>mp_hal_delay_ms\<close> waits, with the BIOS counter as it is: the ticks of the day, back at 0
  every midnight. It never returns before the requested time, rounded up to whole ticks of 55 ms, or before
  midnight if that comes first. Polled at every tick it returns exactly then, except a delay of a
  day or more that starts on the first tick of a day, which never returns.
\<close>

theorem delay_ms_waits:
  assumes "unat ms \<le> 2 ^ 32 - 56" "ms \<noteq> 0" "mono T"
    and "n = (unat ms + 54) div 55" "over = min (T k + n) (next_midnight (T k))"
  shows "(\<forall>e. mp_hal_delay_ms (reading T) ms k = Some e \<longrightarrow> k < e - 1 \<and> over \<le> T (e - 1))
    \<and> (polled T \<longrightarrow>
        (if T k mod 0x1800B0 = 0 \<and> 0x1800B0 \<le> n then mp_hal_delay_ms (reading T) ms k = None
         else \<exists>r>k. mp_hal_delay_ms (reading T) ms k = Some (Suc r) \<and> T r = over))"
proof -
  let ?l = "delay_loop (reading T) (reading T k) (ticks_to_wait ms) (Suc k)"
  have d: "mp_hal_delay_ms (reading T) ms k = map_option Suc ?l"
    using assms(2) by (simp add: mp_hal_delay_ms_def)
  have n: "unat (ticks_to_wait ms) = n" using ticks_to_wait_value[OF assms(1,2)] assms(4) by simp
  have pos: "0 < n" using assms(2,4) unat_gt_0[of ms] by (simp add: div_greater_zero_iff)
  have small: "n < 2 ^ 32 - day_ticks" using assms(1,4) by simp
  note before = delay_not_before[OF assms(3), of k "ticks_to_wait ms", unfolded n]
  note on_time = delay_ends_on_time[OF assms(3), of "ticks_to_wait ms" k, unfolded n, OF _ pos small]
  note stuck = delay_from_midnight[of T k "ticks_to_wait ms", unfolded n]
  show ?thesis
    using before on_time stuck by (fastforce simp: d assms(5))
qed

theorem delay_ms_waits_witness:
  "(\<exists>r>5. mp_hal_delay_ms (reading (\<lambda>i. i)) 100 5 = Some (Suc r) \<and> r = 7)
   \<and> (\<exists>r>0x1800AF. mp_hal_delay_ms (reading (\<lambda>i. i)) 3600000 0x1800AF = Some (Suc r) \<and> r = 0x1800B0)
   \<and> mp_hal_delay_ms (reading (\<lambda>i. i)) 86600000 0 = None"
proof -
  have m: "mono (\<lambda>i::nat. i)" "polled (\<lambda>i. i)" by (auto simp: mono_def polled_def)
  show ?thesis
    using delay_ms_waits[OF _ _ m(1) refl refl, where ms = 100 and k = 5] delay_ms_waits[OF _ _ m(1) refl refl, where ms = 3600000 and k = "0x1800AF"]
      delay_ms_waits[OF _ _ m(1) refl refl, where ms = 86600000 and k = 0] m(2)
    by (simp add: next_midnight_def)
qed

text \<open>
  \<open>time.time_ns()\<close> is \<open>time.time()\<close> in nanoseconds, whatever MicroPython's conversion to seconds
  returns: both read the same fields of the DOS clock and the 64-bit product does not overflow.
\<close>

theorem time_ns_is_time:
  "uint (mp_hal_time_ns sse raw) = uint (mp_time_time_get sse raw) * 1000000000"
proof -
  have u: "uint ((ucast w :: 64 word) * 1000000000) = uint w * 1000000000" for w :: u32
  proof -
    have "uint w * 1000000000 < 2 ^ 64"
      using uint_lt2p[of w] by simp
    then show ?thesis
      by (simp add: uint_word_ariths(3) unsigned_ucast_eq take_bit_eq_mod)
  qed
  show ?thesis
    unfolding mp_hal_time_ns_def u mp_time_time_get_def
    by (simp add: Let_def uc386dos_read_datetime_def ucast_year)
qed

text \<open>
  Limits of the clocks. The 32-bit \<open>time_t\<close> wraps to a negative number of seconds in 2038, although
  the conversion is meant for DOS dates up to 2099; and a delay that is running when the BIOS counter
  restarts at midnight ends at the first reading after it.
\<close>

theorem mktime_wraps_2038:
  "mktime (Some \<lparr>tm_sec = 8, tm_min = 14, tm_hour = 3, tm_mday = 19, tm_mon = 0, tm_year = 138\<rparr>) = - (2 ^ 31)"
  by code_simp

theorem delay_ends_at_midnight:
  "mp_hal_delay_ms (\<lambda>k. if k = 0 then 0x1800AF else 0) 3600000 0 = Some 2"
  by (simp add: mp_hal_delay_ms_def delay_loop.simps ticks_to_wait_def)

end
