(* ===== verification/Dpmi.thy ===== *)
theory Dpmi
  imports Prelude
begin

text \<open>
  The machine under the program: the client's flat 32-bit address space, the register blocks passed
  to interrupts, and the DPMI host.

  \<^item> Memory is a function from addresses to bytes. A store takes effect where \<open>writable\<close> says so;
    elsewhere (ROM, unmapped pages) it is lost, which is what the program's read-back checks look for.
  \<^item> \<open>regs\<close> is the array of eight registers the assembly entry \<open>pktdrv_int_invoke\<close> exchanges, with a
    field per index \<open>R_EAX\<close> to \<open>R_ES\<close>; \<open>rmcs\<close> is the DPMI 0.9 real-mode call structure.
  \<^item> The host (\<open>pktdrv_int_invoke\<close>, \<open>dpmi0301_call_shallow\<close>, the DS selector) is a record of
    functions over an unspecified host state \<open>'h\<close>; they return the carry flag, the registers and the
    new host state, and a real-mode call may change any byte of memory.
\<close>

section \<open>Definitions\<close>

type_synonym mem = "u32 \<Rightarrow> byte"

record regs =
  R_EAX :: u32
  R_EBX :: u32
  R_ECX :: u32
  R_EDX :: u32
  R_ESI :: u32
  R_EDI :: u32
  R_DS :: u32
  R_ES :: u32

definition regs0 :: regs where
  "regs0 = \<lparr>R_EAX = 0, R_EBX = 0, R_ECX = 0, R_EDX = 0, R_ESI = 0, R_EDI = 0, R_DS = 0, R_ES = 0\<rparr>"

record dos_rmcs =
  edi :: u32
  esi :: u32
  ebp :: u32
  reserved :: u32
  ebx :: u32
  edx :: u32
  ecx :: u32
  eax :: u32
  flags :: u16
  es :: u16
  ds :: u16
  fs :: u16
  gs :: u16
  ip :: u16
  cs :: u16
  sp :: u16
  ss :: u16

text \<open>\<open>memset(&rm, 0, sizeof(rm))\<close>.\<close>

definition rmcs0 :: dos_rmcs where
  "rmcs0 = \<lparr>edi = 0, esi = 0, ebp = 0, reserved = 0, ebx = 0, edx = 0, ecx = 0, eax = 0, flags = 0,
     es = 0, ds = 0, fs = 0, gs = 0, ip = 0, cs = 0, sp = 0, ss = 0\<rparr>"

record 'h dpmi =
  writable :: "u32 \<Rightarrow> bool"
  int_invoke :: "u32 \<Rightarrow> regs \<Rightarrow> 'h \<Rightarrow> bool \<times> regs \<times> 'h"
  rm_call :: "dos_rmcs \<Rightarrow> mem \<Rightarrow> 'h \<Rightarrow> bool \<times> dos_rmcs \<times> mem \<times> 'h"
  ds_selector :: u32

definition store :: "('h, 'x) dpmi_scheme \<Rightarrow> u32 \<Rightarrow> byte \<Rightarrow> mem \<Rightarrow> mem" where
  "store d a b m = (if writable d a then m(a := b) else m)"

text \<open>\<open>memcpy\<close> to and from the flat address space.\<close>

fun store_bytes :: "('h, 'x) dpmi_scheme \<Rightarrow> u32 \<Rightarrow> bytes \<Rightarrow> mem \<Rightarrow> mem" where
  "store_bytes d a [] m = m"
| "store_bytes d a (b # bs) m = store_bytes d (a + 1) bs (store d a b m)"

fun load_bytes :: "mem \<Rightarrow> u32 \<Rightarrow> nat \<Rightarrow> bytes" where
  "load_bytes m a 0 = []"
| "load_bytes m a (Suc n) = m a # load_bytes m (a + 1) n"

text \<open>DPMI 0x0002 gives a selector for a real-mode segment, 0x0006 the linear base of a selector.\<close>

definition selector_base :: "('h, 'x) dpmi_scheme \<Rightarrow> u32 \<Rightarrow> 'h \<Rightarrow> bool \<times> u32 \<times> 'h" where
  "selector_base d sel h =
     (let (cf, r, h) = int_invoke d 0x31 (regs0\<lparr>R_EAX := 0x0006, R_EBX := sel\<rparr>) h
      in (cf, push_bit 16 (R_ECX r AND 0xFFFF) OR (R_EDX r AND 0xFFFF), h))"

definition linear_dpmi :: "('h, 'x) dpmi_scheme \<Rightarrow> u32 \<Rightarrow> 'h \<Rightarrow> u32 \<times> 'h" where
  "linear_dpmi d seg h =
     (let (cf, r2, h) = int_invoke d 0x31 (regs0\<lparr>R_EAX := 0x0002, R_EBX := seg\<rparr>) h
      in if cf then (0, h)
         else let (cf, base, h) = selector_base d (R_EAX r2 AND 0xFFFF) h
              in if cf then (0, h) else (base, h))"

section \<open>Lemmas\<close>

lemma length_load_bytes [simp]: "length (load_bytes m a n) = n"
  by (induction n arbitrary: a) auto

lemma load_bytes_Nil [simp]: "load_bytes m a n = [] \<longleftrightarrow> n = 0"
  by (cases n) simp_all

lemma load_bytes_nth: "i < n \<Longrightarrow> load_bytes m a n ! i = m (a + of_nat i)"
proof (induction n arbitrary: a i)
  case (Suc n)
  then show ?case by (cases i) (auto simp: algebra_simps)
qed simp

text \<open>A block that does not wrap around the address space.\<close>

definition in_block :: "u32 \<Rightarrow> nat \<Rightarrow> u32 \<Rightarrow> bool" where
  "in_block a n x \<longleftrightarrow> unat (x - a) < n"

lemma store_other: "x \<noteq> a \<Longrightarrow> store d a b m x = m x"
  by (simp add: store_def)

lemma in_block_Suc: "x \<noteq> a \<Longrightarrow> in_block a (Suc n) x \<longleftrightarrow> in_block (a + 1) n x"
proof -
  assume "x \<noteq> a"
  then have "unat (x - a) = Suc (unat (x - (a + 1)))"
    using unat_minus_one[of "x - a"] unat_gt_0[of "x - a"] by (simp add: algebra_simps)
  then show ?thesis
    by (simp add: in_block_def)
qed

lemma store_bytes_other: "\<not> in_block a (length bs) x \<Longrightarrow> store_bytes d a bs m x = m x"
proof (induction bs arbitrary: a m)
  case (Cons b bs)
  then have "x \<noteq> a" by (auto simp: in_block_def)
  with Cons show ?case by (simp add: in_block_Suc store_other)
qed simp

lemma store_bytes_load:
  assumes "length bs \<le> 2 ^ 32 - 1" "\<forall>x. in_block a (length bs) x \<longrightarrow> writable d x"
  shows "load_bytes (store_bytes d a bs m) a (length bs) = bs"
  using assms
proof (induction bs arbitrary: a m)
  case (Cons b bs)
  have "\<not> in_block (a + 1) (length bs) a"
    using Cons.prems(1) by (simp add: in_block_def unsigned_minus_1_eq_mask mask_eq_exp_minus_1)
  moreover have "writable d a"
    using Cons.prems(2) by (simp add: in_block_def)
  moreover have "\<forall>x. in_block (a + 1) (length bs) x \<longrightarrow> writable d x"
    using Cons.prems(2) in_block_Suc \<open>writable d a\<close> by (metis length_Cons)
  ultimately show ?case
    using Cons by (simp add: store_bytes_other store_def)
qed simp

lemma load_bytes_cong:
  "(\<And>x. in_block a n x \<Longrightarrow> m x = m' x) \<Longrightarrow> n \<le> 2 ^ 32 - 1 \<Longrightarrow> load_bytes m a n = load_bytes m' a n"
  by (intro nth_equalityI) (auto simp: load_bytes_nth in_block_def unat_of_nat take_bit_nat_eq_self)

end
