(* ===== verification/Dos_Int21.thy ===== *)
theory Dos_Int21
  imports Dpmi
begin

text \<open>
  DOS file services from protected mode (\<open>dosint21_uc386dos.c\<close>): a three-byte real-mode thunk
  \<open>CD 21 CB\<close> in conventional memory, a bounce buffer real mode can reach, and one function per INT 21h
  service, each building a real-mode register block and calling through DPMI 0x0301.

  The globals of the file and those it shares with the packet driver form the record \<open>dos\<close>, together
  with memory and the host state. The switch \<open>dos_use_libc_io\<close> is the constant 0 in the source, so its
  branches are not taken, and the \<open>DOS_DBG\<close> macros expand to nothing. A function returns its C
  result, the value left in \<open>*err_out\<close>, and the state.
\<close>

section \<open>Definitions\<close>

record 'h dos =
  d_mem :: mem
  d_host :: 'h
  bounce_seg :: u32
  bounce_linear :: u32
  preallocated_thunk_seg :: u32
  thunk_seg :: u32
  thunk_linear :: u32
  thunk_ready :: bool
  rm_stack_seg :: u32
  rm_stack_bytes :: u32

subsection \<open>Arming the thunk\<close>

definition thunk_code :: bytes where
  "thunk_code = [0xCD, 0x21, 0xCB]"

definition thunk_intact :: "mem \<Rightarrow> u32 \<Rightarrow> bool" where
  "thunk_intact m a \<longleftrightarrow> m a = 0xCD \<and> m (a + 1) = 0x21 \<and> m (a + 2) = 0xCB"

definition thunk_write :: "('h, 'x) dpmi_scheme \<Rightarrow> u32 \<Rightarrow> mem \<Rightarrow> mem" where
  "thunk_write d a m = store d (a + 2) 0xCB (store d (a + 1) 0x21 (store d a 0xCD m))"

text \<open>The loop over the candidate addresses; \<open>None\<close> as the previous candidate in the first round.\<close>

fun thunk_try :: "('h, 'x) dpmi_scheme \<Rightarrow> u32 \<Rightarrow> u32 option \<Rightarrow> u32 list \<Rightarrow> 'h dos \<Rightarrow> int \<times> 'h dos" where
  "thunk_try d seg prev [] s = (-1, s)"
| "thunk_try d seg prev (linear # candidates) s =
     (if linear = 0 \<or> prev = Some linear then thunk_try d seg (Some linear) candidates s
      else let s = s\<lparr>d_mem := thunk_write d linear (d_mem s)\<rparr>
           in if thunk_intact (d_mem s) linear
              then (0, s\<lparr>thunk_seg := seg, thunk_linear := linear, thunk_ready := True\<rparr>)
              else thunk_try d seg (Some linear) candidates s)"

definition dos_int21_thunk_init :: "('h, 'x) dpmi_scheme \<Rightarrow> 'h dos \<Rightarrow> int \<times> 'h dos" where
  "dos_int21_thunk_init d s =
     (if thunk_ready s then (0, s)
      else if preallocated_thunk_seg s = 0 then (-1, s)
      else let seg = preallocated_thunk_seg s;
               (linear, h) = linear_dpmi d seg (d_host s)
           in thunk_try d seg None [linear, push_bit 4 seg] (s\<lparr>d_host := h\<rparr>))"

subsection \<open>The real-mode call\<close>

definition rm_prepare :: "'h dos \<Rightarrow> dos_rmcs \<Rightarrow> dos_rmcs" where
  "rm_prepare s rm =
     (let rm = rm\<lparr>cs := ucast (thunk_seg s), ip := 0\<rparr>;
          rm = (if rm_stack_seg s \<noteq> 0
                then rm\<lparr>ss := ucast (rm_stack_seg s), sp := ucast (rm_stack_bytes s - 2)\<rparr>
                else rm\<lparr>ss := 0, sp := 0\<rparr>)
      in rm\<lparr>flags := 0x0202\<rparr>)"

definition thunk_repair :: "('h, 'x) dpmi_scheme \<Rightarrow> 'h dos \<Rightarrow> mem" where
  "thunk_repair d s =
     (if thunk_linear s \<noteq> 0 \<and> \<not> thunk_intact (d_mem s) (thunk_linear s)
      then thunk_write d (thunk_linear s) (d_mem s) else d_mem s)"

definition dos_int21_call :: "('h, 'x) dpmi_scheme \<Rightarrow> dos_rmcs \<Rightarrow> 'h dos \<Rightarrow> int \<times> dos_rmcs \<times> 'h dos" where
  "dos_int21_call d rm s =
     (let (r, s) = dos_int21_thunk_init d s
      in if r \<noteq> 0 then (-1, rm, s)
         else let (cf, rm, m, h) = rm_call d (rm_prepare s rm) (thunk_repair d s) (d_host s)
              in (if cf then -1 else 0, rm, s\<lparr>d_mem := m, d_host := h\<rparr>))"

subsection \<open>Start-up\<close>

definition dos_client_base :: "('h, 'x) dpmi_scheme \<Rightarrow> 'h \<Rightarrow> u32 \<times> 'h" where
  "dos_client_base d h =
     (let (cf, base, h) = selector_base d (ds_selector d) h in if cf then (0, h) else (base, h))"

definition dos_bounce_resolve :: "('h, 'x) dpmi_scheme \<Rightarrow> 'h dos \<Rightarrow> int \<times> 'h dos" where
  "dos_bounce_resolve d s =
     (if bounce_seg s = 0 then (-1, s)
      else let seg = bounce_seg s;
               linear_shift = push_bit 4 seg;
               (linear, h) = linear_dpmi d seg (d_host s);
               chosen = (if linear \<noteq> 0 then linear else linear_shift);
               (base, h) = dos_client_base d h;
               s = s\<lparr>d_host := h\<rparr>
           in if base \<noteq> 0 \<and> chosen < base then (-1, s)
              else let chosen = (if base \<noteq> 0 then chosen - base else chosen);
                       s = s\<lparr>d_mem := store d (chosen + 1) 0xAA (store d chosen 0x55 (d_mem s))\<rparr>
                   in if d_mem s chosen \<noteq> 0x55 \<or> d_mem s (chosen + 1) \<noteq> 0xAA then (-1, s)
                      else (0, s\<lparr>bounce_linear := chosen\<rparr>))"

fun rm_stack_alloc :: "('h, 'x) dpmi_scheme \<Rightarrow> u32 list \<Rightarrow> 'h dos \<Rightarrow> 'h dos" where
  "rm_stack_alloc d [] s = s"
| "rm_stack_alloc d (p # paras) s =
     (let (cf, r, h) = int_invoke d 0x31 (regs0\<lparr>R_EAX := 0x0100, R_EBX := p\<rparr>) (d_host s);
          s = s\<lparr>d_host := h\<rparr>
      in if \<not> cf then s\<lparr>rm_stack_seg := R_EAX r AND 0xFFFF, rm_stack_bytes := p * 16\<rparr>
         else rm_stack_alloc d paras s)"

text \<open>The mapping probe of the armed thunk: poison the bounce buffer and ask DOS for the directory.\<close>

definition mapping_probe :: "('h, 'x) dpmi_scheme \<Rightarrow> 'h dos \<Rightarrow> 'h dos" where
  "mapping_probe d s =
     (if bounce_linear s \<noteq> 0 \<and> thunk_ready s
      then let s = s\<lparr>d_mem := store_bytes d (bounce_linear s) (replicate 8 0xEE) (d_mem s)\<rparr>;
               rm = rmcs0\<lparr>eax := 0x4700, edx := 0, ds := ucast (bounce_seg s), esi := 0\<rparr>;
               (r, rm, s) = dos_int21_call d rm s
           in s
      else s)"

definition dos_int21_thunk_preinit :: "('h, 'x) dpmi_scheme \<Rightarrow> 'h dos \<Rightarrow> 'h dos" where
  "dos_int21_thunk_preinit d s =
     (let (r, s) = dos_bounce_resolve d s;
          s = rm_stack_alloc d [256, 128, 64, 32] s;
          (r, s) = dos_int21_thunk_init d s
      in if r = 0 then mapping_probe d s else s)"

subsection \<open>File services\<close>

abbreviation DOS_BOUNCE_DATA_OFFSET :: u32 where "DOS_BOUNCE_DATA_OFFSET \<equiv> 1024"
abbreviation DOS_BOUNCE_DATA_MAX :: nat where "DOS_BOUNCE_DATA_MAX \<equiv> 1024"

definition no_bounce :: "'h dos \<Rightarrow> bool" where
  "no_bounce s \<longleftrightarrow> bounce_seg s = 0 \<or> bounce_linear s = 0"

definition ax :: "dos_rmcs \<Rightarrow> int" where
  "ax rm = uint (eax rm AND 0xFFFF)"

definition carry :: "dos_rmcs \<Rightarrow> bool" where
  "carry rm \<longleftrightarrow> flags rm AND 1 \<noteq> 0"

text \<open>The tail the services share: a failed gate is \<open>-1\<close>; CF gives \<open>-1\<close> and the DOS error code.\<close>

definition int21_result :: "('h, 'x) dpmi_scheme \<Rightarrow> dos_rmcs \<Rightarrow> 'h dos \<Rightarrow> (dos_rmcs \<Rightarrow> int) \<Rightarrow> int \<times> int \<times> 'h dos" where
  "int21_result d rm s result =
     (let (r, rm, s) = dos_int21_call d rm s
      in if r \<noteq> 0 then (-1, 0, s)
         else if carry rm then (-1, ax rm, s)
         else (result rm, 0, s))"

definition dos_int21_open :: "('h, 'x) dpmi_scheme \<Rightarrow> bytes \<Rightarrow> u32 \<Rightarrow> 'h dos \<Rightarrow> int \<times> int \<times> 'h dos" where
  "dos_int21_open d path dos_access_mode s =
     (if no_bounce s then (-1, 0, s)
      else if length path \<ge> 1024 then (-1, 0, s)
      else let s = s\<lparr>d_mem := store_bytes d (bounce_linear s) (path @ [0]) (d_mem s)\<rparr>;
               rm = rmcs0\<lparr>eax := 0x3D00 OR (dos_access_mode AND 0xFF), ds := ucast (bounce_seg s), edx := 0\<rparr>
           in int21_result d rm s ax)"

definition dos_int21_creat :: "('h, 'x) dpmi_scheme \<Rightarrow> bytes \<Rightarrow> 'h dos \<Rightarrow> int \<times> int \<times> 'h dos" where
  "dos_int21_creat d path s =
     (if no_bounce s then (-1, 0, s)
      else if length path \<ge> 1024 then (-1, 0, s)
      else let s = s\<lparr>d_mem := store_bytes d (bounce_linear s) (path @ [0]) (d_mem s)\<rparr>;
               rm = rmcs0\<lparr>eax := 0x3C00, ecx := 0, ds := ucast (bounce_seg s), edx := 0\<rparr>
           in int21_result d rm s ax)"

text \<open>\<open>read\<close> also delivers the bytes it copies to the caller's buffer.\<close>

definition dos_int21_read :: "('h, 'x) dpmi_scheme \<Rightarrow> u32 \<Rightarrow> nat \<Rightarrow> 'h dos \<Rightarrow> int \<times> bytes \<times> int \<times> 'h dos" where
  "dos_int21_read d fd count s =
     (if no_bounce s then (-1, [], 0, s)
      else if count = 0 then (0, [], 0, s)
      else let count = (if count > DOS_BOUNCE_DATA_MAX then DOS_BOUNCE_DATA_MAX else count);
               rm = rmcs0\<lparr>eax := 0x3F00, ebx := fd, ecx := of_nat count, ds := ucast (bounce_seg s),
                          edx := DOS_BOUNCE_DATA_OFFSET\<rparr>;
               (r, rm, s) = dos_int21_call d rm s
           in if r \<noteq> 0 then (-1, [], 0, s)
              else if carry rm then (-1, [], ax rm, s)
              else let n = nat (ax rm);
                       n = (if n > count then count else n)
                   in (int n, load_bytes (d_mem s) (bounce_linear s + DOS_BOUNCE_DATA_OFFSET) n, 0, s))"

definition dos_int21_write :: "('h, 'x) dpmi_scheme \<Rightarrow> u32 \<Rightarrow> bytes \<Rightarrow> 'h dos \<Rightarrow> int \<times> int \<times> 'h dos" where
  "dos_int21_write d fd buf s =
     (if no_bounce s then (-1, 0, s)
      else if length buf = 0 then (0, 0, s)
      else let count = (if length buf > DOS_BOUNCE_DATA_MAX then DOS_BOUNCE_DATA_MAX else length buf);
               s = s\<lparr>d_mem := store_bytes d (bounce_linear s + DOS_BOUNCE_DATA_OFFSET) (take count buf) (d_mem s)\<rparr>;
               rm = rmcs0\<lparr>eax := 0x4000, ebx := fd, ecx := of_nat count, ds := ucast (bounce_seg s),
                          edx := DOS_BOUNCE_DATA_OFFSET\<rparr>
           in int21_result d rm s ax)"

definition dos_int21_close :: "('h, 'x) dpmi_scheme \<Rightarrow> u32 \<Rightarrow> 'h dos \<Rightarrow> int \<times> int \<times> 'h dos" where
  "dos_int21_close d fd s = int21_result d (rmcs0\<lparr>eax := 0x3E00, ebx := fd\<rparr>) s (\<lambda>_. 0)"

definition seek_result :: "dos_rmcs \<Rightarrow> int" where
  "seek_result rm = sint (push_bit 16 (edx rm AND 0xFFFF) OR (eax rm AND 0xFFFF))"

definition dos_int21_lseek :: "('h, 'x) dpmi_scheme \<Rightarrow> u32 \<Rightarrow> int \<Rightarrow> u32 \<Rightarrow> 'h dos \<Rightarrow> int \<times> int \<times> 'h dos" where
  "dos_int21_lseek d fd offset whence s =
     (let off = (word_of_int offset :: u32)
      in int21_result d (rmcs0\<lparr>eax := 0x4200 OR (whence AND 0xFF), ebx := fd,
             ecx := drop_bit 16 off AND 0xFFFF, edx := off AND 0xFFFF\<rparr>) s seek_result)"

definition dos_int21_fsize :: "('h, 'x) dpmi_scheme \<Rightarrow> u32 \<Rightarrow> 'h dos \<Rightarrow> int \<times> 'h dos" where
  "dos_int21_fsize d fd s =
     (let (cur, e, s) = dos_int21_lseek d fd 0 1 s
      in if cur < 0 then (-1, s)
         else let (end, e, s) = dos_int21_lseek d fd 0 2 s
              in if end < 0 then (-1, s)
                 else let (r, e, s) = dos_int21_lseek d fd cur 0 s in (end, s))"

section \<open>Lemmas\<close>

text \<open>The globals a DOS call never changes once the program is set up.\<close>

definition same_setup :: "'h dos \<Rightarrow> 'h dos \<Rightarrow> bool" where
  "same_setup s t \<longleftrightarrow> bounce_seg t = bounce_seg s \<and> bounce_linear t = bounce_linear s
     \<and> preallocated_thunk_seg t = preallocated_thunk_seg s
     \<and> rm_stack_seg t = rm_stack_seg s \<and> rm_stack_bytes t = rm_stack_bytes s"

text \<open>An armed thunk has a paragraph and an address.\<close>

definition thunk_inv :: "'h dos \<Rightarrow> bool" where
  "thunk_inv s \<longleftrightarrow> (thunk_ready s \<longrightarrow>
     thunk_linear s \<noteq> 0 \<and> thunk_seg s = preallocated_thunk_seg s \<and> thunk_seg s \<noteq> 0)"

lemma same_setup_refl [simp]: "same_setup s s"
  by (simp add: same_setup_def)

lemma thunk_try_result:
  assumes "thunk_try d seg prev cands s = (r, t)" "\<not> thunk_ready s"
  shows "same_setup s t \<and>
    (r = 0 \<and> thunk_ready t \<and> thunk_seg t = seg \<and> thunk_linear t \<in> set cands - {0}
       \<and> thunk_intact (d_mem t) (thunk_linear t)
     \<or> r = -1 \<and> \<not> thunk_ready t)"
  using assms
proof (induction cands arbitrary: prev s)
  case (Cons c cands)
  show ?case
  proof (cases "c = 0 \<or> prev = Some c")
    case True
    with Cons show ?thesis by auto
  next
    case False
    let ?s = "s\<lparr>d_mem := thunk_write d c (d_mem s)\<rparr>"
    show ?thesis
    proof (cases "thunk_intact (d_mem ?s) c")
      case True
      with False Cons.prems show ?thesis
        by (auto simp: same_setup_def Let_def)
    next
      case bad: False
      with False Cons.prems Cons.IH[of "Some c" ?s] show ?thesis
        by (auto simp: same_setup_def Let_def)
    qed
  qed
qed auto

lemma thunk_init_result:
  assumes "dos_int21_thunk_init d s = (r, t)" "thunk_inv s"
  shows "same_setup s t \<and> thunk_inv t \<and>
    (r = 0 \<and> thunk_ready t \<and> (thunk_ready s \<and> t = s \<or> thunk_intact (d_mem t) (thunk_linear t))
     \<or> r = -1 \<and> \<not> thunk_ready t)"
proof (cases "thunk_ready s \<or> preallocated_thunk_seg s = 0")
  case False
  obtain linear h where l: "linear_dpmi d (preallocated_thunk_seg s) (d_host s) = (linear, h)"
    by (cases "linear_dpmi d (preallocated_thunk_seg s) (d_host s)")
  have "thunk_try d (preallocated_thunk_seg s) None [linear, push_bit 4 (preallocated_thunk_seg s)]
      (s\<lparr>d_host := h\<rparr>) = (r, t)"
    using assms(1) False l by (simp add: dos_int21_thunk_init_def Let_def)
  from thunk_try_result[OF this] False show ?thesis
    by (auto simp: thunk_inv_def same_setup_def)
qed (use assms in \<open>auto simp: dos_int21_thunk_init_def thunk_inv_def split: if_splits\<close>)

lemma thunk_write_intact:
  assumes "writable d a" "writable d (a + 1)" "writable d (a + 2)"
  shows "thunk_intact (thunk_write d a m) a"
  using assms by (simp add: thunk_intact_def thunk_write_def store_def)

lemma thunk_intact_load: "load_bytes m a 3 = thunk_code \<longleftrightarrow> thunk_intact m a"
proof -
  have "load_bytes m a 3 = [m a, m (a + 1), m (a + 2)]"
    by (simp add: numeral_3_eq_3 add.commute)
  then show ?thesis by (simp add: thunk_code_def thunk_intact_def)
qed

lemma thunk_repair_intact:
  assumes "thunk_linear s \<noteq> 0" "\<forall>i<3. writable d (thunk_linear s + of_nat i)"
  shows "thunk_intact (thunk_repair d s) (thunk_linear s)"
proof -
  have "writable d (thunk_linear s)" "writable d (thunk_linear s + 1)" "writable d (thunk_linear s + 2)"
    using assms(2)[rule_format, of 0] assms(2)[rule_format, of 1] assms(2)[rule_format, of 2] by auto
  with assms(1) show ?thesis
    by (simp add: thunk_repair_def thunk_write_intact)
qed

text \<open>What a call hands to the DPMI host, or \<open>None\<close> when the thunk cannot be armed.\<close>

definition int21_dispatch :: "('h, 'x) dpmi_scheme \<Rightarrow> dos_rmcs \<Rightarrow> 'h dos \<Rightarrow> (dos_rmcs \<times> mem \<times> 'h) option" where
  "int21_dispatch d rm s =
     (let (r, s) = dos_int21_thunk_init d s
      in if r \<noteq> 0 then None else Some (rm_prepare s rm, thunk_repair d s, d_host s))"

lemma int21_call_dispatch:
  "dos_int21_call d rm s =
     (let s' = snd (dos_int21_thunk_init d s)
      in case int21_dispatch d rm s of
           None \<Rightarrow> (-1, rm, s')
         | Some (p, m, h) \<Rightarrow>
             let (cf, rm', m', h') = rm_call d p m h
             in (if cf then -1 else 0, rm', s'\<lparr>d_mem := m', d_host := h'\<rparr>))"
  by (auto simp: dos_int21_call_def int21_dispatch_def Let_def split: prod.split)

lemma int21_dispatch_ready:
  "thunk_ready s \<Longrightarrow> int21_dispatch d rm s = Some (rm_prepare s rm, thunk_repair d s, d_host s)"
  by (simp add: int21_dispatch_def dos_int21_thunk_init_def)

lemma int21_call_setup: "dos_int21_call d rm s = (r, rm', t) \<Longrightarrow> thunk_inv s \<Longrightarrow> same_setup s t \<and> thunk_inv t"
  using thunk_init_result[of d s]
  by (cases "dos_int21_thunk_init d s")
    (fastforce simp: dos_int21_call_def Let_def same_setup_def thunk_inv_def split: prod.splits if_splits)

text \<open>A DOS call on an armed thunk, in one equation.\<close>

lemma int21_result_ready:
  assumes "thunk_ready s" "rm_call d (rm_prepare s rm) (thunk_repair d s) (d_host s) = (False, rm', m', h')"
  shows "int21_result d rm s result =
    (if carry rm' then (-1, ax rm', s\<lparr>d_mem := m', d_host := h'\<rparr>)
     else (result rm', 0, s\<lparr>d_mem := m', d_host := h'\<rparr>))"
  using assms by (simp add: int21_result_def dos_int21_call_def dos_int21_thunk_init_def Let_def)

lemma ax_bounds: "0 \<le> ax rm \<and> ax rm \<le> 0xFFFF"
proof -
  have "eax rm AND 0xFFFF \<le> 0xFFFF" by (rule word_and_le1)
  then show ?thesis by (simp add: ax_def word_le_def)
qed

lemma thunk_repair_other: "\<not> in_block (thunk_linear s) 3 x \<Longrightarrow> thunk_repair d s x = d_mem s x"
  using in_block_def[of "thunk_linear s" 3 x]
  by (auto simp: thunk_repair_def thunk_write_def store_def)

lemma rm_prepare_regs [simp]:
  "eax (rm_prepare s rm) = eax rm" "ebx (rm_prepare s rm) = ebx rm" "ecx (rm_prepare s rm) = ecx rm"
  "edx (rm_prepare s rm) = edx rm" "ds (rm_prepare s rm) = ds rm"
  by (simp_all add: rm_prepare_def Let_def)

lemma ah_al [simp]:
  "(0x3D00 OR (x AND 0xFF)) AND 0xFF00 = (0x3D00 :: u32)" "(0x3D00 OR (x AND 0xFF)) AND 0xFF = (x AND 0xFF :: u32)"
  "(0x4200 OR (x AND 0xFF)) AND 0xFF00 = (0x4200 :: u32)" "(0x4200 OR (x AND 0xFF)) AND 0xFF = (x AND 0xFF :: u32)"
  by (simp_all add: bit.conj_disj_distrib2 and.assoc)

text \<open>A 32-bit value in two 16-bit registers.\<close>

lemma high_low: "push_bit 16 (drop_bit 16 x AND 0xFFFF) OR (x AND 0xFFFF) = (x :: u32)"
proof -
  have "y AND 0xFFFF = take_bit 16 y" for y :: u32
    by (simp add: take_bit_eq_mask mask_eq_exp_minus_1)
  then show ?thesis
    by (intro bit_word_eqI) (auto simp: bit_simps)
qed

lemma sint_small: "uint x < 2 ^ 31 \<Longrightarrow> sint x = uint x" for x :: u32
  by (simp add: sint_uint signed_take_bit_int_eq_self order.trans[OF _ uint_ge_0])

lemma int21_dispatch_safe:
  assumes "thunk_inv s" "int21_dispatch d rm s = Some (p, m, h)"
    and "\<forall>i<3. writable d (thunk_linear (snd (dos_int21_thunk_init d s)) + of_nat i)"
  shows "load_bytes m (thunk_linear (snd (dos_int21_thunk_init d s))) 3 = thunk_code
    \<and> cs p = ucast (preallocated_thunk_seg s) \<and> ip p = 0 \<and> flags p = 0x0202
    \<and> (if rm_stack_seg s \<noteq> 0 then ss p = ucast (rm_stack_seg s) \<and> sp p = ucast (rm_stack_bytes s - 2)
       else ss p = 0 \<and> sp p = 0)
    \<and> eax p = eax rm \<and> ebx p = ebx rm \<and> ecx p = ecx rm \<and> edx p = edx rm \<and> ds p = ds rm"
proof -
  obtain r t where *: "dos_int21_thunk_init d s = (r, t)" by (cases "dos_int21_thunk_init d s")
  have t: "thunk_ready t" "thunk_inv t" "same_setup s t" "p = rm_prepare t rm" "m = thunk_repair d t"
    using thunk_init_result[OF * assms(1)] assms(2) * by (auto simp: int21_dispatch_def split: if_splits)
  then have "thunk_intact m (thunk_linear t)"
    using thunk_repair_intact[of t d] assms(3) * by (auto simp: thunk_inv_def)
  then have "load_bytes m (thunk_linear t) 3 = thunk_code"
    by (simp only: thunk_intact_load)
  then show ?thesis
    using t * by (auto simp: rm_prepare_def Let_def thunk_inv_def same_setup_def)
qed

text \<open>Arming and repairing the thunk make no real-mode call.\<close>

lemma linear_dpmi_rm_call: "linear_dpmi (d\<lparr>rm_call := rc\<rparr>) seg h = linear_dpmi d seg h"
  by (simp add: linear_dpmi_def selector_base_def split_beta)

lemma thunk_write_rm_call: "thunk_write (d\<lparr>rm_call := rc\<rparr>) a m = thunk_write d a m"
  by (simp add: thunk_write_def store_def)

lemma thunk_try_rm_call: "thunk_try (d\<lparr>rm_call := rc\<rparr>) seg prev cands s = thunk_try d seg prev cands s"
  by (induction cands arbitrary: prev s) (simp_all add: thunk_write_rm_call Let_def)

lemma thunk_rm_call:
  "dos_int21_thunk_init (d\<lparr>rm_call := rc\<rparr>) s = dos_int21_thunk_init d s"
  "thunk_repair (d\<lparr>rm_call := rc\<rparr>) s = thunk_repair d s"
  by (simp_all del: thunk_try.simps
      add: dos_int21_thunk_init_def thunk_repair_def linear_dpmi_rm_call thunk_try_rm_call thunk_write_rm_call Let_def)

section \<open>Properties\<close>

text \<open>
  Arming the thunk. From a state whose thunk, if armed, has a paragraph and an address,
  \<open>dos_int21_thunk_init\<close> returns 0 exactly when the thunk is armed afterwards, and a thunk armed by
  this call has been read back: the bytes \<open>CD 21 CB\<close> stand at its address.
  Otherwise it returns \<open>-1\<close> and the thunk stays unarmed. The other globals are unchanged.
\<close>

theorem thunk_init_armed:
  assumes "thunk_inv s"
  shows "case dos_int21_thunk_init d s of (r, t) \<Rightarrow>
    thunk_inv t \<and> same_setup s t
    \<and> (if thunk_ready t then r = 0 \<and> (thunk_ready s \<or> load_bytes (d_mem t) (thunk_linear t) 3 = thunk_code)
       else r = -1)"
proof -
  obtain r t where *: "dos_int21_thunk_init d s = (r, t)" by (cases "dos_int21_thunk_init d s")
  then show ?thesis
    using thunk_init_result[OF * assms] by (auto simp: thunk_intact_load)
qed

text \<open>A machine for the witnesses: everything is writable, segments map to \<open>seg << 4\<close>, and a
  real-mode call runs the given service.\<close>

definition flat_host :: "(dos_rmcs \<Rightarrow> mem \<Rightarrow> dos_rmcs \<times> mem) \<Rightarrow> unit dpmi" where
  "flat_host f = \<lparr>writable = (\<lambda>_. True),
     int_invoke = (\<lambda>n r h. (False, r\<lparr>R_ECX := 0, R_EDX := push_bit 4 (R_EBX r), R_EAX := R_EBX r\<rparr>, h)),
     rm_call = (\<lambda>p m h. (False, fst (f p m), snd (f p m), h)), ds_selector = 0\<rparr>"

definition demo_state :: "bool \<Rightarrow> unit dos" where
  "demo_state ready = \<lparr>d_mem = (\<lambda>_. 0), d_host = (), bounce_seg = 0x1000, bounce_linear = 0x10000,
     preallocated_thunk_seg = 0x800, thunk_seg = (if ready then 0x800 else 0),
     thunk_linear = (if ready then 0x8000 else 0), thunk_ready = ready,
     rm_stack_seg = 0x2000, rm_stack_bytes = 4096\<rparr>"

theorem thunk_init_armed_witness:
  "load_bytes (d_mem (snd (dos_int21_thunk_init (flat_host (\<lambda>p m. (p, m))) (demo_state False))))
     (thunk_linear (snd (dos_int21_thunk_init (flat_host (\<lambda>p m. (p, m))) (demo_state False)))) 3 = thunk_code"
proof -
  have "thunk_inv (demo_state False)" by (simp add: thunk_inv_def demo_state_def)
  moreover have "thunk_ready (snd (dos_int21_thunk_init (flat_host (\<lambda>p m. (p, m))) (demo_state False)))"
    by code_simp
  moreover have "\<not> thunk_ready (demo_state False)" by (simp add: demo_state_def)
  ultimately show ?thesis
    using thunk_init_armed[of "demo_state False" "flat_host (\<lambda>p m. (p, m))"] by (auto split: prod.splits)
qed

text \<open>
  C1. No real-mode call into garbage. When the thunk cannot be armed, \<open>dos_int21_call\<close> fails without
  a call, whatever the DPMI gate would do. Otherwise it makes one call, whose registers and memory are
  fixed before the gate answers: CS:IP is the start of the thunk paragraph, interrupts are enabled, SS:SP
  is two bytes below the top of the program's own real-mode stack (or 0:0, for a stack of the host, when
  it has none), the service's registers are the caller's, and the three bytes at the thunk's address are
  \<open>CD 21 CB\<close>, repaired if something overwrote them. Its result is what the gate answers.
\<close>

theorem int21_call_safe_dispatch:
  assumes "thunk_inv s" "dos_int21_thunk_init d s = (r, t)" "\<forall>i<3. writable d (thunk_linear t + of_nat i)"
  shows "if r \<noteq> 0 then \<forall>rc. dos_int21_call (d\<lparr>rm_call := rc\<rparr>) rm s = (-1, rm, t)
    else \<exists>p m. (\<forall>rc. dos_int21_call (d\<lparr>rm_call := rc\<rparr>) rm s
          = (case rc p m (d_host t) of (cf, rm', m', h') \<Rightarrow> (if cf then -1 else 0, rm', t\<lparr>d_mem := m', d_host := h'\<rparr>)))
      \<and> load_bytes m (thunk_linear t) 3 = thunk_code
      \<and> cs p = ucast (preallocated_thunk_seg s) \<and> ip p = 0 \<and> flags p = 0x0202
      \<and> (if rm_stack_seg s \<noteq> 0 then ss p = ucast (rm_stack_seg s) \<and> sp p = ucast (rm_stack_bytes s - 2)
         else ss p = 0 \<and> sp p = 0)
      \<and> eax p = eax rm \<and> ebx p = ebx rm \<and> ecx p = ecx rm \<and> edx p = edx rm \<and> ds p = ds rm"
proof (cases "r = 0")
  case True
  have "int21_dispatch d rm s = Some (rm_prepare t rm, thunk_repair d t, d_host t)"
    using assms(2) True by (simp add: int21_dispatch_def)
  from int21_dispatch_safe[OF assms(1) this] assms(2,3) True show ?thesis
    by (auto simp: dos_int21_call_def thunk_rm_call Let_def intro!: exI[of _ "rm_prepare t rm"] exI[of _ "thunk_repair d t"]
        split: prod.split)
next
  case False
  with assms(2) show ?thesis by (simp add: dos_int21_call_def thunk_rm_call)
qed

theorem int21_call_safe_dispatch_witness:
  "\<exists>p m. dos_int21_call (flat_host (\<lambda>p m. (p, m))) (rmcs0\<lparr>eax := 0x3E00\<rparr>) (demo_state True) = (0, p, (demo_state True)\<lparr>d_mem := m\<rparr>)
     \<and> load_bytes m 0x8000 3 = thunk_code \<and> cs p = 0x800 \<and> ss p = 0x2000 \<and> sp p = 4094"
proof -
  let ?d = "flat_host (\<lambda>p m. (p, m))" and ?s = "demo_state True"
  have i: "thunk_inv ?s" by (simp add: thunk_inv_def demo_state_def)
  have t: "dos_int21_thunk_init ?d ?s = (0, ?s)" by (simp add: dos_int21_thunk_init_def demo_state_def)
  have w: "\<forall>i<3. writable ?d (thunk_linear ?s + of_nat i)" by (simp add: flat_host_def)
  obtain p m where c: "\<And>rc. dos_int21_call (?d\<lparr>rm_call := rc\<rparr>) (rmcs0\<lparr>eax := 0x3E00\<rparr>) ?s
      = (case rc p m (d_host ?s) of (cf, rm', m', h') \<Rightarrow> (if cf then -1 else 0, rm', ?s\<lparr>d_mem := m', d_host := h'\<rparr>))"
    and p: "load_bytes m 0x8000 3 = thunk_code" "cs p = 0x800" "ss p = 0x2000" "sp p = 4094"
    using int21_call_safe_dispatch[OF i t w, of "rmcs0\<lparr>eax := 0x3E00\<rparr>"] by (auto simp: demo_state_def)
  have "?d\<lparr>rm_call := rm_call ?d\<rparr> = ?d" by simp
  with c[of "rm_call ?d"] have "dos_int21_call ?d (rmcs0\<lparr>eax := 0x3E00\<rparr>) ?s = (0, p, ?s\<lparr>d_mem := m\<rparr>)"
    by (simp add: flat_host_def)
  with p show ?thesis by blast
qed

text \<open>
  Reads stay in bounds. Whatever the host does, \<open>dos_int21_read\<close> fails with \<open>-1\<close> and delivers
  nothing, or its result is the number of bytes delivered, which is at most the count asked for and
  at most the 1024 bytes of the data half of the bounce buffer, whose first bytes they are.
\<close>

theorem read_bounded:
  "case dos_int21_read d fd count s of (r, data, err, t) \<Rightarrow>
     (r = -1 \<and> data = [])
     \<or> (r = int (length data) \<and> length data \<le> min count 1024
        \<and> data = load_bytes (d_mem t) (bounce_linear t + 1024) (length data))"
  by (auto simp: dos_int21_read_def Let_def split: prod.split)

text \<open>
  C40. Opening a file asks DOS for it. Suppose the DPMI host answers INT 21h AH=3Dh by looking up the
  ASCIIZ name it finds at DS:DX, with a handle or an error code (the service \<open>f\<close>). With the thunk
  armed and the bounce buffer writable and clear of the thunk, \<open>dos_int21_open\<close> returns exactly the
  handle of the path and access mode it was given, or \<open>-1\<close> with the DOS error code.
\<close>

definition dos_open_service :: "('h, 'x) dpmi_scheme \<Rightarrow> 'h dos \<Rightarrow> (bytes \<Rightarrow> u32 \<Rightarrow> u16 + u16) \<Rightarrow> bool" where
  "dos_open_service d s f \<longleftrightarrow>
     (\<forall>p m h path. eax p AND 0xFF00 = 0x3D00 \<and> ds p = ucast (bounce_seg s) \<and> edx p = 0 \<and> 0 \<notin> set path
        \<and> load_bytes m (bounce_linear s) (length path + 1) = path @ [0]
      \<longrightarrow> (case rm_call d p m h of (cf, p', _, _) \<Rightarrow> \<not> cf \<and>
             (case f path (eax p AND 0xFF) of
                Inl e \<Rightarrow> carry p' \<and> ax p' = uint e
              | Inr fd \<Rightarrow> \<not> carry p' \<and> ax p' = uint fd)))"

lemma dos_open_serviceD:
  "dos_open_service d s f \<Longrightarrow> eax p AND 0xFF00 = 0x3D00 \<Longrightarrow> ds p = ucast (bounce_seg s) \<Longrightarrow> edx p = 0 \<Longrightarrow>
   0 \<notin> set path \<Longrightarrow> load_bytes m (bounce_linear s) (length path + 1) = path @ [0] \<Longrightarrow>
   rm_call d p m h = (cf, p', m', h') \<Longrightarrow>
   \<not> cf \<and> (case f path (eax p AND 0xFF) of
      Inl e \<Rightarrow> carry p' \<and> ax p' = uint e | Inr fd \<Rightarrow> \<not> carry p' \<and> ax p' = uint fd)"
  unfolding dos_open_service_def by (drule spec[of _ p], drule spec[of _ m], drule spec[of _ h], drule spec[of _ path]) simp

theorem open_asks_dos:
  assumes "dos_open_service d s f" "thunk_ready s" "\<not> no_bounce s" "length path < 1024" "0 \<notin> set path"
    and "\<forall>x. in_block (bounce_linear s) 1024 x \<longrightarrow> writable d x \<and> \<not> in_block (thunk_linear s) 3 x"
  shows "case dos_int21_open d path mode s of (r, err, t) \<Rightarrow>
    (case f path (mode AND 0xFF) of Inl e \<Rightarrow> r = -1 \<and> err = uint e | Inr fd \<Rightarrow> r = uint fd \<and> err = 0)"
proof -
  define s1 where "s1 = s\<lparr>d_mem := store_bytes d (bounce_linear s) (path @ [0]) (d_mem s)\<rparr>"
  define rm where "rm = rmcs0\<lparr>eax := 0x3D00 OR (mode AND 0xFF), ds := ucast (bounce_seg s), edx := 0\<rparr>"
  have blk: "in_block (bounce_linear s) (length path + 1) x \<Longrightarrow> in_block (bounce_linear s) 1024 x" for x
    using assms(4) by (simp add: in_block_def)
  have "load_bytes (thunk_repair d s1) (bounce_linear s) (length path + 1)
      = load_bytes (d_mem s1) (bounce_linear s) (length path + 1)"
    using assms(4,6) blk by (intro load_bytes_cong thunk_repair_other) (auto simp: s1_def)
  also have "\<dots> = path @ [0]"
    using assms(4,6) blk store_bytes_load[of "path @ [0]" "bounce_linear s" d "d_mem s"] by (simp add: s1_def)
  finally have l: "load_bytes (thunk_repair d s1) (bounce_linear s) (length path + 1) = path @ [0]" .
  obtain cf p' m' h' where c: "rm_call d (rm_prepare s1 rm) (thunk_repair d s1) (d_host s1) = (cf, p', m', h')"
    by (cases "rm_call d (rm_prepare s1 rm) (thunk_repair d s1) (d_host s1)")
  have svc: "\<not> cf \<and> (case f path (mode AND 0xFF) of
      Inl e \<Rightarrow> carry p' \<and> ax p' = uint e | Inr fd \<Rightarrow> \<not> carry p' \<and> ax p' = uint fd)"
    using dos_open_serviceD[OF assms(1) _ _ _ assms(5) l c] by (simp add: rm_def)
  moreover have "dos_int21_open d path mode s = int21_result d rm s1 ax"
    using assms(3,4) by (simp add: dos_int21_open_def Let_def s1_def rm_def)
  ultimately show ?thesis
    using int21_result_ready[of s1 d rm p' m' h' ax] c assms(2)
    by (auto simp: s1_def split: sum.splits)
qed

theorem open_asks_dos_witness:
  "fst (dos_int21_open (flat_host (\<lambda>p m. (p\<lparr>eax := 5, flags := 0\<rparr>, m))) (str ''MAIN.PY'') 0 (demo_state True)) = 5"
proof -
  let ?d = "flat_host (\<lambda>p m. (p\<lparr>eax := 5, flags := 0\<rparr>, m))" and ?s = "demo_state True"
  have a: "dos_open_service ?d ?s (\<lambda>_ _. Inr 5)"
    by (simp add: dos_open_service_def flat_host_def carry_def ax_def)
  have b: "thunk_ready ?s" "\<not> no_bounce ?s" by (simp_all add: demo_state_def no_bounce_def)
  have c: "length (str ''MAIN.PY'') < 1024" "0 \<notin> set (str ''MAIN.PY'')" by code_simp+
  have "\<not> in_block 0x8000 3 x" if "in_block 0x10000 1024 x" for x :: u32
  proof -
    have "unat ((x - 0x10000) + 0x8000) = unat (x - 0x10000) + 0x8000"
      using that unfolding in_block_def by (subst unat_word_ariths(1)) simp
    then have "unat (x - 0x8000) = unat (x - 0x10000) + 0x8000" by simp
    then show ?thesis by (simp add: in_block_def)
  qed
  then have e: "\<forall>x. in_block (bounce_linear ?s) 1024 x \<longrightarrow> writable ?d x \<and> \<not> in_block (thunk_linear ?s) 3 x"
    by (simp add: demo_state_def flat_host_def)
  show ?thesis
    using open_asks_dos[OF a b c e, of 0] by (auto split: prod.splits)
qed

text \<open>
  C27. File sizes. Suppose the host answers INT 21h AH=42h as DOS documents it: the 32-bit offset in
  CX:DX is added to 0, the position or the size, the sum becomes the position and is returned in
  DX:AX. Then \<open>dos_int21_fsize\<close> returns the size of the file and leaves the position where it was,
  for sizes and positions below 2 GB.
\<close>

definition dos_seek_service :: "('h, 'x) dpmi_scheme \<Rightarrow> u32 \<Rightarrow> ('h \<Rightarrow> u32) \<Rightarrow> ('h \<Rightarrow> u32) \<Rightarrow> bool" where
  "dos_seek_service d fd fsz pos \<longleftrightarrow>
     (\<forall>p m h. eax p AND 0xFF00 = 0x4200 \<and> ebx p = fd \<longrightarrow>
        (case rm_call d p m h of (cf, p', m', h') \<Rightarrow>
           let whence = eax p AND 0xFF;
               off = push_bit 16 (ecx p AND 0xFFFF) OR (edx p AND 0xFFFF);
               target = off + (if whence = 0 then 0 else if whence = 1 then pos h else fsz h)
           in \<not> cf \<and> \<not> carry p' \<and> pos h' = target \<and> fsz h' = fsz h
              \<and> push_bit 16 (edx p' AND 0xFFFF) OR (eax p' AND 0xFFFF) = target))"

lemma dos_seek_serviceD:
  "dos_seek_service d fd fsz pos \<Longrightarrow> eax p AND 0xFF00 = 0x4200 \<Longrightarrow> ebx p = fd \<Longrightarrow>
   rm_call d p m h = (cf, p', m', h') \<Longrightarrow>
   let whence = eax p AND 0xFF;
       off = push_bit 16 (ecx p AND 0xFFFF) OR (edx p AND 0xFFFF);
       target = off + (if whence = 0 then 0 else if whence = 1 then pos h else fsz h)
   in \<not> cf \<and> \<not> carry p' \<and> pos h' = target \<and> fsz h' = fsz h
      \<and> push_bit 16 (edx p' AND 0xFFFF) OR (eax p' AND 0xFFFF) = target"
  unfolding dos_seek_service_def by (drule spec[of _ p], drule spec[of _ m], drule spec[of _ h]) simp

lemma lseek_service:
  assumes "dos_seek_service d fd fsz pos" "thunk_ready s"
  shows "case dos_int21_lseek d fd offset whence s of (r, err, t) \<Rightarrow>
    let target = word_of_int offset + (if whence AND 0xFF = 0 then 0 else if whence AND 0xFF = 1 then pos (d_host s)
                   else fsz (d_host s))
    in r = sint target \<and> err = 0 \<and> thunk_ready t \<and> pos (d_host t) = target \<and> fsz (d_host t) = fsz (d_host s)"
proof -
  let ?o = "word_of_int offset :: u32"
  define rm where "rm = rmcs0\<lparr>eax := 0x4200 OR (whence AND 0xFF), ebx := fd,
     ecx := drop_bit 16 ?o AND 0xFFFF, edx := ?o AND 0xFFFF\<rparr>"
  obtain cf p' m' h' where c: "rm_call d (rm_prepare s rm) (thunk_repair d s) (d_host s) = (cf, p', m', h')"
    by (cases "rm_call d (rm_prepare s rm) (thunk_repair d s) (d_host s)")
  have a: "(drop_bit 16 ?o AND 0xFFFF) AND 0xFFFF = drop_bit 16 ?o AND 0xFFFF" "(?o AND 0xFFFF) AND 0xFFFF = ?o AND 0xFFFF"
    by (simp_all add: and.assoc)
  have "let target = ?o + (if whence AND 0xFF = 0 then 0 else if whence AND 0xFF = 1 then pos (d_host s)
           else fsz (d_host s))
     in \<not> cf \<and> \<not> carry p' \<and> pos h' = target \<and> fsz h' = fsz (d_host s)
        \<and> push_bit 16 (edx p' AND 0xFFFF) OR (eax p' AND 0xFFFF) = target"
    using dos_seek_serviceD[OF assms(1) _ _ c] by (simp add: rm_def a high_low Let_def del: push_bit_and)
  then show ?thesis
    using int21_result_ready[of s d rm p' m' h' seek_result] c assms(2)
    by (auto simp: dos_int21_lseek_def Let_def rm_def seek_result_def simp del: push_bit_and)
qed

theorem fsize_is_file_size:
  assumes "dos_seek_service d fd fsz pos" "thunk_ready s"
    and "uint (fsz (d_host s)) < 2 ^ 31" "uint (pos (d_host s)) < 2 ^ 31"
  shows "case dos_int21_fsize d fd s of (r, t) \<Rightarrow>
    r = uint (fsz (d_host s)) \<and> pos (d_host t) = pos (d_host s) \<and> fsz (d_host t) = fsz (d_host s)"
proof -
  obtain c e1 s1 where 1: "dos_int21_lseek d fd 0 1 s = (c, e1, s1)"
    by (cases "dos_int21_lseek d fd 0 1 s")
  have s1: "c = uint (pos (d_host s))" "thunk_ready s1" "fsz (d_host s1) = fsz (d_host s)"
    using lseek_service[OF assms(1,2), of 0 1] 1 sint_small[OF assms(4)] by (simp_all add: Let_def)
  obtain z e2 s2 where 2: "dos_int21_lseek d fd 0 2 s1 = (z, e2, s2)"
    by (cases "dos_int21_lseek d fd 0 2 s1")
  have s2: "z = uint (fsz (d_host s))" "thunk_ready s2" "fsz (d_host s2) = fsz (d_host s)"
    using lseek_service[OF assms(1) s1(2), of 0 2] 2 s1 sint_small[OF assms(3)] by (simp_all add: Let_def)
  obtain r e3 s3 where 3: "dos_int21_lseek d fd c 0 s2 = (r, e3, s3)"
    by (cases "dos_int21_lseek d fd c 0 s2")
  have s3: "pos (d_host s3) = pos (d_host s)" "fsz (d_host s3) = fsz (d_host s)"
    using lseek_service[OF assms(1) s2(2), of c 0] 3 s1 s2 by (simp_all add: Let_def)
  have "dos_int21_fsize d fd s = (z, s3)"
    using 1 2 3 s1(1) s2(1) by (simp add: dos_int21_fsize_def)
  then show ?thesis using s2 s3 by simp
qed

text \<open>A host with one file of the given fsz, its state being the position.\<close>

definition seek_host :: "u32 \<Rightarrow> u32 dpmi" where
  "seek_host fsz = \<lparr>writable = (\<lambda>_. True), int_invoke = (\<lambda>n r h. (True, r, h)),
     rm_call = (\<lambda>p m pos.
       let whence = eax p AND 0xFF;
           target = (push_bit 16 (ecx p AND 0xFFFF) OR (edx p AND 0xFFFF))
             + (if whence = 0 then 0 else if whence = 1 then pos else fsz)
       in (False, p\<lparr>eax := target AND 0xFFFF, edx := drop_bit 16 target AND 0xFFFF, flags := 0\<rparr>, m, target)),
     ds_selector = 0\<rparr>"

theorem fsize_is_file_size_witness:
  "fst (dos_int21_fsize (seek_host 70000) 5 \<lparr>d_mem = (\<lambda>_. 0), d_host = 1234, bounce_seg = 0, bounce_linear = 0,
     preallocated_thunk_seg = 1, thunk_seg = 1, thunk_linear = 16, thunk_ready = True, rm_stack_seg = 0,
     rm_stack_bytes = 0\<rparr>) = 70000"
proof -
  have a: "(x AND 0xFFFF) AND 0xFFFF = (x AND 0xFFFF :: u32)" for x by (simp add: and.assoc)
  have "dos_seek_service (seek_host 70000) 5 (\<lambda>_. 70000) (\<lambda>pos. pos)"
    by (auto simp: dos_seek_service_def seek_host_def Let_def carry_def a high_low simp del: push_bit_and)
  from fsize_is_file_size[OF this, of "\<lparr>d_mem = (\<lambda>_. 0), d_host = 1234, bounce_seg = 0, bounce_linear = 0,
     preallocated_thunk_seg = 1, thunk_seg = 1, thunk_linear = 16, thunk_ready = True, rm_stack_seg = 0,
     rm_stack_bytes = 0\<rparr>"]
  show ?thesis by (auto split: prod.splits)
qed

end
