(* ===== verification/File_Io.thy ===== *)
theory File_Io
  imports Dos_Int21
begin

text \<open>
  Python's file objects over the DOS services (\<open>file_uc386dos.c\<close>): \<open>open\<close>, the stream methods \<open>read\<close>,
  \<open>write\<close> and \<open>ioctl\<close>, and the two hooks the import system calls, \<open>mp_lexer_new_from_file\<close> and
  \<open>mp_import_stat\<close>.

  A stream method returns \<open>Inl\<close> the errno it stores, for \<open>MP_STREAM_ERROR\<close>, or \<open>Inr\<close> its value. The
  transfer loops are written over the DOS call they make, as a function of the state and the count
  still wanted; they end because every round but the last moves at least one byte.
\<close>

section \<open>Definitions\<close>

text \<open>A DOS read or write as the loops see it: result, data (for a read) and new state.\<close>

type_synonym 's reader = "'s \<Rightarrow> nat \<Rightarrow> int \<times> bytes \<times> 's"
type_synonym 's writer = "'s \<Rightarrow> bytes \<Rightarrow> int \<times> 's"

definition dos_reader :: "('h, 'x) dpmi_scheme \<Rightarrow> int \<Rightarrow> 'h dos reader" where
  "dos_reader d fd s want = (let (n, data, err, s) = dos_int21_read d (word_of_int fd) want s in (n, data, s))"

definition dos_writer :: "('h, 'x) dpmi_scheme \<Rightarrow> int \<Rightarrow> 'h dos writer" where
  "dos_writer d fd s buf = (let (n, err, s) = dos_int21_write d (word_of_int fd) buf s in (n, s))"

subsection \<open>Import hooks\<close>

function lexer_loop :: "'s reader \<Rightarrow> nat \<Rightarrow> nat \<Rightarrow> bytes \<Rightarrow> 's \<Rightarrow> bytes \<times> 's" where
  "lexer_loop rd sz got buf s =
     (if got < sz
      then let (n, data, s) = rd s (sz - got)
           in if n \<le> 0 then (buf, s) else lexer_loop rd sz (got + nat n) (buf @ data) s
      else (buf, s))"
  by pat_completeness auto
termination
  by (relation "measure (\<lambda>(rd, sz, got, buf, s). sz - got)") auto

definition mp_lexer_new_from_file :: "('h, 'x) dpmi_scheme \<Rightarrow> bytes \<Rightarrow> 'h dos \<Rightarrow> bytes mp_result \<times> 'h dos" where
  "mp_lexer_new_from_file d fname s =
     (let (fd, err, s) = dos_int21_open d fname 0 s
      in if fd < 0 then (Inl (OSError MP_ENOENT), s)
         else let (fsize, s) = dos_int21_fsize d (word_of_int fd) s
              in if fsize < 0
                 then let (r, err, s) = dos_int21_close d (word_of_int fd) s in (Inl (OSError MP_EIO), s)
                 else let (buf, s) = lexer_loop (dos_reader d fd) (nat fsize) 0 [] s;
                          (r, err, s) = dos_int21_close d (word_of_int fd) s
                      in (Inr buf, s))"

datatype mp_import_stat_t = MP_IMPORT_STAT_NO_EXIST | MP_IMPORT_STAT_FILE

definition mp_import_stat :: "('h, 'x) dpmi_scheme \<Rightarrow> bytes \<Rightarrow> 'h dos \<Rightarrow> mp_import_stat_t \<times> 'h dos" where
  "mp_import_stat d path s =
     (let (fd, err, s) = dos_int21_open d path 0 s
      in if fd < 0 then (MP_IMPORT_STAT_NO_EXIST, s)
         else let (r, err, s) = dos_int21_close d (word_of_int fd) s in (MP_IMPORT_STAT_FILE, s))"

subsection \<open>File objects\<close>

text \<open>\<open>fd = -1\<close> is a closed file; \<open>is_text\<close> tells \<open>TextIOWrapper\<close> from \<open>FileIO\<close>.\<close>

record file_obj =
  f_fd :: int
  f_text :: bool

function read_loop :: "'s reader \<Rightarrow> nat \<Rightarrow> nat \<Rightarrow> bytes \<Rightarrow> 's \<Rightarrow> (errno + bytes) \<times> 's" where
  "read_loop rd sz tot buf s =
     (if tot < sz
      then let (n, data, s) = rd s (sz - tot)
           in if n < 0 then (Inl MP_EIO, s)
              else if n = 0 then (Inr buf, s)
              else read_loop rd sz (tot + nat n) (buf @ data) s
      else (Inr buf, s))"
  by pat_completeness auto
termination
  by (relation "measure (\<lambda>(rd, sz, tot, buf, s). sz - tot)") auto

definition uc386dos_file_read :: "('h, 'x) dpmi_scheme \<Rightarrow> file_obj \<Rightarrow> nat \<Rightarrow> 'h dos \<Rightarrow> (errno + bytes) \<times> 'h dos" where
  "uc386dos_file_read d o_in sz s =
     (if f_fd o_in < 0 then (Inl MP_EBADF, s)
      else read_loop (dos_reader d (f_fd o_in)) sz 0 [] s)"

function write_loop :: "'s writer \<Rightarrow> bytes \<Rightarrow> nat \<Rightarrow> 's \<Rightarrow> (errno + nat) \<times> 's" where
  "write_loop wr buf tot s =
     (if tot < length buf
      then let (n, s) = wr s (drop tot buf)
           in if n < 0 then (Inl MP_EIO, s)
              else if n = 0 then (Inr tot, s)
              else write_loop wr buf (tot + nat n) s
      else (Inr tot, s))"
  by pat_completeness auto
termination
  by (relation "measure (\<lambda>(wr, buf, tot, s). length buf - tot)") auto

definition uc386dos_file_write :: "('h, 'x) dpmi_scheme \<Rightarrow> file_obj \<Rightarrow> bytes \<Rightarrow> 'h dos \<Rightarrow> (errno + nat) \<times> 'h dos" where
  "uc386dos_file_write d o_in buf s =
     (if f_fd o_in < 0 then (Inl MP_EBADF, s)
      else write_loop (dos_writer d (f_fd o_in)) buf 0 s)"

declare lexer_loop.simps [simp del] read_loop.simps [simp del] write_loop.simps [simp del]

datatype ioctl_request = MP_STREAM_SEEK int u32 | MP_STREAM_FLUSH | MP_STREAM_CLOSE | MP_STREAM_OTHER

text \<open>A successful seek stores the new position in the request: \<open>Inr (Some pos)\<close>.\<close>

fun uc386dos_file_ioctl ::
  "('h, 'x) dpmi_scheme \<Rightarrow> file_obj \<Rightarrow> ioctl_request \<Rightarrow> 'h dos \<Rightarrow> (errno + int option) \<times> file_obj \<times> 'h dos" where
  "uc386dos_file_ioctl d f (MP_STREAM_SEEK offset whence) s =
     (if f_fd f < 0 then (Inl MP_EBADF, f, s)
      else let (pos, err, s) = dos_int21_lseek d (word_of_int (f_fd f)) offset whence s
           in if pos < 0 then (Inl MP_EIO, f, s) else (Inr (Some pos), f, s))"
| "uc386dos_file_ioctl d f MP_STREAM_FLUSH s = (Inr None, f, s)"
| "uc386dos_file_ioctl d f MP_STREAM_CLOSE s =
     (if f_fd f \<ge> 0
      then let (r, err, s) = dos_int21_close d (word_of_int (f_fd f)) s in (Inr None, f\<lparr>f_fd := -1\<rparr>, s)
      else (Inr None, f, s))"
| "uc386dos_file_ioctl d f MP_STREAM_OTHER s = (Inl MP_EINVAL, f, s)"

subsection \<open>The open builtin\<close>

record open_mode =
  dos_mode :: u32
  want_create :: bool
  want_trunc :: bool
  text_type :: bool

definition mode_char :: "open_mode \<Rightarrow> byte \<Rightarrow> open_mode" where
  "mode_char om c =
     (if c = of_char (CHR ''r'') then om\<lparr>dos_mode := 0\<rparr>
      else if c = of_char (CHR ''w'') then om\<lparr>dos_mode := 1, want_create := True, want_trunc := True\<rparr>
      else if c = of_char (CHR ''a'') then om\<lparr>dos_mode := 1, want_create := True\<rparr>
      else if c = ch_plus then om\<lparr>dos_mode := 2\<rparr>
      else if c = of_char (CHR ''b'') then om\<lparr>text_type := False\<rparr>
      else if c = of_char (CHR ''t'') then om\<lparr>text_type := True\<rparr>
      else om)"

definition parse_mode :: "bytes \<Rightarrow> open_mode" where
  "parse_mode mode_s =
     foldl mode_char \<lparr>dos_mode = 0, want_create = False, want_trunc = False, text_type = True\<rparr> (cstr mode_s)"

definition open_errno :: "int \<Rightarrow> errno" where
  "open_errno err = (if err = 0 then MP_EIO else if err = 4 then MP_EMFILE else if err = 5 then MP_EACCES else MP_ENOENT)"

definition open_append :: "('h, 'x) dpmi_scheme \<Rightarrow> bytes \<Rightarrow> u32 \<Rightarrow> 'h dos \<Rightarrow> int \<times> int \<times> 'h dos" where
  "open_append d fname mode s =
     (let (fd, err, s) = dos_int21_open d fname mode s;
          (fd, err, s) = (if fd < 0 then dos_int21_creat d fname s else (fd, err, s))
      in if fd \<ge> 0
         then let (pos, seek_err, s) = dos_int21_lseek d (word_of_int fd) 0 2 s in (fd, err, s)
         else (fd, err, s))"

text \<open>The mode argument is optional and defaults to \<open>"r"\<close>.\<close>

definition uc386dos_builtin_open ::
  "('h, 'x) dpmi_scheme \<Rightarrow> bytes \<Rightarrow> bytes option \<Rightarrow> 'h dos \<Rightarrow> file_obj mp_result \<times> 'h dos" where
  "uc386dos_builtin_open d fname mode s =
     (let fname = cstr fname;
          om = parse_mode (case mode of None \<Rightarrow> str ''r'' | Some mode_s \<Rightarrow> mode_s);
          (fd, err, s) =
            (if want_trunc om then dos_int21_creat d fname s
             else if want_create om then open_append d fname (dos_mode om) s
             else dos_int21_open d fname (dos_mode om) s)
      in if fd < 0 then (Inl (OSError (open_errno err)), s)
         else (Inr \<lparr>f_fd = fd, f_text = text_type om\<rparr>, s))"

section \<open>The transfer loops\<close>

text \<open>
  The contract of a DOS read: a non-negative result is the number of bytes delivered, and no more
  than were asked for. On it rest the loops: the count they keep is the length of the buffer they
  fill, and the buffer never outgrows the size requested.
\<close>

locale chunk_reader =
  fixes rd :: "'s reader"
  assumes rd_bound: "rd s want = (n, data, t) \<Longrightarrow> 0 \<le> n \<Longrightarrow> nat n = length data \<and> length data \<le> want"
begin

lemma read_loop_bound:
  "tot = length buf \<Longrightarrow> tot \<le> sz \<Longrightarrow> read_loop rd sz tot buf s = (Inr out, t) \<Longrightarrow>
    length out \<le> sz \<and> take (length buf) out = buf"
proof (induction "sz - tot" arbitrary: tot buf s rule: less_induct)
  case less
  show ?case
  proof (cases "tot < sz")
    case True
    obtain n data u where r: "rd s (sz - tot) = (n, data, u)"
      by (cases "rd s (sz - tot)")
    show ?thesis
    proof (cases "0 < n")
      case pos: True
      then have d: "nat n = length data" "length data \<le> sz - tot" "0 < length data"
        using rd_bound[OF r] by auto
      have "read_loop rd sz (tot + nat n) (buf @ data) u = (Inr out, t)"
        using less.prems(3) r True pos by (subst (asm) read_loop.simps) simp
      moreover have "sz - (tot + nat n) < sz - tot" "tot + nat n \<le> sz" "tot + nat n = length (buf @ data)"
        using d True less.prems(1) by (linarith | simp)+
      ultimately have "length out \<le> sz \<and> take (length (buf @ data)) out = buf @ data"
        using less.hyps[of "tot + nat n" "buf @ data" u] by blast
      then have "length out \<le> sz \<and> take (length buf) (take (length (buf @ data)) out) = buf"
        by simp
      then show ?thesis by (simp add: min_def)
    next
      case False
      then have "read_loop rd sz tot buf s = (if n < 0 then Inl MP_EIO else Inr buf, u)"
        using r True by (subst read_loop.simps) auto
      with less.prems True show ?thesis by (auto split: if_splits)
    qed
  next
    case False
    then have "read_loop rd sz tot buf s = (Inr buf, s)"
      by (subst read_loop.simps) simp
    with less.prems show ?thesis by auto
  qed
qed

end

text \<open>
  A source that delivers a file: in the states \<open>I\<close> describes, \<open>R\<close> is what is left of the file, a read
  for a positive count returns a prefix of it, not longer than asked for and empty only at the end
  of the file, and the rest is left for the next read. How much a single read returns is up to DOS.
\<close>

definition delivers :: "'s reader \<Rightarrow> ('s \<Rightarrow> bool) \<Rightarrow> ('s \<Rightarrow> bytes) \<Rightarrow> bool" where
  "delivers rd I R \<longleftrightarrow> (\<forall>s want. I s \<and> 0 < want \<longrightarrow>
     (case rd s want of (n, data, t) \<Rightarrow>
        I t \<and> n = int (length data) \<and> length data \<le> want \<and> R s = data @ R t
        \<and> (data = [] \<longrightarrow> R s = [])))"

lemma deliversD:
  "delivers rd I R \<Longrightarrow> I s \<Longrightarrow> 0 < want \<Longrightarrow> rd s want = (n, data, t) \<Longrightarrow>
   I t \<and> n = int (length data) \<and> length data \<le> want \<and> R s = data @ R t \<and> (data = [] \<longrightarrow> R s = [])"
  unfolding delivers_def by (drule spec[of _ s], drule spec[of _ want]) auto

lemma read_loop_delivers:
  assumes "delivers rd I R"
  shows "I s \<Longrightarrow> tot \<le> sz \<Longrightarrow>
    \<exists>t. read_loop rd sz tot buf s = (Inr (buf @ take (sz - tot) (R s)), t)
      \<and> I t \<and> R t = drop (sz - tot) (R s)"
proof (induction "sz - tot" arbitrary: tot buf s rule: less_induct)
  case less
  show ?case
  proof (cases "tot < sz")
    case True
    obtain n data u where r: "rd s (sz - tot) = (n, data, u)"
      by (cases "rd s (sz - tot)")
    have u: "I u" "n = int (length data)" "length data \<le> sz - tot" "R s = data @ R u" "data = [] \<longrightarrow> R s = []"
      using deliversD[OF assms less.prems(1) _ r] True by auto
    show ?thesis
    proof (cases "data = []")
      case empty: True
      with u True r show ?thesis
        by (subst read_loop.simps) auto
    next
      case False
      then have "read_loop rd sz tot buf s = read_loop rd sz (tot + length data) (buf @ data) u"
        using True r u(2) by (subst read_loop.simps) simp
      moreover have "sz - (tot + length data) < sz - tot" "tot + length data \<le> sz"
        using True u(3) False by (auto simp: diff_less_mono2)
      ultimately show ?thesis
        using less.hyps[of "tot + length data" u "buf @ data"] u by (simp add: Nat.diff_diff_right)
    qed
  next
    case False
    with less.prems show ?thesis
      by (subst read_loop.simps) auto
  qed
qed

text \<open>The import loop treats an error like the end of the file; on a source that delivers they agree.\<close>

lemma lexer_loop_read_loop:
  "read_loop rd sz got buf s = (Inr out, t) \<Longrightarrow> lexer_loop rd sz got buf s = (out, t)"
proof (induction "sz - got" arbitrary: got buf s rule: less_induct)
  case less
  show ?case
  proof (cases "got < sz")
    case True
    obtain n data u where r: "rd s (sz - got) = (n, data, u)"
      by (cases "rd s (sz - got)")
    show ?thesis
    proof (cases "0 < n")
      case pos: True
      then have "read_loop rd sz (got + nat n) (buf @ data) u = (Inr out, t)"
        using less.prems r True by (subst (asm) read_loop.simps) simp
      from less.hyps[OF _ this] True pos r show ?thesis
        by (subst lexer_loop.simps) simp
    next
      case False
      with less.prems r True show ?thesis
        by (subst lexer_loop.simps, subst (asm) read_loop.simps) (auto split: if_splits)
    qed
  next
    case False
    with less.prems show ?thesis
      by (subst lexer_loop.simps, subst (asm) read_loop.simps) auto
  qed
qed

text \<open>A sink: \<open>W\<close> is what has been written; a write accepts a prefix of what it is handed.\<close>

definition accepts :: "'s writer \<Rightarrow> ('s \<Rightarrow> bool) \<Rightarrow> ('s \<Rightarrow> bytes) \<Rightarrow> bool" where
  "accepts wr I W \<longleftrightarrow> (\<forall>s buf. I s \<and> buf \<noteq> [] \<longrightarrow>
     (case wr s buf of (n, t) \<Rightarrow> I t \<and> nat n \<le> length buf \<and> W t = W s @ take (nat n) buf))"

lemma acceptsD:
  "accepts wr I W \<Longrightarrow> I s \<Longrightarrow> buf \<noteq> [] \<Longrightarrow> wr s buf = (n, t) \<Longrightarrow>
   I t \<and> nat n \<le> length buf \<and> W t = W s @ take (nat n) buf"
  unfolding accepts_def by (drule spec[of _ s], drule spec[of _ buf]) simp

lemma write_loop_accepts:
  assumes "accepts wr I W"
  shows "I s \<Longrightarrow> tot \<le> length buf \<Longrightarrow>
    \<exists>r t k. write_loop wr buf tot s = (r, t) \<and> I t \<and> tot \<le> k \<and> k \<le> length buf
      \<and> W t = W s @ take (k - tot) (drop tot buf)
      \<and> (r = Inl MP_EIO \<or> r = Inr k \<and> (k = length buf \<or> (\<exists>u. I u \<and> fst (wr u (drop k buf)) = 0)))"
proof (induction "length buf - tot" arbitrary: tot s rule: less_induct)
  case less
  show ?case
  proof (cases "tot < length buf")
    case True
    obtain n u where w: "wr s (drop tot buf) = (n, u)"
      by (cases "wr s (drop tot buf)")
    have u: "I u" "nat n \<le> length buf - tot" "W u = W s @ take (nat n) (drop tot buf)"
      using acceptsD[OF assms less.prems(1) _ w] True by simp_all
    show ?thesis
    proof (cases "0 < n")
      case pos: True
      then have step: "write_loop wr buf tot s = write_loop wr buf (tot + nat n) u"
        using True w by (subst write_loop.simps) simp
      have "length buf - (tot + nat n) < length buf - tot" "tot + nat n \<le> length buf"
        using True u(2) pos by linarith+
      then obtain r t k where k: "write_loop wr buf (tot + nat n) u = (r, t)" "I t" "tot + nat n \<le> k"
          "k \<le> length buf" "W t = W u @ take (k - (tot + nat n)) (drop (tot + nat n) buf)"
          "r = Inl MP_EIO \<or> r = Inr k \<and> (k = length buf \<or> (\<exists>u. I u \<and> fst (wr u (drop k buf)) = 0))"
        using less.hyps[of "tot + nat n" u] u(1) by blast
      then have "take (nat n) (drop tot buf) @ take (k - (tot + nat n)) (drop (tot + nat n) buf)
          = take (k - tot) (drop tot buf)"
        using take_add[of "nat n" "k - (tot + nat n)" "drop tot buf"] by (simp add: add.commute)
      with k(5) u(3) have W: "W t = W s @ take (k - tot) (drop tot buf)" by simp
      show ?thesis
        unfolding step using k(1-4,6) W by (intro exI[of _ r] exI[of _ t] exI[of _ k]) simp
    next
      case False
      with w True have "write_loop wr buf tot s = (if n = 0 then Inr tot else Inl MP_EIO, u)"
        by (subst write_loop.simps) auto
      with False less.prems u w show ?thesis
        by (intro exI[of _ "if n = 0 then Inr tot else Inl MP_EIO"] exI[of _ u] exI[of _ tot]) auto
    qed
  next
    case False
    with less.prems show ?thesis
      by (intro exI[of _ "Inr tot"] exI[of _ s] exI[of _ tot]) (subst write_loop.simps, auto)
  qed
qed

subsection \<open>DOS as reader and writer\<close>

interpretation dos_rd: chunk_reader "dos_reader d fd" for d :: "('h, 'x) dpmi_scheme" and fd
  by unfold_locales
    (auto simp: dos_reader_def dos_int21_read_def Let_def split: prod.splits if_splits)

text \<open>
  DOS's read service: with BX the handle and DS:DX the data half of the bounce buffer, AH=3Fh puts a
  prefix of the rest \<open>R\<close> of the file there, as long as CX at most and empty only at the end of the file,
  and returns its length in AX.
\<close>

definition dos_read_service :: "('h, 'x) dpmi_scheme \<Rightarrow> int \<Rightarrow> u32 \<Rightarrow> u32 \<Rightarrow> ('h \<Rightarrow> bytes) \<Rightarrow> bool" where
  "dos_read_service d fd seg linear R \<longleftrightarrow>
     (\<forall>p m h. eax p = 0x3F00 \<and> ebx p = word_of_int fd \<and> ecx p \<noteq> 0 \<and> ds p = ucast seg \<and> edx p = 1024 \<longrightarrow>
        (case rm_call d p m h of (cf, p', m', h') \<Rightarrow>
           \<not> cf \<and> \<not> carry p' \<and> ax p' \<le> uint (ecx p)
           \<and> R h = load_bytes m' (linear + 1024) (nat (ax p')) @ R h'
           \<and> (ax p' = 0 \<longrightarrow> R h = [])))"

lemma dos_read_serviceD:
  "dos_read_service d fd seg linear R \<Longrightarrow> eax p = 0x3F00 \<Longrightarrow> ebx p = word_of_int fd \<Longrightarrow> ecx p \<noteq> 0 \<Longrightarrow> ds p = ucast seg \<Longrightarrow>
   edx p = 1024 \<Longrightarrow> rm_call d p m h = (cf, p', m', h') \<Longrightarrow>
   \<not> cf \<and> \<not> carry p' \<and> ax p' \<le> uint (ecx p)
   \<and> R h = load_bytes m' (linear + 1024) (nat (ax p')) @ R h' \<and> (ax p' = 0 \<longrightarrow> R h = [])"
  unfolding dos_read_service_def by (drule spec[of _ p], drule spec[of _ m], drule spec[of _ h]) auto

text \<open>The states in which the bounce buffer and the thunk are set up.\<close>

definition io_ready :: "u32 \<Rightarrow> u32 \<Rightarrow> 'h dos \<Rightarrow> bool" where
  "io_ready seg linear s \<longleftrightarrow> thunk_ready s \<and> bounce_seg s = seg \<and> bounce_linear s = linear \<and> seg \<noteq> 0 \<and> linear \<noteq> 0"

lemma dos_reader_delivers:
  assumes "dos_read_service d fd seg linear R"
  shows "delivers (dos_reader d fd) (io_ready seg linear) (R \<circ> d_host)"
  unfolding delivers_def
proof (intro allI impI, elim conjE)
  fix s want assume s: "io_ready seg linear (s :: 'a dos)" and w: "0 < (want :: nat)"
  define cnt where "cnt = (if want > 1024 then 1024 else want)"
  define rm where "rm = rmcs0\<lparr>eax := 0x3F00, ebx := word_of_int fd, ecx := of_nat cnt, ds := ucast seg, edx := 1024\<rparr>"
  obtain cf p' m' h' where c: "rm_call d (rm_prepare s rm) (thunk_repair d s) (d_host s) = (cf, p', m', h')"
    by (cases "rm_call d (rm_prepare s rm) (thunk_repair d s) (d_host s)")
  have u: "uint (of_nat cnt :: u32) = int cnt"
    by (simp add: cnt_def unsigned_of_nat take_bit_nat_eq_self uint_nat unat_of_nat)
  have nz: "(of_nat cnt :: u32) \<noteq> 0"
  proof
    assume "(of_nat cnt :: u32) = 0"
    then have "int cnt = 0" using u by (metis uint_0_eq)
    then show False using w by (simp add: cnt_def split: if_splits)
  qed
  have svc: "\<not> cf \<and> \<not> carry p' \<and> ax p' \<le> uint (of_nat cnt :: u32)
      \<and> R (d_host s) = load_bytes m' (linear + 1024) (nat (ax p')) @ R h' \<and> (ax p' = 0 \<longrightarrow> R (d_host s) = [])"
    using dos_read_serviceD[OF assms _ _ _ _ _ c] s nz by (auto simp: rm_def io_ready_def)
  have n: "nat (ax p') \<le> cnt"
    using svc u nat_le_iff by auto
  have "dos_int21_call d rm s = (0, p', s\<lparr>d_mem := m', d_host := h'\<rparr>)"
    using s c svc by (simp add: io_ready_def dos_int21_call_def dos_int21_thunk_init_def)
  then have "dos_reader d fd s want
      = (ax p', load_bytes m' (linear + 1024) (nat (ax p')), s\<lparr>d_mem := m', d_host := h'\<rparr>)"
    using s w svc n ax_bounds[of p']
    by (simp add: dos_reader_def dos_int21_read_def no_bounce_def io_ready_def Let_def cnt_def[symmetric] rm_def[symmetric])
  moreover have "cnt \<le> want" by (simp add: cnt_def)
  ultimately show "case dos_reader d fd s want of (n, data, t) \<Rightarrow>
      io_ready seg linear t \<and> n = int (length data) \<and> length data \<le> want
      \<and> (R \<circ> d_host) s = data @ (R \<circ> d_host) t \<and> (data = [] \<longrightarrow> (R \<circ> d_host) s = [])"
    using s n svc ax_bounds[of p'] by (auto simp: io_ready_def)
qed

text \<open>DOS's write service: AH=40h appends a prefix of the CX bytes at DS:DX to what is written.\<close>

definition dos_write_service :: "('h, 'x) dpmi_scheme \<Rightarrow> int \<Rightarrow> u32 \<Rightarrow> u32 \<Rightarrow> ('h \<Rightarrow> bytes) \<Rightarrow> bool" where
  "dos_write_service d fd seg linear W \<longleftrightarrow>
     (\<forall>p m h. eax p = 0x4000 \<and> ebx p = word_of_int fd \<and> ds p = ucast seg \<and> edx p = 1024 \<longrightarrow>
        (case rm_call d p m h of (cf, p', m', h') \<Rightarrow>
           \<not> cf \<and>
           (if carry p' then W h' = W h
            else ax p' \<le> uint (ecx p) \<and> W h' = W h @ load_bytes m (linear + 1024) (nat (ax p')))))"

lemma dos_write_serviceD:
  "dos_write_service d fd seg linear W \<Longrightarrow> eax p = 0x4000 \<Longrightarrow> ebx p = word_of_int fd \<Longrightarrow> ds p = ucast seg \<Longrightarrow>
   edx p = 1024 \<Longrightarrow> rm_call d p m h = (cf, p', m', h') \<Longrightarrow>
   \<not> cf \<and> (if carry p' then W h' = W h
     else ax p' \<le> uint (ecx p) \<and> W h' = W h @ load_bytes m (linear + 1024) (nat (ax p')))"
  unfolding dos_write_service_def by (drule spec[of _ p], drule spec[of _ m], drule spec[of _ h]) auto

text \<open>The data half of the bounce buffer is writable and clear of the thunk.\<close>

definition data_half_ok :: "('h, 'x) dpmi_scheme \<Rightarrow> u32 \<Rightarrow> u32 \<Rightarrow> bool" where
  "data_half_ok d linear thunk \<longleftrightarrow>
     (\<forall>x. in_block (linear + 1024) 1024 x \<longrightarrow> writable d x \<and> \<not> in_block thunk 3 x)"

lemma load_bytes_take: "k \<le> n \<Longrightarrow> load_bytes m a k = take k (load_bytes m a n)"
  by (intro nth_equalityI) (auto simp: load_bytes_nth)

lemma dos_writer_accepts:
  assumes "dos_write_service d fd seg linear W"
  shows "accepts (dos_writer d fd) (\<lambda>s. io_ready seg linear s \<and> data_half_ok d linear (thunk_linear s)) (W \<circ> d_host)"
  unfolding accepts_def
proof (intro allI impI, elim conjE)
  fix s buf assume s: "io_ready seg linear (s :: 'a dos)" "data_half_ok d linear (thunk_linear s)" and b: "(buf :: bytes) \<noteq> []"
  define cnt where "cnt = (if length buf > 1024 then 1024 else length buf)"
  define s1 where "s1 = s\<lparr>d_mem := store_bytes d (linear + 1024) (take cnt buf) (d_mem s)\<rparr>"
  define rm where "rm = rmcs0\<lparr>eax := 0x4000, ebx := word_of_int fd, ecx := of_nat cnt, ds := ucast seg, edx := 1024\<rparr>"
  have cnt: "cnt \<le> length buf" "cnt \<le> 1024" by (simp_all add: cnt_def)
  obtain cf p' m' h' where c: "rm_call d (rm_prepare s1 rm) (thunk_repair d s1) (d_host s1) = (cf, p', m', h')"
    by (cases "rm_call d (rm_prepare s1 rm) (thunk_repair d s1) (d_host s1)")
  have svc: "\<not> cf \<and> (if carry p' then W h' = W (d_host s)
      else ax p' \<le> uint (of_nat cnt :: u32) \<and> W h' = W (d_host s) @ load_bytes (thunk_repair d s1) (linear + 1024) (nat (ax p')))"
    using dos_write_serviceD[OF assms _ _ _ _ c] by (auto simp: rm_def s1_def split: if_splits)
  have blk: "in_block (linear + 1024) cnt x \<Longrightarrow> in_block (linear + 1024) 1024 x" for x
    using cnt(2) by (simp add: in_block_def)
  have "load_bytes (thunk_repair d s1) (linear + 1024) cnt = load_bytes (d_mem s1) (linear + 1024) cnt"
    using s(2) cnt(2) blk
    by (intro load_bytes_cong thunk_repair_other) (auto simp: s1_def data_half_ok_def)
  also have "\<dots> = take cnt buf"
    using s(2) cnt blk store_bytes_load[of "take cnt buf" "linear + 1024" d "d_mem s"]
    by (simp add: s1_def data_half_ok_def)
  finally have l: "load_bytes (thunk_repair d s1) (linear + 1024) cnt = take cnt buf" .
  have u: "uint (of_nat cnt :: u32) = int cnt"
    using cnt(2) by (simp add: unsigned_of_nat take_bit_nat_eq_self uint_nat unat_of_nat)
  have W: "\<not> carry p' \<Longrightarrow> nat (ax p') \<le> cnt \<and> W h' = W (d_host s) @ take (nat (ax p')) buf"
    using svc u load_bytes_take[of "nat (ax p')" cnt "thunk_repair d s1" "linear + 1024"] l
    by (auto simp: min_def)
  have "dos_writer d fd s buf = (if carry p' then -1 else ax p', s1\<lparr>d_mem := m', d_host := h'\<rparr>)"
    using s(1) b svc c int21_result_ready[of s1 d rm p' m' h' ax]
    by (simp add: dos_writer_def dos_int21_write_def no_bounce_def io_ready_def Let_def cnt_def[symmetric]
        s1_def[symmetric] rm_def[symmetric])
      (simp add: s1_def)
  then show "case dos_writer d fd s buf of (n, t) \<Rightarrow> (io_ready seg linear t \<and> data_half_ok d linear (thunk_linear t))
      \<and> nat n \<le> length buf \<and> (W \<circ> d_host) t = (W \<circ> d_host) s @ take (nat n) buf"
    using s svc W cnt(1) by (auto simp: io_ready_def s1_def)
qed

subsection \<open>A file on the disk\<close>

text \<open>
  DOS with a disk, as far as loading a file goes: AH=3Dh looks up the ASCIIZ name at DS:DX and either
  sets carry or gives the handle \<open>fd\<close>, on the contents \<open>C\<close> of the file and with its position \<open>P\<close> at the start;
  AH=42h moves the position as documented and leaves the contents alone; AH=3Fh reads on from the position.
\<close>

definition dos_disk :: "('h, 'x) dpmi_scheme \<Rightarrow> u32 \<Rightarrow> u32 \<Rightarrow> (bytes \<Rightarrow> bytes option) \<Rightarrow> u16 \<Rightarrow> ('h \<Rightarrow> bytes) \<Rightarrow> ('h \<Rightarrow> u32) \<Rightarrow> bool" where
  "dos_disk d seg linear disk fd C P \<longleftrightarrow>
     (\<forall>p m h path. eax p = 0x3D00 \<and> ds p = ucast seg \<and> edx p = 0 \<and> 0 \<notin> set path \<and> length path < 1024
        \<and> load_bytes m linear (length path + 1) = path @ [0] \<longrightarrow>
        (case rm_call d p m h of (cf, p', m', h') \<Rightarrow> \<not> cf \<and>
           (case disk path of None \<Rightarrow> carry p' | Some c \<Rightarrow> \<not> carry p' \<and> ax p' = uint fd \<and> C h' = c \<and> P h' = 0)))
     \<and> dos_seek_service d (word_of_int (uint fd)) (\<lambda>h. of_nat (length (C h))) P
     \<and> (\<forall>p m h. eax p AND 0xFF00 = 0x4200 \<and> ebx p = word_of_int (uint fd) \<longrightarrow>
          (case rm_call d p m h of (cf, p', m', h') \<Rightarrow> C h' = C h))
     \<and> dos_read_service d (uint fd) seg linear (\<lambda>h. drop (unat (P h)) (C h))"

lemma dos_diskD:
  assumes "dos_disk d seg linear disk fd C P"
  shows "eax p = 0x3D00 \<Longrightarrow> ds p = ucast seg \<Longrightarrow> edx p = 0 \<Longrightarrow> 0 \<notin> set path \<Longrightarrow> length path < 1024 \<Longrightarrow>
      load_bytes m linear (length path + 1) = path @ [0] \<Longrightarrow> rm_call d p m h = (cf, p', m', h') \<Longrightarrow>
      \<not> cf \<and> (case disk path of None \<Rightarrow> carry p' | Some c \<Rightarrow> \<not> carry p' \<and> ax p' = uint fd \<and> C h' = c \<and> P h' = 0)"
    and "dos_seek_service d (word_of_int (uint fd)) (\<lambda>h. of_nat (length (C h))) P"
    and "eax p AND 0xFF00 = 0x4200 \<Longrightarrow> ebx p = word_of_int (uint fd) \<Longrightarrow> rm_call d p m h = (cf, p', m', h') \<Longrightarrow> C h' = C h"
    and "dos_read_service d (uint fd) seg linear (\<lambda>h. drop (unat (P h)) (C h))"
proof -
  note laws = assms[unfolded dos_disk_def]
  show "eax p = 0x3D00 \<Longrightarrow> ds p = ucast seg \<Longrightarrow> edx p = 0 \<Longrightarrow> 0 \<notin> set path \<Longrightarrow> length path < 1024 \<Longrightarrow>
      load_bytes m linear (length path + 1) = path @ [0] \<Longrightarrow> rm_call d p m h = (cf, p', m', h') \<Longrightarrow>
      \<not> cf \<and> (case disk path of None \<Rightarrow> carry p' | Some c \<Rightarrow> \<not> carry p' \<and> ax p' = uint fd \<and> C h' = c \<and> P h' = 0)"
    using spec[OF spec[OF spec[OF spec[OF conjunct1[OF laws], of p], of m], of h], of path] by simp
  show "dos_seek_service d (word_of_int (uint fd)) (\<lambda>h. of_nat (length (C h))) P"
    using laws by (elim conjE)
  show "dos_read_service d (uint fd) seg linear (\<lambda>h. drop (unat (P h)) (C h))"
    using laws by (elim conjE)
  show "eax p AND 0xFF00 = 0x4200 \<Longrightarrow> ebx p = word_of_int (uint fd) \<Longrightarrow> rm_call d p m h = (cf, p', m', h') \<Longrightarrow> C h' = C h"
    using spec[OF spec[OF spec[OF conjunct1[OF conjunct2[OF conjunct2[OF laws]]], of p], of m], of h] by simp
qed

text \<open>Opening, by name.\<close>

lemma disk_open:
  assumes "dos_disk d seg linear disk fd C P" "io_ready seg linear s" "length path < 1024" "0 \<notin> set path"
    and "\<forall>x. in_block linear 1024 x \<longrightarrow> writable d x \<and> \<not> in_block (thunk_linear s) 3 x"
    and "dos_int21_open d path 0 s = (r, e, t)"
  shows "case disk path of None \<Rightarrow> r = -1
    | Some c \<Rightarrow> r = uint fd \<and> io_ready seg linear t \<and> C (d_host t) = c \<and> P (d_host t) = 0"
proof -
  define s1 where "s1 = s\<lparr>d_mem := store_bytes d linear (path @ [0]) (d_mem s)\<rparr>"
  define rm where "rm = rmcs0\<lparr>eax := 0x3D00, ds := ucast seg, edx := 0\<rparr>"
  have st: "thunk_ready s" "bounce_seg s = seg" "bounce_linear s = linear" "seg \<noteq> 0" "linear \<noteq> 0"
    using assms(2) by (simp_all add: io_ready_def)
  have blk: "in_block linear (length path + 1) x \<Longrightarrow> in_block linear 1024 x" for x
    using assms(3) by (simp add: in_block_def)
  have "load_bytes (thunk_repair d s1) linear (length path + 1) = load_bytes (d_mem s1) linear (length path + 1)"
    using assms(3,5) blk by (intro load_bytes_cong thunk_repair_other) (auto simp: s1_def)
  also have "\<dots> = path @ [0]"
    using assms(3,5) blk store_bytes_load[of "path @ [0]" linear d "d_mem s"] by (simp add: s1_def)
  finally have l: "load_bytes (thunk_repair d s1) linear (length path + 1) = path @ [0]" .
  obtain cf p' m' h' where c: "rm_call d (rm_prepare s1 rm) (thunk_repair d s1) (d_host s1) = (cf, p', m', h')"
    by (cases "rm_call d (rm_prepare s1 rm) (thunk_repair d s1) (d_host s1)")
  have svc: "\<not> cf \<and> (case disk path of None \<Rightarrow> carry p' | Some c \<Rightarrow> \<not> carry p' \<and> ax p' = uint fd \<and> C h' = c \<and> P h' = 0)"
    using dos_diskD(1)[OF assms(1) _ _ _ assms(4,3) l c] by (simp add: rm_def)
  have "dos_int21_open d path 0 s = int21_result d rm s1 ax"
    using assms(3) st by (simp add: dos_int21_open_def no_bounce_def Let_def s1_def rm_def)
  then show ?thesis
    using int21_result_ready[of s1 d rm p' m' h' ax] c st svc assms(6)
    by (auto simp: s1_def io_ready_def split: option.splits)
qed

text \<open>Seeking on the open file.\<close>

lemma disk_seek:
  assumes "dos_disk d seg linear disk fd C P" "io_ready seg linear s"
    and "dos_int21_lseek d (word_of_int (uint fd)) offset whence s = (r, e, t)"
  shows "io_ready seg linear t" "C (d_host t) = C (d_host s)"
    and "whence AND 0xFF = 0 \<Longrightarrow> P (d_host t) = word_of_int offset \<and> r = sint (word_of_int offset :: u32)"
    and "whence AND 0xFF = 1 \<Longrightarrow> P (d_host t) = word_of_int offset + P (d_host s) \<and> r = sint (word_of_int offset + P (d_host s))"
    and "whence AND 0xFF = 2 \<Longrightarrow> P (d_host t) = word_of_int offset + of_nat (length (C (d_host s)))
      \<and> r = sint (word_of_int offset + of_nat (length (C (d_host s))) :: u32)"
proof -
  let ?fd = "word_of_int (uint fd) :: u32" and ?o = "word_of_int offset :: u32"
  define rm where "rm = rmcs0\<lparr>eax := 0x4200 OR (whence AND 0xFF), ebx := ?fd,
     ecx := drop_bit 16 ?o AND 0xFFFF, edx := ?o AND 0xFFFF\<rparr>"
  obtain cf p' m' h' where c: "rm_call d (rm_prepare s rm) (thunk_repair d s) (d_host s) = (cf, p', m', h')"
    by (cases "rm_call d (rm_prepare s rm) (thunk_repair d s) (d_host s)")
  have rd: "thunk_ready s" using assms(2) by (simp add: io_ready_def)
  have keep: "C h' = C (d_host s)" using dos_diskD(3)[OF assms(1) _ _ c] by (simp add: rm_def)
  have "\<not> cf" "\<not> carry p'"
    using dos_seek_serviceD[OF dos_diskD(2)[OF assms(1)] _ _ c] by (simp_all add: rm_def Let_def)
  then have "dos_int21_lseek d ?fd offset whence s = (seek_result p', 0, s\<lparr>d_mem := m', d_host := h'\<rparr>)"
    using int21_result_ready[OF rd, of d rm p' m' h' seek_result] c by (simp add: dos_int21_lseek_def Let_def rm_def)
  then have t: "t = s\<lparr>d_mem := m', d_host := h'\<rparr>" using assms(3) by simp
  show "io_ready seg linear t" "C (d_host t) = C (d_host s)"
    using assms(2) keep by (simp_all add: t io_ready_def)
  note sv = lseek_service[OF dos_diskD(2)[OF assms(1)] rd, of offset whence, unfolded assms(3) prod.case Let_def]
  show "whence AND 0xFF = 0 \<Longrightarrow> P (d_host t) = word_of_int offset \<and> r = sint (word_of_int offset :: u32)"
    "whence AND 0xFF = 1 \<Longrightarrow> P (d_host t) = word_of_int offset + P (d_host s) \<and> r = sint (word_of_int offset + P (d_host s))"
    "whence AND 0xFF = 2 \<Longrightarrow> P (d_host t) = word_of_int offset + of_nat (length (C (d_host s)))
      \<and> r = sint (word_of_int offset + of_nat (length (C (d_host s))) :: u32)"
    using sv by simp_all
qed

lemma sint_large: "2 ^ 31 \<le> uint x \<Longrightarrow> sint x < 0" for x :: u32
proof (rule ccontr)
  assume x: "2 ^ 31 \<le> uint x" "\<not> sint x < 0"
  moreover have "sint x < 2 ^ 31" using sint_lt[of x] by simp
  ultimately have "uint x = sint x" by (simp add: uint_sint take_bit_int_eq_self)
  with x \<open>sint x < 2 ^ 31\<close> show False by simp
qed

text \<open>The size of a file that was just opened, after which the position is at its start again.\<close>

lemma disk_fsize:
  assumes "dos_disk d seg linear disk fd C P" "io_ready seg linear s" "P (d_host s) = 0" "length (C (d_host s)) < 2 ^ 32"
    and "dos_int21_fsize d (word_of_int (uint fd)) s = (z, t)"
  shows "if length (C (d_host s)) < 2 ^ 31
    then z = int (length (C (d_host s))) \<and> io_ready seg linear t \<and> C (d_host t) = C (d_host s) \<and> P (d_host t) = 0
    else z < 0"
proof -
  let ?fd = "word_of_int (uint fd) :: u32" and ?n = "length (C (d_host s))"
  have n: "uint (of_nat ?n :: u32) = int ?n" using assms(4) by (simp add: unsigned_of_nat take_bit_nat_eq_self uint_nat unat_of_nat)
  obtain c e1 s1 where 1: "dos_int21_lseek d ?fd 0 1 s = (c, e1, s1)" by (cases "dos_int21_lseek d ?fd 0 1 s")
  note k1 = disk_seek[OF assms(1,2) 1]
  have c: "c = 0" using k1(4) assms(3) by simp
  obtain w e2 s2 where 2: "dos_int21_lseek d ?fd 0 2 s1 = (w, e2, s2)" by (cases "dos_int21_lseek d ?fd 0 2 s1")
  note k2 = disk_seek[OF assms(1) k1(1) 2]
  have w: "w = sint (of_nat ?n :: u32)" using k2(5) k1(2) by simp
  obtain r e3 s3 where 3: "dos_int21_lseek d ?fd 0 0 s2 = (r, e3, s3)" by (cases "dos_int21_lseek d ?fd 0 0 s2")
  note k3 = disk_seek[OF assms(1) k2(1) 3]
  show ?thesis
  proof (cases "?n < 2 ^ 31")
    case True
    then have w': "w = int ?n" using sint_small[of "of_nat ?n"] n w by simp
    then have "dos_int21_fsize d ?fd s = (w, s3)" using 1 2 3 c by (simp add: dos_int21_fsize_def)
    with assms(5) True w' k3(1,2,3) k2(2) k1(2) show ?thesis by simp
  next
    case False
    then have "int (2 ^ 31) \<le> int ?n" by (simp only: not_less of_nat_le_iff)
    then have "2 ^ 31 \<le> int ?n" by simp
    then have "w < 0" using sint_large[of "of_nat ?n"] n w by simp
    then have "fst (dos_int21_fsize d ?fd s) = -1" using 1 2 c by (simp add: dos_int21_fsize_def)
    with assms(5) False show ?thesis by simp
  qed
qed

subsection \<open>Modes\<close>

lemma parse_mode_fold:
  "want_trunc (foldl mode_char om m) = (want_trunc om \<or> of_char (CHR ''w'') \<in> set m)"
  "want_create (foldl mode_char om m) = (want_create om \<or> of_char (CHR ''w'') \<in> set m \<or> of_char (CHR ''a'') \<in> set m)"
  by (induction m arbitrary: om) (auto simp: mode_char_def)

lemma parse_mode_flags:
  "want_trunc (parse_mode m) = (of_char (CHR ''w'') \<in> set (cstr m))"
  "want_create (parse_mode m) = (of_char (CHR ''w'') \<in> set (cstr m) \<or> of_char (CHR ''a'') \<in> set (cstr m))"
  unfolding parse_mode_def parse_mode_fold by simp_all

subsection \<open>A DOS for the witnesses\<close>

text \<open>One file; the host state is its contents and the position. Reads return at most three bytes and
  writes, at the end of the file, take at most four.\<close>

definition ram_service :: "u32 \<Rightarrow> dos_rmcs \<Rightarrow> mem \<Rightarrow> bytes \<times> nat \<Rightarrow> bool \<times> dos_rmcs \<times> mem \<times> bytes \<times> nat" where
  "ram_service linear p m = (\<lambda>(c, pos).
     let ah = eax p AND 0xFF00; al = eax p AND 0xFF;
         off = unat (push_bit 16 (ecx p AND 0xFFFF) OR (edx p AND 0xFFFF))
     in if ah = 0x3F00 then
          let n = min (unat (ecx p)) (min 3 (length c - pos))
          in (False, p\<lparr>eax := of_nat n, flags := 0\<rparr>,
              (\<lambda>x. if unat (x - (linear + 1024)) < n then c ! (pos + unat (x - (linear + 1024))) else m x),
              c, pos + n)
        else if ah = 0x4000 then
          let n = min (unat (ecx p)) 4
          in (False, p\<lparr>eax := of_nat n, flags := 0\<rparr>, m, c @ load_bytes m (linear + 1024) n, pos)
        else if ah = 0x4200 then
          let target = off + (if al = 0 then 0 else if al = 1 then pos else length c)
          in (False, p\<lparr>eax := of_nat target AND 0xFFFF, edx := drop_bit 16 (of_nat target) AND 0xFFFF, flags := 0\<rparr>,
              m, c, target)
        else (False, p\<lparr>eax := 5, flags := 0\<rparr>, m, c, pos))"

definition ram_host :: "u32 \<Rightarrow> (bytes \<times> nat) dpmi" where
  "ram_host linear = \<lparr>writable = (\<lambda>_. True), int_invoke = (\<lambda>n r h. (True, r, h)),
     rm_call = ram_service linear, ds_selector = 0\<rparr>"

definition ram_state :: "bytes \<Rightarrow> (bytes \<times> nat) dos" where
  "ram_state c = \<lparr>d_mem = (\<lambda>_. 0), d_host = (c, 0), bounce_seg = 0x1000, bounce_linear = 0x10000,
     preallocated_thunk_seg = 0x800, thunk_seg = 0x800, thunk_linear = 0x8000, thunk_ready = True,
     rm_stack_seg = 0, rm_stack_bytes = 0\<rparr>"

lemma ax_of_nat: "n \<le> 4 \<Longrightarrow> ax (p\<lparr>eax := of_nat n, flags := 0\<rparr>) = int n"
proof -
  assume "n \<le> 4"
  then have "n = 0 \<or> n = 1 \<or> n = 2 \<or> n = 3 \<or> n = 4" by presburger
  then show ?thesis by (elim disjE) (simp_all add: ax_def)
qed

lemma ram_reads: "dos_read_service (ram_host linear) fd seg linear (\<lambda>(c, pos). drop pos c)"
  unfolding dos_read_service_def
proof (intro allI impI)
  fix p :: dos_rmcs and m and h :: "bytes \<times> nat"
  assume p: "eax p = 0x3F00 \<and> ebx p = word_of_int fd \<and> ecx p \<noteq> 0 \<and> ds p = ucast seg \<and> edx p = 1024"
  obtain c pos where h: "h = (c, pos)" by (cases h)
  define n where "n = min (unat (ecx p)) (min 3 (length c - pos))"
  define m' where "m' = (\<lambda>x. if unat (x - (linear + 1024)) < n then c ! (pos + unat (x - (linear + 1024))) else m x)"
  have r: "rm_call (ram_host linear) p m h = (False, p\<lparr>eax := of_nat n, flags := 0\<rparr>, m', c, pos + n)"
    using p by (simp add: ram_host_def ram_service_def h Let_def n_def m'_def)
  have n3: "n \<le> 3" "n \<le> length c - pos" "n \<le> unat (ecx p)" by (auto simp: n_def)
  have "load_bytes m' (linear + 1024) n = take n (drop pos c)"
  proof (intro nth_equalityI)
    fix i assume "i < length (load_bytes m' (linear + 1024) n)"
    then have i: "i < n" by simp
    with n3(1) have "i = 0 \<or> i = 1 \<or> i = 2" by presburger
    then have "unat (linear + 1024 + of_nat i - (linear + 1024)) = i"
      by (elim disjE) simp_all
    with i n3(2) show "load_bytes m' (linear + 1024) n ! i = take n (drop pos c) ! i"
      by (simp only: load_bytes_nth m'_def if_True nth_take nth_drop)
  qed (use n3(2) in simp)
  moreover have "int n \<le> uint (ecx p)"
    using n3(3) by (simp only: uint_nat of_nat_le_iff)
  moreover have "n = 0 \<longrightarrow> length c \<le> pos"
    using p unat_gt_0[of "ecx p"] by (auto simp: n_def min_def split: if_splits)
  ultimately show "case rm_call (ram_host linear) p m h of (cf, p', m', h') \<Rightarrow>
      \<not> cf \<and> \<not> carry p' \<and> ax p' \<le> uint (ecx p)
      \<and> (case h of (c, pos) \<Rightarrow> drop pos c) = load_bytes m' (linear + 1024) (nat (ax p')) @ (case h' of (c, pos) \<Rightarrow> drop pos c)
      \<and> (ax p' = 0 \<longrightarrow> (case h of (c, pos) \<Rightarrow> drop pos c) = [])"
    using n3 unfolding r unfolding h by (simp add: ax_of_nat carry_def add.commute[of pos] drop_drop[symmetric] del: drop_drop)
qed


lemma ram_writes: "dos_write_service (ram_host linear) fd seg linear fst"
  unfolding dos_write_service_def
proof (intro allI impI)
  fix p :: dos_rmcs and m and h :: "bytes \<times> nat"
  assume p: "eax p = 0x4000 \<and> ebx p = word_of_int fd \<and> ds p = ucast seg \<and> edx p = 1024"
  define n where "n = min (unat (ecx p)) 4"
  have n: "n \<le> 4" "int n \<le> uint (ecx p)"
    by (simp_all only: n_def uint_nat of_nat_le_iff min.cobounded1 min.cobounded2)
  have "rm_call (ram_host linear) p m h
      = (False, p\<lparr>eax := of_nat n, flags := 0\<rparr>, m, fst h @ load_bytes m (linear + 1024) n, snd h)"
    using p by (cases h) (simp add: ram_host_def ram_service_def Let_def n_def)
  with n show "case rm_call (ram_host linear) p m h of (cf, p', m', h') \<Rightarrow>
      \<not> cf \<and> (if carry p' then fst h' = fst h
        else ax p' \<le> uint (ecx p) \<and> fst h' = fst h @ load_bytes m (linear + 1024) (nat (ax p')))"
    by (simp add: ax_of_nat carry_def)
qed

lemma ram_ready: "io_ready 0x1000 0x10000 (ram_state c)"
  by (simp add: io_ready_def ram_state_def)

lemma in_block_shift:
  assumes "in_block (a + of_nat k) n x" "k + n \<le> 2 ^ 32 - 1"
  shows "unat (x - a) = unat (x - (a + of_nat k)) + k"
proof -
  define y where "y = x - (a + of_nat k)"
  have "unat (of_nat k :: u32) = k"
    using assms(2) by (simp add: unat_of_nat take_bit_nat_eq_self)
  then have "unat (y + of_nat k) = unat y + k"
    using assms unfolding in_block_def y_def[symmetric] by (subst unat_word_ariths(1)) simp
  then show ?thesis by (simp add: y_def)
qed

lemma ram_data_half: "data_half_ok (ram_host 0x10000) 0x10000 (thunk_linear (ram_state c))"
proof -
  have "\<not> in_block 0x8000 3 x" if "in_block (0x10000 + 1024) 1024 x" for x
    using that in_block_shift[where a = "0x8000" and k = "0x8000 + 1024" and n = 1024 and x = x]
    by (simp add: in_block_def)
  then show ?thesis
    by (simp add: data_half_ok_def ram_host_def ram_state_def)
qed

section \<open>Properties\<close>

text \<open>
  C2. \<open>read(n)\<close> on an open file returns exactly the next \<open>n\<close> bytes of the file, or what is left of it,
  and leaves the rest, however DOS splits the transfer into chunks of at most 1024 bytes.
\<close>

theorem file_read_exact:
  assumes "dos_read_service d (f_fd f) seg linear R" "io_ready seg linear s" "0 \<le> f_fd f"
  shows "\<exists>t. uc386dos_file_read d f n s = (Inr (take n (R (d_host s))), t)
    \<and> R (d_host t) = drop n (R (d_host s)) \<and> io_ready seg linear t"
  using read_loop_delivers[OF dos_reader_delivers[OF assms(1)] assms(2), of 0 n "[]"] assms(3)
  by (auto simp: uc386dos_file_read_def)

theorem file_read_exact_witness:
  "fst (uc386dos_file_read (ram_host 0x10000) \<lparr>f_fd = 5, f_text = False\<rparr> 8 (ram_state (str ''print(1)#''))) = Inr (str ''print(1)'')"
proof -
  have "take 8 (str ''print(1)#'') = str ''print(1)''" by code_simp
  then show ?thesis
    using file_read_exact[OF _ ram_ready[of "str ''print(1)#''"], where d = "ram_host 0x10000" and f = "\<lparr>f_fd = 5, f_text = False\<rparr>"
        and R = "\<lambda>(c, pos). drop pos c" and n = 8]
      ram_reads[where linear = "0x10000" and fd = 5 and seg = "0x1000"]
    by (auto simp: ram_state_def)
qed

text \<open>
  C6. \<open>write\<close> hands DOS a prefix of the buffer, in order and without gaps or repeats: it returns its
  length, which is the whole buffer's unless DOS accepted nothing for the next byte (disk full), or
  raises \<open>EIO\<close>. This holds for every split into chunks that DOS chooses.
\<close>

theorem file_write_prefix:
  assumes "dos_write_service d (f_fd f) seg linear W" "io_ready seg linear s"
    and "data_half_ok d linear (thunk_linear s)" "0 \<le> f_fd f"
  shows "\<exists>r t k. uc386dos_file_write d f buf s = (r, t) \<and> k \<le> length buf
    \<and> W (d_host t) = W (d_host s) @ take k buf
    \<and> (r = Inl MP_EIO \<or> r = Inr k \<and> (k = length buf \<or> (\<exists>u. fst (dos_writer d (f_fd f) u (drop k buf)) = 0)))"
  using write_loop_accepts[OF dos_writer_accepts[OF assms(1)], of s 0 buf] assms(2-4)
  by (fastforce simp: uc386dos_file_write_def)

theorem file_write_prefix_witness:
  "\<exists>r t k. uc386dos_file_write (ram_host 0x10000) \<lparr>f_fd = 5, f_text = False\<rparr> (str ''hello world'') (ram_state (str ''x'')) = (r, t)
     \<and> fst (d_host t) = str ''x'' @ take k (str ''hello world'')"
proof -
  let ?f = "\<lparr>f_fd = 5, f_text = False\<rparr>"
  have svc: "dos_write_service (ram_host 0x10000) (f_fd ?f) 0x1000 0x10000 fst" by (simp add: ram_writes)
  have fd: "0 \<le> f_fd ?f" by simp
  obtain r t k where "uc386dos_file_write (ram_host 0x10000) ?f (str ''hello world'') (ram_state (str ''x'')) = (r, t)"
      "fst (d_host t) = fst (d_host (ram_state (str ''x''))) @ take k (str ''hello world'')"
    using file_write_prefix[OF svc ram_ready ram_data_half fd] by blast
  moreover have "fst (d_host (ram_state (str ''x''))) = str ''x''" by (simp add: ram_state_def)
  ultimately show ?thesis by metis
qed

text \<open>
  C17. \<open>import\<close> loads the whole file. On a disk whose files are \<open>disk\<close>, read in whatever chunks DOS chooses,
  \<open>mp_lexer_new_from_file\<close> hands the lexer exactly the contents of the named file, from its first byte to
  its last, although finding the size moves the position to the end. A name that is not on the disk
  raises \<open>ENOENT\<close>, and a file of 2 GB or more, whose size the code takes for an error, raises \<open>EIO\<close>.
\<close>

theorem import_loads_file:
  assumes "dos_disk d seg linear disk fd C P" "io_ready seg linear s" "length fname < 1024" "0 \<notin> set fname"
    and "\<forall>x. in_block linear 1024 x \<longrightarrow> writable d x \<and> \<not> in_block (thunk_linear s) 3 x"
    and "\<forall>c. disk fname = Some c \<longrightarrow> length c < 2 ^ 32"
  shows "fst (mp_lexer_new_from_file d fname s) =
    (case disk fname of
       None \<Rightarrow> Inl (OSError MP_ENOENT)
     | Some c \<Rightarrow> if length c < 2 ^ 31 then Inr c else Inl (OSError MP_EIO))"
proof -
  obtain r e s1 where o: "dos_int21_open d fname 0 s = (r, e, s1)" by (cases "dos_int21_open d fname 0 s")
  note opened = disk_open[OF assms(1-5) o]
  show ?thesis
  proof (cases "disk fname")
    case None
    with opened o show ?thesis by (simp add: mp_lexer_new_from_file_def)
  next
    case (Some c)
    with opened have s1: "r = uint fd" "io_ready seg linear s1" "C (d_host s1) = c" "P (d_host s1) = 0" by simp_all
    obtain z s2 where z: "dos_int21_fsize d (word_of_int (uint fd)) s1 = (z, s2)"
      by (cases "dos_int21_fsize d (word_of_int (uint fd)) s1")
    have len: "length (C (d_host s1)) < 2 ^ 32" using assms(6) Some s1(3) by blast
    note size = disk_fsize[OF assms(1) s1(2,4) len z]
    have nf: "\<not> r < 0" using s1(1) by simp
    show ?thesis
    proof (cases "length c < 2 ^ 31")
      case True
      with size s1(3) have s2: "z = int (length c)" "io_ready seg linear s2" "C (d_host s2) = c" "P (d_host s2) = 0" by simp_all
      obtain t where "read_loop (dos_reader d (uint fd)) (length c) 0 [] s2 = (Inr (take (length c) c), t)"
        using read_loop_delivers[OF dos_reader_delivers[OF dos_diskD(4)[OF assms(1)]] s2(2), of 0 "length c" "[]"] s2(3,4)
        by auto
      then have "lexer_loop (dos_reader d (uint fd)) (length c) 0 [] s2 = (c, t)"
        using lexer_loop_read_loop by fastforce
      with o z s1(1) s2(1) nf Some True show ?thesis
        by (simp add: mp_lexer_new_from_file_def split_beta)
    next
      case False
      with size s1(3) have "z < 0" by simp
      with o z s1(1) nf Some False show ?thesis
        by (simp add: mp_lexer_new_from_file_def split_beta)
    qed
  qed
qed

text \<open>A disk with one file; the state of the host is the position in it. A read returns at most three bytes.\<close>

definition one_file_service :: "u32 \<Rightarrow> bytes \<Rightarrow> bytes \<Rightarrow> dos_rmcs \<Rightarrow> mem \<Rightarrow> u32 \<Rightarrow> bool \<times> dos_rmcs \<times> mem \<times> u32" where
  "one_file_service linear name c p m pos =
     (if eax p = 0x3D00 then
        if takeWhile (\<lambda>x. x \<noteq> 0) (load_bytes m linear 1024) = name
        then (False, p\<lparr>eax := 5, flags := 0\<rparr>, m, 0) else (False, p\<lparr>eax := 2, flags := 1\<rparr>, m, pos)
      else if eax p = 0x3F00 then
        let n = min (unat (ecx p)) (min 3 (length c - unat pos))
        in (False, p\<lparr>eax := of_nat n, flags := 0\<rparr>,
            (\<lambda>x. if unat (x - (linear + 1024)) < n then c ! (unat pos + unat (x - (linear + 1024))) else m x), pos + of_nat n)
      else rm_call (seek_host (of_nat (length c))) p m pos)"

definition one_file :: "u32 \<Rightarrow> bytes \<Rightarrow> bytes \<Rightarrow> u32 dpmi" where
  "one_file linear name c = (seek_host (of_nat (length c)))\<lparr>rm_call := one_file_service linear name c\<rparr>"

lemma one_file_reads:
  assumes "length c < 2 ^ 31"
  shows "dos_read_service (one_file linear name c) fd seg linear (\<lambda>pos. drop (unat pos) c)"
  unfolding dos_read_service_def
proof (intro allI impI)
  fix p :: dos_rmcs and m and pos :: u32
  assume p: "eax p = 0x3F00 \<and> ebx p = word_of_int fd \<and> ecx p \<noteq> 0 \<and> ds p = ucast seg \<and> edx p = 1024"
  define n where "n = min (unat (ecx p)) (min 3 (length c - unat pos))"
  define m' where "m' = (\<lambda>x. if unat (x - (linear + 1024)) < n then c ! (unat pos + unat (x - (linear + 1024))) else m x)"
  have r: "rm_call (one_file linear name c) p m pos = (False, p\<lparr>eax := of_nat n, flags := 0\<rparr>, m', pos + of_nat n)"
    using p by (simp add: one_file_def one_file_service_def Let_def n_def m'_def)
  have n3: "n \<le> 3" "n \<le> length c - unat pos" "n \<le> unat (ecx p)" by (auto simp: n_def)
  have "load_bytes m' (linear + 1024) n = take n (drop (unat pos) c)"
  proof (intro nth_equalityI)
    fix i assume "i < length (load_bytes m' (linear + 1024) n)"
    then have i: "i < n" by simp
    with n3(1) have "i = 0 \<or> i = 1 \<or> i = 2" by presburger
    then have "unat (linear + 1024 + of_nat i - (linear + 1024)) = i" by (elim disjE) simp_all
    with i n3(2) show "load_bytes m' (linear + 1024) n ! i = take n (drop (unat pos) c) ! i"
      by (simp only: load_bytes_nth m'_def if_True nth_take nth_drop)
  qed (use n3(2) in simp)
  moreover have "int n \<le> uint (ecx p)" using n3(3) by (simp only: uint_nat of_nat_le_iff)
  moreover have "n = 0 \<longrightarrow> length c \<le> unat pos"
    using p unat_gt_0[of "ecx p"] by (auto simp: n_def min_def split: if_splits)
  moreover have "drop (unat (pos + of_nat n)) c = drop n (drop (unat pos) c)"
  proof (cases "n = 0")
    case False
    then have "unat pos + n \<le> length c" using n3(2) by linarith
    then have "unat (pos + of_nat n) = unat pos + n"
      using assms by (simp add: unat_word_ariths unat_of_nat take_bit_nat_eq_self)
    then show ?thesis by (simp add: add.commute)
  qed simp
  ultimately show "case rm_call (one_file linear name c) p m pos of (cf, p', m', h') \<Rightarrow>
      \<not> cf \<and> \<not> carry p' \<and> ax p' \<le> uint (ecx p)
      \<and> drop (unat pos) c = load_bytes m' (linear + 1024) (nat (ax p')) @ drop (unat h') c
      \<and> (ax p' = 0 \<longrightarrow> drop (unat pos) c = [])"
    using n3 unfolding r by (simp add: ax_of_nat carry_def del: drop_drop)
qed

lemma one_file_disk:
  assumes "length c < 2 ^ 31"
  shows "dos_disk (one_file linear name c) seg linear (\<lambda>path. if path = name then Some c else None) 5 (\<lambda>_. c) (\<lambda>pos. pos)"
proof -
  have nm: "takeWhile (\<lambda>x. x \<noteq> 0) (load_bytes m linear 1024) = path"
    if "0 \<notin> set path" "length path < 1024" "load_bytes m linear (Suc (length path)) = path @ [0]" for m path
  proof -
    have "take (Suc (length path)) (load_bytes m linear 1024) = path @ [0]"
      using load_bytes_take[of "Suc (length path)" 1024 m linear] that by simp
    then have "load_bytes m linear 1024 = path @ 0 # drop (Suc (length path)) (load_bytes m linear 1024)"
      using append_take_drop_id[of "Suc (length path)" "load_bytes m linear 1024"] by simp
    moreover have "takeWhile (\<lambda>x. x \<noteq> 0) (path @ 0 # zs) = path" for zs
      using that(1) by (induction path) auto
    ultimately show ?thesis by metis
  qed
  have ne: "eax p \<noteq> 0x3D00 \<and> eax p \<noteq> 0x3F00" if "eax p AND 0xFF00 = 0x4200" for p :: dos_rmcs
    using that by auto
  have "dos_seek_service (one_file linear name c) (word_of_int (uint (5 :: u16))) (\<lambda>_. of_nat (length c)) (\<lambda>pos. pos)"
    by (auto simp: dos_seek_service_def one_file_def one_file_service_def ne seek_host_def Let_def carry_def high_low and.assoc
        simp del: push_bit_and)
  moreover have "ax (p\<lparr>eax := 5, flags := 0\<rparr>) = 5" for p by (simp add: ax_def)
  ultimately show ?thesis
    using one_file_reads[OF assms, of linear name 5 seg]
    by (auto simp: dos_disk_def one_file_def one_file_service_def nm carry_def)
qed

definition one_file_state :: "u32 dos" where
  "one_file_state = \<lparr>d_mem = (\<lambda>_. 0), d_host = 7, bounce_seg = 0x1000, bounce_linear = 0x10000,
     preallocated_thunk_seg = 0x800, thunk_seg = 0x800, thunk_linear = 0x8000, thunk_ready = True,
     rm_stack_seg = 0, rm_stack_bytes = 0\<rparr>"

theorem import_loads_file_witness:
  "fst (mp_lexer_new_from_file (one_file 0x10000 (str ''m.py'') (str ''import os'')) (str ''m.py'') one_file_state) = Inr (str ''import os'')
   \<and> fst (mp_lexer_new_from_file (one_file 0x10000 (str ''m.py'') (str ''import os'')) (str ''n.py'') one_file_state) = Inl (OSError MP_ENOENT)"
proof -
  let ?d = "one_file 0x10000 (str ''m.py'') (str ''import os'')"
  have len: "length (str ''import os'') < 2 ^ 31" by (simp add: str_def)
  have io: "io_ready 0x1000 0x10000 one_file_state" by (simp add: io_ready_def one_file_state_def)
  have "\<not> in_block 0x8000 3 x" if "in_block 0x10000 1024 x" for x
    using that in_block_shift[where a = "0x8000" and k = "0x8000" and n = 1024 and x = x] by (simp add: in_block_def)
  then have blk: "\<forall>x. in_block 0x10000 1024 x \<longrightarrow> writable ?d x \<and> \<not> in_block (thunk_linear one_file_state) 3 x"
    by (simp add: one_file_def seek_host_def one_file_state_def)
  have n: "length (str ''m.py'') < 1024" "0 \<notin> set (str ''m.py'')" "length (str ''n.py'') < 1024" "0 \<notin> set (str ''n.py'')"
    "str ''n.py'' \<noteq> str ''m.py''" by code_simp+
  show ?thesis
    using import_loads_file[OF one_file_disk[OF len] io n(1,2) blk] import_loads_file[OF one_file_disk[OF len] io n(3,4) blk] n(5) len
    by simp
qed

text \<open>
  What a mode string does. Only a mode with \<open>w\<close> truncates, only one with \<open>w\<close> or \<open>a\<close> can create a
  file; every other mode is a plain DOS open. A failure is reported by the errno of DOS's error code.
\<close>

theorem open_dispatch:
  "uc386dos_builtin_open d fname (Some mode) s =
     (let (fd, err, t) =
        (if of_char (CHR ''w'') \<in> set (cstr mode) then dos_int21_creat d (cstr fname) s
         else if of_char (CHR ''a'') \<in> set (cstr mode) then open_append d (cstr fname) (dos_mode (parse_mode mode)) s
         else dos_int21_open d (cstr fname) (dos_mode (parse_mode mode)) s)
      in (if fd < 0
          then Inl (OSError (if err = 0 then MP_EIO else if err = 4 then MP_EMFILE else if err = 5 then MP_EACCES else MP_ENOENT))
          else Inr \<lparr>f_fd = fd, f_text = text_type (parse_mode mode)\<rparr>, t))"
  unfolding uc386dos_builtin_open_def parse_mode_flags open_errno_def Let_def option.case
  by (cases "of_char (CHR ''w'') \<in> set (cstr mode)"; cases "of_char (CHR ''a'') \<in> set (cstr mode)")
    (simp_all only: simp_thms if_True if_False split_beta fst_conv snd_conv, simp_all)

text \<open>
  Closing is final: after a close the object's descriptor is \<open>-1\<close>, a second close does nothing and
  \<open>read\<close>, \<open>write\<close> and \<open>seek\<close> raise \<open>EBADF\<close> without calling DOS.
\<close>

theorem closed_file_ebadf:
  "case uc386dos_file_ioctl d f MP_STREAM_CLOSE s of (r, f', t) \<Rightarrow>
     r = Inr None
     \<and> uc386dos_file_ioctl d f' MP_STREAM_CLOSE t' = (Inr None, f', t')
     \<and> uc386dos_file_ioctl d f' (MP_STREAM_SEEK off whence) t' = (Inl MP_EBADF, f', t')
     \<and> uc386dos_file_read d f' n t' = (Inl MP_EBADF, t')
     \<and> uc386dos_file_write d f' buf t' = (Inl MP_EBADF, t')"
  by (auto simp: uc386dos_file_read_def uc386dos_file_write_def split: prod.split)

text \<open>
  Two points where the code and its comments part. Appending creates the file, which truncates it,
  after any failure to open it, not only when it is absent; and the access mode is set by the last
  of \<open>r\<close>, \<open>w\<close>, \<open>a\<close>, \<open>+\<close>, so \<open>"+r"\<close> opens for reading only while \<open>"r+"\<close> opens for both.
\<close>

theorem append_creates_after_any_error:
  assumes "dos_int21_open d fname mode s = (fd, err, t)" "fd < 0"
  shows "open_append d fname mode s =
    (let (fd, err, u) = dos_int21_creat d fname t
     in if fd \<ge> 0 then (fd, err, snd (snd (dos_int21_lseek d (word_of_int fd) 0 2 u))) else (fd, err, u))"
  using assms by (auto simp: open_append_def Let_def split: prod.split)

theorem mode_order_matters:
  "dos_mode (parse_mode (str ''r+'')) = 2 \<and> dos_mode (parse_mode (str ''+r'')) = 0"
  by code_simp

end
