(* ===== verification/Dos_Path.thy ===== *)
theory Dos_Path
  imports Prelude
begin

text \<open>
  The \<open>os.path\<close> submodule of \<open>path_uc386dos.c\<close>: string manipulation on DOS paths (both slashes
  separate, an optional drive prefix), and the three predicates that ask the C library's \<open>stat\<close>.

  A scan from the end of the buffer is a recursion on the index, and its \<open>-1\<close> is \<open>None\<close>. The C
  library's \<open>stat\<close> and \<open>getcwd\<close> are parameters: \<open>stat\<close> gives the file's record or fails, \<open>getcwd\<close> gives
  the working directory or fails.
\<close>

section \<open>Definitions\<close>

record stat_buf =
  st_mode :: u32
  st_size :: u32
  st_atime :: u32
  st_mtime :: u32
  st_ctime :: u32

definition is_sep :: "byte \<Rightarrow> bool" where
  "is_sep c \<longleftrightarrow> c = ch_backslash \<or> c = ch_slash"

primrec last_sep_loop :: "bytes \<Rightarrow> nat \<Rightarrow> nat option" where
  "last_sep_loop s 0 = None"
| "last_sep_loop s (Suc i) = (if is_sep (s ! i) then Some i else last_sep_loop s i)"

definition last_sep :: "bytes \<Rightarrow> nat option" where
  "last_sep s = last_sep_loop s (length s)"

primrec last_dot_loop :: "bytes \<Rightarrow> nat \<Rightarrow> nat \<Rightarrow> nat option" where
  "last_dot_loop s start 0 = None"
| "last_dot_loop s start (Suc i) =
     (if i > start then
        (if s ! i = ch_dot then Some i
         else if is_sep (s ! i) then None
         else last_dot_loop s start i)
      else None)"

definition last_dot :: "bytes \<Rightarrow> nat \<Rightarrow> nat option" where
  "last_dot s start = last_dot_loop s start (length s)"

definition mod_path_isabs :: "bytes \<Rightarrow> bool" where
  "mod_path_isabs p \<longleftrightarrow>
     (length p \<ge> 1 \<and> is_sep (p ! 0)) \<or> (length p \<ge> 2 \<and> p ! 1 = ch_colon)"

definition join_step :: "bytes \<Rightarrow> bytes \<Rightarrow> bytes" where
  "join_step vstr p =
     (if length p = 0 then vstr
      else let absolute = (is_sep (p ! 0) \<or> (length p \<ge> 2 \<and> p ! 1 = ch_colon));
               vstr = (if absolute then []
                       else if length vstr > 0 \<and> \<not> is_sep (last vstr) then vstr @ [ch_backslash]
                       else vstr)
           in vstr @ p)"

definition mod_path_join :: "bytes list \<Rightarrow> bytes" where
  "mod_path_join parts = foldl join_step [] parts"

definition split_head_len :: "bytes \<Rightarrow> nat \<Rightarrow> nat" where
  "split_head_len p sep = (if sep = 0 \<or> (sep = 2 \<and> p ! 1 = ch_colon) then sep + 1 else sep)"

definition mod_path_split :: "bytes \<Rightarrow> bytes \<times> bytes" where
  "mod_path_split p =
     (case last_sep p of
        None \<Rightarrow> ([], p)
      | Some sep \<Rightarrow> (take (split_head_len p sep) p, drop (sep + 1) p))"

definition mod_path_splitext :: "bytes \<Rightarrow> bytes \<times> bytes" where
  "mod_path_splitext p =
     (let name_start = (case last_sep p of None \<Rightarrow> 0 | Some sep \<Rightarrow> sep + 1)
      in case last_dot p name_start of
           None \<Rightarrow> (p, [])
         | Some dot \<Rightarrow> (take dot p, drop dot p))"

definition mod_path_basename :: "bytes \<Rightarrow> bytes" where
  "mod_path_basename p = (case last_sep p of None \<Rightarrow> p | Some sep \<Rightarrow> drop (sep + 1) p)"

definition mod_path_dirname :: "bytes \<Rightarrow> bytes" where
  "mod_path_dirname p =
     (case last_sep p of None \<Rightarrow> [] | Some sep \<Rightarrow> take (split_head_len p sep) p)"

definition mod_path_exists :: "(bytes \<Rightarrow> stat_buf option) \<Rightarrow> bytes \<Rightarrow> bool" where
  "mod_path_exists stat p \<longleftrightarrow> stat (cstr p) \<noteq> None"

definition mod_path_isfile :: "(bytes \<Rightarrow> stat_buf option) \<Rightarrow> bytes \<Rightarrow> bool" where
  "mod_path_isfile stat p =
     (case stat (cstr p) of None \<Rightarrow> False | Some st \<Rightarrow> st_mode st AND 0xF000 = 0x8000)"

definition mod_path_getsize :: "(bytes \<Rightarrow> stat_buf option) \<Rightarrow> bytes \<Rightarrow> u32 mp_result" where
  "mod_path_getsize stat p =
     (case stat (cstr p) of None \<Rightarrow> Inl (OSError MP_ENOENT) | Some st \<Rightarrow> Inr (st_size st))"

text \<open>The copying loop that \<open>abspath\<close> and \<open>normpath\<close> share: runs of separators become one backslash.\<close>

fun norm_loop :: "bool \<Rightarrow> bytes \<Rightarrow> bytes \<Rightarrow> bytes" where
  "norm_loop prev_sep [] vstr = vstr"
| "norm_loop prev_sep (c # cs) vstr =
     (if is_sep c then
        (if \<not> prev_sep then norm_loop True cs (vstr @ [ch_backslash])
         else norm_loop prev_sep cs vstr)
      else norm_loop False cs (vstr @ [c]))"

definition ends_with_sep :: "bytes \<Rightarrow> bool" where
  "ends_with_sep vstr \<longleftrightarrow> length vstr > 0 \<and> is_sep (last vstr)"

definition mod_path_abspath :: "bytes option \<Rightarrow> bytes \<Rightarrow> bytes mp_result" where
  "mod_path_abspath getcwd p =
     (let absolute = ((length p \<ge> 1 \<and> is_sep (p ! 0)) \<or> (length p \<ge> 2 \<and> p ! 1 = ch_colon))
      in if absolute then Inr (norm_loop False p [])
         else case getcwd of
                None \<Rightarrow> Inl (OSError MP_EIO)
              | Some cwd \<Rightarrow>
                  let vstr = (if length cwd > 0 \<and> \<not> is_sep (last cwd) then cwd @ [ch_backslash] else cwd)
                  in Inr (norm_loop (ends_with_sep vstr) p vstr))"

definition mod_path_normpath :: "bytes \<Rightarrow> bytes" where
  "mod_path_normpath p =
     (let vstr = norm_loop False p [] in if length vstr = 0 then [ch_dot] else vstr)"

section \<open>Lemmas\<close>

lemma last_sep_loop_Some:
  "last_sep_loop s n = Some i \<Longrightarrow>
     i < n \<and> is_sep (s ! i) \<and> (\<forall>j. i < j \<and> j < n \<longrightarrow> \<not> is_sep (s ! j))"
  by (induction n) (auto simp: less_Suc_eq split: if_splits)

lemma last_sep_loop_None: "last_sep_loop s n = None \<Longrightarrow> \<forall>j<n. \<not> is_sep (s ! j)"
  by (induction n) (auto simp: less_Suc_eq split: if_splits)

lemma last_sep_Some:
  assumes "last_sep p = Some sep"
  shows "p = take sep p @ p ! sep # drop (Suc sep) p" "is_sep (p ! sep)" "sep < length p"
    and "\<forall>c\<in>set (drop (Suc sep) p). \<not> is_sep c"
proof -
  note * = last_sep_loop_Some[OF assms[unfolded last_sep_def]]
  then show "is_sep (p ! sep)" "sep < length p"
    by simp_all
  then show "p = take sep p @ p ! sep # drop (Suc sep) p"
    by (simp add: id_take_nth_drop[symmetric])
  show "\<forall>c\<in>set (drop (Suc sep) p). \<not> is_sep c"
    using * by (auto simp: in_set_conv_nth)
qed

lemma last_sep_None: "last_sep p = None \<Longrightarrow> \<forall>c\<in>set p. \<not> is_sep c"
  using last_sep_loop_None[of p "length p"] by (auto simp: last_sep_def in_set_conv_nth)

lemma last_dot_loop_Some:
  "last_dot_loop s start n = Some i \<Longrightarrow>
     start < i \<and> i < n \<and> s ! i = ch_dot \<and>
     (\<forall>j. i < j \<and> j < n \<longrightarrow> s ! j \<noteq> ch_dot \<and> \<not> is_sep (s ! j))"
  by (induction n) (auto simp: less_Suc_eq split: if_splits)

lemma last_dot_loop_None:
  "last_dot_loop s start n = None \<Longrightarrow> (\<forall>j. start \<le> j \<and> j < n \<longrightarrow> \<not> is_sep (s ! j)) \<Longrightarrow>
     (\<forall>j. start < j \<and> j < n \<longrightarrow> s ! j \<noteq> ch_dot)"
  by (induction n) (auto simp: less_Suc_eq split: if_splits)

subsection \<open>Normalisation\<close>

lemma norm_loop_acc: "norm_loop b s (u @ v) = u @ norm_loop b s v"
  by (induction b s v rule: norm_loop.induct) simp_all

lemma norm_loop_acc_Nil: "norm_loop b s v = v @ norm_loop b s []"
  using norm_loop_acc[of b s v "[]"] by simp

text \<open>The separator state after a prefix: unchanged by nothing, else whether its last byte separates.\<close>

definition sep_after :: "bool \<Rightarrow> bytes \<Rightarrow> bool" where
  "sep_after b s = (if s = [] then b else is_sep (last s))"

lemma norm_loop_append:
  "norm_loop b (s @ t) [] = norm_loop b s [] @ norm_loop (sep_after b s) t []"
proof (induction s arbitrary: b)
  case (Cons c s)
  then show ?case
    by (auto simp: sep_after_def norm_loop_acc_Nil[of _ _ "[_]"])
qed (simp add: sep_after_def)

lemma norm_loop_chars: "set (norm_loop b s []) \<subseteq> insert ch_backslash (set s - {ch_slash})"
proof (induction s arbitrary: b)
  case (Cons c s)
  then show ?case
    using Cons.IH[of True] Cons.IH[of False] Cons.IH[of b]
    by (auto simp: norm_loop_acc_Nil[of _ _ "[_]"] is_sep_def)
qed simp

lemma norm_loop_sep_first: "norm_loop True s [] \<noteq> [] \<Longrightarrow> \<not> is_sep (hd (norm_loop True s []))"
proof (induction s)
  case (Cons c s)
  then show ?case by (auto simp: norm_loop_acc_Nil[of _ _ "[_]"] split: if_splits)
qed simp

text \<open>No two separators in a row.\<close>

fun single_seps :: "bytes \<Rightarrow> bool" where
  "single_seps (c # d # s) \<longleftrightarrow> \<not> (is_sep c \<and> is_sep d) \<and> single_seps (d # s)"
| "single_seps _ \<longleftrightarrow> True"

lemma single_seps_Cons:
  "single_seps (c # s) \<longleftrightarrow> (s = [] \<or> \<not> (is_sep c \<and> is_sep (hd s))) \<and> single_seps s"
  by (cases s) auto

lemma norm_loop_single_seps: "single_seps (norm_loop b s [])"
proof (induction s arbitrary: b)
  case (Cons c s)
  then show ?case
    using norm_loop_sep_first[of s]
    by (auto simp: norm_loop_acc_Nil[of _ _ "[_]"] single_seps_Cons)
qed simp

lemma norm_loop_id:
  "single_seps s \<Longrightarrow> ch_slash \<notin> set s \<Longrightarrow> s = [] \<or> \<not> (b \<and> is_sep (hd s)) \<Longrightarrow> norm_loop b s [] = s"
proof (induction s arbitrary: b)
  case (Cons c s)
  then show ?case
    by (auto simp: norm_loop_acc_Nil[of _ _ "[_]"] single_seps_Cons is_sep_def)
qed simp

lemma norm_loop_idem: "norm_loop False (norm_loop False s []) [] = norm_loop False s []"
  using norm_loop_chars[of False s] by (intro norm_loop_id norm_loop_single_seps) auto

lemma norm_loop_empty: "norm_loop False s [] = [] \<longleftrightarrow> s = []"
  by (cases s) (auto simp: norm_loop_acc_Nil[of _ _ "[_]"])

lemma isabs_Cons: "mod_path_isabs (c # s) \<longleftrightarrow> is_sep c \<or> (s \<noteq> [] \<and> hd s = ch_colon)"
  by (cases s) (auto simp: mod_path_isabs_def)

lemma isabs_Nil [simp]: "\<not> mod_path_isabs []"
  by (simp add: mod_path_isabs_def)

lemma colon_not_sep [simp]: "\<not> is_sep ch_colon"
  by (simp add: is_sep_def)

lemma norm_loop_isabs: "mod_path_isabs (norm_loop False p []) = mod_path_isabs p"
proof (cases p)
  case (Cons c s)
  then show ?thesis
  proof (cases s)
    case (Cons d t)
    then show ?thesis
      using \<open>p = c # s\<close>
      by (auto simp: norm_loop_acc_Nil[of _ _ "[_]"] norm_loop_acc_Nil[of _ _ "[_, _]"] isabs_Cons is_sep_def)
  qed (auto simp: isabs_Cons is_sep_def)
qed simp

subsection \<open>Joining\<close>

lemma isabs_append_long: "2 \<le> length v \<Longrightarrow> mod_path_isabs (v @ w) = mod_path_isabs v"
  by (auto simp: mod_path_isabs_def nth_append)

lemma isabs_join_step: "mod_path_isabs (join_step v p) \<longleftrightarrow> mod_path_isabs v \<or> mod_path_isabs p"
proof (cases v)
  case Nil
  then show ?thesis by (cases p) (auto simp: join_step_def Let_def)
next
  case (Cons c s)
  then show ?thesis
  proof (cases s)
    case Nil
    with Cons show ?thesis
      by (cases p; cases "tl p") (auto simp: join_step_def Let_def isabs_Cons is_sep_def)
  next
    case (Cons d t)
    with \<open>v = c # s\<close> have "2 \<le> length v" by simp
    then show ?thesis
      using isabs_append_long[of v] \<open>v = c # s\<close>
      by (cases p) (auto simp: join_step_def Let_def mod_path_isabs_def nth_append Suc_le_eq)
  qed
qed

lemma isabs_join_fold: "mod_path_isabs (foldl join_step v ps) \<longleftrightarrow> mod_path_isabs v \<or> (\<exists>p\<in>set ps. mod_path_isabs p)"
  by (induction ps arbitrary: v) (auto simp: isabs_join_step)

lemma join_last_abs:
  assumes "mod_path_isabs p"
  shows "foldl join_step v (ps @ p # qs) = foldl join_step p qs"
proof -
  have "p \<noteq> []" using assms by auto
  then have "join_step w p = p" for w
    using assms by (cases p) (auto simp: join_step_def Let_def mod_path_isabs_def)
  then show ?thesis by simp
qed

subsection \<open>Splitting\<close>

lemma split_parts: "mod_path_split p = (mod_path_dirname p, mod_path_basename p)"
  by (simp add: mod_path_split_def mod_path_dirname_def mod_path_basename_def split: option.split)

lemma basename_no_sep: "\<forall>c\<in>set (mod_path_basename p). \<not> is_sep c"
  by (auto simp: mod_path_basename_def dest: last_sep_None last_sep_Some(4) split: option.split)

lemma join_two: "mod_path_join [h, t] = join_step h t"
  by (simp add: mod_path_join_def join_step_def)

lemma norm_join_step:
  assumes t: "t \<noteq> []" "\<not> mod_path_isabs t" and h: "h \<noteq> []" and c: "is_sep c"
  shows "norm_loop False (join_step h t) [] = norm_loop False (h @ c # t) []"
proof -
  have "join_step h t = (if is_sep (last h) then h else h @ [ch_backslash]) @ t"
    using t h by (auto simp: join_step_def Let_def mod_path_isabs_def Suc_le_eq)
  then show ?thesis
    using h c
    by (auto simp: norm_loop_append sep_after_def is_sep_def norm_loop_acc_Nil[of _ _ "[_]"])
qed

lemma split_join_norm:
  assumes "mod_path_split p = (h, t)" "t \<noteq> []" "\<not> mod_path_isabs t"
  shows "mod_path_normpath (mod_path_join [h, t]) = mod_path_normpath p"
proof (cases "last_sep p")
  case None
  with assms have "h = []" "t = p"
    by (simp_all add: mod_path_split_def)
  then show ?thesis
    unfolding join_two by (simp add: join_step_def)
next
  case (Some sep)
  note s = last_sep_Some[OF Some]
  from assms Some have h: "h = take (split_head_len p sep) p" and t: "t = drop (Suc sep) p"
    by (simp_all add: mod_path_split_def)
  have root: "join_step h t = p" if "split_head_len p sep = Suc sep"
  proof -
    have "last h = p ! sep" "h \<noteq> []" "h @ t = p"
      using that s(1,3) h t by (auto simp: take_Suc_conv_app_nth)
    then show ?thesis
      using s(2) assms(2,3) by (auto simp: join_step_def Let_def mod_path_isabs_def Suc_le_eq)
  qed
  show ?thesis
  proof (cases "split_head_len p sep = Suc sep")
    case False
    then have "split_head_len p sep = sep" "sep \<noteq> 0"
      by (auto simp: split_head_len_def split: if_splits)
    with h s have "h \<noteq> []" "p = h @ p ! sep # t"
      using t by auto
    then have "norm_loop False (join_step h t) [] = norm_loop False p []"
      using norm_join_step[OF assms(2,3) \<open>h \<noteq> []\<close> s(2)] by simp
    then show ?thesis
      by (simp only: mod_path_normpath_def join_two)
  qed (simp add: root join_two)
qed

lemma splitext_last_dot:
  assumes "last_dot p start = Some dot" "start = (case last_sep p of None \<Rightarrow> 0 | Some sep \<Rightarrow> sep + 1)"
  shows "start < dot" "dot < length p" "p ! dot = ch_dot"
    and "\<forall>c\<in>set (drop (Suc dot) p). c \<noteq> ch_dot \<and> \<not> is_sep c"
  using last_dot_loop_Some[of p start "length p" dot] assms
  by (auto simp: last_dot_def in_set_conv_nth)

section \<open>Properties\<close>

text \<open>
  \<open>split\<close> is \<open>(dirname, basename)\<close>: the basename holds no separator, and joining the two parts
  again names the same path up to \<open>normpath\<close>, when the basename is not empty and does not look
  like a drive prefix (\<open>join\<close> would restart there).
\<close>

theorem split_join:
  assumes "mod_path_basename p \<noteq> []" "\<not> mod_path_isabs (mod_path_basename p)"
  shows "mod_path_split p = (mod_path_dirname p, mod_path_basename p)
    \<and> \<not> list_ex is_sep (mod_path_basename p)
    \<and> mod_path_normpath (mod_path_join [mod_path_dirname p, mod_path_basename p]) = mod_path_normpath p"
  using split_join_norm[OF split_parts assms] basename_no_sep[of p] split_parts[of p]
  by (simp add: list_ex_iff)

theorem split_join_witness:
  "mod_path_normpath (mod_path_join [mod_path_dirname (str ''C:'' @ ch_backslash # str ''a//b/f.py''),
      mod_path_basename (str ''C:'' @ ch_backslash # str ''a//b/f.py'')]) = (str ''C:'' @ ch_backslash # str ''a'' @ ch_backslash # str ''b'' @ ch_backslash # str ''f.py'')"
proof -
  have b: "mod_path_basename (str ''C:'' @ ch_backslash # str ''a//b/f.py'') = str ''f.py''" by code_simp
  have n: "mod_path_normpath (str ''C:'' @ ch_backslash # str ''a//b/f.py'') = (str ''C:'' @ ch_backslash # str ''a'' @ ch_backslash # str ''b'' @ ch_backslash # str ''f.py'')" by code_simp
  have ne: "str ''f.py'' \<noteq> []" by code_simp
  have na: "\<not> mod_path_isabs (str ''f.py'')" by code_simp
  show ?thesis
    using split_join[of "(str ''C:'' @ ch_backslash # str ''a//b/f.py'')"] ne na by (simp add: b n)
qed

text \<open>
  \<open>splitext\<close> cuts the path without losing a byte: root and extension concatenate to the path,
  the extension is empty or a dot followed by neither dot nor separator, and the root of a path
  with an extension has at least one byte of the final component before the dot.
\<close>

theorem splitext_parts:
  "fst (mod_path_splitext p) @ snd (mod_path_splitext p) = p
   \<and> (snd (mod_path_splitext p) = []
      \<or> (hd (snd (mod_path_splitext p)) = ch_dot
         \<and> list_all (\<lambda>c. c \<notin> {ch_dot, ch_backslash, ch_slash}) (tl (snd (mod_path_splitext p)))
         \<and> length (mod_path_basename p) > length (snd (mod_path_splitext p))))"
proof -
  define start where "start = (case last_sep p of None \<Rightarrow> 0 | Some sep \<Rightarrow> sep + 1)"
  show ?thesis
  proof (cases "last_dot p start")
    case None
    then show ?thesis
      by (simp add: mod_path_splitext_def start_def Let_def)
  next
    case (Some dot)
    note d = splitext_last_dot[OF Some start_def]
    have "mod_path_splitext p = (take dot p, drop dot p)"
      using Some by (simp add: mod_path_splitext_def start_def Let_def)
    moreover have "length (drop dot p) < length (drop start p)"
      using d(1,2) by simp
    moreover have "mod_path_basename p = drop start p"
      by (simp add: mod_path_basename_def start_def split: option.split)
    moreover have "drop dot p = ch_dot # drop (Suc dot) p"
      using d(2,3) Cons_nth_drop_Suc[of dot p] by simp
    moreover have "list_all (\<lambda>c. c \<notin> {ch_dot, ch_backslash, ch_slash}) (drop (Suc dot) p)"
      using d(4) by (auto simp: list_all_iff is_sep_def)
    ultimately show ?thesis
      using append_take_drop_id[of dot p] by simp
  qed
qed

text \<open>
  What \<open>normpath\<close> should give, written down without its loop: the components of the path, its longest
  pieces without separators, joined by single backslashes; a leading or trailing run of separators
  leaves one backslash.
\<close>

fun pieces :: "bytes \<Rightarrow> bytes list" where
  "pieces [] = [[]]"
| "pieces (c # s) = (if is_sep c then [] # pieces s else (c # hd (pieces s)) # tl (pieces s))"

definition components :: "bytes \<Rightarrow> bytes list" where
  "components p = filter (\<lambda>x. x \<noteq> []) (pieces p)"

fun join_by_backslash :: "bytes list \<Rightarrow> bytes" where
  "join_by_backslash [] = []"
| "join_by_backslash [x] = x"
| "join_by_backslash (x # y # zs) = x @ ch_backslash # join_by_backslash (y # zs)"

definition lead :: "bytes \<Rightarrow> bytes" where
  "lead p = (if p \<noteq> [] \<and> is_sep (hd p) then [ch_backslash] else [])"

definition trail :: "bytes \<Rightarrow> bytes" where
  "trail p = (if components p \<noteq> [] \<and> is_sep (last p) then [ch_backslash] else [])"

lemma pieces_nonempty [simp]: "pieces s \<noteq> []"
  by (cases s) auto

lemma components_Cons:
  "components (c # s) = (if is_sep c then components s else (c # hd (pieces s)) # filter (\<lambda>x. x \<noteq> []) (tl (pieces s)))"
  by (simp add: components_def)

lemma components_empty: "components s = [] \<longleftrightarrow> list_all is_sep s"
  by (induction s) (auto simp: components_Cons, simp add: components_def)

lemma join_char: "join_by_backslash ((c # x) # zs) = c # join_by_backslash (x # zs)"
  by (cases zs) simp_all

lemma norm_loop_components:
  "norm_loop b s [] = (if b then [] else lead s) @ join_by_backslash (components s) @ trail s"
proof (induction s arbitrary: b)
  case Nil
  show ?case by (simp add: lead_def trail_def components_def)
next
  case (Cons c s)
  show ?case
  proof (cases "is_sep c")
    case True
    have "trail (c # s) = trail s" using True by (cases s) (simp_all add: trail_def components_Cons components_def)
    with True Cons[of True] show ?thesis
      by (auto simp: lead_def components_Cons norm_loop_acc_Nil[of _ _ "[_]"])
  next
    case False
    have t: "trail (c # s) = (if s \<noteq> [] \<and> is_sep (last s) then [ch_backslash] else [])"
      using False by (simp add: trail_def components_Cons)
    have "norm_loop b (c # s) [] = c # lead s @ join_by_backslash (components s) @ trail s"
      using False Cons[of False] by (simp add: norm_loop_acc_Nil[of _ _ "[_]"])
    also have "\<dots> = join_by_backslash (components (c # s)) @ trail (c # s)"
    proof (cases s)
      case Nil
      then show ?thesis using False by (simp add: lead_def trail_def components_def)
    next
      case (Cons e r)
      show ?thesis
      proof (cases "is_sep e")
        case True
        have k: "components (c # s) = [c] # components s"
          using False True Cons by (simp add: components_Cons) (simp add: components_def)
        show ?thesis
        proof (cases "components s")
          case Nil
          then have "list_all is_sep s" by (simp add: components_empty)
          then have "is_sep (last s)" using Cons by (simp add: list_all_iff)
          then show ?thesis using Nil k t True Cons by (simp add: lead_def trail_def)
        next
          case (Cons x xs)
          with k t True \<open>s = e # r\<close> show ?thesis by (simp add: lead_def trail_def)
        qed
      next
        case sep: False
        then have "components s = (e # hd (pieces r)) # filter (\<lambda>x. x \<noteq> []) (tl (pieces r))"
          using Cons by (simp add: components_Cons)
        moreover have "components (c # s) = (c # e # hd (pieces r)) # filter (\<lambda>x. x \<noteq> []) (tl (pieces r))"
          using False sep Cons by (simp add: components_Cons)
        ultimately show ?thesis using Cons sep t by (simp add: join_char lead_def trail_def)
      qed
    qed
    finally show ?thesis using False by (simp add: lead_def)
  qed
qed

text \<open>
  C35. \<open>normpath\<close> gives the components of the path joined by single backslashes, with one backslash for a
  leading and one for a trailing run of separators, and a dot for the empty path. So it is a normal form: its
  result is never empty, holds no forward slash and no two separators in a row, is absolute
  exactly when the argument is, and is a fixed point of \<open>normpath\<close>.
\<close>

theorem normpath_normal_form:
  "mod_path_normpath p = (if p = [] then [ch_dot] else lead p @ join_by_backslash (components p) @ trail p)
   \<and> mod_path_normpath p \<noteq> [] \<and> ch_slash \<notin> set (mod_path_normpath p)
   \<and> single_seps (mod_path_normpath p)
   \<and> mod_path_isabs (mod_path_normpath p) = mod_path_isabs p
   \<and> mod_path_normpath (mod_path_normpath p) = mod_path_normpath p"
proof (cases "p = []")
  case False
  then have n: "mod_path_normpath p = norm_loop False p []"
    by (simp add: mod_path_normpath_def Let_def norm_loop_empty)
  have "mod_path_normpath (norm_loop False p []) = norm_loop False p []"
    using False by (simp add: mod_path_normpath_def Let_def norm_loop_idem norm_loop_empty)
  moreover have "ch_slash \<notin> set (norm_loop False p [])"
    using norm_loop_chars[of False p] by auto
  moreover have "norm_loop False p [] \<noteq> []"
    using False by (simp add: norm_loop_empty)
  moreover note norm_loop_single_seps[of False p] norm_loop_isabs[of p]
  moreover have "norm_loop False p [] = lead p @ join_by_backslash (components p) @ trail p"
    using norm_loop_components[of False p] by simp
  ultimately show ?thesis
    unfolding n using False by (intro conjI) simp_all
qed (simp add: mod_path_normpath_def mod_path_isabs_def is_sep_def)

text \<open>
  \<open>join\<close> restarts at the last absolute part and ignores what comes before it; its result is
  absolute exactly when some part is.
\<close>

theorem join_absolute:
  "mod_path_isabs (mod_path_join parts) = list_ex mod_path_isabs parts
   \<and> (mod_path_isabs p \<longrightarrow> mod_path_join (parts @ p # rest) = mod_path_join (p # rest))"
  using isabs_join_fold[of "[]" parts] join_last_abs[of p "[]" parts rest] join_last_abs[of p "[]" "[]" rest]
  by (auto simp: mod_path_join_def list_ex_iff)

theorem join_absolute_witness:
  "mod_path_join [str ''a'', (str ''D:'' @ ch_backslash # str ''x''), str ''y''] = (str ''D:'' @ ch_backslash # str ''x'' @ ch_backslash # str ''y'')"
proof -
  have a: "mod_path_isabs (str ''D:'' @ ch_backslash # str ''x'')" by code_simp
  have j: "mod_path_join [(str ''D:'' @ ch_backslash # str ''x''), str ''y''] = (str ''D:'' @ ch_backslash # str ''x'' @ ch_backslash # str ''y'')" by code_simp
  from join_absolute[of "[str ''a'']" "(str ''D:'' @ ch_backslash # str ''x'')" "[str ''y'']"] a j
  show ?thesis by simp
qed

text \<open>
  \<open>abspath\<close> on every branch: an absolute argument is only normalised, a relative one raises
  \<open>EIO\<close> when \<open>getcwd\<close> fails, and otherwise the result is the working directory, one separator and
  the normalised rest; it is absolute whenever the working directory is.
\<close>

theorem abspath_result:
  "(mod_path_isabs p \<longrightarrow> mod_path_abspath cwd p = Inr (norm_loop False p [])
      \<and> mod_path_isabs (norm_loop False p []))
   \<and> (\<not> mod_path_isabs p \<longrightarrow> mod_path_abspath None p = Inl (OSError MP_EIO))
   \<and> (\<not> mod_path_isabs p \<and> mod_path_isabs d \<longrightarrow>
        (\<exists>r. mod_path_abspath (Some d) p = Inr r \<and> mod_path_isabs r
           \<and> r = (if is_sep (last d) then d else d @ [ch_backslash]) @ norm_loop True p []))"
proof (intro conjI impI)
  assume "\<not> mod_path_isabs p \<and> mod_path_isabs d"
  moreover have "d \<noteq> []" if "mod_path_isabs d" using that by auto
  moreover have "mod_path_isabs (d @ s)" if "mod_path_isabs d" for s
    using that by (auto simp: mod_path_isabs_def nth_append)
  moreover have "is_sep ch_backslash" by (simp add: is_sep_def)
  ultimately show "\<exists>r. mod_path_abspath (Some d) p = Inr r \<and> mod_path_isabs r
      \<and> r = (if is_sep (last d) then d else d @ [ch_backslash]) @ norm_loop True p []"
    unfolding mod_path_abspath_def mod_path_isabs_def[of p, symmetric] Let_def
    by (auto simp: ends_with_sep_def norm_loop_acc_Nil[of _ _ d] norm_loop_acc_Nil[of _ _ "d @ [_]"])
qed (simp_all only: mod_path_abspath_def Let_def mod_path_isabs_def[symmetric] norm_loop_isabs if_True if_False option.case)

theorem abspath_result_witness:
  "mod_path_abspath None (str ''a/b'') = Inl (OSError MP_EIO)
   \<and> mod_path_abspath (Some (str ''C:'' @ ch_backslash # str ''w'')) (str ''a//b'') = Inr (str ''C:'' @ ch_backslash # str ''w'' @ ch_backslash # str ''a'' @ ch_backslash # str ''b'')"
proof -
  have a: "\<not> mod_path_isabs (str ''a/b'')" "\<not> mod_path_isabs (str ''a//b'')" "mod_path_isabs (str ''C:'' @ ch_backslash # str ''w'')"
    by code_simp+
  have r: "(if is_sep (last (str ''C:'' @ ch_backslash # str ''w'')) then (str ''C:'' @ ch_backslash # str ''w'') else (str ''C:'' @ ch_backslash # str ''w'') @ [ch_backslash])
      @ norm_loop True (str ''a//b'') [] = (str ''C:'' @ ch_backslash # str ''w'' @ ch_backslash # str ''a'' @ ch_backslash # str ''b'')" by code_simp
  from abspath_result[of "str ''a/b''" None "[]"] abspath_result[of "str ''a//b''" None "(str ''C:'' @ ch_backslash # str ''w'')"] a r
  show ?thesis by auto
qed

end
