(* ===== verification/Os_Module.thy ===== *)
theory Os_Module
  imports Dos_Path
begin

text \<open>
  The \<open>os\<close> module of \<open>os_uc386dos.c\<close>: thin wrappers over the C library that turn failures into
  \<open>OSError\<close>, the directory listing, and the environment.

  The C library (\<open>mkdir\<close>, \<open>stat\<close>, \<open>dos_find_first\<close> and the rest, in the compiler's run time) is a record
  of functions over an unspecified world \<open>'w\<close>. A loop that ends only when the library says so is a
  partial function: \<open>None\<close> is a loop that never returns.
\<close>

section \<open>Definitions\<close>

record 'w libc =
  l_mkdir :: "bytes \<Rightarrow> 'w \<Rightarrow> int \<times> 'w"
  l_rmdir :: "bytes \<Rightarrow> 'w \<Rightarrow> int \<times> 'w"
  l_unlink :: "bytes \<Rightarrow> 'w \<Rightarrow> int \<times> 'w"
  l_rename :: "bytes \<Rightarrow> bytes \<Rightarrow> 'w \<Rightarrow> int \<times> 'w"
  l_chdir :: "bytes \<Rightarrow> 'w \<Rightarrow> int \<times> 'w"
  l_getcwd :: "nat \<Rightarrow> 'w \<Rightarrow> bytes option"
  l_find_first :: "bytes \<Rightarrow> 'w \<Rightarrow> int \<times> 'w"
  l_find_next :: "'w \<Rightarrow> int \<times> 'w"
  l_dta_filename :: "'w \<Rightarrow> bytes"
  l_stat :: "bytes \<Rightarrow> 'w \<Rightarrow> stat_buf option"
  l_getenv :: "bytes \<Rightarrow> bytes option"
  l_env_iter :: "nat \<Rightarrow> bytes option"
  l_system :: "bytes \<Rightarrow> 'w \<Rightarrow> int \<times> 'w"
  l_open :: "bytes \<Rightarrow> u32 \<Rightarrow> 'w \<Rightarrow> int \<times> 'w"
  l_read :: "int \<Rightarrow> nat \<Rightarrow> 'w \<Rightarrow> int \<times> bytes \<times> 'w"
  l_write :: "int \<Rightarrow> bytes \<Rightarrow> 'w \<Rightarrow> int \<times> 'w"
  l_close :: "int \<Rightarrow> 'w \<Rightarrow> int \<times> 'w"

abbreviation get_path_str :: "bytes \<Rightarrow> bytes" where "get_path_str \<equiv> cstr"

definition or_raise :: "errno \<Rightarrow> int \<times> 'w \<Rightarrow> unit mp_result \<times> 'w" where
  "or_raise e = (\<lambda>(rc, w). (if rc \<noteq> 0 then Inl (OSError e) else Inr (), w))"

definition mod_uc386dos_os_mkdir :: "'w libc \<Rightarrow> bytes \<Rightarrow> 'w \<Rightarrow> unit mp_result \<times> 'w" where
  "mod_uc386dos_os_mkdir l path_in w = or_raise MP_EIO (l_mkdir l (get_path_str path_in) w)"

definition mod_uc386dos_os_rmdir :: "'w libc \<Rightarrow> bytes \<Rightarrow> 'w \<Rightarrow> unit mp_result \<times> 'w" where
  "mod_uc386dos_os_rmdir l path_in w = or_raise MP_EIO (l_rmdir l (get_path_str path_in) w)"

definition mod_uc386dos_os_unlink :: "'w libc \<Rightarrow> bytes \<Rightarrow> 'w \<Rightarrow> unit mp_result \<times> 'w" where
  "mod_uc386dos_os_unlink l path_in w = or_raise MP_ENOENT (l_unlink l (get_path_str path_in) w)"

definition mod_uc386dos_os_rename :: "'w libc \<Rightarrow> bytes \<Rightarrow> bytes \<Rightarrow> 'w \<Rightarrow> unit mp_result \<times> 'w" where
  "mod_uc386dos_os_rename l old_in new_in w =
     or_raise MP_EIO (l_rename l (get_path_str old_in) (get_path_str new_in) w)"

definition mod_uc386dos_os_chdir :: "'w libc \<Rightarrow> bytes \<Rightarrow> 'w \<Rightarrow> unit mp_result \<times> 'w" where
  "mod_uc386dos_os_chdir l path_in w = or_raise MP_ENOENT (l_chdir l (get_path_str path_in) w)"

definition mod_uc386dos_os_getcwd :: "'w libc \<Rightarrow> 'w \<Rightarrow> bytes mp_result" where
  "mod_uc386dos_os_getcwd l w =
     (case l_getcwd l 80 w of None \<Rightarrow> Inl (OSError MP_EIO) | Some buf \<Rightarrow> Inr (cstr buf))"

subsection \<open>listdir\<close>

text \<open>The mask is built in a buffer of 80 bytes; \<open>None\<close> when it would not fit.\<close>

definition listdir_mask :: "bytes option \<Rightarrow> bytes option" where
  "listdir_mask arg =
     (case arg of
        None \<Rightarrow> Some [ch_star, ch_dot, ch_star]
      | Some path_in \<Rightarrow>
          let path = get_path_str path_in
          in if length path + 5 > 80 then None
             else let msk = path;
                      msk = (if length msk > 0 \<and> last msk \<noteq> ch_backslash \<and> last msk \<noteq> ch_slash
                              then msk @ [ch_backslash] else msk)
                  in Some (msk @ [ch_star, ch_dot, ch_star]))"

definition is_dot_entry :: "bytes \<Rightarrow> bool" where
  "is_dot_entry fname \<longleftrightarrow> fname = [ch_dot] \<or> fname = [ch_dot, ch_dot]"

partial_function (option) listdir_loop :: "'w libc \<Rightarrow> bytes list \<Rightarrow> int \<Rightarrow> 'w \<Rightarrow> (bytes list \<times> 'w) option" where
  "listdir_loop l names rc w =
     (if rc = 0
      then let fname = cstr (l_dta_filename l w);
               names = (if \<not> is_dot_entry fname then names @ [fname] else names);
               (rc, w) = l_find_next l w
           in listdir_loop l names rc w
      else Some (names, w))"

definition mod_uc386dos_os_listdir :: "'w libc \<Rightarrow> bytes option \<Rightarrow> 'w \<Rightarrow> (bytes list mp_result \<times> 'w) option" where
  "mod_uc386dos_os_listdir l arg w =
     (case listdir_mask arg of
        None \<Rightarrow> Some (Inl (OSError MP_E2BIG), w)
      | Some msk \<Rightarrow>
          let (rc, w) = l_find_first l msk w
          in map_option (\<lambda>(names, w). (Inr names, w)) (listdir_loop l [] rc w))"

subsection \<open>stat, system and the environment\<close>

definition mod_uc386dos_os_stat :: "'w libc \<Rightarrow> bytes \<Rightarrow> 'w \<Rightarrow> u32 list mp_result" where
  "mod_uc386dos_os_stat l path_in w =
     (case l_stat l (get_path_str path_in) w of
        None \<Rightarrow> Inl (OSError MP_ENOENT)
      | Some st \<Rightarrow> Inr [st_mode st, 0, 0, 1, 0, 0, st_size st, st_atime st, st_mtime st, st_ctime st])"

definition mod_uc386dos_os_system :: "'w libc \<Rightarrow> bytes \<Rightarrow> 'w \<Rightarrow> int \<times> 'w" where
  "mod_uc386dos_os_system l cmd_in w = l_system l (get_path_str cmd_in) w"

text \<open>The result is a string of the environment, the default argument, or \<open>None\<close>.\<close>

datatype 'o getenv_result = EnvStr bytes | EnvDefault 'o | EnvNone

definition mod_uc386dos_os_getenv :: "'w libc \<Rightarrow> bytes \<Rightarrow> 'o option \<Rightarrow> 'o getenv_result" where
  "mod_uc386dos_os_getenv l name dflt =
     (case l_getenv l (get_path_str name) of
        Some val \<Rightarrow> EnvStr (cstr val)
      | None \<Rightarrow> (case dflt of Some d \<Rightarrow> EnvDefault d | None \<Rightarrow> EnvNone))"

text \<open>One entry \<open>KEY=value\<close> of the environment block stored in the dictionary.\<close>

definition environ_store :: "(bytes \<rightharpoonup> bytes) \<Rightarrow> bytes \<Rightarrow> (bytes \<rightharpoonup> bytes)" where
  "environ_store d entry =
     (if ch_eq \<in> set (cstr entry)
      then d(takeWhile (\<lambda>c. c \<noteq> ch_eq) (cstr entry) \<mapsto> tl (dropWhile (\<lambda>c. c \<noteq> ch_eq) (cstr entry)))
      else d)"

partial_function (option) environ_loop :: "'w libc \<Rightarrow> (bytes \<rightharpoonup> bytes) \<Rightarrow> nat \<Rightarrow> (bytes \<rightharpoonup> bytes) option" where
  "environ_loop l d i =
     (case l_env_iter l i of
        None \<Rightarrow> Some d
      | Some entry \<Rightarrow> environ_loop l (environ_store d entry) (Suc i))"

definition mod_uc386dos_os_environ :: "'w libc \<Rightarrow> (bytes \<rightharpoonup> bytes) option" where
  "mod_uc386dos_os_environ l = environ_loop l Map.empty 0"

section \<open>Lemmas\<close>

text \<open>The directory enumerates the names: one successful find after another, then a failing one.\<close>

primrec enumerates :: "'w libc \<Rightarrow> bytes list \<Rightarrow> int \<times> 'w \<Rightarrow> bool" where
  "enumerates l [] = (\<lambda>(rc, w). rc \<noteq> 0)"
| "enumerates l (e # es) = (\<lambda>(rc, w). rc = 0 \<and> cstr (l_dta_filename l w) = e \<and> enumerates l es (l_find_next l w))"

lemma listdir_loop_enumerates:
  "enumerates l es (rc, w) \<Longrightarrow> \<exists>w'. listdir_loop l names rc w = Some (names @ filter (\<lambda>e. \<not> is_dot_entry e) es, w')"
proof (induction es arbitrary: names rc w)
  case Nil
  then show ?case by (subst listdir_loop.simps) simp
next
  case (Cons e es)
  obtain rc' w' where n: "l_find_next l w = (rc', w')" by (cases "l_find_next l w")
  with Cons.prems have "enumerates l es (rc', w')" "rc = 0" "cstr (l_dta_filename l w) = e" by auto
  then show ?case
    using Cons.IH[of rc' w' "if is_dot_entry e then names else names @ [e]"] n
    by (subst listdir_loop.simps) (auto simp: Let_def split: if_splits)
qed

lemma listdir_mask_fits: "listdir_mask arg = Some msk \<Longrightarrow> length msk + 1 \<le> 80"
  by (auto simp: listdir_mask_def Let_def split: option.splits if_splits)

lemma environ_loop_entries:
  "(\<forall>j<length es. l_env_iter l (i + j) = Some (es ! j)) \<Longrightarrow> l_env_iter l (i + length es) = None \<Longrightarrow>
   environ_loop l d i = Some (foldl environ_store d es)"
proof (induction es arbitrary: d i)
  case Nil
  then show ?case by (subst environ_loop.simps) simp
next
  case (Cons e es)
  have "l_env_iter l i = Some e" using Cons.prems(1)[rule_format, of 0] by simp
  moreover have "\<forall>j<length es. l_env_iter l (Suc i + j) = Some (es ! j)"
    using Cons.prems(1) by (metis Suc_less_eq add_Suc_shift length_Cons nth_Cons_Suc)
  ultimately show ?case
    using Cons.IH[of "Suc i" "environ_store d e"] Cons.prems(2) by (subst environ_loop.simps) simp
qed

lemma cut_at_eq:
  assumes "ch_eq \<notin> set k"
  shows "takeWhile (\<lambda>c. c \<noteq> ch_eq) (k @ ch_eq # v) = k" "dropWhile (\<lambda>c. c \<noteq> ch_eq) (k @ ch_eq # v) = ch_eq # v"
  using assms by (auto simp: takeWhile_append dropWhile_append3)

lemma environ_store_entry:
  "ch_eq \<notin> set k \<Longrightarrow> 0 \<notin> set k \<Longrightarrow> 0 \<notin> set v \<Longrightarrow> environ_store d (k @ ch_eq # v) = d(k \<mapsto> v)"
  by (simp add: environ_store_def cut_at_eq)

lemma environ_fold:
  "list_all (\<lambda>(k, v). ch_eq \<notin> set k \<and> 0 \<notin> set k \<and> 0 \<notin> set v) kvs \<Longrightarrow>
   foldl environ_store d (map (\<lambda>(k, v). k @ ch_eq # v) kvs) = d ++ map_of (rev kvs)"
  by (induction kvs arbitrary: d) (auto simp: environ_store_entry map_add_def split: option.split)

section \<open>Properties\<close>

text \<open>
  C36. \<open>listdir\<close> lists the directory: the search mask it builds, with its NUL, fits the 80-byte buffer
  (longer paths raise \<open>E2BIG\<close> before anything is written), and when DOS enumerates the entries \<open>es\<close>
  for the mask, the call returns exactly those other than \<open>"."\<close> and \<open>".."\<close>, in order. The library page of
  the module (\<open>docs/library/os.md\<close>) says the opposite, that the two are listed and the caller has to strip
  them; the code strips them.
\<close>

theorem listdir_lists:
  assumes "listdir_mask arg = Some msk" "enumerates l es (l_find_first l msk w)"
  shows "length msk + 1 \<le> 80
    \<and> (\<exists>w'. mod_uc386dos_os_listdir l arg w = Some (Inr (filter (\<lambda>e. e \<noteq> str ''.'' \<and> e \<noteq> str ''..'') es), w'))"
proof -
  obtain rc w1 where f: "l_find_first l msk w = (rc, w1)" by (cases "l_find_first l msk w")
  have d: "filter (\<lambda>e. \<not> is_dot_entry e) es = filter (\<lambda>e. e \<noteq> str ''.'' \<and> e \<noteq> str ''..'') es"
    by (rule filter_cong) (auto simp: is_dot_entry_def str_def)
  show ?thesis
    unfolding d[symmetric] using listdir_loop_enumerates[of l es rc w1 "[]"] listdir_mask_fits[OF assms(1)] assms f
    by (auto simp: mod_uc386dos_os_listdir_def)
qed

text \<open>A library for the witnesses, whose world is the list of directory entries still to come.\<close>

definition demo_libc :: "bytes list libc" where
  "demo_libc = \<lparr>l_mkdir = (\<lambda>_ w. (0, w)), l_rmdir = (\<lambda>_ w. (0, w)), l_unlink = (\<lambda>_ w. (0, w)),
     l_rename = (\<lambda>_ _ w. (0, w)), l_chdir = (\<lambda>_ w. (0, w)), l_getcwd = (\<lambda>_ _. None),
     l_find_first = (\<lambda>_ w. (if w = [] then 18 else 0, w)),
     l_find_next = (\<lambda>w. (if tl w = [] then 18 else 0, tl w)),
     l_dta_filename = (\<lambda>w. hd w), l_stat = (\<lambda>_ _. None), l_getenv = (\<lambda>_. None),
     l_env_iter = (\<lambda>i. if i < 2 then Some ([str ''PATH=C:'', str ''PATH=D:''] ! i) else None),
     l_system = (\<lambda>_ w. (0, w)), l_open = (\<lambda>_ _ w. (-1, w)), l_read = (\<lambda>_ _ w. (0, [], w)),
     l_write = (\<lambda>_ _ w. (0, w)), l_close = (\<lambda>_ w. (0, w))\<rparr>"

theorem listdir_lists_witness:
  "\<exists>w'. mod_uc386dos_os_listdir demo_libc (Some (str ''C:/src'')) [str ''.'', str ''..'', str ''A.PY'']
     = Some (Inr [str ''A.PY''], w')"
proof -
  have m: "listdir_mask (Some (str ''C:/src'')) = Some (str ''C:/src'' @ ch_backslash # str ''*.*'')"
    by code_simp
  have e: "enumerates demo_libc [str ''.'', str ''..'', str ''A.PY'']
      (l_find_first demo_libc (str ''C:/src'' @ ch_backslash # str ''*.*'') [str ''.'', str ''..'', str ''A.PY''])"
    by code_simp
  have f: "filter (\<lambda>e. e \<noteq> str ''.'' \<and> e \<noteq> str ''..'') [str ''.'', str ''..'', str ''A.PY''] = [str ''A.PY'']"
    by code_simp
  from listdir_lists[OF m e] show ?thesis unfolding f by blast
qed

text \<open>
  \<open>environ\<close> snapshots the environment block: for a block of entries \<open>KEY=value\<close> (no \<open>=\<close> in a key) it
  ends and returns the dictionary that maps each key to the value of its last entry.
\<close>

theorem environ_snapshot:
  assumes "\<forall>j<length kvs. l_env_iter l j = Some (fst (kvs ! j) @ ch_eq # snd (kvs ! j))"
    and "l_env_iter l (length kvs) = None"
    and "list_all (\<lambda>(k, v). ch_eq \<notin> set k \<and> 0 \<notin> set k \<and> 0 \<notin> set v) kvs"
  shows "mod_uc386dos_os_environ l = Some (map_of (rev kvs))"
proof -
  let ?es = "map (\<lambda>(k, v). k @ ch_eq # v) kvs"
  have "\<forall>j<length ?es. l_env_iter l (0 + j) = Some (?es ! j)"
    using assms(1) by (auto simp: split_beta)
  then show ?thesis
    using environ_loop_entries[of ?es l 0 Map.empty] assms(2) environ_fold[OF assms(3), of Map.empty]
    by (simp add: mod_uc386dos_os_environ_def)
qed

theorem environ_snapshot_witness:
  "\<exists>d. mod_uc386dos_os_environ demo_libc = Some d \<and> d (str ''PATH'') = Some (str ''D:'')"
proof -
  let ?k = "[(str ''PATH'', str ''C:''), (str ''PATH'', str ''D:'')]"
  have e: "\<forall>j<length ?k. l_env_iter demo_libc j = Some (fst (?k ! j) @ ch_eq # snd (?k ! j))"
    by (auto simp: demo_libc_def less_Suc_eq str_def)
  have n: "l_env_iter demo_libc (length ?k) = None" by (simp add: demo_libc_def)
  have a: "list_all (\<lambda>(k, v). ch_eq \<notin> set k \<and> 0 \<notin> set k \<and> 0 \<notin> set v) ?k" by code_simp
  from environ_snapshot[OF e n a] show ?thesis by simp
qed

end
