(* ===== verification/Shutil.thy ===== *)
theory Shutil
  imports Os_Module
begin

text \<open>
  \<open>shutil_uc386dos.c\<close>: copying a file descriptor to another in blocks of 4096 bytes, \<open>copyfile\<close> and
  \<open>move\<close>, over the C library of \<open>Os_Module\<close>. The copying loop runs until \<open>read\<close> reports the end of the
  file, so it is a partial function; \<open>None\<close> is a copy that never ends.
\<close>

section \<open>Definitions\<close>

abbreviation SHUTIL_COPY_BUF_SIZE :: nat where "SHUTIL_COPY_BUF_SIZE \<equiv> 4096"

text \<open>The inner loop: \<open>buf\<close> is what is left to be written.\<close>

function write_all :: "'w libc \<Rightarrow> int \<Rightarrow> bytes \<Rightarrow> 'w \<Rightarrow> unit mp_result \<times> 'w" where
  "write_all l dst_fd buf w =
     (if buf = [] then (Inr (), w)
      else let (k, w) = l_write l dst_fd buf w
           in if k \<le> 0 then (Inl (OSError MP_EIO), w) else write_all l dst_fd (drop (nat k) buf) w)"
  by pat_completeness auto
termination
  by (relation "measure (\<lambda>(l, fd, buf, w). length buf)") auto

declare write_all.simps [simp del]

partial_function (option) copy_stream :: "'w libc \<Rightarrow> int \<Rightarrow> int \<Rightarrow> 'w \<Rightarrow> (unit mp_result \<times> 'w) option" where
  "copy_stream l src_fd dst_fd w =
     (case l_read l src_fd SHUTIL_COPY_BUF_SIZE w of (n, buf, w) \<Rightarrow>
        if n < 0 then Some (Inl (OSError MP_EIO), w)
        else if n = 0 then Some (Inr (), w)
        else case write_all l dst_fd buf w of
               (Inl e, w) \<Rightarrow> Some (Inl e, w)
             | (Inr _, w) \<Rightarrow> copy_stream l src_fd dst_fd w)"

definition shutil_copyfile :: "'w libc \<Rightarrow> bytes \<Rightarrow> bytes \<Rightarrow> 'w \<Rightarrow> (bytes mp_result \<times> 'w) option" where
  "shutil_copyfile l src_in dst_in w =
     (let (src_fd, w) = l_open l (cstr src_in) 0 w
      in if src_fd < 0 then Some (Inl (OSError MP_ENOENT), w)
         else let (dst_fd, w) = l_open l (cstr dst_in) 0x241 w
              in if dst_fd < 0
                 then let (r, w) = l_close l src_fd w in Some (Inl (OSError MP_EIO), w)
                 else (case copy_stream l src_fd dst_fd w of
                         None \<Rightarrow> None
                       | Some (Inl e, w) \<Rightarrow> Some (Inl e, w)
                       | Some (Inr _, w) \<Rightarrow>
                           let (r, w) = l_close l src_fd w;
                               (r, w) = l_close l dst_fd w
                           in Some (Inr dst_in, w)))"

definition shutil_copy :: "'w libc \<Rightarrow> bytes \<Rightarrow> bytes \<Rightarrow> 'w \<Rightarrow> (bytes mp_result \<times> 'w) option" where
  "shutil_copy l src_in dst_in w = shutil_copyfile l src_in dst_in w"

definition shutil_move :: "'w libc \<Rightarrow> bytes \<Rightarrow> bytes \<Rightarrow> 'w \<Rightarrow> (bytes mp_result \<times> 'w) option" where
  "shutil_move l src_in dst_in w =
     (let (rc, w) = l_rename l (cstr src_in) (cstr dst_in) w
      in if rc = 0 then Some (Inr dst_in, w)
         else case shutil_copyfile l src_in dst_in w of
                None \<Rightarrow> None
              | Some (Inl e, w) \<Rightarrow> Some (Inl e, w)
              | Some (Inr _, w) \<Rightarrow>
                  let (rc, w) = l_unlink l (cstr src_in) w
                  in if rc \<noteq> 0 then Some (Inl (OSError MP_EIO), w) else Some (Inr dst_in, w))"

section \<open>Lemmas\<close>








section \<open>Properties\<close>





text \<open>
  \<open>move\<close> renames when the library can, without copying anything; after a refused rename it removes
  the source only once the copy is complete, and a failed copy leaves the source in place.
\<close>

theorem move_renames_or_copies:
  "case l_rename l (cstr src) (cstr dst) w of (rc, w1) \<Rightarrow>
     if rc = 0 then shutil_move l src dst w = Some (Inr dst, w1)
     else (case shutil_copyfile l src dst w1 of
             None \<Rightarrow> shutil_move l src dst w = None
           | Some (Inl e, w2) \<Rightarrow> shutil_move l src dst w = Some (Inl e, w2)
           | Some (Inr _, w2) \<Rightarrow>
               shutil_move l src dst w =
                 Some (if fst (l_unlink l (cstr src) w2) = 0 then Inr dst else Inl (OSError MP_EIO),
                       snd (l_unlink l (cstr src) w2)))"
  by (auto simp: shutil_move_def Let_def split: prod.split option.split sum.split)

end
