(* ===== verification/Tempfile.thy ===== *)
theory Tempfile
  imports Os_Module
begin

text \<open>
  \<open>tempfile_uc386dos.c\<close>: \<open>gettempdir\<close> and \<open>mktemp\<close>. The static counter \<open>tmp_counter\<close> is a 32-bit word of
  state; the name is built in a buffer of 80 bytes, here the list of the bytes stored so far.
\<close>

section \<open>Definitions\<close>

definition temp_dir :: "'w libc \<Rightarrow> bytes" where
  "temp_dir l =
     (let t = l_getenv l (str ''TEMP'');
          t = (case t of None \<Rightarrow> l_getenv l (str ''TMP'') | Some _ \<Rightarrow> t)
      in case t of
           None \<Rightarrow> str ''C:'' @ [ch_backslash]
         | Some t \<Rightarrow> if cstr t = [] then str ''C:'' @ [ch_backslash] else cstr t)"

definition tempfile_gettempdir :: "'w libc \<Rightarrow> bytes" where
  "tempfile_gettempdir l = temp_dir l"

text \<open>The \<open>do ... while\<close> loop that stores the decimal digits, least significant first.\<close>

function digit_loop :: "u32 \<Rightarrow> bytes \<Rightarrow> bytes" where
  "digit_loop v digits =
     (let digits = digits @ [ch_0 + ucast (v mod 10)];
          v = v div 10
      in if v \<noteq> 0 \<and> length digits < 5 then digit_loop v digits else digits)"
  by pat_completeness auto
termination
  by (relation "measure (\<lambda>(v, digits). 5 - length digits)") auto

declare digit_loop.simps [simp del]

definition counter_digits :: "u32 \<Rightarrow> bytes" where
  "counter_digits n =
     (let digits = digit_loop n [] in rev (digits @ replicate (5 - length digits) ch_0))"

definition temp_name :: "bytes \<Rightarrow> bytes \<Rightarrow> u32 \<Rightarrow> bytes" where
  "temp_name dir pfx n =
     (let name = take (if length dir > 60 then 60 else length dir) dir;
          name = (if length name > 0 \<and> last name \<noteq> ch_backslash \<and> last name \<noteq> ch_slash
                  then name @ [ch_backslash] else name);
          name = name @ take (if length pfx > 8 then 8 else length pfx) pfx
      in name @ counter_digits n)"

fun mktemp_loop :: "'w libc \<Rightarrow> bytes \<Rightarrow> bytes \<Rightarrow> bytes \<Rightarrow> nat \<Rightarrow> u32 \<Rightarrow> 'w \<Rightarrow> bytes mp_result \<times> u32" where
  "mktemp_loop l dir pfx sfx 0 tmp_counter w = (Inl (OSError MP_EEXIST), tmp_counter)"
| "mktemp_loop l dir pfx sfx (Suc attempts) tmp_counter w =
     (let n = tmp_counter + 1;
          name = temp_name dir pfx n
      in if length name + length sfx + 1 > 80 then (Inl (OSError MP_E2BIG), n)
         else let name = name @ sfx
              in if l_stat l name w = None then (Inr name, n)
                 else mktemp_loop l dir pfx sfx attempts n w)"

text \<open>The arguments default to \<open>''\<close>, \<open>'tmp'\<close> and \<open>None\<close>; strings end at their first NUL.\<close>

definition tempfile_mktemp :: "'w libc \<Rightarrow> bytes \<Rightarrow> bytes \<Rightarrow> bytes option \<Rightarrow> u32 \<Rightarrow> 'w \<Rightarrow> bytes mp_result \<times> u32" where
  "tempfile_mktemp l sfx pfx dir tmp_counter w =
     mktemp_loop l (case dir of None \<Rightarrow> temp_dir l | Some d \<Rightarrow> cstr d) (cstr pfx) (cstr sfx) 1024 tmp_counter w"

section \<open>Lemmas\<close>

abbreviation dec_digit :: "u32 \<Rightarrow> byte" where "dec_digit v \<equiv> ch_0 + ucast (v mod 10)"

lemma counter_digits_eq:
  "counter_digits n = [dec_digit (n div 10 div 10 div 10 div 10), dec_digit (n div 10 div 10 div 10),
     dec_digit (n div 10 div 10), dec_digit (n div 10), dec_digit n]"
proof -
  have z: "dec_digit 0 = ch_0" by simp
  show ?thesis
    unfolding counter_digits_def
    by (subst digit_loop.simps, subst digit_loop.simps, subst digit_loop.simps, subst digit_loop.simps, subst digit_loop.simps)
      (simp add: Let_def numeral_eq_Suc z)
qed

lemma length_counter_digits [simp]: "length (counter_digits n) = 5"
  by (simp add: counter_digits_eq)

text \<open>The number a string of decimal digits stands for.\<close>

definition dec_value :: "bytes \<Rightarrow> nat" where
  "dec_value ds = foldl (\<lambda>a c. a * 10 + (unat c - 48)) 0 ds"

lemma unat_dec_digit: "unat (dec_digit v) - 48 = unat v mod 10"
proof -
  have m: "unat (v mod 10) = unat v mod 10" by (simp add: unat_mod)
  then have "unat (ucast (v mod 10) :: byte) = unat v mod 10"
    by (simp add: unsigned_ucast_eq take_bit_nat_eq_self)
  then have "unat (dec_digit v) = 48 + unat v mod 10"
    by (simp add: unat_word_ariths(1))
  then show ?thesis by simp
qed

lemma mod_100000: "(a :: nat) mod 100000 =
  (((a div 10 div 10 div 10 div 10 mod 10 * 10 + a div 10 div 10 div 10 mod 10) * 10 + a div 10 div 10 mod 10) * 10
    + a div 10 mod 10) * 10 + a mod 10"
proof -
  have "a mod 100000 = 10 * (a div 10 mod 10000) + a mod 10" for a :: nat using mod_mult2_eq[of a 10 10000] by simp
  moreover have "a mod 10000 = 10 * (a div 10 mod 1000) + a mod 10" for a :: nat using mod_mult2_eq[of a 10 1000] by simp
  moreover have "a mod 1000 = 10 * (a div 10 mod 100) + a mod 10" for a :: nat using mod_mult2_eq[of a 10 100] by simp
  moreover have "a mod 100 = 10 * (a div 10 mod 10) + a mod 10" for a :: nat using mod_mult2_eq[of a 10 10] by simp
  ultimately show ?thesis by simp
qed

lemma counter_digits_value: "dec_value (counter_digits n) = unat n mod 100000"
proof -
  have d: "unat (v div 10) = unat v div 10" for v :: u32 by (simp add: unat_div)
  show ?thesis
    unfolding counter_digits_eq dec_value_def mod_100000
    by (simp only: foldl_Cons foldl_Nil unat_dec_digit d) simp
qed

lemma dec_digit_cong: "unat v mod 10 = unat v' mod 10 \<Longrightarrow> dec_digit v = dec_digit v'"
proof -
  assume "unat v mod 10 = unat v' mod 10"
  then have "unat (v mod 10) = unat (v' mod 10)" by (simp add: unat_mod)
  then have "v mod 10 = v' mod 10" by (simp only: word_unat_eq_iff)
  then show ?thesis by simp
qed

lemma counter_digits_cong:
  assumes "unat n mod 100000 = unat n' mod 100000"
  shows "counter_digits n = counter_digits n'"
proof -
  have d: "unat (v div 10) = unat v div 10" for v :: u32 by (simp add: unat_div)
  have cut: "p = q \<and> a = b" if "p * 10 + a = q * 10 + b" "a < 10" "b < 10" for p q a b :: nat
    using that by presburger
  have b: "x mod 10 < 10" for x :: nat by simp
  note eq = assms[unfolded mod_100000]
  note 1 = cut[OF eq b b]
  note 2 = cut[OF conjunct1[OF 1] b b]
  note 3 = cut[OF conjunct1[OF 2] b b]
  note 4 = cut[OF conjunct1[OF 3] b b]
  show ?thesis
    unfolding counter_digits_eq using 1 2 3 4
    by (simp only: list.inject d dec_digit_cong[of n] dec_digit_cong[of "n div 10"] dec_digit_cong[of "n div 10 div 10"]
        dec_digit_cong[of "n div 10 div 10 div 10"] dec_digit_cong[of "n div 10 div 10 div 10 div 10"] simp_thms)
qed

lemma temp_name_length: "length (temp_name dir pfx n) \<le> 74"
  by (auto simp: temp_name_def Let_def min_def)

lemma temp_name_inj:
  assumes "temp_name dir pfx n = temp_name dir pfx n'"
  shows "unat n mod 100000 = unat n' mod 100000"
proof -
  have "counter_digits n = counter_digits n'"
    using assms by (simp add: temp_name_def Let_def)
  then show ?thesis using counter_digits_value by metis
qed

lemma temp_name_counter_length: "length (temp_name dir pfx n) = length (temp_name dir pfx n')"
  by (simp add: temp_name_def Let_def)

lemma mktemp_loop_result:
  "case mktemp_loop l dir pfx sfx m c w of (r, c') \<Rightarrow>
     (\<exists>k\<le>m. c' = c + of_nat k \<and>
       (case r of
          Inr name \<Rightarrow> 0 < k \<and> l_stat l name w = None \<and> length name + 1 \<le> 80 \<and> name = temp_name dir pfx c' @ sfx
            \<and> list_all (\<lambda>j. l_stat l (temp_name dir pfx (c + of_nat j) @ sfx) w \<noteq> None) [1..<k]
        | Inl e \<Rightarrow>
            (e = OSError MP_E2BIG \<and> 80 < length (temp_name dir pfx c') + length sfx + 1)
            \<or> (e = OSError MP_EEXIST \<and> k = m
               \<and> list_all (\<lambda>j. l_stat l (temp_name dir pfx (c + of_nat j) @ sfx) w \<noteq> None) [1..<Suc m])))"
proof (induction m arbitrary: c)
  case 0
  then show ?case by auto
next
  case (Suc m)
  let ?n = "c + 1"
  consider (big) "80 < length (temp_name dir pfx ?n) + length sfx + 1"
    | (free) "\<not> 80 < length (temp_name dir pfx ?n) + length sfx + 1" "l_stat l (temp_name dir pfx ?n @ sfx) w = None"
    | (used) "\<not> 80 < length (temp_name dir pfx ?n) + length sfx + 1" "l_stat l (temp_name dir pfx ?n @ sfx) w \<noteq> None"
    by blast
  then show ?case
  proof cases
    case big
    then show ?thesis by (auto simp: Let_def intro!: exI[of _ 1])
  next
    case free
    then show ?thesis by (auto simp: Let_def intro!: exI[of _ 1])
  next
    case used
    obtain r c' where r: "mktemp_loop l dir pfx sfx m ?n w = (r, c')" by (cases "mktemp_loop l dir pfx sfx m ?n w")
    then have step: "mktemp_loop l dir pfx sfx (Suc m) c w = (r, c')" using used by (auto simp: Let_def)
    from Suc[of ?n] r obtain k where k: "k \<le> m" "c' = ?n + of_nat k"
      and res: "case r of
          Inr name \<Rightarrow> 0 < k \<and> l_stat l name w = None \<and> length name + 1 \<le> 80 \<and> name = temp_name dir pfx c' @ sfx
            \<and> list_all (\<lambda>j. l_stat l (temp_name dir pfx (?n + of_nat j) @ sfx) w \<noteq> None) [1..<k]
        | Inl e \<Rightarrow>
            (e = OSError MP_E2BIG \<and> 80 < length (temp_name dir pfx c') + length sfx + 1)
            \<or> (e = OSError MP_EEXIST \<and> k = m
               \<and> list_all (\<lambda>j. l_stat l (temp_name dir pfx (?n + of_nat j) @ sfx) w \<noteq> None) [1..<Suc m])"
      by auto
    have shift: "list_all (\<lambda>j. l_stat l (temp_name dir pfx (c + of_nat j) @ sfx) w \<noteq> None) [1..<Suc i]"
      if "list_all (\<lambda>j. l_stat l (temp_name dir pfx (?n + of_nat j) @ sfx) w \<noteq> None) [1..<i]" for i
      unfolding list_all_iff
    proof
      fix j assume j: "j \<in> set [1..<Suc i]"
      show "l_stat l (temp_name dir pfx (c + of_nat j) @ sfx) w \<noteq> None"
      proof (cases "j = 1")
        case False
        with j have "j - 1 \<in> set [1..<i]" by auto
        with that have "l_stat l (temp_name dir pfx (?n + of_nat (j - 1)) @ sfx) w \<noteq> None"
          by (auto simp: list_all_iff)
        moreover have "Suc (j - 1) = j" using j by (simp only: set_upt atLeastLessThan_iff) linarith
        then have "?n + of_nat (j - 1) = c + of_nat j" by (metis add.assoc of_nat_Suc)
        ultimately show ?thesis by (simp only: simp_thms)
      qed (use used in simp)
    qed
    have c': "Suc k \<le> Suc m" "c' = c + of_nat (Suc k)"
      using k by (simp_all add: add.assoc)
    show ?thesis
    proof (cases r)
      case (Inl e)
      with res show ?thesis
        unfolding step prod.case Inl sum.case
        by (intro exI[of _ "Suc k"] conjI c') (use shift[of "Suc m"] in blast)
    next
      case (Inr name)
      with res show ?thesis
        unfolding step prod.case Inr sum.case
        by (intro exI[of _ "Suc k"] conjI c') (use shift[of k] in blast)+
    qed
  qed
qed

section \<open>Properties\<close>

text \<open>
  \<open>mktemp\<close> returns a name that does not exist: \<open>stat\<close> fails on it, it fits the 80-byte buffer with
  its NUL whatever the arguments, and the counter has moved on by the number of names tried. It gives
  up with \<open>EEXIST\<close> only after 1024 names that all exist, and with \<open>E2BIG\<close> only when the suffix does not fit.
\<close>

theorem mktemp_fresh:
  "case tempfile_mktemp l sfx pfx (Some dir) c w of (r, c') \<Rightarrow>
     (\<exists>k\<le>1024. c' = c + of_nat k \<and>
       (case r of
          Inr name \<Rightarrow> 0 < k \<and> l_stat l name w = None \<and> length name + 1 \<le> 80
            \<and> name = temp_name (cstr dir) (cstr pfx) c' @ cstr sfx
            \<and> list_all (\<lambda>j. l_stat l (temp_name (cstr dir) (cstr pfx) (c + of_nat j) @ cstr sfx) w \<noteq> None) [1..<k]
        | Inl e \<Rightarrow>
            (e = OSError MP_E2BIG \<and> 80 < length (temp_name (cstr dir) (cstr pfx) c') + length (cstr sfx) + 1)
            \<or> (e = OSError MP_EEXIST \<and> k = 1024
               \<and> list_all (\<lambda>j. l_stat l (temp_name (cstr dir) (cstr pfx) (c + of_nat j) @ cstr sfx) w \<noteq> None)
                    [1..<Suc 1024])))"
  unfolding tempfile_mktemp_def option.case by (rule mktemp_loop_result)

text \<open>
  The name carries the counter as five decimal digits: their value is the counter modulo 100000,
  so two calls of a session get different names unless their counters are a multiple of 100000 apart;
  before the suffix the name never exceeds 74 bytes.
\<close>

theorem temp_name_counter:
  "length (temp_name dir pfx n) \<le> 74
   \<and> dec_value (drop (length (temp_name dir pfx n) - 5) (temp_name dir pfx n)) = unat n mod 100000
   \<and> (temp_name dir pfx n = temp_name dir pfx n') = (unat n mod 100000 = unat n' mod 100000)"
proof -
  have app: "\<exists>b. \<forall>n. temp_name dir pfx n = b @ counter_digits n"
    by (auto simp: temp_name_def Let_def)
  then obtain b where b: "\<And>n. temp_name dir pfx n = b @ counter_digits n" by blast
  have "(counter_digits n = counter_digits n') = (unat n mod 100000 = unat n' mod 100000)"
    using temp_name_inj[of dir pfx n n'] counter_digits_cong[of n n'] by (auto simp: b)
  then show ?thesis
    using temp_name_length[of dir pfx n] counter_digits_value[of n] by (simp add: b)
qed

end
