(* ===== verification/Ne2k.thy ===== *)
theory Ne2k
  imports Prelude
begin

text \<open>
  The protected-mode NE2000 driver of \<open>pktdrv_uc386dos.c\<close>: remote DMA, initialisation, sending and
  polling for a frame, as sequences of port accesses.

  The card is a record of functions over an unspecified device state \<open>'n\<close>: \<open>inb\<close> and \<open>insw\<close> may change
  it. \<open>insw\<close> delivers the bytes of \<open>wcount\<close> words. A bounded busy-wait keeps its \<open>unsigned\<close> counter as a
  word, because \<open>while (spin-- && ...)\<close> leaves it wrapped around when it runs out; the one unbounded
  wait is a partial function.
\<close>

section \<open>Definitions\<close>

record 'n nic =
  ne2k_inb :: "u32 \<Rightarrow> 'n \<Rightarrow> u32 \<times> 'n"
  ne2k_outb :: "u32 \<Rightarrow> u32 \<Rightarrow> 'n \<Rightarrow> 'n"
  ne2k_insw :: "u32 \<Rightarrow> nat \<Rightarrow> 'n \<Rightarrow> bytes \<times> 'n"
  ne2k_outsw :: "u32 \<Rightarrow> bytes \<Rightarrow> 'n \<Rightarrow> 'n"

abbreviation NE2K_BASE :: u32 where "NE2K_BASE \<equiv> 0x300"
abbreviation NE2K_DATA :: u32 where "NE2K_DATA \<equiv> 0x310"
abbreviation NE2K_RESET :: u32 where "NE2K_RESET \<equiv> 0x31F"
abbreviation NE_CR :: u32 where "NE_CR \<equiv> 0x00"
abbreviation NE_PSTART :: u32 where "NE_PSTART \<equiv> 0x01"
abbreviation NE_PSTOP :: u32 where "NE_PSTOP \<equiv> 0x02"
abbreviation NE_BNRY :: u32 where "NE_BNRY \<equiv> 0x03"
abbreviation NE_TPSR :: u32 where "NE_TPSR \<equiv> 0x04"
abbreviation NE_TBCR0 :: u32 where "NE_TBCR0 \<equiv> 0x05"
abbreviation NE_TBCR1 :: u32 where "NE_TBCR1 \<equiv> 0x06"
abbreviation NE_ISR :: u32 where "NE_ISR \<equiv> 0x07"
abbreviation NE_RSAR0 :: u32 where "NE_RSAR0 \<equiv> 0x08"
abbreviation NE_RSAR1 :: u32 where "NE_RSAR1 \<equiv> 0x09"
abbreviation NE_RBCR0 :: u32 where "NE_RBCR0 \<equiv> 0x0A"
abbreviation NE_RBCR1 :: u32 where "NE_RBCR1 \<equiv> 0x0B"
abbreviation NE_RCR :: u32 where "NE_RCR \<equiv> 0x0C"
abbreviation NE_TCR :: u32 where "NE_TCR \<equiv> 0x0D"
abbreviation NE_DCR :: u32 where "NE_DCR \<equiv> 0x0E"
abbreviation NE_IMR :: u32 where "NE_IMR \<equiv> 0x0F"
abbreviation NE_PAR0 :: u32 where "NE_PAR0 \<equiv> 0x01"
abbreviation NE_CURR :: u32 where "NE_CURR \<equiv> 0x07"
abbreviation TX_PAGE_START :: u32 where "TX_PAGE_START \<equiv> 0x40"
abbreviation RX_PAGE_START :: u32 where "RX_PAGE_START \<equiv> 0x46"
abbreviation RX_PAGE_STOP :: u32 where "RX_PAGE_STOP \<equiv> 0x80"

text \<open>A sequence of writes to the registers at the base address.\<close>

definition outs :: "('n, 'x) nic_scheme \<Rightarrow> (u32 \<times> u32) list \<Rightarrow> 'n \<Rightarrow> 'n" where
  "outs d rvs s = foldl (\<lambda>s (r, v). ne2k_outb d (NE2K_BASE + r) v s) s rvs"

text \<open>\<open>while (spin-- && !(inb(ISR) & bit)) {}\<close>: the final value of the counter.\<close>

function isr_wait :: "('n, 'x) nic_scheme \<Rightarrow> u32 \<Rightarrow> u32 \<Rightarrow> 'n \<Rightarrow> u32 \<times> 'n" where
  "isr_wait d bits spin s =
     (if spin = 0 then (spin - 1, s)
      else let (isr, s) = ne2k_inb d (NE2K_BASE + NE_ISR) s
           in if isr AND bits \<noteq> 0 then (spin - 1, s) else isr_wait d bits (spin - 1) s)"
  by pat_completeness auto
termination
  by (relation "measure (\<lambda>(d, bits, spin, s). unat spin)") (auto simp: unat_minus_one word_neq_0_conv unat_gt_0)

declare isr_wait.simps [simp del]

definition dma_setup :: "u32 \<Rightarrow> nat \<Rightarrow> u32 \<Rightarrow> (u32 \<times> u32) list" where
  "dma_setup nic_addr byte_count cmd =
     [(NE_ISR, 0x40), (NE_RBCR0, of_nat byte_count AND 0xFF),
      (NE_RBCR1, drop_bit 8 (of_nat byte_count) AND 0xFF),
      (NE_RSAR0, nic_addr AND 0xFF), (NE_RSAR1, drop_bit 8 nic_addr AND 0xFF), (NE_CR, cmd)]"

text \<open>The bytes returned are those stored at \<open>dst\<close>: whole words, so one more than asked for when the count is odd.\<close>

definition ne2k_dma_read :: "('n, 'x) nic_scheme \<Rightarrow> u32 \<Rightarrow> nat \<Rightarrow> 'n \<Rightarrow> bytes \<times> 'n" where
  "ne2k_dma_read d nic_addr byte_count s =
     (let s = outs d (dma_setup nic_addr byte_count 0x0A) s;
          (dst, s) = ne2k_insw d NE2K_DATA ((byte_count + 1) div 2) s;
          (spin, s) = isr_wait d 0x40 100000 s
      in (dst, outs d [(NE_ISR, 0x40)] s))"

text \<open>\<open>src\<close> is the memory from the source pointer on; whole words of it are written.\<close>

definition ne2k_dma_write :: "('n, 'x) nic_scheme \<Rightarrow> u32 \<Rightarrow> bytes \<Rightarrow> nat \<Rightarrow> 'n \<Rightarrow> 'n" where
  "ne2k_dma_write d nic_addr src byte_count s =
     (let s = outs d (dma_setup nic_addr byte_count 0x12) s;
          s = ne2k_outsw d NE2K_DATA (take (2 * ((byte_count + 1) div 2)) src) s;
          (spin, s) = isr_wait d 0x40 100000 s
      in outs d [(NE_ISR, 0x40)] s)"

record 'n ne2k =
  n_dev :: 'n
  ne2k_initialized :: bool
  ne2k_mac :: bytes

definition init_regs :: "(u32 \<times> u32) list" where
  "init_regs = [(NE_DCR, 0x49), (NE_RBCR0, 0), (NE_RBCR1, 0), (NE_RCR, 0x20), (NE_TCR, 0x02),
     (NE_TPSR, TX_PAGE_START), (NE_PSTART, RX_PAGE_START), (NE_PSTOP, RX_PAGE_STOP),
     (NE_BNRY, RX_PAGE_START), (NE_ISR, 0xFF), (NE_IMR, 0x00)]"

definition page1_regs :: "bytes \<Rightarrow> (u32 \<times> u32) list" where
  "page1_regs mac = (NE_CR, 0x61) # map (\<lambda>i. (NE_PAR0 + of_nat i, ucast (mac ! i))) [0..<6] @
     [(NE_CURR, RX_PAGE_START + 1)] @ map (\<lambda>i. (0x08 + of_nat i, 0)) [0..<8] @
     [(NE_CR, 0x22), (NE_TCR, 0x00), (NE_RCR, 0x04)]"

definition ne2k_init_direct :: "('n, 'x) nic_scheme \<Rightarrow> 'n ne2k \<Rightarrow> (int \<times> bytes) \<times> 'n ne2k" where
  "ne2k_init_direct d st =
     (let (reset_val, s) = ne2k_inb d NE2K_RESET (n_dev st);
          s = ne2k_outb d NE2K_RESET reset_val s;
          (spin, s) = isr_wait d 0x80 100000 s
      in if spin = 0 then ((-1, []), st\<lparr>n_dev := s\<rparr>)
         else let s = outs d [(NE_CR, 0x21)] s;
                  (cr_readback, s) = ne2k_inb d (NE2K_BASE + NE_CR) s
              in if cr_readback \<noteq> 0x21 then ((-1, []), st\<lparr>n_dev := s\<rparr>)
                 else let s = outs d init_regs s;
                          (prom, s) = ne2k_dma_read d 0 32 s;
                          mac = map (\<lambda>i. prom ! (i * 2)) [0..<6];
                          s = outs d (page1_regs mac) s;
                          (slave_imr, s) = ne2k_inb d 0xA1 s;
                          s = ne2k_outb d 0xA1 (slave_imr OR 0x02) s
                      in ((0, mac), st\<lparr>n_dev := s, ne2k_initialized := True, ne2k_mac := mac\<rparr>))"

partial_function (option) tx_idle_wait :: "('n, 'x) nic_scheme \<Rightarrow> 'n \<Rightarrow> 'n option" where
  "tx_idle_wait d s =
     (case ne2k_inb d (NE2K_BASE + NE_CR) s of (cr, s) \<Rightarrow>
        if cr AND 0x04 \<noteq> 0 then tx_idle_wait d s else Some s)"

function tx_done_wait :: "('n, 'x) nic_scheme \<Rightarrow> u32 \<Rightarrow> 'n \<Rightarrow> int \<times> 'n" where
  "tx_done_wait d spin s =
     (if spin = 0 then (-1, s)
      else let (isr, s) = ne2k_inb d (NE2K_BASE + NE_ISR) s
           in if isr AND 0x0A \<noteq> 0
              then (if isr AND 0x02 \<noteq> 0 then 0 else -1, outs d [(NE_ISR, isr AND 0x0A)] s)
              else tx_done_wait d (spin - 1) s)"
  by pat_completeness auto
termination
  by (relation "measure (\<lambda>(d, spin, s). unat spin)") (auto simp: unat_minus_one word_neq_0_conv unat_gt_0)

declare tx_done_wait.simps [simp del]

definition tx_len :: "nat \<Rightarrow> nat" where
  "tx_len len = (if len < 60 then 60 else len)"

definition ne2k_send_direct :: "('n, 'x) nic_scheme \<Rightarrow> bytes \<Rightarrow> nat \<Rightarrow> 'n ne2k \<Rightarrow> (int \<times> 'n ne2k) option" where
  "ne2k_send_direct d buf len st =
     (if \<not> ne2k_initialized st then Some (-1, st)
      else let len = tx_len len
           in if len > 1518 then Some (-1, st)
              else case tx_idle_wait d (n_dev st) of
                     None \<Rightarrow> None
                   | Some s \<Rightarrow>
                       let s = ne2k_dma_write d (push_bit 8 TX_PAGE_START) buf len s;
                           s = outs d [(NE_TBCR0, of_nat len AND 0xFF), (NE_TBCR1, drop_bit 8 (of_nat len) AND 0xFF),
                                       (NE_CR, 0x26)] s;
                           (r, s) = tx_done_wait d 1000000 s
                       in Some (r, st\<lparr>n_dev := s\<rparr>))"

definition next_pkt_page :: "u32 \<Rightarrow> u32" where
  "next_pkt_page bnry = (let p = bnry + 1 in if p \<ge> RX_PAGE_STOP then RX_PAGE_START else p)"

definition bnry_before :: "u32 \<Rightarrow> u32" where
  "bnry_before next_page = (if next_page = RX_PAGE_START then RX_PAGE_STOP - 1 else next_page - 1)"

text \<open>The first component is the result, the second what was stored at \<open>out\<close>.\<close>

definition ne2k_poll_rx :: "('n, 'x) nic_scheme \<Rightarrow> nat \<Rightarrow> 'n ne2k \<Rightarrow> (nat \<times> bytes) \<times> 'n ne2k" where
  "ne2k_poll_rx d maxlen st =
     (if \<not> ne2k_initialized st then ((0, []), st)
      else let (saved_cr, s) = ne2k_inb d (NE2K_BASE + NE_CR) (n_dev st);
               s = outs d [(NE_CR, 0x62)] s;
               (curr, s) = ne2k_inb d (NE2K_BASE + NE_CURR) s;
               s = outs d [(NE_CR, saved_cr OR 0x02)] s;
               (bnry, s) = ne2k_inb d (NE2K_BASE + NE_BNRY) s;
               page = next_pkt_page bnry
           in if page = curr then ((0, []), st\<lparr>n_dev := s\<rparr>)
              else let (hdr, s) = ne2k_dma_read d (push_bit 8 page) 4 s;
                       pkt_len = unat (hdr ! 2) + unat (hdr ! 3) * 256;
                       next_page = (ucast (hdr ! 1) :: u32);
                       copy_len = (if pkt_len > 4 then pkt_len - 4 else 0);
                       copy_len = (if copy_len > maxlen then maxlen else copy_len);
                       (copy_len, out, s) =
                         (if copy_len > 0 \<and> hdr ! 0 AND 0x01 \<noteq> 0
                          then let (out, s) = ne2k_dma_read d (push_bit 8 page + 4) copy_len s in (copy_len, out, s)
                          else (0, [], s));
                       s = outs d [(NE_BNRY, bnry_before next_page), (NE_ISR, 0x15)] s
                   in ((copy_len, out), st\<lparr>n_dev := s\<rparr>))"

section \<open>Lemmas\<close>

text \<open>A card that delivers the words it is asked for.\<close>

definition insw_full :: "('n, 'x) nic_scheme \<Rightarrow> bool" where
  "insw_full d \<longleftrightarrow> (\<forall>port n s. length (fst (ne2k_insw d port n s)) = 2 * n)"

lemma dma_read_length: "insw_full d \<Longrightarrow> length (fst (ne2k_dma_read d a n s)) = 2 * ((n + 1) div 2)"
  by (simp add: insw_full_def ne2k_dma_read_def Let_def split_beta)

lemma poll_rx_copy:
  "case ne2k_poll_rx d maxlen st of ((n, out), t) \<Rightarrow>
     n \<le> maxlen \<and> (n = 0 \<and> out = [] \<or> (\<exists>a s. out = fst (ne2k_dma_read d a n s)))"
  by (auto simp: ne2k_poll_rx_def Let_def split_beta)


text \<open>A wait on bits that never come: the counter is used up and wraps around.\<close>

lemma isr_wait_never:
  assumes "\<forall>s. fst (ne2k_inb d (NE2K_BASE + NE_ISR) s) AND bits = 0"
  shows "fst (isr_wait d bits spin s) = -1"
proof (induction "unat spin" arbitrary: spin s)
  case 0
  then have "spin = 0" by (simp add: unat_eq_zero)
  then show ?case by (subst isr_wait.simps) simp
next
  case (Suc n)
  then have nz: "spin \<noteq> 0" by auto
  have n: "n = unat (spin - 1)"
    using Suc.hyps(2) unat_minus_one[OF nz] by simp
  obtain isr s1 where i: "ne2k_inb d (NE2K_BASE + NE_ISR) s = (isr, s1)" by (cases "ne2k_inb d (NE2K_BASE + NE_ISR) s")
  then have "isr AND bits = 0" using assms by (metis fst_conv)
  then have "isr_wait d bits spin s = isr_wait d bits (spin - 1) s1"
    using nz i by (subst isr_wait.simps) simp
  then show ?case using Suc.hyps(1)[OF n, of s1] by simp
qed

text \<open>The transmitter is idle at the \<open>k\<close>-th look.\<close>

primrec idle_after :: "('n, 'x) nic_scheme \<Rightarrow> nat \<Rightarrow> 'n \<Rightarrow> bool" where
  "idle_after d 0 s = (fst (ne2k_inb d (NE2K_BASE + NE_CR) s) AND 0x04 = 0)"
| "idle_after d (Suc k) s =
     (fst (ne2k_inb d (NE2K_BASE + NE_CR) s) AND 0x04 \<noteq> 0 \<and> idle_after d k (snd (ne2k_inb d (NE2K_BASE + NE_CR) s)))"

lemma tx_idle_wait_returns: "idle_after d k s \<Longrightarrow> \<exists>t. tx_idle_wait d s = Some t"
  by (induction k arbitrary: s) (subst tx_idle_wait.simps, auto simp: split_beta)+

lemma tx_done_wait_result: "fst (tx_done_wait d spin s) \<in> {0, -1}"
proof (induction d spin s rule: tx_done_wait.induct)
  case (1 d spin s)
  then show ?case
    by (subst tx_done_wait.simps) (auto simp: Let_def split: prod.split)
qed

section \<open>Properties\<close>

text \<open>
  C38. Polling never overruns the caller's buffer: for an even \<open>maxlen\<close> (the glue passes 1514) the
  words stored at \<open>out\<close> take at most \<open>maxlen\<close> bytes, whatever length the card reports, and they cover
  the number of bytes returned.
\<close>

theorem poll_rx_fits:
  assumes "insw_full d" "maxlen mod 2 = 0"
  shows "case ne2k_poll_rx d maxlen st of ((n, out), t) \<Rightarrow> n \<le> length out \<and> length out \<le> maxlen"
proof -
  obtain n out t where p: "ne2k_poll_rx d maxlen st = ((n, out), t)"
    by (metis prod.collapse)
  have "n \<le> maxlen \<and> (n = 0 \<and> out = [] \<or> length out = 2 * ((n + 1) div 2))"
    using poll_rx_copy[where d = d and maxlen = maxlen and st = st] p dma_read_length[OF assms(1)] by auto
  with assms(2) have "n \<le> length out \<and> length out \<le> maxlen" by (elim conjE disjE) (simp, presburger)
  then show ?thesis using p by simp
qed

text \<open>A card for the witnesses that reads the given value from every port.\<close>

definition const_nic :: "u32 \<Rightarrow> unit nic" where
  "const_nic v = \<lparr>ne2k_inb = (\<lambda>_ s. (v, s)), ne2k_outb = (\<lambda>_ _ s. s),
     ne2k_insw = (\<lambda>_ n s. (replicate (2 * n) 0x41, s)), ne2k_outsw = (\<lambda>_ _ s. s)\<rparr>"

theorem poll_rx_fits_witness:
  "length (snd (fst (ne2k_poll_rx (const_nic 0x41) 1514 \<lparr>n_dev = (), ne2k_initialized = True, ne2k_mac = []\<rparr>))) \<le> 1514"
proof -
  have "insw_full (const_nic 0x41)" by (simp add: insw_full_def const_nic_def)
  from poll_rx_fits[OF this, where maxlen = 1514 and st = "\<lparr>n_dev = (), ne2k_initialized = True, ne2k_mac = []\<rparr>"]
  show ?thesis by (auto split: prod.splits)
qed

text \<open>
  The receive ring wraps correctly: for every page \<open>p\<close> of the ring \<open>0x46 .. 0x7F\<close>, the boundary the
  driver writes after a frame whose successor starts at \<open>p\<close> lies in the ring, the next poll then looks
  at \<open>p\<close>, and the page it looks at is in the ring for every boundary in the ring.
\<close>

theorem ring_wraps:
  assumes "RX_PAGE_START \<le> p" "p < RX_PAGE_STOP"
  shows "next_pkt_page (bnry_before p) = p
    \<and> RX_PAGE_START \<le> bnry_before p \<and> bnry_before p < RX_PAGE_STOP
    \<and> RX_PAGE_START \<le> next_pkt_page p \<and> next_pkt_page p < RX_PAGE_STOP"
proof -
  have u: "0x46 \<le> unat p" "unat p < 0x80" using assms by (simp_all add: word_le_nat_alt word_less_nat_alt)
  have s: "unat (p + 1) = unat p + 1" using u by (simp add: unat_word_ariths)
  have m: "unat (p - 1) = unat p - 1" using u by (intro unat_minus_one) auto
  show ?thesis
    using u s m
    by (auto simp: next_pkt_page_def bnry_before_def Let_def word_le_nat_alt word_less_nat_alt word_unat_eq_iff)
qed

theorem ring_wraps_witness: "next_pkt_page (bnry_before 0x46) = 0x46 \<and> bnry_before 0x46 = 0x7F"
  using ring_wraps[of "0x46"] by (simp add: bnry_before_def)

text \<open>
  Sending: a driver that is not initialised or a frame of more than 1518 bytes is refused without
  touching the card. Otherwise, once the transmitter is idle at some look at the command register, the
  call returns, with 0 or \<open>-1\<close>; the wait for the transmission itself is bounded.
\<close>

theorem send_returns:
  assumes "idle_after d k (n_dev st)"
  shows "if \<not> ne2k_initialized st \<or> 1518 < len then ne2k_send_direct d buf len st = Some (-1, st)
    else (\<exists>r t. ne2k_send_direct d buf len st = Some (r, t) \<and> r \<in> {0, -1} \<and> ne2k_initialized t)"
proof -
  obtain s where s: "tx_idle_wait d (n_dev st) = Some s" using tx_idle_wait_returns[OF assms] by blast
  have "fst (tx_done_wait d 1000000 u) \<in> {0, -1}" for u by (rule tx_done_wait_result)
  then show ?thesis
    using s by (auto simp: ne2k_send_direct_def tx_len_def Let_def split_beta)
qed

theorem send_returns_witness:
  "\<exists>r t. ne2k_send_direct (const_nic 0x02) (replicate 60 0) 42 \<lparr>n_dev = (), ne2k_initialized = True, ne2k_mac = []\<rparr> = Some (r, t)"
proof -
  have i: "idle_after (const_nic 0x02) 0 (n_dev \<lparr>n_dev = (), ne2k_initialized = True, ne2k_mac = []\<rparr>)"
    by (simp add: const_nic_def)
  from send_returns[OF i, where len = 42 and buf = "replicate 60 0"] show ?thesis by auto
qed

text \<open>
  The reset time-out is never reported: on a card whose reset bit never comes up but whose command
  register reads back, initialisation waits its 100000 rounds and then reports success, because the
  loop leaves the counter wrapped around and the test that follows compares it with 0.
\<close>

theorem reset_timeout_unreported:
  assumes "\<forall>s. fst (ne2k_inb d (NE2K_BASE + NE_ISR) s) AND 0x80 = 0"
    and "\<forall>s. fst (ne2k_inb d (NE2K_BASE + NE_CR) s) = 0x21"
  shows "fst (fst (ne2k_init_direct d st)) = 0 \<and> ne2k_initialized (snd (ne2k_init_direct d st))"
proof -
  have w: "fst (isr_wait d 0x80 100000 s) \<noteq> 0" for s
    using isr_wait_never[OF assms(1)] by simp
  have c: "fst (ne2k_inb d 0x300 s) = 0x21" for s using assms(2) by simp
  show ?thesis
    using w c by (simp add: ne2k_init_direct_def Let_def split_beta)
qed

theorem reset_timeout_unreported_witness:
  "fst (fst (ne2k_init_direct (const_nic 0x21) \<lparr>n_dev = (), ne2k_initialized = False, ne2k_mac = []\<rparr>)) = 0"
  using reset_timeout_unreported[of "const_nic 0x21"] by (simp add: const_nic_def)

end
