(* ===== verification/Rcv_Stub.thy ===== *)
theory Rcv_Stub
  imports Prelude
begin

text \<open>
  The real-mode receiver stub: 47 bytes of hand-assembled 8086 code (\<open>rcv_code\<close> in
  \<open>pktdrv_uc386dos.c\<close>) that the packet driver calls from its interrupt handler, first with \<open>AX = 0\<close> to
  ask for a buffer for a frame of \<open>CX\<close> bytes, then with \<open>AX = 1\<close> when the frame has been copied.

  The theory gives the processor's meaning to the instructions the stub is made of, over the 64 KB of
  the code segment, runs the bytes, and relates them to a specification of the two calls.
\<close>

section \<open>Definitions\<close>

text \<open>The bytes written at offset \<open>0x10\<close> of the thunk paragraph, one line of the source per line.\<close>

definition rcv_code :: bytes where
  "rcv_code =
    [0x09, 0xC0,
     0x75, 0x23,
     0x2E, 0x83, 0x3E, 0x40, 0x00, 0x00,
     0x90, 0x90,
     0x81, 0xF9, 0xEE, 0x05,
     0x77, 0x0E,
     0x2E, 0x89, 0x0E, 0x42, 0x00,
     0x2E, 0xA1, 0x44, 0x00,
     0x8E, 0xC0,
     0x31, 0xFF,
     0xCB,
     0x31, 0xC0,
     0x8E, 0xC0,
     0x31, 0xFF,
     0xCB,
     0x2E, 0xC7, 0x06, 0x40, 0x00, 0x01, 0x00,
     0xCB]"

subsection \<open>The processor\<close>

record cpu =
  r_ax :: u16
  r_cx :: u16
  r_es :: u16
  r_di :: u16
  r_ip :: u16
  f_z :: bool
  f_c :: bool
  cs_mem :: "u16 \<Rightarrow> byte"

definition fetch16 :: "(u16 \<Rightarrow> byte) \<Rightarrow> u16 \<Rightarrow> u16" where
  "fetch16 m a = ucast (m a) + 256 * ucast (m (a + 1))"

definition store16 :: "u16 \<Rightarrow> u16 \<Rightarrow> (u16 \<Rightarrow> byte) \<Rightarrow> (u16 \<Rightarrow> byte)" where
  "store16 a v m = m(a := ucast v, a + 1 := ucast (drop_bit 8 v))"

definition jump :: "bool \<Rightarrow> cpu \<Rightarrow> cpu" where
  "jump cond c = (let rel = scast (cs_mem c (r_ip c + 1)) :: u16
     in c\<lparr>r_ip := r_ip c + 2 + (if cond then rel else 0)\<rparr>)"

text \<open>Instructions with the prefix \<open>CS:\<close>, at \<open>r_ip + 1\<close>.\<close>

definition step_cs :: "cpu \<Rightarrow> cpu option" where
  "step_cs c =
     (let m = cs_mem c; p = r_ip c; op = m (p + 1); modrm = m (p + 2)
      in if op = 0x83 \<and> modrm = 0x3E then
           let v = fetch16 m (fetch16 m (p + 3)); imm = (scast (m (p + 5)) :: u16)
           in Some (c\<lparr>f_z := (v = imm), f_c := (v < imm), r_ip := p + 6\<rparr>)
         else if op = 0x89 \<and> modrm = 0x0E then
           Some (c\<lparr>cs_mem := store16 (fetch16 m (p + 3)) (r_cx c) m, r_ip := p + 5\<rparr>)
         else if op = 0xA1 then
           Some (c\<lparr>r_ax := fetch16 m (fetch16 m (p + 2)), r_ip := p + 4\<rparr>)
         else if op = 0xC7 \<and> modrm = 0x06 then
           Some (c\<lparr>cs_mem := store16 (fetch16 m (p + 3)) (fetch16 m (p + 5)) m, r_ip := p + 7\<rparr>)
         else None)"

definition step :: "cpu \<Rightarrow> cpu option" where
  "step c =
     (let m = cs_mem c; p = r_ip c; op = m p; modrm = m (p + 1)
      in if op = 0x09 \<and> modrm = 0xC0 then
           Some (c\<lparr>f_z := (r_ax c = 0), f_c := False, r_ip := p + 2\<rparr>)
         else if op = 0x75 then Some (jump (\<not> f_z c) c)
         else if op = 0x77 then Some (jump (\<not> f_c c \<and> \<not> f_z c) c)
         else if op = 0x90 then Some (c\<lparr>r_ip := p + 1\<rparr>)
         else if op = 0x81 \<and> modrm = 0xF9 then
           let imm = fetch16 m (p + 2)
           in Some (c\<lparr>f_z := (r_cx c = imm), f_c := (r_cx c < imm), r_ip := p + 4\<rparr>)
         else if op = 0x8E \<and> modrm = 0xC0 then Some (c\<lparr>r_es := r_ax c, r_ip := p + 2\<rparr>)
         else if op = 0x31 \<and> modrm = 0xFF then Some (c\<lparr>r_di := 0, f_z := True, f_c := False, r_ip := p + 2\<rparr>)
         else if op = 0x31 \<and> modrm = 0xC0 then Some (c\<lparr>r_ax := 0, f_z := True, f_c := False, r_ip := p + 2\<rparr>)
         else if op = 0x2E then step_cs c
         else None)"

text \<open>Run until the far return; \<open>None\<close> for an unknown instruction or too little fuel.\<close>

fun run :: "nat \<Rightarrow> cpu \<Rightarrow> cpu option" where
  "run 0 c = None"
| "run (Suc n) c =
     (if cs_mem c (r_ip c) = 0xCB then Some c
      else case step c of None \<Rightarrow> None | Some c' \<Rightarrow> run n c')"

text \<open>The stub is in place: its bytes at offset \<open>0x10\<close> of the segment.\<close>

definition stub_loaded :: "(u16 \<Rightarrow> byte) \<Rightarrow> bool" where
  "stub_loaded m \<longleftrightarrow> (\<forall>i<47. m (0x10 + of_nat i) = rcv_code ! i)"

definition stub_call :: "(u16 \<Rightarrow> byte) \<Rightarrow> u16 \<Rightarrow> u16 \<Rightarrow> u16 \<Rightarrow> u16 \<Rightarrow> cpu option" where
  "stub_call m phase len es0 di0 =
     run 13 \<lparr>r_ax = phase, r_cx = len, r_es = es0, r_di = di0, r_ip = 0x10, f_z = False, f_c = False, cs_mem = m\<rparr>"

section \<open>Lemmas\<close>

lemma stub_bytes:
  assumes "stub_loaded m"
  shows
  "m 0x10 = 0x09" "m 0x11 = 0xC0" "m 0x12 = 0x75" "m 0x13 = 0x23"
  "m 0x14 = 0x2E" "m 0x15 = 0x83" "m 0x16 = 0x3E" "m 0x17 = 0x40" "m 0x18 = 0x00" "m 0x19 = 0x00"
  "m 0x1A = 0x90" "m 0x1B = 0x90"
  "m 0x1C = 0x81" "m 0x1D = 0xF9" "m 0x1E = 0xEE" "m 0x1F = 0x05"
  "m 0x20 = 0x77" "m 0x21 = 0x0E"
  "m 0x22 = 0x2E" "m 0x23 = 0x89" "m 0x24 = 0x0E" "m 0x25 = 0x42" "m 0x26 = 0x00"
  "m 0x27 = 0x2E" "m 0x28 = 0xA1" "m 0x29 = 0x44" "m 0x2A = 0x00"
  "m 0x2B = 0x8E" "m 0x2C = 0xC0" "m 0x2D = 0x31" "m 0x2E = 0xFF" "m 0x2F = 0xCB"
  "m 0x30 = 0x31" "m 0x31 = 0xC0" "m 0x32 = 0x8E" "m 0x33 = 0xC0" "m 0x34 = 0x31" "m 0x35 = 0xFF" "m 0x36 = 0xCB"
  "m 0x37 = 0x2E" "m 0x38 = 0xC7" "m 0x39 = 0x06" "m 0x3A = 0x40" "m 0x3B = 0x00" "m 0x3C = 0x01" "m 0x3D = 0x00"
  "m 0x3E = 0xCB"
proof -
  have *: "m (0x10 + of_nat i) = rcv_code ! i" if "i < 47" for i
    using assms that by (simp add: stub_loaded_def)
  show
  "m 0x10 = 0x09" "m 0x11 = 0xC0" "m 0x12 = 0x75" "m 0x13 = 0x23"
  "m 0x14 = 0x2E" "m 0x15 = 0x83" "m 0x16 = 0x3E" "m 0x17 = 0x40" "m 0x18 = 0x00" "m 0x19 = 0x00"
  "m 0x1A = 0x90" "m 0x1B = 0x90"
  "m 0x1C = 0x81" "m 0x1D = 0xF9" "m 0x1E = 0xEE" "m 0x1F = 0x05"
  "m 0x20 = 0x77" "m 0x21 = 0x0E"
  "m 0x22 = 0x2E" "m 0x23 = 0x89" "m 0x24 = 0x0E" "m 0x25 = 0x42" "m 0x26 = 0x00"
  "m 0x27 = 0x2E" "m 0x28 = 0xA1" "m 0x29 = 0x44" "m 0x2A = 0x00"
  "m 0x2B = 0x8E" "m 0x2C = 0xC0" "m 0x2D = 0x31" "m 0x2E = 0xFF" "m 0x2F = 0xCB"
  "m 0x30 = 0x31" "m 0x31 = 0xC0" "m 0x32 = 0x8E" "m 0x33 = 0xC0" "m 0x34 = 0x31" "m 0x35 = 0xFF" "m 0x36 = 0xCB"
  "m 0x37 = 0x2E" "m 0x38 = 0xC7" "m 0x39 = 0x06" "m 0x3A = 0x40" "m 0x3B = 0x00" "m 0x3C = 0x01" "m 0x3D = 0x00"
  "m 0x3E = 0xCB"
    using *[of 0] *[of 1] *[of 2] *[of 3] *[of 4] *[of 5] *[of 6] *[of 7] *[of 8] *[of 9] *[of 10] *[of 11]
      *[of 12] *[of 13] *[of 14] *[of 15] *[of 16] *[of 17] *[of 18] *[of 19] *[of 20] *[of 21] *[of 22] *[of 23]
      *[of 24] *[of 25] *[of 26] *[of 27] *[of 28] *[of 29] *[of 30] *[of 31] *[of 32] *[of 33] *[of 34] *[of 35]
      *[of 36] *[of 37] *[of 38] *[of 39] *[of 40] *[of 41] *[of 42] *[of 43] *[of 44] *[of 45] *[of 46]
    by (simp_all add: rcv_code_def)
qed

text \<open>One instruction at a time, with fuel left.\<close>

lemma run_step: "cs_mem c (r_ip c) \<noteq> 0xCB \<Longrightarrow> step c = Some c' \<Longrightarrow> run (Suc n) c = run n c'"
  by simp

lemmas stub_exec = run_step step_def step_cs_def jump_def Let_def fetch16_def store16_def

lemma thirteen: "(13 :: nat) = Suc (Suc (Suc (Suc (Suc (Suc (Suc (Suc (Suc (Suc (Suc (Suc (Suc 0))))))))))))"
  by simp

lemma stub_phase1:
  assumes "stub_loaded m" "phase \<noteq> 0"
  shows "\<exists>c. stub_call m phase len es0 di0 = Some c \<and> cs_mem c = store16 0x40 1 m \<and> r_es c = es0 \<and> r_di c = di0"
  unfolding stub_call_def thirteen
  by (simp add: stub_exec stub_bytes[OF assms(1)] assms(2) del: run.simps) (simp add: stub_bytes[OF assms(1)])

lemma stub_phase0_drop:
  assumes "stub_loaded m" "1518 < len"
  shows "\<exists>c. stub_call m 0 len es0 di0 = Some c \<and> cs_mem c = m \<and> r_es c = 0 \<and> r_di c = 0"
proof -
  have l: "\<not> len < 1518" "len \<noteq> 1518" using assms(2) by auto
  show ?thesis
    unfolding stub_call_def thirteen
    by (simp add: stub_exec stub_bytes[OF assms(1)] l del: run.simps) (simp add: stub_bytes[OF assms(1)])
qed

lemma stub_phase0_take:
  assumes "stub_loaded m" "len \<le> 1518"
  shows "\<exists>c. stub_call m 0 len es0 di0 = Some c \<and> cs_mem c = store16 0x42 len m
    \<and> r_es c = fetch16 m 0x44 \<and> r_di c = 0"
proof -
  have l: "(\<not> len < 1518 \<and> len \<noteq> 1518) = False" using assms(2) by auto
  show ?thesis
    unfolding stub_call_def thirteen
    by (simp add: stub_exec stub_bytes[OF assms(1)] l del: run.simps) (simp add: stub_bytes[OF assms(1)])
qed

text \<open>The stub's variables lie outside its code.\<close>

lemma store16_stub_loaded:
  assumes "stub_loaded m" "a \<in> {0x40, 0x42}"
  shows "stub_loaded (store16 a v m)"
proof -
  have "0x10 + of_nat i \<noteq> a \<and> 0x10 + of_nat i \<noteq> a + 1" if "i < 47" for i
  proof -
    have "unat (0x10 + of_nat i :: u16) = 16 + i"
      using that by (simp add: unat_word_ariths unat_of_nat)
    moreover have "unat a \<in> {0x40, 0x42}" "unat (a + 1) \<in> {0x41, 0x43}" using assms(2) by auto
    ultimately show ?thesis using that by auto
  qed
  then show ?thesis
    using assms(1) by (simp add: stub_loaded_def store16_def)
qed

section \<open>Properties\<close>

text \<open>
  C10. The machine code does what the packet-driver protocol asks of a receiver. Called with \<open>AX = 0\<close> for
  a frame of at most 1518 bytes it notes the length at offset \<open>0x42\<close> and returns \<open>ES:DI\<close> = the bounce
  segment stored at \<open>0x44\<close>, offset 0; for a longer frame it changes nothing and returns \<open>0:0\<close>, "drop
  it". Called with any other \<open>AX\<close> it sets the pending word at \<open>0x40\<close> and leaves \<open>ES:DI\<close> alone. Every
  call reaches the far return within 13 instructions, so the hand-computed jump distances are right,
  and leaves the code itself intact.
\<close>

theorem stub_correct:
  assumes "stub_loaded m"
  shows "\<exists>c. stub_call m phase len es0 di0 = Some c \<and> stub_loaded (cs_mem c) \<and>
    (if phase \<noteq> 0 then cs_mem c = store16 0x40 1 m \<and> r_es c = es0 \<and> r_di c = di0
     else if len \<le> 1518 then cs_mem c = store16 0x42 len m \<and> r_es c = fetch16 m 0x44 \<and> r_di c = 0
     else cs_mem c = m \<and> r_es c = 0 \<and> r_di c = 0)"
proof -
  consider "phase \<noteq> 0" | "phase = 0" "len \<le> 1518" | "phase = 0" "1518 < len" by force
  then show ?thesis
  proof cases
    case 1
    with stub_phase1[OF assms 1, of len es0 di0] store16_stub_loaded[OF assms, of "0x40" 1] show ?thesis by auto
  next
    case 2
    with stub_phase0_take[OF assms 2(2), of es0 di0] store16_stub_loaded[OF assms, of "0x42" len] show ?thesis by auto
  next
    case 3
    with stub_phase0_drop[OF assms 3(2), of es0 di0] assms show ?thesis by auto
  qed
qed

definition demo_segment :: "u16 \<Rightarrow> byte" where
  "demo_segment a = (if 0x10 \<le> a \<and> a < 0x3F then rcv_code ! unat (a - 0x10) else if a = 0x45 then 0x12 else 0)"

lemma demo_loaded: "stub_loaded demo_segment"
proof -
  have "demo_segment (0x10 + of_nat i) = rcv_code ! i" if "i < 47" for i
  proof -
    have "unat (of_nat i :: u16) = i" using that by (simp add: unat_of_nat)
    moreover have "unat (0x10 + of_nat i :: u16) = 16 + i" using that by (simp add: unat_word_ariths unat_of_nat)
    ultimately show ?thesis
      using that by (simp add: demo_segment_def word_le_nat_alt word_less_nat_alt)
  qed
  then show ?thesis by (simp add: stub_loaded_def)
qed

theorem stub_correct_witness:
  "\<exists>c. stub_call demo_segment 0 60 0 0 = Some c \<and> r_es c = 0x1200 \<and> r_di c = 0"
proof -
  have "fetch16 demo_segment 0x44 = 0x1200" by (simp add: fetch16_def demo_segment_def)
  with stub_correct[OF demo_loaded, of 0 60 0 0] show ?thesis by auto
qed

end
