(* ===== verification/Pktdrv.thy ===== *)
theory Pktdrv
  imports Dpmi Ne2k Rcv_Stub "HOL-Library.Sublist"
begin

text \<open>
  The packet driver of \<open>pktdrv_uc386dos.c\<close>: finding a Crynwr driver in the interrupt table, calling it
  through a real-mode thunk, registering a receiver, sending, and draining received frames; with the
  NE2000 driver of \<open>Ne2k\<close> tried first.

  The globals of the file form the record \<open>pkt\<close>. The host of \<open>Dpmi\<close> is extended by DPMI 0x0300
  (\<open>sim_rm_int\<close>), the bare INT of the emulator path (\<open>bare_int\<close>, with the bytes at ESI going in and the
  bytes written at EDI coming out), and the addresses of the globals the code passes around. Diagnostic
  output is left out. \<open>PKTDRV_FORCE_CRYNWR\<close> is not defined, as in the default build.
\<close>

section \<open>Definitions\<close>

record 'h pkt_host = "'h dpmi" +
  sim_rm_int :: "u32 \<Rightarrow> dos_rmcs \<Rightarrow> mem \<Rightarrow> 'h \<Rightarrow> bool \<times> dos_rmcs \<times> mem \<times> 'h"
  bare_int :: "u32 \<Rightarrow> regs \<Rightarrow> bytes \<Rightarrow> 'h \<Rightarrow> bool \<times> regs \<times> bytes \<times> 'h"
  addr_rx_buf :: u32
  addr_rx_pending :: u32
  addr_rx_len :: u32
  addr_rmcs :: u32
  addr_dpmi_thunk :: u32
  addr_receiver :: u32

abbreviation PKTDRV_MAX_FRAME :: nat where "PKTDRV_MAX_FRAME \<equiv> 1518"
abbreviation PKTDRV_BOUNCE_SIZE :: nat where "PKTDRV_BOUNCE_SIZE \<equiv> 2048"

definition PKT_SIG :: bytes where
  "PKT_SIG = str ''PKT DRVR''"

record ('h, 'n) pkt =
  p_mem :: mem
  p_host :: 'h
  p_ne2k :: "'n ne2k"
  int_num :: int
  handle :: int
  handle_arp :: int
  mac_cache :: bytes
  rx_buf :: bytes
  rx_pending :: bool
  rx_len :: nat
  p_rmcs :: dos_rmcs
  dpmi_seg :: u32
  dpmi_off :: u32
  thunk_invocations :: u32
  thunk_phase0_count :: u32
  thunk_phase1_count :: u32
  last_handle :: u32
  pk_bounce_seg :: u32
  pk_bounce_linear :: u32
  pk_thunk_seg :: u32
  prealloc_bounce_seg :: u32
  prealloc_bounce_linear :: u32
  prealloc_thunk_seg :: u32

subsection \<open>Bounce buffer and thunk\<close>

definition pktdrv_alloc_bounce :: "('h, 'n) pkt \<Rightarrow> int \<times> ('h, 'n) pkt" where
  "pktdrv_alloc_bounce s =
     (if pk_bounce_seg s \<noteq> 0 then (0, s)
      else if prealloc_bounce_seg s = 0 then (-1, s)
      else (0, s\<lparr>pk_bounce_seg := prealloc_bounce_seg s, pk_bounce_linear := prealloc_bounce_linear s\<rparr>))"

text \<open>The bytes of the thunk allocation from its start: the call, the ethertype patterns, the receiver
  code and its variables; offset 3 is not written.\<close>

definition thunk_head :: bytes where
  "thunk_head = [0xCD, 0x60, 0xCB]"

definition type_patterns :: bytes where
  "type_patterns = [0x08, 0x06, 0x08, 0x00, 0x86, 0xDD, 0, 0, 0, 0, 0, 0]"

definition stub_vars :: "u32 \<Rightarrow> bytes" where
  "stub_vars seg = [0, 0, 0, 0, ucast (seg AND 0xFF), ucast (drop_bit 8 seg AND 0xFF)]"

definition thunk_lin :: "('h, 'n) pkt \<Rightarrow> u32" where
  "thunk_lin s = push_bit 4 (pk_thunk_seg s)"

definition pktdrv_alloc_thunk :: "('h, 'x) dpmi_scheme \<Rightarrow> ('h, 'n) pkt \<Rightarrow> int \<times> ('h, 'n) pkt" where
  "pktdrv_alloc_thunk d s =
     (if pk_thunk_seg s \<noteq> 0 then (0, s)
      else if prealloc_thunk_seg s = 0 then (-1, s)
      else let seg = prealloc_thunk_seg s;
               linear = push_bit 4 seg;
               m = store_bytes d linear thunk_head (p_mem s);
               m = store_bytes d (linear + 4) type_patterns m;
               m = store_bytes d (linear + 0x10) rcv_code m;
               m = store_bytes d (linear + 0x40) (stub_vars (pk_bounce_seg s)) m
           in (0, s\<lparr>p_mem := m, pk_thunk_seg := seg\<rparr>))"

definition pktdrv_call_int60_thunk ::
  "('h, 'x) dpmi_scheme \<Rightarrow> dos_rmcs \<Rightarrow> ('h, 'n) pkt \<Rightarrow> int \<times> dos_rmcs \<times> ('h, 'n) pkt" where
  "pktdrv_call_int60_thunk d rm s =
     (if pk_thunk_seg s = 0 then (-1, rm, s)
      else let rm = rm\<lparr>cs := ucast (pk_thunk_seg s), ip := 0, ss := 0, sp := 0\<rparr>;
               (cf, rm, m, h) = rm_call d rm (p_mem s) (p_host s)
           in (if cf then -1 else 0, rm, s\<lparr>p_mem := m, p_host := h\<rparr>))"

definition pktdrv_simulate_real_int ::
  "('h, 'x) pkt_host_scheme \<Rightarrow> u32 \<Rightarrow> regs \<Rightarrow> ('h, 'n) pkt \<Rightarrow> bool \<times> regs \<times> ('h, 'n) pkt" where
  "pktdrv_simulate_real_int d n r s =
     (let rm = rmcs0\<lparr>edi := R_EDI r, esi := R_ESI r, ebx := R_EBX r, edx := R_EDX r, ecx := R_ECX r, eax := R_EAX r\<rparr>;
          (cf, rm, m, h) = sim_rm_int d (n AND 0xFF) rm (p_mem s) (p_host s);
          s = s\<lparr>p_mem := m, p_host := h\<rparr>
      in if cf then (True, r, s)
         else (flags rm AND 1 \<noteq> 0,
               r\<lparr>R_EAX := eax rm, R_EBX := ebx rm, R_ECX := ecx rm, R_EDX := edx rm, R_ESI := esi rm, R_EDI := edi rm\<rparr>,
               s))"

subsection \<open>Detection\<close>

definition driver_info_ok :: "regs \<Rightarrow> bool" where
  "driver_info_ok r =
     (let bx = R_EBX r AND 0xFFFF; dh = drop_bit 8 (R_EDX r) AND 0xFF
      in bx \<ge> 0x0100 \<and> bx \<le> 0x01FF \<and> dh \<ge> 0x01 \<and> dh \<le> 0x20)"

definition pktdrv_probe_slot :: "('h, 'x) pkt_host_scheme \<Rightarrow> u32 \<Rightarrow> ('h, 'n) pkt \<Rightarrow> u32 \<times> ('h, 'n) pkt" where
  "pktdrv_probe_slot d n s =
     (let (cf, r, s) = pktdrv_simulate_real_int d n (regs0\<lparr>R_EAX := 0x0100, R_EBX := 0xFFFF\<rparr>) s
      in if \<not> cf \<and> driver_info_ok r then (n OR 0x80000000, s)
         else let (cf, r, h) = int_invoke d 0x31 (regs0\<lparr>R_EAX := 0x0200, R_EBX := n AND 0xFF\<rparr>) (p_host s);
                  s = s\<lparr>p_host := h\<rparr>
              in if cf then (0, s)
                 else let linear = (R_ECX r AND 0xFFFF) * 16 + (R_EDX r AND 0xFFFF)
                      in if linear = 0 \<or> linear \<ge> 0x110000 then (0, s)
                         else if load_bytes (p_mem s) (linear + 3) 8 \<noteq> PKT_SIG then (0, s)
                         else (linear, s))"

fun detect_loop :: "('h, 'x) pkt_host_scheme \<Rightarrow> nat list \<Rightarrow> ('h, 'n) pkt \<Rightarrow> int \<times> ('h, 'n) pkt" where
  "detect_loop d [] s = (0, s)"
| "detect_loop d (i # is) s =
     (let (found, s) = pktdrv_probe_slot d (of_nat i) s
      in if found \<noteq> 0 then (int i, s\<lparr>int_num := int i\<rparr>) else detect_loop d is s)"

definition pktdrv_detect :: "('h, 'x) pkt_host_scheme \<Rightarrow> ('h, 'n) pkt \<Rightarrow> int \<times> ('h, 'n) pkt" where
  "pktdrv_detect d s = (if int_num s \<noteq> 0 then (int_num s, s) else detect_loop d [0x60..<0x80] s)"

subsection \<open>Driver calls\<close>

text \<open>The dispatch the driver calls share: through the thunk, or DPMI 0x0300 without one.\<close>

definition int60 :: "('h, 'x) pkt_host_scheme \<Rightarrow> dos_rmcs \<Rightarrow> ('h, 'n) pkt \<Rightarrow> bool \<times> dos_rmcs \<times> ('h, 'n) pkt" where
  "int60 d rm s =
     (if pk_thunk_seg s \<noteq> 0
      then let (rc, rm, s) = pktdrv_call_int60_thunk d rm s in (rc \<noteq> 0, rm, s)
      else let (cf, rm, m, h) = sim_rm_int d (word_of_int (int_num s) AND 0xFF) rm (p_mem s) (p_host s)
           in (cf, rm, s\<lparr>p_mem := m, p_host := h\<rparr>))"

definition pktdrv_get_addr :: "('h, 'x) pkt_host_scheme \<Rightarrow> ('h, 'n) pkt \<Rightarrow> (int \<times> bytes) \<times> ('h, 'n) pkt" where
  "pktdrv_get_addr d s =
     (if int_num s = 0 \<or> handle s < 0 then ((-1, []), s)
      else if pk_bounce_seg s = 0
      then let (cf, r, out, h) = bare_int d (word_of_int (int_num s))
                 (regs0\<lparr>R_EAX := 0x0600, R_EBX := word_of_int (handle s), R_ECX := 6\<rparr>) [] (p_host s);
               s = s\<lparr>p_host := h\<rparr>
           in if cf then ((-1, []), s) else ((0, take 6 out), s\<lparr>mac_cache := take 6 out\<rparr>)
      else let (cf, rm, s) = int60 d (rmcs0\<lparr>ebx := word_of_int (handle s), ecx := 6, eax := 0x0600,
                                           es := ucast (pk_bounce_seg s)\<rparr>) s
           in if cf \<or> flags rm AND 1 \<noteq> 0 then ((-1, []), s)
              else let out = load_bytes (p_mem s) (pk_bounce_linear s) 6
                   in ((0, out), s\<lparr>mac_cache := out\<rparr>))"

text \<open>The result also carries the handle stored through \<open>out_handle\<close>.\<close>

definition pktdrv_access_one ::
  "('h, 'x) pkt_host_scheme \<Rightarrow> u32 \<Rightarrow> u32 \<Rightarrow> ('h, 'n) pkt \<Rightarrow> (int \<times> int) \<times> ('h, 'n) pkt" where
  "pktdrv_access_one d linear_receiver type_off s =
     (if int_num s = 0 then ((-1, 0), s)
      else let (cf, rm, s) = int60 d (rmcs0\<lparr>edi := linear_receiver AND 0xFFFF, esi := type_off, ebx := 0xFFFF,
                 ecx := 2, eax := 0x0201, es := ucast (drop_bit 16 linear_receiver AND 0xFFFF),
                 ds := ucast (pk_thunk_seg s)\<rparr>) s
           in if cf
              then let (cf, r, out, h) = bare_int d (word_of_int (int_num s))
                         (regs0\<lparr>R_EAX := 0x0201, R_EDI := linear_receiver\<rparr>) [] (p_host s);
                       s = s\<lparr>p_host := h\<rparr>
                   in if cf then ((-1, 0), s)
                      else ((0, uint (R_EAX r AND 0xFFFF)), s\<lparr>last_handle := R_EAX r\<rparr>)
              else if flags rm AND 1 \<noteq> 0 then ((-1, 0), s)
              else ((0, uint (eax rm AND 0xFFFF)), s\<lparr>last_handle := eax rm\<rparr>))"

definition pktdrv_access :: "('h, 'x) pkt_host_scheme \<Rightarrow> u32 \<Rightarrow> ('h, 'n) pkt \<Rightarrow> int \<times> ('h, 'n) pkt" where
  "pktdrv_access d linear_receiver s =
     (let ((rc, hd4), s) = pktdrv_access_one d linear_receiver 6 s
      in if rc \<noteq> 0 then (-1, s)
         else let s = s\<lparr>handle := hd4\<rparr>;
                  ((rc, hda), s) = pktdrv_access_one d linear_receiver 4 s
              in (0, s\<lparr>handle_arp := (if rc \<noteq> 0 then -1 else hda)\<rparr>))"

subsection \<open>The protected-mode receiver\<close>

text \<open>\<open>memcpy\<close> of \<open>n\<close> bytes from the flat address space to the start of \<open>pktdrv_rx_buf\<close>.\<close>

definition copy_to_rx :: "mem \<Rightarrow> u32 \<Rightarrow> nat \<Rightarrow> bytes \<Rightarrow> bytes" where
  "copy_to_rx m a n buf = load_bytes m a n @ drop n buf"

text \<open>\<open>None\<close> is the null pointer.\<close>

definition uc386dos_pktdrv_receiver ::
  "('h, 'x) pkt_host_scheme \<Rightarrow> u32 \<Rightarrow> nat \<Rightarrow> ('h, 'n) pkt \<Rightarrow> u32 option \<times> ('h, 'n) pkt" where
  "uc386dos_pktdrv_receiver d phase len s =
     (if phase = 0
      then if rx_pending s \<or> len > PKTDRV_MAX_FRAME then (None, s)
           else let s = s\<lparr>rx_len := len\<rparr>
                in if pk_bounce_seg s \<noteq> 0 \<and> len \<le> PKTDRV_BOUNCE_SIZE then (Some (pk_bounce_linear s), s)
                   else (Some (addr_rx_buf d), s)
      else let s = (if pk_bounce_seg s \<noteq> 0 \<and> rx_len s \<le> PKTDRV_MAX_FRAME
                    then s\<lparr>rx_buf := copy_to_rx (p_mem s) (pk_bounce_linear s) (rx_len s) (rx_buf s)\<rparr> else s)
           in (None, s\<lparr>rx_pending := True\<rparr>))"

definition uc386dos_pktdrv_dpmi_thunk_c :: "('h, 'x) pkt_host_scheme \<Rightarrow> ('h, 'n) pkt \<Rightarrow> ('h, 'n) pkt" where
  "uc386dos_pktdrv_dpmi_thunk_c d s =
     (let phase = eax (p_rmcs s) AND 0xFFFF;
          len = unat (ecx (p_rmcs s) AND 0xFFFF);
          s = s\<lparr>thunk_invocations := thunk_invocations s + 1\<rparr>;
          s = (if phase = 0 then s\<lparr>thunk_phase0_count := thunk_phase0_count s + 1\<rparr> else s);
          s = (if phase = 1 then s\<lparr>thunk_phase1_count := thunk_phase1_count s + 1\<rparr> else s);
          (buf, s) = uc386dos_pktdrv_receiver d phase len s
      in case buf of
           None \<Rightarrow> s
         | Some linear \<Rightarrow>
             if phase = 0
             then s\<lparr>p_rmcs := (p_rmcs s)\<lparr>es := ucast (drop_bit 4 linear AND 0xFFFF),
                                        edi := (linear AND 0xF) OR (edi (p_rmcs s) AND 0xFFFF0000)\<rparr>\<rparr>
             else s)"

definition pktdrv_alloc_dpmi_callback :: "('h, 'x) pkt_host_scheme \<Rightarrow> ('h, 'n) pkt \<Rightarrow> int \<times> ('h, 'n) pkt" where
  "pktdrv_alloc_dpmi_callback d s =
     (let (cf, r, h) = int_invoke d 0x31 (regs0\<lparr>R_EAX := 0x0303, R_ESI := addr_dpmi_thunk d, R_EDI := addr_rmcs d\<rparr>) (p_host s);
          s = s\<lparr>p_host := h\<rparr>
      in if cf then (-1, s) else (0, s\<lparr>dpmi_seg := R_ECX r AND 0xFFFF, dpmi_off := R_EDX r AND 0xFFFF\<rparr>))"

definition pktdrv_register_polling_rx :: "('h, 'x) pkt_host_scheme \<Rightarrow> ('h, 'n) pkt \<Rightarrow> ('h, 'n) pkt" where
  "pktdrv_register_polling_rx d s =
     (if pk_thunk_seg s = 0
      then let (cf, r, out, h) = bare_int d (word_of_int (int_num s))
                 (regs0\<lparr>R_EAX := 0x9900, R_EDI := addr_rx_buf d, R_ESI := addr_rx_pending d, R_ECX := addr_rx_len d\<rparr>)
                 [] (p_host s)
           in s\<lparr>p_host := h\<rparr>
      else let (rc, info, s) = pktdrv_call_int60_thunk d (rmcs0\<lparr>ebx := 0xFFFF, eax := 0x0100\<rparr>) s
           in if rc \<noteq> 0 \<or> flags info AND 1 \<noteq> 0 then s
              else if ecx info AND 0xFFFF \<noteq> 0x0202 then s
              else let (rc, rm, s) = pktdrv_call_int60_thunk d
                         (rmcs0\<lparr>edi := addr_rx_buf d, esi := addr_rx_pending d, ecx := addr_rx_len d, eax := 0x9900\<rparr>) s
                   in s)"

subsection \<open>Initialisation\<close>

text \<open>Which receiver address is registered: the stub, the DPMI trampoline, or the flat function.\<close>

definition choose_receiver :: "('h, 'x) pkt_host_scheme \<Rightarrow> ('h, 'n) pkt \<Rightarrow> u32 \<times> ('h, 'n) pkt" where
  "choose_receiver d s =
     (let (rc, s) = pktdrv_alloc_dpmi_callback d s
      in if pk_thunk_seg s \<noteq> 0 then (push_bit 16 (pk_thunk_seg s) OR 0x0010, s)
         else if rc = 0 then (push_bit 16 (dpmi_seg s) OR (dpmi_off s AND 0xFFFF), s)
         else (addr_receiver d, s))"

definition release_all :: "('h, 'x) pkt_host_scheme \<Rightarrow> ('h, 'n) pkt \<Rightarrow> ('h, 'n) pkt" where
  "release_all d s =
     (if pk_thunk_seg s \<noteq> 0
      then let (rc, rm, s) = pktdrv_call_int60_thunk d (rmcs0\<lparr>ebx := 0xFFFF, eax := 0x0300\<rparr>) s in s
      else s)"

definition set_rcv_mode :: "('h, 'x) pkt_host_scheme \<Rightarrow> ('h, 'n) pkt \<Rightarrow> ('h, 'n) pkt" where
  "set_rcv_mode d s =
     (if pk_thunk_seg s \<noteq> 0
      then let (rc, rm, s) = pktdrv_call_int60_thunk d
                 (rmcs0\<lparr>ebx := word_of_int (handle s), ecx := 3, eax := 0x1400\<rparr>) s in s
      else s)"

definition crynwr_init :: "('h, 'x) pkt_host_scheme \<Rightarrow> ('h, 'n) pkt \<Rightarrow> (int \<times> bytes) \<times> ('h, 'n) pkt" where
  "crynwr_init d s =
     (let (n, s) = pktdrv_detect d s
      in if n = 0 then ((-1, []), s)
         else let (rc, s) = pktdrv_alloc_bounce s;
                  (rc, s) = pktdrv_alloc_thunk d s;
                  (receiver, s) = choose_receiver d s;
                  s = release_all d s;
                  (rc, s) = pktdrv_access d receiver s
              in if rc \<noteq> 0 then ((-2, []), s\<lparr>int_num := 0\<rparr>)
                 else let s = set_rcv_mode d s;
                          ((rc, mac), s) = pktdrv_get_addr d s
                      in if rc \<noteq> 0 then ((-3, []), s\<lparr>int_num := 0\<rparr>)
                         else ((0, mac), pktdrv_register_polling_rx d s))"

definition pktdrv_init :: "('h, 'x) pkt_host_scheme \<Rightarrow> ('n, 'y) nic_scheme \<Rightarrow> ('h, 'n) pkt \<Rightarrow> (int \<times> bytes) \<times> ('h, 'n) pkt" where
  "pktdrv_init d nic s =
     (let ((rc, mac), ne) = ne2k_init_direct nic (p_ne2k s);
          s = s\<lparr>p_ne2k := ne\<rparr>
      in if rc = 0 then ((0, mac), s\<lparr>int_num := -1\<rparr>) else crynwr_init d s)"

subsection \<open>Sending and receiving\<close>

text \<open>\<open>None\<close> is a send that never returns (the NE2000 driver's unbounded wait).\<close>

definition pktdrv_send ::
  "('h, 'x) pkt_host_scheme \<Rightarrow> ('n, 'y) nic_scheme \<Rightarrow> bytes \<Rightarrow> nat \<Rightarrow> ('h, 'n) pkt \<Rightarrow> (int \<times> ('h, 'n) pkt) option" where
  "pktdrv_send d nic buf len s =
     (if ne2k_initialized (p_ne2k s)
      then map_option (\<lambda>(r, ne). (r, s\<lparr>p_ne2k := ne\<rparr>)) (ne2k_send_direct nic buf len (p_ne2k s))
      else if int_num s = 0 then Some (-1, s)
      else if len > PKTDRV_BOUNCE_SIZE then Some (-1, s)
      else if pk_bounce_seg s = 0
      then let (cf, r, out, h) = bare_int d (word_of_int (int_num s))
                 (regs0\<lparr>R_EAX := 0x0400, R_ECX := of_nat len\<rparr>) (take len buf) (p_host s)
           in Some (if cf then -1 else 0, s\<lparr>p_host := h\<rparr>)
      else let s = s\<lparr>p_mem := store_bytes d (pk_bounce_linear s) (take len buf) (p_mem s)\<rparr>;
               rm = rmcs0\<lparr>ebx := word_of_int (handle s), ecx := of_nat len, eax := 0x0400, ds := ucast (pk_bounce_seg s)\<rparr>;
               (saved_mask, dev) = ne2k_inb nic 0xA1 (n_dev (p_ne2k s));
               dev = ne2k_outb nic 0xA1 (saved_mask OR 0x0A) dev;
               (cf, rm, s) = int60 d rm s;
               dev = ne2k_outb nic 0xA1 saved_mask dev;
               s = s\<lparr>p_ne2k := (p_ne2k s)\<lparr>n_dev := dev\<rparr>\<rparr>
           in Some (if cf \<or> flags rm AND 1 \<noteq> 0 then -1 else 0, s))"

definition read16 :: "mem \<Rightarrow> u32 \<Rightarrow> nat" where
  "read16 m a = unat (m a) + 256 * unat (m (a + 1))"

definition pktdrv_poll_rmstub :: "('h, 'x) dpmi_scheme \<Rightarrow> ('h, 'n) pkt \<Rightarrow> ('h, 'n) pkt" where
  "pktdrv_poll_rmstub d s =
     (if pk_thunk_seg s = 0 then s
      else if rx_pending s then s
      else let pending = thunk_lin s + 0x40
           in if read16 (p_mem s) pending = 0 then s
              else let n = read16 (p_mem s) (thunk_lin s + 0x42);
                       cleared = store_bytes d pending [0, 0] (p_mem s)
                   in if n = 0 \<or> n > PKTDRV_MAX_FRAME then s\<lparr>p_mem := cleared\<rparr>
                      else let s = (if pk_bounce_linear s \<noteq> 0
                                    then s\<lparr>rx_buf := copy_to_rx (p_mem s) (pk_bounce_linear s) n (rx_buf s)\<rparr> else s)
                           in s\<lparr>rx_len := n, p_mem := cleared, rx_pending := True\<rparr>)"

text \<open>The bytes stored at \<open>out\<close>; the result is their number, and no more than \<open>maxlen\<close> of them count.\<close>

definition pktdrv_recv ::
  "('h, 'x) dpmi_scheme \<Rightarrow> ('n, 'y) nic_scheme \<Rightarrow> nat \<Rightarrow> ('h, 'n) pkt \<Rightarrow> bytes \<times> ('h, 'n) pkt" where
  "pktdrv_recv d nic maxlen s =
     (if ne2k_initialized (p_ne2k s)
      then let ((n, out), ne) = ne2k_poll_rx nic maxlen (p_ne2k s) in (take n out, s\<lparr>p_ne2k := ne\<rparr>)
      else let s = pktdrv_poll_rmstub d s
           in if \<not> rx_pending s then ([], s)
              else let n = (if rx_len s > maxlen then maxlen else rx_len s)
                   in (take n (rx_buf s), s\<lparr>rx_pending := False, rx_len := 0\<rparr>))"

definition pktdrv_is_active :: "('h, 'n) pkt \<Rightarrow> bool" where
  "pktdrv_is_active s \<longleftrightarrow> ne2k_initialized (p_ne2k s) \<or> (int_num s \<noteq> 0 \<and> int_num s \<noteq> -1)"

section \<open>Lemmas\<close>

subsection \<open>Memory\<close>

lemma in_block_offset: "k < n \<Longrightarrow> n \<le> 2 ^ 32 - 1 \<Longrightarrow> in_block a n (a + of_nat k)"
  by (simp add: in_block_def unat_of_nat take_bit_nat_eq_self)

lemma in_block_mono: "in_block a n x \<Longrightarrow> n \<le> N \<Longrightarrow> in_block a N x"
  by (simp add: in_block_def)

lemma in_block_sub:
  assumes "in_block (a + of_nat k) n x" "k + n \<le> N" "N \<le> 2 ^ 32 - 1"
  shows "in_block a N x"
proof -
  define y where "y = x - (a + of_nat k)"
  have "unat (of_nat k :: u32) = k"
    using assms(2,3) by (simp add: unat_of_nat take_bit_nat_eq_self)
  then have "unat (y + of_nat k) = unat y + k"
    using assms unfolding in_block_def y_def[symmetric] by (subst unat_word_ariths(1)) simp
  then show ?thesis
    using assms by (simp add: y_def in_block_def)
qed

lemma read16_store: "writable d a \<Longrightarrow> writable d (a + 1) \<Longrightarrow> read16 (store_bytes d a [x, y] m) a = unat x + 256 * unat y"
  by (simp add: read16_def store_def)

lemma read16_other:
  "\<not> in_block b (length bs) a \<Longrightarrow> \<not> in_block b (length bs) (a + 1) \<Longrightarrow> read16 (store_bytes d b bs m) a = read16 m a"
  by (simp add: read16_def store_bytes_other)

text \<open>The thunk allocation is five paragraphs, the bounce buffer two kilobytes.\<close>

definition rx_layout :: "('h, 'x) dpmi_scheme \<Rightarrow> ('h, 'n) pkt \<Rightarrow> bool" where
  "rx_layout d s \<longleftrightarrow> \<not> ne2k_initialized (p_ne2k s) \<and> pk_thunk_seg s \<noteq> 0 \<and> pk_bounce_linear s \<noteq> 0
     \<and> length (rx_buf s) = PKTDRV_MAX_FRAME
     \<and> (\<forall>x. in_block (thunk_lin s) 0x50 x \<longrightarrow> writable d x \<and> \<not> in_block (pk_bounce_linear s) 2048 x)
     \<and> (\<forall>x. in_block (pk_bounce_linear s) 2048 x \<longrightarrow> writable d x)"

lemma rx_layout_word:
  assumes "rx_layout d s" "k < 0x4F"
  shows "writable d (thunk_lin s + of_nat k)" "writable d (thunk_lin s + of_nat k + 1)"
    and "n \<le> 2048 \<Longrightarrow> \<not> in_block (pk_bounce_linear s) n (thunk_lin s + of_nat k)"
    and "n \<le> 2048 \<Longrightarrow> \<not> in_block (pk_bounce_linear s) n (thunk_lin s + of_nat k + 1)"
proof -
  have 1: "in_block (thunk_lin s) 0x50 (thunk_lin s + of_nat k)"
    using in_block_offset[of k "0x50"] assms(2) by simp
  have 2: "in_block (thunk_lin s) 0x50 (thunk_lin s + of_nat k + 1)"
    using in_block_offset[of "Suc k" "0x50" "thunk_lin s"] assms(2) by (simp add: ac_simps)
  show "writable d (thunk_lin s + of_nat k)" "writable d (thunk_lin s + of_nat k + 1)"
    using assms(1) 1 2 by (auto simp: rx_layout_def)
  show "n \<le> 2048 \<Longrightarrow> \<not> in_block (pk_bounce_linear s) n (thunk_lin s + of_nat k)"
    "n \<le> 2048 \<Longrightarrow> \<not> in_block (pk_bounce_linear s) n (thunk_lin s + of_nat k + 1)"
    using assms(1) 1 2 in_block_mono[of "pk_bounce_linear s" n _ 2048] by (auto simp: rx_layout_def)
qed

text \<open>The pending and length words, and storing to one of them.\<close>

abbreviation pend_at :: "('h, 'n) pkt \<Rightarrow> u32" where "pend_at s \<equiv> thunk_lin s + 0x40"
abbreviation len_at :: "('h, 'n) pkt \<Rightarrow> u32" where "len_at s \<equiv> thunk_lin s + 0x42"

lemma pend_word:
  assumes "rx_layout d s"
  shows "writable d (pend_at s)" "writable d (pend_at s + 1)"
  using rx_layout_word[OF assms, where k = "0x40"] by simp_all

lemma len_word:
  assumes "rx_layout d s"
  shows "writable d (len_at s)" "writable d (len_at s + 1)"
    and "n \<le> 2048 \<Longrightarrow> \<not> in_block (pk_bounce_linear s) n (len_at s)"
    and "n \<le> 2048 \<Longrightarrow> \<not> in_block (pk_bounce_linear s) n (len_at s + 1)"
  using rx_layout_word[OF assms, where k = "0x42"] by simp_all

lemma store_pend_keeps:
  assumes "rx_layout d s"
  shows "read16 (store_bytes d (pend_at s) [x, y] m) (pend_at s) = unat x + 256 * unat y"
    and "read16 (store_bytes d (pend_at s) [x, y] m) (len_at s) = read16 m (len_at s)"
    and "n \<le> 2048 \<Longrightarrow> load_bytes (store_bytes d (pend_at s) [x, y] m) (pk_bounce_linear s) n = load_bytes m (pk_bounce_linear s) n"
proof -
  show "read16 (store_bytes d (pend_at s) [x, y] m) (pend_at s) = unat x + 256 * unat y"
    using pend_word[OF assms] by (intro read16_store)
  show "read16 (store_bytes d (pend_at s) [x, y] m) (len_at s) = read16 m (len_at s)"
    by (intro read16_other) (simp_all add: in_block_def)
  assume n: "n \<le> 2048"
  show "load_bytes (store_bytes d (pend_at s) [x, y] m) (pk_bounce_linear s) n = load_bytes m (pk_bounce_linear s) n"
  proof (intro load_bytes_cong store_bytes_other)
    fix z assume z: "in_block (pk_bounce_linear s) n z"
    show "\<not> in_block (pend_at s) (length [x, y]) z"
    proof
      assume "in_block (pend_at s) (length [x, y]) z"
      then have "in_block (thunk_lin s) 0x50 z"
        using in_block_sub[of "thunk_lin s" "0x40" "Suc (Suc 0)" z "0x50"] by simp
      with assms in_block_mono[OF z n] show False by (auto simp: rx_layout_def)
    qed
  qed (use n in simp)
qed

subsection \<open>The interrupt side\<close>

text \<open>
  What the packet driver does with an arriving frame, by the protocol it documents: ask the receiver
  for a buffer, copy the frame there, tell the receiver. With the stub of \<open>Rcv_Stub\<close> registered this
  writes the length word, the bounce buffer and the pending word, or nothing for a frame that is too long.
\<close>

definition irq_frame :: "('h, 'x) dpmi_scheme \<Rightarrow> bytes \<Rightarrow> ('h, 'n) pkt \<Rightarrow> ('h, 'n) pkt" where
  "irq_frame d f s =
     (if length f \<le> 1518
      then let len = (of_nat (length f) :: u16);
               m = store_bytes d (len_at s) [ucast len, ucast (drop_bit 8 len)] (p_mem s);
               m = store_bytes d (pk_bounce_linear s) f m;
               m = store_bytes d (pend_at s) [1, 0] m
           in s\<lparr>p_mem := m\<rparr>
      else s)"

lemma low_high_byte: "unat (ucast v :: byte) + 256 * unat (ucast (drop_bit 8 v) :: byte) = unat (v :: u16)"
proof -
  have "unat (ucast v :: byte) = unat v mod 256"
    by (simp add: unsigned_ucast_eq take_bit_eq_mod)
  moreover have "unat (drop_bit 8 v) = unat v div 256"
    by (simp add: drop_bit_eq_div unat_div)
  moreover have "unat v div 256 < 256"
    using unsigned_less[where w = v and 'a = nat] by (simp add: less_mult_imp_div_less)
  ultimately have "unat (ucast (drop_bit 8 v) :: byte) = unat v div 256"
    by (simp add: unsigned_ucast_eq take_bit_eq_mod)
  with \<open>unat (ucast v :: byte) = unat v mod 256\<close> show ?thesis by simp
qed

lemma irq_frame_memory:
  assumes "rx_layout d s" "length f \<le> 1518"
  shows "read16 (p_mem (irq_frame d f s)) (pend_at s) = 1"
    and "read16 (p_mem (irq_frame d f s)) (len_at s) = length f"
    and "load_bytes (p_mem (irq_frame d f s)) (pk_bounce_linear s) (length f) = f"
proof -
  let ?len = "of_nat (length f) :: u16"
  define m1 where "m1 = store_bytes d (len_at s) [ucast ?len, ucast (drop_bit 8 ?len)] (p_mem s)"
  define m2 where "m2 = store_bytes d (pk_bounce_linear s) f m1"
  have m: "p_mem (irq_frame d f s) = store_bytes d (pend_at s) [1, 0] m2"
    using assms(2) by (simp add: irq_frame_def Let_def m1_def m2_def)
  have len: "unat ?len = length f"
    using assms(2) by (simp add: unat_of_nat take_bit_nat_eq_self)
  have "read16 m1 (len_at s) = length f"
    unfolding m1_def using len_word[OF assms(1)] by (subst read16_store) (simp_all add: low_high_byte len)
  moreover have "read16 m2 (len_at s) = read16 m1 (len_at s)"
    unfolding m2_def using len_word(3,4)[OF assms(1), of "length f"] assms(2) by (intro read16_other) simp_all
  ultimately show "read16 (p_mem (irq_frame d f s)) (len_at s) = length f"
    unfolding m by (simp only: store_pend_keeps(2)[OF assms(1)])
  show "read16 (p_mem (irq_frame d f s)) (pend_at s) = 1"
    unfolding m store_pend_keeps(1)[OF assms(1)] by simp
  have "load_bytes m2 (pk_bounce_linear s) (length f) = f"
    unfolding m2_def using assms by (intro store_bytes_load) (auto simp: rx_layout_def in_block_def)
  then show "load_bytes (p_mem (irq_frame d f s)) (pk_bounce_linear s) (length f) = f"
    unfolding m using assms(2) by (subst store_pend_keeps(3)[OF assms(1)]) simp_all
qed

lemma irq_frame_layout:
  "rx_layout d (irq_frame d f s) = rx_layout d s" "thunk_lin (irq_frame d f s) = thunk_lin s"
  "pk_bounce_linear (irq_frame d f s) = pk_bounce_linear s" "rx_pending (irq_frame d f s) = rx_pending s"
  by (simp_all add: irq_frame_def Let_def rx_layout_def thunk_lin_def)

subsection \<open>Draining\<close>

text \<open>The frame waiting in the bounce buffer, if any.\<close>

definition waiting :: "('h, 'n) pkt \<Rightarrow> bytes list" where
  "waiting s =
     (let n = read16 (p_mem s) (len_at s)
      in if read16 (p_mem s) (pend_at s) = 0 \<or> n = 0 \<or> n > 1518 then []
         else [load_bytes (p_mem s) (pk_bounce_linear s) n])"

lemma waiting_irq:
  assumes "rx_layout d s"
  shows "waiting (irq_frame d f s) = (if length f > 1518 then waiting s else if f = [] then [] else [f])"
  using irq_frame_memory[OF assms, of f] unfolding waiting_def irq_frame_layout Let_def
  by (auto simp: irq_frame_def)

lemma recv_waiting:
  assumes "rx_layout d s" "\<not> rx_pending s" "pktdrv_recv d nic maxlen s = (out, t)"
  shows "(case waiting s of [] \<Rightarrow> out = [] | f # _ \<Rightarrow> out = take maxlen f)
    \<and> waiting t = [] \<and> rx_layout d t \<and> \<not> rx_pending t"
proof -
  let ?m = "p_mem s" and ?n = "read16 (p_mem s) (len_at s)"
  have lay: "\<not> ne2k_initialized (p_ne2k s)" "pk_thunk_seg s \<noteq> 0" "pk_bounce_linear s \<noteq> 0" "length (rx_buf s) = 1518"
    using assms(1) by (auto simp: rx_layout_def)
  have clr: "read16 (store_bytes d (pend_at s) [0, 0] ?m) (pend_at s) = 0"
    using store_pend_keeps(1)[OF assms(1), of 0 0 ?m] by simp
  consider "read16 ?m (pend_at s) = 0" | "read16 ?m (pend_at s) \<noteq> 0" "?n = 0 \<or> ?n > 1518"
    | "read16 ?m (pend_at s) \<noteq> 0" "?n \<noteq> 0" "?n \<le> 1518" by linarith
  then show ?thesis
  proof cases
    case 1
    then have "pktdrv_poll_rmstub d s = s" by (simp add: pktdrv_poll_rmstub_def Let_def)
    with 1 assms lay show ?thesis by (auto simp: pktdrv_recv_def waiting_def Let_def)
  next
    case 2
    then have p: "pktdrv_poll_rmstub d s = s\<lparr>p_mem := store_bytes d (pend_at s) [0, 0] ?m\<rparr>"
      using lay assms(2) by (auto simp only: pktdrv_poll_rmstub_def Let_def if_True if_False simp_thms)
    then have "t = s\<lparr>p_mem := store_bytes d (pend_at s) [0, 0] ?m\<rparr>" "out = []"
      using assms(2,3) lay by (simp_all only: pktdrv_recv_def Let_def p) auto
    with 2 clr assms(1,2) show ?thesis
      by (auto simp: waiting_def Let_def thunk_lin_def rx_layout_def simp del: store_bytes.simps)
  next
    case 3
    let ?f = "load_bytes ?m (pk_bounce_linear s) ?n"
    have p: "pktdrv_poll_rmstub d s = s\<lparr>rx_buf := ?f @ drop ?n (rx_buf s), rx_len := ?n,
        p_mem := store_bytes d (pend_at s) [0, 0] ?m, rx_pending := True\<rparr>"
      using 3 lay assms(2) by (simp add: pktdrv_poll_rmstub_def copy_to_rx_def Let_def del: store_bytes.simps)
    have o: "out = take maxlen ?f" and t: "t = s\<lparr>rx_buf := ?f @ drop ?n (rx_buf s), rx_len := 0,
        p_mem := store_bytes d (pend_at s) [0, 0] ?m, rx_pending := False\<rparr>"
      using assms(3) lay(1) 3 by (auto simp: pktdrv_recv_def Let_def p simp del: store_bytes.simps)
    show ?thesis
      using 3 clr assms(1) o lay(4)
      by (auto simp: t waiting_def Let_def thunk_lin_def rx_layout_def simp del: store_bytes.simps)
  qed
qed

text \<open>What the stub takes and the poll hands out.\<close>

definition acceptable :: "bytes \<Rightarrow> bool" where
  "acceptable f \<longleftrightarrow> f \<noteq> [] \<and> length f \<le> 1518"

subsection \<open>Initialisation keeps the detected interrupt\<close>

definition same_driver :: "('h, 'n) pkt \<Rightarrow> ('h, 'n) pkt \<Rightarrow> bool" where
  "same_driver s t \<longleftrightarrow> int_num t = int_num s \<and> p_ne2k t = p_ne2k s"

lemma same_driver_trans: "same_driver s t \<Longrightarrow> same_driver t u \<Longrightarrow> same_driver s u"
  by (simp add: same_driver_def)

lemma driver_calls_keep:
  "same_driver s (snd (pktdrv_alloc_bounce s))"
  "same_driver s (snd (pktdrv_alloc_thunk d s))"
  "same_driver s (snd (snd (pktdrv_call_int60_thunk d rm s)))"
  "same_driver s (snd (snd (int60 hst rm s)))"
  "same_driver s (snd (pktdrv_alloc_dpmi_callback hst s))"
  by (auto simp: same_driver_def pktdrv_alloc_bounce_def pktdrv_alloc_thunk_def pktdrv_call_int60_thunk_def int60_def
      pktdrv_alloc_dpmi_callback_def Let_def split_beta)

lemmas driver_calls_keep_fields [simp] = driver_calls_keep[unfolded same_driver_def]

lemma driver_steps_keep:
  "same_driver s (snd (choose_receiver d s))"
  "same_driver s (release_all d s)"
  "same_driver s (set_rcv_mode d s)"
  "same_driver s (pktdrv_register_polling_rx d s)"
  "same_driver s (snd (pktdrv_get_addr d s))"
  "same_driver s (snd (pktdrv_access_one d r off s))"
  by (simp_all add: same_driver_def choose_receiver_def release_all_def set_rcv_mode_def
      pktdrv_register_polling_rx_def pktdrv_get_addr_def pktdrv_access_one_def Let_def split_beta)

lemmas driver_steps_keep_fields [simp] = driver_steps_keep[unfolded same_driver_def]

lemma access_keeps: "same_driver s (snd (pktdrv_access d r s))"
  by (simp add: same_driver_def pktdrv_access_def Let_def split_beta)

lemma detect_loop_result:
  "p_ne2k (snd (detect_loop d is s)) = p_ne2k s
   \<and> (fst (detect_loop d is s) = 0 \<and> int_num (snd (detect_loop d is s)) = int_num s
      \<or> fst (detect_loop d is s) \<in> int ` set is \<and> int_num (snd (detect_loop d is s)) = fst (detect_loop d is s))"
proof (induction "is" arbitrary: s)
  case (Cons i "is")
  have k: "same_driver s (snd (pktdrv_probe_slot d (of_nat i) s))"
    by (auto simp: same_driver_def pktdrv_probe_slot_def pktdrv_simulate_real_int_def Let_def split_beta)
  show ?case
    using Cons.IH[of "snd (pktdrv_probe_slot d (of_nat i) s)"] k
    by (auto simp: same_driver_def Let_def split_beta)
qed simp

lemma crynwr_init_result:
  assumes "int_num s = 0"
  shows "p_ne2k (snd (crynwr_init d s)) = p_ne2k s
    \<and> (if fst (fst (crynwr_init d s)) = 0 then int_num (snd (crynwr_init d s)) \<in> {0x60..<0x80}
       else fst (fst (crynwr_init d s)) \<in> {-1, -2, -3} \<and> int_num (snd (crynwr_init d s)) = 0)"
proof -
  obtain n s1 where det: "pktdrv_detect d s = (n, s1)" by (cases "pktdrv_detect d s")
  have s1: "p_ne2k s1 = p_ne2k s" "n = 0 \<and> int_num s1 = 0 \<or> n \<in> {0x60..<0x80} \<and> int_num s1 = n"
    using detect_loop_result[of d "[0x60..<0x80]" s] det assms by (auto simp: pktdrv_detect_def)
  define s2 where "s2 = snd (pktdrv_alloc_bounce s1)"
  define s3 where "s3 = snd (pktdrv_alloc_thunk d s2)"
  define s4 where "s4 = snd (choose_receiver d s3)"
  define s5 where "s5 = release_all d s4"
  define s6 where "s6 = snd (pktdrv_access d (fst (choose_receiver d s3)) s5)"
  define s7 where "s7 = set_rcv_mode d s6"
  define s8 where "s8 = snd (pktdrv_get_addr d s7)"
  define s9 where "s9 = pktdrv_register_polling_rx d s8"
  have k6: "same_driver s1 s6"
    unfolding s2_def s3_def s4_def s5_def s6_def
    by (meson driver_calls_keep driver_steps_keep access_keeps same_driver_trans)
  then have k9: "same_driver s1 s9" and k8: "same_driver s1 s8"
    unfolding s7_def s8_def s9_def by (meson driver_steps_keep same_driver_trans)+
  have "crynwr_init d s = (if n = 0 then ((-1, []), s1)
      else if fst (pktdrv_access d (fst (choose_receiver d s3)) s5) \<noteq> 0 then ((-2, []), s6\<lparr>int_num := 0\<rparr>)
      else if fst (fst (pktdrv_get_addr d s7)) \<noteq> 0 then ((-3, []), s8\<lparr>int_num := 0\<rparr>)
      else ((0, snd (fst (pktdrv_get_addr d s7))), s9))"
    by (simp add: crynwr_init_def det Let_def split_beta s2_def s3_def s4_def s5_def s6_def s7_def s8_def s9_def)
  with s1 k6 k8 k9 show ?thesis by (auto simp: same_driver_def)
qed

subsection \<open>The thunk paragraphs as a code segment\<close>

text \<open>What the processor sees through \<open>CS\<close> when the code segment starts at \<open>lin\<close>.\<close>

definition seg_view :: "mem \<Rightarrow> u32 \<Rightarrow> u16 \<Rightarrow> byte" where
  "seg_view m lin ofs = m (lin + ucast ofs)"

lemma load_bytes_at:
  assumes "load_bytes m a n = bs" "i < n"
  shows "m (a + of_nat i) = bs ! i"
  using load_bytes_nth[OF assms(2), of m a] assms(1) by simp

lemma store_bytes_keep:
  assumes "\<And>x. in_block a n x \<Longrightarrow> \<not> in_block b (length bs) x" "n \<le> 2 ^ 32 - 1"
  shows "load_bytes (store_bytes d b bs m) a n = load_bytes m a n"
  using assms by (intro load_bytes_cong store_bytes_other) auto

text \<open>Two pieces of one small block at different offsets do not meet.\<close>

lemma in_block_apart:
  assumes "i + n \<le> j \<or> j + k \<le> i" "i + n \<le> 256" "j + k \<le> 256" "in_block (a + of_nat i) n x"
  shows "\<not> in_block (a + of_nat j) k (x :: u32)"
proof
  assume jk: "in_block (a + of_nat j) k x"
  have *: "\<exists>y. x = a + of_nat y \<and> i' \<le> y \<and> y < i' + n'" if "in_block (a + of_nat i') n' x" "i' + n' \<le> 256" for i' n'
  proof (intro exI conjI)
    show "x = a + of_nat (i' + unat (x - (a + of_nat i')))" by simp
  qed (use that in \<open>auto simp: in_block_def\<close>)
  obtain y z where y: "x = a + of_nat y" "i \<le> y" "y < i + n" and z: "x = a + of_nat z" "j \<le> z" "z < j + k"
    using *[OF assms(4,2)] *[OF jk assms(3)] by blast
  have "unat (of_nat v :: u32) = v" if "v < 256" for v
    using that by (simp add: unat_of_nat take_bit_nat_eq_self)
  then have "y = z" using y z assms(2,3) by (metis add_left_cancel order_less_le_trans)
  then show False using y z assms(1) by linarith
qed

lemma store_bytes_apart:
  assumes "i + n \<le> j \<or> j + length bs \<le> i" "i + n \<le> 256" "j + length bs \<le> 256"
  shows "load_bytes (store_bytes d (a + of_nat j) bs m) (a + of_nat i) n = load_bytes m (a + of_nat i) n"
  using in_block_apart[OF assms] assms(2) by (intro store_bytes_keep) auto

lemma store_bytes_at:
  assumes "j + length bs \<le> 0x50" "\<forall>x. in_block a 0x50 x \<longrightarrow> writable d x"
  shows "load_bytes (store_bytes d (a + of_nat j) bs m) (a + of_nat j) (length bs) = bs"
  using assms in_block_sub[of a j "length bs" _ "0x50"] by (intro store_bytes_load) auto

lemma length_thunk_pieces [simp]:
  "length thunk_head = 3" "length type_patterns = 12" "length rcv_code = 47" "length (stub_vars seg) = 6"
  by (simp_all add: thunk_head_def type_patterns_def rcv_code_def stub_vars_def)

definition thunk_image :: "('h, 'x) dpmi_scheme \<Rightarrow> u32 \<Rightarrow> u32 \<Rightarrow> mem \<Rightarrow> mem" where
  "thunk_image d lin seg m =
     store_bytes d (lin + 0x40) (stub_vars seg) (store_bytes d (lin + 0x10) rcv_code
       (store_bytes d (lin + 4) type_patterns (store_bytes d lin thunk_head m)))"

lemma thunk_image_pieces:
  assumes "\<forall>x. in_block lin 0x50 x \<longrightarrow> writable d x"
  shows "load_bytes (thunk_image d lin seg m) lin 3 = thunk_head"
    and "load_bytes (thunk_image d lin seg m) (lin + 4) 12 = type_patterns"
    and "load_bytes (thunk_image d lin seg m) (lin + 0x10) 47 = rcv_code"
    and "load_bytes (thunk_image d lin seg m) (lin + 0x40) 6 = stub_vars seg"
proof -
  note at = store_bytes_at[OF _ assms]
  note apart = store_bytes_apart[of _ _ _ _ d lin]
  define m1 where "m1 = store_bytes d lin thunk_head m"
  define m2 where "m2 = store_bytes d (lin + 4) type_patterns m1"
  define m3 where "m3 = store_bytes d (lin + 0x10) rcv_code m2"
  have im: "thunk_image d lin seg m = store_bytes d (lin + 0x40) (stub_vars seg) m3"
    by (simp add: thunk_image_def m1_def m2_def m3_def)
  show "load_bytes (thunk_image d lin seg m) (lin + 0x40) 6 = stub_vars seg"
    unfolding im using at[of "0x40" "stub_vars seg" m3] by simp
  have "load_bytes m3 (lin + 0x10) 47 = rcv_code"
    unfolding m3_def using at[of "0x10" rcv_code m2] by simp
  then show "load_bytes (thunk_image d lin seg m) (lin + 0x10) 47 = rcv_code"
    unfolding im using apart[of "0x10" 47 "0x40" "stub_vars seg" m3] by simp
  have "load_bytes m3 (lin + 4) 12 = type_patterns"
    unfolding m3_def using apart[of 4 12 "0x10" rcv_code m2] at[of 4 type_patterns m1] by (simp add: m2_def)
  then show "load_bytes (thunk_image d lin seg m) (lin + 4) 12 = type_patterns"
    unfolding im using apart[of 4 12 "0x40" "stub_vars seg" m3] by simp
  have "load_bytes m2 lin 3 = thunk_head"
    unfolding m2_def using apart[of 0 3 4 type_patterns m1] at[of 0 thunk_head m] by (simp add: m1_def)
  then have "load_bytes m3 lin 3 = thunk_head"
    unfolding m3_def using apart[of 0 3 "0x10" rcv_code m2] by simp
  then show "load_bytes (thunk_image d lin seg m) lin 3 = thunk_head"
    unfolding im using apart[of 0 3 "0x40" "stub_vars seg" m3] by simp
qed

lemma stub_loaded_view:
  assumes "load_bytes m (lin + 0x10) 47 = rcv_code"
  shows "stub_loaded (seg_view m lin)"
proof -
  have "(ucast (0x10 + of_nat i :: u16) :: u32) = 0x10 + of_nat i" if "i < 47" for i :: nat
  proof -
    have "unat (0x10 + of_nat i :: u16) = 0x10 + i" "unat (0x10 + of_nat i :: u32) = 0x10 + i"
      using that by (simp_all add: unat_word_ariths unat_of_nat)
    then show ?thesis using that by (simp add: word_unat_eq_iff unsigned_ucast_eq take_bit_nat_eq_self)
  qed
  with load_bytes_at[OF assms] show ?thesis
    by (simp add: stub_loaded_def seg_view_def add.assoc)
qed

lemma unat_widen: "unat (ucast (v :: u16) :: u32) = unat v"
  using unsigned_less[where w = v and 'a = nat] by (simp add: unsigned_ucast_eq take_bit_nat_eq_self)

lemma widen_inj: "(ucast (v :: u16) :: u32) = ucast w \<longleftrightarrow> v = w"
  by (simp add: word_unat_eq_iff unat_widen)

text \<open>Storing a word at a small offset, seen through the segment.\<close>

lemma seg_view_store:
  assumes "writable d (lin + ucast ofs)" "writable d (lin + ucast ofs + 1)" "unat ofs < 0x50"
  shows "seg_view (store_bytes d (lin + ucast ofs) [ucast v, ucast (drop_bit 8 v)] m) lin = store16 ofs v (seg_view m lin)"
proof
  fix x :: u16
  have "unat (ofs + 1) = unat ofs + 1" "unat (ucast ofs + 1 :: u32) = unat ofs + 1"
    using assms(3) by (simp_all add: unat_word_ariths unat_widen)
  then have "(ucast (ofs + 1) :: u32) = ucast ofs + 1"
    by (simp add: word_unat_eq_iff unat_widen)
  then have "(ucast x :: u32) = ucast ofs + 1 \<longleftrightarrow> x = ofs + 1"
    by (metis widen_inj)
  with assms(1,2) show "seg_view (store_bytes d (lin + ucast ofs) [ucast v, ucast (drop_bit 8 v)] m) lin x
      = store16 ofs v (seg_view m lin) x"
    by (auto simp: seg_view_def store16_def store_def widen_inj add.assoc)
qed

lemma seg_bytes:
  "(ucast (ucast (v AND 0xFF) :: byte) :: u16) + 256 * ucast (ucast (drop_bit 8 v AND 0xFF) :: byte) = ucast (v :: u32)"
proof -
  have "unat (ucast w :: byte) = unat w mod 256" for w :: u32
    by (simp add: unsigned_ucast_eq take_bit_eq_mod)
  then have "unat (ucast (ucast w :: byte) :: u16) = unat w mod 256" for w :: u32
    by (subst unsigned_ucast_eq) (simp add: take_bit_nat_eq_self)
  then have lo: "unat (ucast (ucast v :: byte) :: u16) = unat v mod 256"
    and hi: "unat (ucast (ucast (drop_bit 8 v) :: byte) :: u16) = unat v div 256 mod 256"
    by (simp_all add: drop_bit_eq_div unat_div)
  have sum: "unat v mod 65536 = unat v mod 256 + 256 * (unat v div 256 mod 256)"
    using mod_mult2_eq[of "unat v" 256 256] by simp
  then have "unat v mod 256 + 256 * (unat v div 256 mod 256) < 65536" by (metis mod_less_divisor zero_less_numeral)
  then have "unat (ucast (ucast v :: byte) + 256 * ucast (ucast (drop_bit 8 v) :: byte) :: u16)
      = unat v mod 256 + 256 * (unat v div 256 mod 256)"
    unfolding unat_word_ariths lo hi by simp
  then show ?thesis
    by (simp only: low_byte_mask word_unat_eq_iff sum[symmetric]) (simp add: unsigned_ucast_eq take_bit_eq_mod)
qed

lemma read16_load: "load_bytes m a 2 = [x, y] \<Longrightarrow> read16 m a = unat x + 256 * unat y"
  by (auto simp: read16_def numeral_2_eq_2)

lemma bounce_store_stub_loaded:
  assumes "rx_layout d s" "length f \<le> 1518" "stub_loaded (seg_view m (thunk_lin s))"
  shows "stub_loaded (seg_view (store_bytes d (pk_bounce_linear s) f m) (thunk_lin s))"
proof -
  have "store_bytes d (pk_bounce_linear s) f m (thunk_lin s + ucast (0x10 + of_nat i :: u16))
      = m (thunk_lin s + ucast (0x10 + of_nat i :: u16))" if "i < 47" for i
  proof (rule store_bytes_other)
    have "unat (ucast (0x10 + of_nat i :: u16) :: u32) = 0x10 + i"
      using that unfolding unat_widen by (simp add: unat_word_ariths unat_of_nat)
    then have "in_block (thunk_lin s) 0x50 (thunk_lin s + ucast (0x10 + of_nat i :: u16))"
      using that by (simp add: in_block_def)
    then show "\<not> in_block (pk_bounce_linear s) (length f) (thunk_lin s + ucast (0x10 + of_nat i :: u16))"
      using assms(1,2) in_block_mono[of "pk_bounce_linear s" "length f" _ 2048] by (auto simp: rx_layout_def)
  qed
  with assms(3) show ?thesis by (simp add: stub_loaded_def seg_view_def)
qed

lemma ne2k_init_result:
  assumes "\<not> ne2k_initialized st"
  shows "ne2k_initialized (snd (ne2k_init_direct nic st)) \<longleftrightarrow> fst (fst (ne2k_init_direct nic st)) = 0"
  using assms by (auto simp: ne2k_init_direct_def Let_def split_beta)

subsection \<open>A machine for the witnesses\<close>

definition demo_host :: "unit pkt_host" where
  "demo_host = \<lparr>writable = (\<lambda>_. True), int_invoke = (\<lambda>_ r h. (True, r, h)), rm_call = (\<lambda>r m h. (True, r, m, h)),
     ds_selector = 0, sim_rm_int = (\<lambda>_ r m h. (True, r, m, h)), bare_int = (\<lambda>_ r _ h. (True, r, [], h)),
     addr_rx_buf = 0x400000, addr_rx_pending = 0x400800, addr_rx_len = 0x400804, addr_rmcs = 0x400808,
     addr_dpmi_thunk = 0x410000, addr_receiver = 0x410100\<rparr>"

definition demo_pkt :: "(unit, unit) pkt" where
  "demo_pkt = \<lparr>p_mem = (\<lambda>_. 0), p_host = (), p_ne2k = \<lparr>n_dev = (), ne2k_initialized = False, ne2k_mac = []\<rparr>,
     int_num = 0, handle = -1, handle_arp = -1, mac_cache = replicate 6 0, rx_buf = replicate 1518 0,
     rx_pending = False, rx_len = 0, p_rmcs = rmcs0, dpmi_seg = 0, dpmi_off = 0, thunk_invocations = 0,
     thunk_phase0_count = 0, thunk_phase1_count = 0, last_handle = 0, pk_bounce_seg = 0, pk_bounce_linear = 0,
     pk_thunk_seg = 0, prealloc_bounce_seg = 0x3000, prealloc_bounce_linear = 0x30000, prealloc_thunk_seg = 0x2000\<rparr>"

text \<open>The same machine once the bounce buffer and the thunk are in place.\<close>

definition demo_ready :: "(unit, unit) pkt" where
  "demo_ready = demo_pkt\<lparr>p_mem := thunk_image demo_host 0x20000 0x3000 (\<lambda>_. 0), pk_bounce_seg := 0x3000,
     pk_bounce_linear := 0x30000, pk_thunk_seg := 0x2000\<rparr>"

lemma demo_apart: "in_block 0x20000 0x50 x \<Longrightarrow> \<not> in_block 0x30000 2048 x"
proof -
  assume "in_block 0x20000 0x50 x"
  then have k: "unat (x - 0x20000) < 0x50" by (simp add: in_block_def)
  define y where "y = x - 0x20000"
  have "x - 0x30000 = y + 0xFFFF0000" by (simp add: y_def)
  then have "unat (x - 0x30000) = unat y + 0xFFFF0000"
    using k unfolding y_def[symmetric] by (simp only:) (simp add: unat_word_ariths(1))
  then show ?thesis by (simp add: in_block_def)
qed

lemma demo_ready_layout: "rx_layout demo_host demo_ready"
  using demo_apart
  by (simp add: rx_layout_def demo_ready_def demo_pkt_def demo_host_def thunk_lin_def)

lemma demo_ready_slots:
  "\<not> rx_pending demo_ready" "waiting demo_ready = []" "stub_loaded (seg_view (p_mem demo_ready) (thunk_lin demo_ready))"
proof -
  have lin: "thunk_lin demo_ready = 0x20000"
    by (simp add: thunk_lin_def demo_ready_def demo_pkt_def)
  have "\<forall>x. in_block 0x20000 0x50 x \<longrightarrow> writable demo_host x" by (simp add: demo_host_def)
  note im = thunk_image_pieces[OF this, of "0x3000" "\<lambda>_. 0"]
  have m: "p_mem demo_ready = thunk_image demo_host 0x20000 0x3000 (\<lambda>_. 0)"
    by (simp add: demo_ready_def)
  have "p_mem demo_ready 0x20040 = 0" "p_mem demo_ready 0x20041 = 0"
    using load_bytes_at[OF im(4), of 0] load_bytes_at[OF im(4), of 1] by (simp_all add: m stub_vars_def)
  then show "waiting demo_ready = []" by (simp add: waiting_def Let_def read16_def lin)
  show "stub_loaded (seg_view (p_mem demo_ready) (thunk_lin demo_ready))"
    using stub_loaded_view[OF im(3)] by (simp add: m lin)
qed (simp add: demo_ready_def demo_pkt_def)

section \<open>Properties\<close>

text \<open>
  \<open>pktdrv_recv\<close> returns the frame that arrived last, complete up to \<open>maxlen\<close>, and the slot is then
  empty: the next call returns nothing.
\<close>

theorem recv_latest_frame:
  assumes "rx_layout d s" "\<not> rx_pending s" "f \<noteq> []" "length f \<le> 1518"
  shows "case pktdrv_recv d nic maxlen (irq_frame d f s) of (out, t) \<Rightarrow>
    out = take maxlen f \<and> fst (pktdrv_recv d nic maxlen t) = []"
proof -
  obtain out t where r: "pktdrv_recv d nic maxlen (irq_frame d f s) = (out, t)" by fastforce
  have w: "waiting (irq_frame d f s) = [f]" using waiting_irq[OF assms(1)] assms(3,4) by simp
  note 1 = recv_waiting[OF _ _ r, unfolded irq_frame_layout w, OF assms(1,2)]
  obtain out' u where r': "pktdrv_recv d nic maxlen t = (out', u)" by fastforce
  have "out' = []" using 1 recv_waiting[OF _ _ r'] by simp
  with 1 r r' show ?thesis by simp
qed

theorem recv_latest_frame_witness:
  "fst (pktdrv_recv demo_host (const_nic 0) 1514 (irq_frame demo_host [1, 2, 3] demo_ready)) = [1, 2, 3]"
  using recv_latest_frame[OF demo_ready_layout demo_ready_slots(1), where f = "[1, 2, 3]" and nic = "const_nic 0" and maxlen = 1514]
  by (simp add: split_beta)

text \<open>
  C18. The interrupt step used above is what the machine code does. With the stub loaded, the call that
  asks for a buffer leaves the code segment as the length store does and answers with the bounce
  segment, and the call that reports the frame, made on the memory with the frame copied, leaves the
  code segment as the whole step does; for a frame that is too long the stub answers \<open>0:0\<close> and nothing
  is stored.
\<close>

theorem irq_frame_is_stub:
  assumes "rx_layout d s" "stub_loaded (seg_view (p_mem s) (thunk_lin s))" "length f < 2 ^ 16"
  shows "\<exists>c. stub_call (seg_view (p_mem s) (thunk_lin s)) 0 (of_nat (length f)) 0 0 = Some c \<and> r_di c = 0 \<and>
    (if length f \<le> 1518
     then r_es c = fetch16 (seg_view (p_mem s) (thunk_lin s)) 0x44 \<and>
       (\<exists>m1 c1. seg_view m1 (thunk_lin s) = cs_mem c \<and>
          stub_call (seg_view (store_bytes d (pk_bounce_linear s) f m1) (thunk_lin s)) 1 (of_nat (length f)) (r_es c) (r_di c) = Some c1 \<and>
          cs_mem c1 = seg_view (p_mem (irq_frame d f s)) (thunk_lin s))
     else r_es c = 0 \<and> cs_mem c = seg_view (p_mem s) (thunk_lin s) \<and> irq_frame d f s = s)"
proof -
  let ?len = "of_nat (length f) :: u16"
  let ?v = "seg_view (p_mem s) (thunk_lin s)"
  have len: "unat ?len = length f"
    using assms(3) by (simp add: unat_of_nat take_bit_nat_eq_self)
  show ?thesis
  proof (cases "length f \<le> 1518")
    case True
    then have le: "?len \<le> 1518" using len by (simp add: word_le_nat_alt)
    obtain c where c: "stub_call ?v 0 ?len 0 0 = Some c" "cs_mem c = store16 0x42 ?len ?v"
        "r_es c = fetch16 ?v 0x44" "r_di c = 0"
      using stub_phase0_take[OF assms(2) le, of 0 0] by blast
    define m1 where "m1 = store_bytes d (len_at s) [ucast ?len, ucast (drop_bit 8 ?len)] (p_mem s)"
    define m2 where "m2 = store_bytes d (pk_bounce_linear s) f m1"
    have v1: "seg_view m1 (thunk_lin s) = cs_mem c"
      unfolding m1_def c(2) using seg_view_store[of d "thunk_lin s" "0x42" ?len "p_mem s"] len_word[OF assms(1)] by simp
    then have l2: "stub_loaded (seg_view m2 (thunk_lin s))"
      unfolding m2_def using bounce_store_stub_loaded[OF assms(1) True] store16_stub_loaded[OF assms(2), of "0x42"] c(2) by simp
    obtain c1 where c1: "stub_call (seg_view m2 (thunk_lin s)) 1 ?len (r_es c) (r_di c) = Some c1"
        "cs_mem c1 = store16 0x40 1 (seg_view m2 (thunk_lin s))"
      using stub_phase1[OF l2, of 1] by (metis zero_neq_one)
    have "p_mem (irq_frame d f s) = store_bytes d (pend_at s) [1, 0] m2"
      using True by (simp add: irq_frame_def Let_def m1_def m2_def)
    then have "cs_mem c1 = seg_view (p_mem (irq_frame d f s)) (thunk_lin s)"
      using seg_view_store[of d "thunk_lin s" "0x40" 1 m2] pend_word[OF assms(1)] c1(2) by simp
    with True c v1 c1(1) show ?thesis by (auto simp: m2_def)
  next
    case False
    then have "1518 < ?len" using len by (simp add: word_less_nat_alt)
    from stub_phase0_drop[OF assms(2) this, of 0 0] False show ?thesis
      by (auto simp: irq_frame_def)
  qed
qed

theorem irq_frame_is_stub_witness:
  "\<exists>c. stub_call (seg_view (p_mem demo_ready) (thunk_lin demo_ready)) 0 3 0 0 = Some c \<and> r_di c = 0"
  using irq_frame_is_stub[OF demo_ready_layout demo_ready_slots(3), of "[1, 2, 3]"] by auto

text \<open>
  Preparing the thunk paragraphs puts the call stub, the two registered Ethernet types (at the
  offsets 4 and 6 that \<open>pktdrv_access\<close> names) and the receiver code in place, none overwriting another,
  with no frame pending and the bounce segment where the receiver reads it.
\<close>

theorem thunk_ready:
  assumes "pk_thunk_seg s = 0" "prealloc_thunk_seg s \<noteq> 0"
    and "\<forall>x. in_block (push_bit 4 (prealloc_thunk_seg s)) 0x50 x \<longrightarrow> writable d x"
  shows "case pktdrv_alloc_thunk d s of (rc, t) \<Rightarrow>
    rc = 0 \<and> pk_thunk_seg t = prealloc_thunk_seg s
    \<and> load_bytes (p_mem t) (thunk_lin t) 3 = [0xCD, 0x60, 0xCB]
    \<and> load_bytes (p_mem t) (thunk_lin t + 4) 2 = [0x08, 0x06]
    \<and> load_bytes (p_mem t) (thunk_lin t + 6) 2 = [0x08, 0x00]
    \<and> stub_loaded (seg_view (p_mem t) (thunk_lin t))
    \<and> read16 (p_mem t) (pend_at t) = 0
    \<and> fetch16 (seg_view (p_mem t) (thunk_lin t)) 0x44 = ucast (pk_bounce_seg s)"
proof -
  let ?lin = "push_bit 4 (prealloc_thunk_seg s)"
  define m where "m = thunk_image d ?lin (pk_bounce_seg s) (p_mem s)"
  note im = thunk_image_pieces[OF assms(3), of "pk_bounce_seg s" "p_mem s", folded m_def]
  have a: "pktdrv_alloc_thunk d s = (0, s\<lparr>p_mem := m, pk_thunk_seg := prealloc_thunk_seg s\<rparr>)"
    using assms(1,2) by (simp add: pktdrv_alloc_thunk_def m_def thunk_image_def Let_def)
  have ty: "m (?lin + 4) = 0x08" "m (?lin + 5) = 0x06" "m (?lin + 6) = 0x08" "m (?lin + 7) = 0x00"
    using load_bytes_at[OF im(2), of 0] load_bytes_at[OF im(2), of 1] load_bytes_at[OF im(2), of 2]
      load_bytes_at[OF im(2), of 3] by (simp_all add: type_patterns_def add.assoc)
  have vars: "m (?lin + 0x40) = 0" "m (?lin + 0x41) = 0" "m (?lin + 0x44) = ucast (pk_bounce_seg s AND 0xFF)"
      "m (?lin + 0x45) = ucast (drop_bit 8 (pk_bounce_seg s) AND 0xFF)"
    using load_bytes_at[OF im(4), of 0] load_bytes_at[OF im(4), of 1] load_bytes_at[OF im(4), of 4]
      load_bytes_at[OF im(4), of 5] by (simp_all add: stub_vars_def add.assoc)
  have "fetch16 (seg_view m ?lin) 0x44 = ucast (pk_bounce_seg s)"
    by (simp add: fetch16_def seg_view_def vars seg_bytes)
  with im(1) stub_loaded_view[OF im(3)] ty vars show ?thesis
    by (simp add: a thunk_lin_def thunk_head_def read16_def numeral_2_eq_2 add.assoc)
qed

theorem thunk_ready_witness:
  "case pktdrv_alloc_thunk demo_host demo_pkt of (rc, t) \<Rightarrow> rc = 0 \<and> stub_loaded (seg_view (p_mem t) (thunk_lin t))"
  using thunk_ready[of demo_pkt demo_host] by (simp add: demo_pkt_def demo_host_def split_beta)

text \<open>
  \<open>pktdrv_recv\<close> never stores more than the caller's buffer holds, on either driver and whatever the
  card, the packet driver or the stub report.
\<close>

theorem recv_bounded: "length (fst (pktdrv_recv d nic maxlen s)) \<le> maxlen"
proof (cases "ne2k_initialized (p_ne2k s)")
  case True
  then show ?thesis
    using poll_rx_copy[where d = nic and maxlen = maxlen and st = "p_ne2k s"]
    by (auto simp: pktdrv_recv_def Let_def split_beta)
next
  case False
  then show ?thesis by (auto simp: pktdrv_recv_def Let_def)
qed

text \<open>
  A first initialisation returns 0, \<open>-1\<close> (no driver found), \<open>-2\<close> (registration refused) or \<open>-3\<close> (no
  hardware address), and the driver is active afterwards exactly when it returned 0.
\<close>

theorem init_active:
  assumes "int_num s = 0" "\<not> ne2k_initialized (p_ne2k s)"
  shows "case pktdrv_init d nic s of ((r, mac), t) \<Rightarrow> r \<in> {0, -1, -2, -3} \<and> (pktdrv_is_active t \<longleftrightarrow> r = 0)"
proof -
  define st where "st = snd (ne2k_init_direct nic (p_ne2k s))"
  have p: "pktdrv_init d nic s = (if ne2k_initialized st
      then ((0, snd (fst (ne2k_init_direct nic (p_ne2k s)))), s\<lparr>p_ne2k := st, int_num := -1\<rparr>)
      else crynwr_init d (s\<lparr>p_ne2k := st\<rparr>))"
    by (simp add: pktdrv_init_def Let_def split_beta ne2k_init_result[OF assms(2)] st_def)
  show ?thesis
  proof (cases "ne2k_initialized st")
    case True
    then show ?thesis by (simp add: p pktdrv_is_active_def)
  next
    case False
    then show ?thesis
      using crynwr_init_result[of "s\<lparr>p_ne2k := st\<rparr>" d] assms(1)
      by (auto simp: p pktdrv_is_active_def split_beta split: if_splits)
  qed
qed

theorem init_active_witness:
  "case pktdrv_init demo_host (const_nic 0) demo_pkt of ((r, mac), t) \<Rightarrow> r \<in> {0, -1, -2, -3} \<and> (pktdrv_is_active t \<longleftrightarrow> r = 0)"
  by (rule init_active) (simp_all add: demo_pkt_def)

end
