(* ===== verification/Net_Glue.thy ===== *)
theory Net_Glue
  imports Prelude
begin

text \<open>
  The network glue: the lwIP port of \<open>lwip_uc386dos.c\<close> (initialisation, sending a frame, draining the
  receive queue, bringing the interface up) and the \<open>uc386_net\<close> module of \<open>uc386_net_uc386dos.c\<close>
  (addresses as dotted quads, status).

  The interface has a state of its own, \<open>eth\<close>. lwIP, the simulator driver behind INT 0x83 and the entry
  points of the packet driver are functions of the record \<open>net_env\<close> over a world \<open>'w\<close>; a frame received
  is the list of its bytes, empty for none. Progress messages on the console are left out.
\<close>

section \<open>Definitions\<close>

record 'w net_env =
  pktdrv_is_active :: "'w \<Rightarrow> bool"
  pktdrv_init :: "'w \<Rightarrow> int \<times> bytes \<times> 'w"
  pktdrv_send :: "bytes \<Rightarrow> 'w \<Rightarrow> (int \<times> 'w) option"
  pktdrv_recv :: "nat \<Rightarrow> 'w \<Rightarrow> bytes \<times> 'w"
  ethdrv_init :: "'w \<Rightarrow> int \<times> bytes \<times> 'w"
  ethdrv_send :: "bytes \<Rightarrow> 'w \<Rightarrow> int \<times> 'w"
  ethdrv_recv :: "nat \<Rightarrow> 'w \<Rightarrow> bytes \<times> 'w"
  netif_list_empty :: "'w \<Rightarrow> bool"
  lwip_init :: "'w \<Rightarrow> 'w"
  netif_add :: "'w \<Rightarrow> bool \<times> 'w"
  netif_input :: "bytes \<Rightarrow> 'w \<Rightarrow> bool \<times> 'w"
  pbuf_alloc :: "nat \<Rightarrow> 'w \<Rightarrow> bool \<times> 'w"
  dhcp_start :: "'w \<Rightarrow> bool \<times> 'w"
  dhcp_release_and_stop :: "'w \<Rightarrow> 'w"
  netif_poll_all :: "'w \<Rightarrow> 'w"
  sys_check_timeouts :: "'w \<Rightarrow> 'w"

record 'w eth =
  e_world :: 'w
  eth_active :: bool
  lwip_initialised :: bool
  poll_registered :: bool
  e_hwaddr :: bytes
  e_ip :: u32
  e_netmask :: u32
  e_gw :: u32
  e_up :: bool

datatype err_t = ERR_OK | ERR_IF

definition sys_now :: "u32 \<Rightarrow> u32" where
  "sys_now bios_ticks = bios_ticks * 55"

definition lwip_uc386dos_init :: "('w, 'x) net_env_scheme \<Rightarrow> 'w eth \<Rightarrow> 'w eth" where
  "lwip_uc386dos_init e s =
     (if lwip_initialised s then s
      else let s = s\<lparr>lwip_initialised := True\<rparr>
           in if \<not> netif_list_empty e (e_world s) then s
              else s\<lparr>e_world := lwip_init e (e_world s)\<rparr>)"

definition lwip_uc386dos_poll :: "('w, 'x) net_env_scheme \<Rightarrow> 'w eth \<Rightarrow> 'w eth" where
  "lwip_uc386dos_poll e s = s\<lparr>e_world := sys_check_timeouts e (e_world s)\<rparr>"

text \<open>
  The frame of a pbuf chain is its bytes; the static buffer holds 1500 + 14 of them. \<open>None\<close> is a send
  of the packet driver that never returns.
\<close>

definition uc386dos_eth_linkoutput :: "('w, 'x) net_env_scheme \<Rightarrow> bytes \<Rightarrow> 'w \<Rightarrow> (err_t \<times> 'w) option" where
  "uc386dos_eth_linkoutput e p w =
     (if length p > 1500 + 14 then Some (ERR_IF, w)
      else map_option (\<lambda>(rc, w). (if rc \<noteq> 0 then ERR_IF else ERR_OK, w))
             (if pktdrv_is_active e w then pktdrv_send e p w else Some (ethdrv_send e p w)))"

definition eth_recv :: "('w, 'x) net_env_scheme \<Rightarrow> 'w \<Rightarrow> bytes \<times> 'w" where
  "eth_recv e w = (if pktdrv_is_active e w then pktdrv_recv e (1500 + 14) w else ethdrv_recv e (1500 + 14) w)"

partial_function (option) pump_loop :: "('w, 'x) net_env_scheme \<Rightarrow> 'w \<Rightarrow> 'w option" where
  "pump_loop e w =
     (case eth_recv e w of (frame, w) \<Rightarrow>
        if frame = [] then Some w
        else case pbuf_alloc e (length frame) w of (ok, w) \<Rightarrow>
               if \<not> ok then pump_loop e w
               else case netif_input e frame w of (er, w) \<Rightarrow> pump_loop e w)"

definition uc386dos_eth_pump_rx :: "('w, 'x) net_env_scheme \<Rightarrow> 'w eth \<Rightarrow> 'w eth option" where
  "uc386dos_eth_pump_rx e s =
     (if \<not> eth_active s then Some s
      else map_option (\<lambda>w. s\<lparr>e_world := w\<rparr>) (pump_loop e (e_world s)))"

definition uc386dos_loopback_poll :: "('w, 'x) net_env_scheme \<Rightarrow> 'w eth \<Rightarrow> 'w eth option" where
  "uc386dos_loopback_poll e s =
     uc386dos_eth_pump_rx e (s\<lparr>e_world := netif_poll_all e (e_world s)\<rparr>)"

text \<open>What \<open>modlwip\<close> runs in every turn of a blocking call: deliver what is pending, then the timers.\<close>

definition MICROPY_PY_LWIP_POLL_HOOK :: "('w, 'x) net_env_scheme \<Rightarrow> 'w eth \<Rightarrow> 'w eth option" where
  "MICROPY_PY_LWIP_POLL_HOOK e s =
     (case uc386dos_loopback_poll e s of
        None \<Rightarrow> None
      | Some s \<Rightarrow> Some (s\<lparr>e_world := sys_check_timeouts e (e_world s)\<rparr>))"

text \<open>The two drivers are tried in turn; the MAC of the one that answered is used.\<close>

definition driver_init :: "('w, 'x) net_env_scheme \<Rightarrow> 'w \<Rightarrow> bytes option \<times> 'w" where
  "driver_init e w =
     (let (rc, mac, w) = pktdrv_init e w
      in if rc = 0 then (Some mac, w)
         else let (rc, mac, w) = ethdrv_init e w
              in if rc = 0 then (Some mac, w) else (None, w))"

definition uc386dos_eth_start :: "('w, 'x) net_env_scheme \<Rightarrow> bool \<Rightarrow> 'w eth \<Rightarrow> int \<times> 'w eth" where
  "uc386dos_eth_start e dhcp_start_now s =
     (if eth_active s then (0, s)
      else let s = lwip_uc386dos_init e s;
               (mac, w) = driver_init e (e_world s);
               s = s\<lparr>e_world := w\<rparr>
           in case mac of
                None \<Rightarrow> (-1, s)
              | Some mac \<Rightarrow>
                  let (ok, w) = netif_add e (e_world s);
                      s = s\<lparr>e_world := w\<rparr>
                  in if \<not> ok then (-2, s)
                     else let s = s\<lparr>e_ip := 0, e_netmask := 0, e_gw := 0, e_hwaddr := take 6 mac,
                                     e_up := True, eth_active := True, poll_registered := True\<rparr>
                          in if dhcp_start_now
                             then let (ok, w) = dhcp_start e (e_world s);
                                      s = s\<lparr>e_world := w\<rparr>
                                  in (if ok then 0 else -3, s)
                             else (0, s))"

definition uc386dos_eth_set_addr :: "('w, 'x) net_env_scheme \<Rightarrow> u32 \<Rightarrow> u32 \<Rightarrow> u32 \<Rightarrow> 'w eth \<Rightarrow> 'w eth" where
  "uc386dos_eth_set_addr e ip4 netmask gw s =
     (if \<not> eth_active s then s
      else s\<lparr>e_world := dhcp_release_and_stop e (e_world s), e_ip := ip4, e_netmask := netmask, e_gw := gw,
             e_up := True\<rparr>)"

definition uc386dos_eth_is_up :: "'w eth \<Rightarrow> bool" where
  "uc386dos_eth_is_up s \<longleftrightarrow> eth_active s \<and> e_up s"

definition uc386dos_eth_ip :: "'w eth \<Rightarrow> u32" where
  "uc386dos_eth_ip s = e_ip s"

definition uc386dos_eth_netmask :: "'w eth \<Rightarrow> u32" where
  "uc386dos_eth_netmask s = e_netmask s"

definition uc386dos_eth_gateway :: "'w eth \<Rightarrow> u32" where
  "uc386dos_eth_gateway s = e_gw s"

definition uc386dos_eth_driver :: "('w, 'x) net_env_scheme \<Rightarrow> 'w eth \<Rightarrow> nat" where
  "uc386dos_eth_driver e s = (if \<not> eth_active s then 0 else if pktdrv_is_active e (e_world s) then 2 else 1)"

subsection \<open>Dotted quads\<close>

fun parse_num :: "bytes \<Rightarrow> u32 \<Rightarrow> u32 \<times> bytes" where
  "parse_num [] v = (v, [])"
| "parse_num (c # s) v =
     (if ch_0 \<le> c \<and> c \<le> ch_9 then parse_num s (v * 10 + ucast (c - ch_0)) else (v, c # s))"

text \<open>\<open>k\<close> is the number of parts still to be read; the parts that are not read are 0.\<close>

fun parse_parts :: "nat \<Rightarrow> bytes \<Rightarrow> u32 list" where
  "parse_parts 0 s = []"
| "parse_parts (Suc k) s =
     (if s = [] then replicate (Suc k) 0
      else let (v, s) = parse_num s 0;
               s = (case s of c # t \<Rightarrow> if c = ch_dot then t else s | [] \<Rightarrow> s)
           in (v AND 0xFF) # parse_parts k s)"

definition parse_ip4 :: "bytes \<Rightarrow> u32" where
  "parse_ip4 s =
     (let parts = parse_parts 4 s
      in parts ! 0 OR push_bit 8 (parts ! 1) OR push_bit 16 (parts ! 2) OR push_bit 24 (parts ! 3))"

text \<open>\<open>%u\<close> of the C library's \<open>snprintf\<close>.\<close>

fun format_u :: "nat \<Rightarrow> bytes" where
  "format_u n = (if n < 10 then [ch_0 + of_nat n] else format_u (n div 10) @ [ch_0 + of_nat (n mod 10)])"

declare format_u.simps [simp del]

definition quad_text :: "u32 \<Rightarrow> bytes" where
  "quad_text addr =
     format_u (unat (addr AND 0xFF)) @ ch_dot # format_u (unat (drop_bit 8 addr AND 0xFF)) @ ch_dot #
     format_u (unat (drop_bit 16 addr AND 0xFF)) @ ch_dot # format_u (unat (drop_bit 24 addr AND 0xFF))"

definition mod_uc386_net_ip4_to_str :: "u32 \<Rightarrow> bytes" where
  "mod_uc386_net_ip4_to_str addr =
     (let n = length (quad_text addr)
      in if n \<ge> 16 then [] else quad_text addr)"

definition mod_uc386_net_eth_init :: "('w, 'x) net_env_scheme \<Rightarrow> bool option \<Rightarrow> 'w eth \<Rightarrow> int \<times> 'w eth" where
  "mod_uc386_net_eth_init e use_dhcp s =
     uc386dos_eth_start e (case use_dhcp of None \<Rightarrow> True | Some b \<Rightarrow> b) s"

definition mod_uc386_net_eth_status ::
  "('w, 'x) net_env_scheme \<Rightarrow> 'w eth \<Rightarrow> bytes \<times> bytes \<times> bytes \<times> bool \<times> bytes" where
  "mod_uc386_net_eth_status e s =
     (mod_uc386_net_ip4_to_str (uc386dos_eth_ip s), mod_uc386_net_ip4_to_str (uc386dos_eth_netmask s),
      mod_uc386_net_ip4_to_str (uc386dos_eth_gateway s), uc386dos_eth_is_up s,
      (let drv = uc386dos_eth_driver e s
       in if drv = 2 then str ''pktdrv'' else if drv = 1 then str ''int83-sim'' else str ''none''))"

definition mod_uc386_net_eth_set_static ::
  "('w, 'x) net_env_scheme \<Rightarrow> bytes \<Rightarrow> bytes \<Rightarrow> bytes \<Rightarrow> 'w eth \<Rightarrow> 'w eth" where
  "mod_uc386_net_eth_set_static e ip_obj mask_obj gw_obj s =
     uc386dos_eth_set_addr e (parse_ip4 (cstr ip_obj)) (parse_ip4 (cstr mask_obj)) (parse_ip4 (cstr gw_obj)) s"

section \<open>Lemmas\<close>

subsection \<open>Dotted quads\<close>

lemma digit_char:
  assumes "n < 10"
  shows "ch_0 \<le> ch_0 + of_nat n \<and> ch_0 + of_nat n \<le> ch_9 \<and> ucast (ch_0 + of_nat n - ch_0 :: byte) = (of_nat n :: u32)"
proof -
  have "n = 0 \<or> n = 1 \<or> n = 2 \<or> n = 3 \<or> n = 4 \<or> n = 5 \<or> n = 6 \<or> n = 7 \<or> n = 8 \<or> n = 9"
    using assms by presburger
  then show ?thesis by (elim disjE) simp_all
qed

lemma parse_num_format:
  "parse_num (format_u n @ rest) 0 = parse_num rest (of_nat n)"
proof (induction n arbitrary: rest rule: format_u.induct)
  case (1 n)
  show ?case
  proof (cases "n < 10")
    case True
    then show ?thesis using digit_char[of n] by (subst format_u.simps) simp
  next
    case False
    have "of_nat (n div 10) * 10 + of_nat (n mod 10) = (of_nat n :: u32)"
      by (metis div_mult_mod_eq of_nat_add of_nat_mult of_nat_numeral)
    then show ?thesis
      using False 1[of "(ch_0 + of_nat (n mod 10)) # rest"] digit_char[of "n mod 10"] by (subst format_u.simps) simp
  qed
qed

lemma parse_num_end: "parse_num [] v = (v, [])" "parse_num (ch_dot # s) v = (v, ch_dot # s)"
  by simp_all

lemma format_u_nonempty [simp]: "format_u n \<noteq> []"
  by (subst format_u.simps) simp

lemma format_u_length: "n < 256 \<Longrightarrow> length (format_u n) \<le> 3"
  by (subst format_u.simps, subst format_u.simps, subst format_u.simps) auto

lemma parse_parts_last: "v AND 0xFF = v \<Longrightarrow> parse_parts (Suc 0) (format_u (unat v)) = [v]"
  using parse_num_format[of "unat v" "[]"] by simp

lemma parse_parts_dot: "v AND 0xFF = v \<Longrightarrow> parse_parts (Suc k) (format_u (unat v) @ ch_dot # s) = v # parse_parts k s"
  using parse_num_format[of "unat v" "ch_dot # s"] by simp

lemma quad_join:
  "(a AND 0xFF) OR push_bit 8 (drop_bit 8 a AND 0xFF) OR push_bit 16 (drop_bit 16 a AND 0xFF)
    OR push_bit 24 (drop_bit 24 a AND 0xFF) = (a :: u32)"
proof -
  have "y AND 0xFF = take_bit 8 y" for y :: u32
    by (simp add: take_bit_eq_mask mask_eq_exp_minus_1)
  then show ?thesis
  proof (intro bit_word_eqI)
    fix n assume "n < LENGTH(32)"
    moreover have "24 + (n - 24) = n" if "\<not> n < 24" using that by simp
    moreover have "16 + (n - 16) = n" if "\<not> n < 16" using that by simp
    ultimately show "bit ((a AND 0xFF) OR push_bit 8 (drop_bit 8 a AND 0xFF) OR push_bit 16 (drop_bit 16 a AND 0xFF)
        OR push_bit 24 (drop_bit 24 a AND 0xFF)) n = bit a n"
      using \<open>\<And>y. y AND 0xFF = take_bit 8 y\<close> by (cases "n < 24"; cases "n < 16") (auto simp: bit_simps)
  qed
qed

lemma low_byte_less: "unat (y AND 0xFF :: u32) < 256"
proof -
  have "y AND 0xFF \<le> 0xFF" by (rule word_and_le1)
  then show ?thesis by (simp add: word_le_nat_alt)
qed

lemma quad_text_length: "length (quad_text a) \<le> 15"
proof -
  have f: "length (format_u (unat (y AND 0xFF :: u32))) \<le> 3" for y
    by (rule format_u_length[OF low_byte_less])
  have "length (quad_text a) = length (format_u (unat (a AND 0xFF))) + length (format_u (unat (drop_bit 8 a AND 0xFF)))
      + length (format_u (unat (drop_bit 16 a AND 0xFF))) + length (format_u (unat (drop_bit 24 a AND 0xFF))) + 3"
    by (simp add: quad_text_def)
  with f[of a] f[of "drop_bit 8 a"] f[of "drop_bit 16 a"] f[of "drop_bit 24 a"] show ?thesis by linarith
qed

lemma parse_quad: "parse_parts 4 (quad_text a) =
  [a AND 0xFF, drop_bit 8 a AND 0xFF, drop_bit 16 a AND 0xFF, drop_bit 24 a AND 0xFF]"
proof -
  have m: "(y AND 0xFF) AND 0xFF = (y AND 0xFF :: u32)" for y by (simp add: and.assoc)
  have 4: "(4 :: nat) = Suc (Suc (Suc (Suc 0)))" by simp
  show ?thesis
    unfolding quad_text_def 4
    by (simp only: parse_parts_dot[OF m] parse_parts_last[OF m])
qed

subsection \<open>Receiving\<close>

text \<open>
  An environment that receives through a driver \<open>rx\<close>, whose state is the part \<open>st w\<close> of the world, and
  an lwIP that has packet buffers, logs the frames it is given in \<open>L\<close> and may send meanwhile, as long
  as sending from an idle driver keeps the driver ready and its queue as it is.
\<close>

definition serves :: "(nat \<Rightarrow> 's \<Rightarrow> bytes \<times> 's) \<Rightarrow> ('s \<Rightarrow> bool) \<Rightarrow> ('s \<Rightarrow> bool) \<Rightarrow> ('s \<Rightarrow> bytes list)
    \<Rightarrow> ('w, 'x) net_env_scheme \<Rightarrow> ('w \<Rightarrow> 's) \<Rightarrow> ('w \<Rightarrow> bytes list) \<Rightarrow> bool" where
  "serves rx ready idle Q e st L \<longleftrightarrow>
     (\<forall>w. ready (st w) \<longrightarrow> (case eth_recv e w of (f, v) \<Rightarrow> rx 1514 (st w) = (f, st v) \<and> L v = L w))
     \<and> (\<forall>w n. idle (st w) \<longrightarrow> (case pbuf_alloc e n w of (ok, v) \<Rightarrow> ok \<and> st v = st w \<and> L v = L w))
     \<and> (\<forall>w f. idle (st w) \<longrightarrow> (case netif_input e f w of (er, v) \<Rightarrow>
          ready (st v) \<and> Q (st v) = Q (st w) \<and> L v = L w @ [f]))"

text \<open>
  What the pump relies on. The queue \<open>Q\<close> of the driver in use holds the frames that wait. A receive in a \<open>ready\<close> state takes the first of them, cut at the caller's buffer,
  and leaves the driver \<open>idle\<close>: ready again, and with the buffers it shares with the sender free.
\<close>

locale frame_driver =
  fixes rx :: "nat \<Rightarrow> 's \<Rightarrow> bytes \<times> 's"
    and ready idle :: "'s \<Rightarrow> bool"
    and Q :: "'s \<Rightarrow> bytes list"
  assumes rx_empty: "ready s \<Longrightarrow> rx maxlen s = (f, t) \<Longrightarrow> Q s = [] \<Longrightarrow> f = [] \<and> idle t \<and> Q t = []"
    and rx_first: "ready s \<Longrightarrow> rx maxlen s = (f, t) \<Longrightarrow> Q s = q # qs \<Longrightarrow>
      f = take maxlen q \<and> q \<noteq> [] \<and> idle t \<and> Q t = qs"
begin

lemma servesD:
  assumes "serves rx ready idle Q e st L"
  shows "ready (st w) \<Longrightarrow> eth_recv e w = (f, v) \<Longrightarrow> rx 1514 (st w) = (f, st v) \<and> L v = L w"
    and "idle (st w) \<Longrightarrow> pbuf_alloc e n w = (ok, v) \<Longrightarrow> ok \<and> st v = st w \<and> L v = L w"
    and "idle (st w) \<Longrightarrow> netif_input e f w = (er, v) \<Longrightarrow> ready (st v) \<and> Q (st v) = Q (st w) \<and> L v = L w @ [f]"
proof -
  note laws = assms[unfolded serves_def]
  show "ready (st w) \<Longrightarrow> eth_recv e w = (f, v) \<Longrightarrow> rx 1514 (st w) = (f, st v) \<and> L v = L w"
    using spec[OF conjunct1[OF laws], of w] by simp
  show "idle (st w) \<Longrightarrow> pbuf_alloc e n w = (ok, v) \<Longrightarrow> ok \<and> st v = st w \<and> L v = L w"
    using spec[OF spec[OF conjunct1[OF conjunct2[OF laws]]], of w n] by simp
  show "idle (st w) \<Longrightarrow> netif_input e f w = (er, v) \<Longrightarrow> ready (st v) \<and> Q (st v) = Q (st w) \<and> L v = L w @ [f]"
    using spec[OF spec[OF conjunct2[OF conjunct2[OF laws]]], of w f] by simp
qed

lemma pump_loop_drains:
  assumes e: "serves rx ready idle Q e st L" and "ready (st w)"
  shows "\<exists>v. pump_loop e w = Some v \<and> idle (st v) \<and> Q (st v) = [] \<and> L v = L w @ map (take 1514) (Q (st w))"
  using assms(2)
proof (induction "Q (st w)" arbitrary: w)
  case Nil
  obtain f v where r: "eth_recv e w = (f, v)" by (cases "eth_recv e w")
  note rx = servesD(1)[OF e Nil.prems r]
  from rx_empty[OF Nil.prems conjunct1[OF rx] Nil.hyps[symmetric]] rx r show ?case
    by (subst pump_loop.simps) (simp flip: Nil.hyps)
next
  case (Cons q qs)
  obtain f v where r: "eth_recv e w = (f, v)" by (cases "eth_recv e w")
  obtain ok v' where a: "pbuf_alloc e (length f) v = (ok, v')" by (cases "pbuf_alloc e (length f) v")
  obtain er u where i: "netif_input e f v' = (er, u)" by (cases "netif_input e f v'")
  note rx = servesD(1)[OF e Cons.prems r]
  have first: "f = take 1514 q" "q \<noteq> []" "idle (st v)" "Q (st v) = qs"
    using rx_first[OF Cons.prems conjunct1[OF rx] Cons.hyps(2)[symmetric]] by simp_all
  have alloc: "ok" "st v' = st v" "L v' = L v"
    using servesD(2)[OF e first(3) a] by simp_all
  have taken: "ready (st u)" "Q (st u) = qs" "L u = L w @ [f]"
    using servesD(3)[OF e _ i] first alloc rx by simp_all
  have "pump_loop e w = pump_loop e u"
    using first alloc r a i by (subst pump_loop.simps) simp
  with Cons.hyps(1)[OF taken(2)[symmetric] taken(1)] taken first(1) Cons.hyps(2)[symmetric] show ?case
    by auto
qed

lemma pump_rx_drains:
  assumes "serves rx ready idle Q e st L" "ready (st (e_world s))" "eth_active s"
  shows "\<exists>t. uc386dos_eth_pump_rx e s = Some t \<and> idle (st (e_world t)) \<and> Q (st (e_world t)) = []
    \<and> L (e_world t) = L (e_world s) @ map (take 1514) (Q (st (e_world s))) \<and> eth_active t"
  using pump_loop_drains[OF assms(1,2)] assms(3) by (auto simp: uc386dos_eth_pump_rx_def)

end

section \<open>Properties\<close>

text \<open>
  Addresses survive the round trip through text: parsing the dotted quad of an address gives the
  address back, for all 2^32 of them, and the text always fits the 16-byte buffer.
\<close>

theorem ip4_roundtrip:
  "parse_ip4 (mod_uc386_net_ip4_to_str a) = a \<and> length (mod_uc386_net_ip4_to_str a) + 1 \<le> 16"
proof -
  have "mod_uc386_net_ip4_to_str a = quad_text a"
    using quad_text_length[of a] by (simp add: mod_uc386_net_ip4_to_str_def)
  then show ?thesis
    using quad_text_length[of a] by (simp add: parse_ip4_def parse_quad Let_def quad_join del: push_bit_and)
qed

text \<open>
  Bringing the interface up. The call reports 0 or \<open>-3\<close> exactly when the interface is active
  afterwards, \<open>-1\<close> (no driver) and \<open>-2\<close> (lwIP refuses the interface) leave it inactive with no address
  set, and on an active interface a second call changes nothing and reports 0. lwIP is initialised at
  most once.
\<close>

theorem eth_start_states:
  "case uc386dos_eth_start e dhcp s of (r, t) \<Rightarrow>
     eth_active t = (r \<in> {0, -3}) \<and> r \<in> {0, -1, -2, -3}
     \<and> uc386dos_eth_start e dhcp' t = (if eth_active t then (0, t) else uc386dos_eth_start e dhcp' t)
     \<and> (if r \<in> {-1, -2} then e_ip t = e_ip s \<and> e_up t = e_up s \<and> poll_registered t = poll_registered s
        else eth_active s \<or> (e_ip t = 0 \<and> e_up t \<and> poll_registered t))
     \<and> lwip_uc386dos_init e (lwip_uc386dos_init e s) = lwip_uc386dos_init e s"
  by (auto simp: uc386dos_eth_start_def lwip_uc386dos_init_def Let_def split: prod.split option.split)

text \<open>
  Sending. A frame longer than Ethernet's 1514 bytes is refused before it is copied and nothing is
  sent; any other frame is handed unchanged to the active driver, once, and the result is its status.
\<close>

theorem linkoutput_bounded:
  "uc386dos_eth_linkoutput e p w =
     (if length p \<le> 1514
      then (case if pktdrv_is_active e w then pktdrv_send e p w else Some (ethdrv_send e p w) of
              None \<Rightarrow> None
            | Some (rc, v) \<Rightarrow> Some (if rc = 0 then ERR_OK else ERR_IF, v))
      else Some (ERR_IF, w))"
  by (auto simp: uc386dos_eth_linkoutput_def split: option.split prod.split)

end
