(* ===== verification/Net_Stack.thy ===== *)
theory Net_Stack
  imports Pktdrv Net_Glue
begin

text \<open>
  The network stack put together: the lwIP glue of \<open>Net_Glue\<close> running on the packet driver of
  \<open>Pktdrv\<close>. The world of the glue is the state of the driver and the state of lwIP; lwIP itself stays
  a parameter that may send frames through the driver while it handles one.

  The driver is shown to be a \<open>frame_driver\<close>, so the pump of the glue drains it; and what sending does
  to the buffer the driver shares between the two directions is worked out.
\<close>

section \<open>Definitions\<close>

record ('h, 'n, 'l) net_world =
  w_pkt :: "('h, 'n) pkt"
  w_ip :: 'l

text \<open>The environment of the glue with the driver's entry points in place; \<open>e\<close> supplies lwIP and the
  simulator driver.\<close>

definition stack_env ::
  "('h, 'x) pkt_host_scheme \<Rightarrow> ('n, 'y) nic_scheme \<Rightarrow> ('h, 'n, 'l) net_world net_env \<Rightarrow> ('h, 'n, 'l) net_world net_env" where
  "stack_env d nic e = e\<lparr>
     pktdrv_is_active := (\<lambda>w. Pktdrv.pktdrv_is_active (w_pkt w)),
     pktdrv_init := (\<lambda>w. case Pktdrv.pktdrv_init d nic (w_pkt w) of ((rc, mac), s) \<Rightarrow> (rc, mac, w\<lparr>w_pkt := s\<rparr>)),
     pktdrv_send := (\<lambda>p w. map_option (\<lambda>(rc, s). (rc, w\<lparr>w_pkt := s\<rparr>)) (Pktdrv.pktdrv_send d nic p (length p) (w_pkt w))),
     pktdrv_recv := (\<lambda>n w. case Pktdrv.pktdrv_recv d nic n (w_pkt w) of (f, s) \<Rightarrow> (f, w\<lparr>w_pkt := s\<rparr>))\<rparr>"

text \<open>The state of the driver after the frames \<open>ps\<close> were sent.\<close>

fun sent :: "('h, 'x) pkt_host_scheme \<Rightarrow> ('n, 'y) nic_scheme \<Rightarrow> bytes list \<Rightarrow> ('h, 'n) pkt \<Rightarrow> ('h, 'n) pkt option" where
  "sent d nic [] s = Some s"
| "sent d nic (p # ps) s =
     (case Pktdrv.pktdrv_send d nic p (length p) s of None \<Rightarrow> None | Some (rc, s) \<Rightarrow> sent d nic ps s)"

text \<open>
  What lwIP does with a frame: packet buffers are available, a frame is taken over whole (\<open>L\<close> are the
  frames taken so far), and the driver is touched by sending only.
\<close>

definition lwip_takes ::
  "('h, 'x) pkt_host_scheme \<Rightarrow> ('n, 'y) nic_scheme \<Rightarrow> ('h, 'n, 'l) net_world net_env \<Rightarrow> ('l \<Rightarrow> bytes list) \<Rightarrow> bool" where
  "lwip_takes d nic e L \<longleftrightarrow>
     (\<forall>w n. case pbuf_alloc e n w of (ok, v) \<Rightarrow> ok \<and> w_pkt v = w_pkt w \<and> L (w_ip v) = L (w_ip w))
     \<and> (\<forall>w f. case netif_input e f w of (er, v) \<Rightarrow>
          L (w_ip v) = L (w_ip w) @ [f] \<and> (\<exists>ps. sent d nic ps (w_pkt w) = Some (w_pkt v)))"

text \<open>
  The send service of the packet driver (AH=04h), entered with the interrupts of the card masked,
  leaves the \<open>n\<close> bytes at \<open>a\<close> alone.
\<close>

definition send_keeps :: "('h, 'x) dpmi_scheme \<Rightarrow> u32 \<Rightarrow> nat \<Rightarrow> bool" where
  "send_keeps d a n \<longleftrightarrow>
     (\<forall>rm m h x. eax rm = 0x0400 \<longrightarrow> in_block a n x \<longrightarrow> (case rm_call d rm m h of (cf, rm', m', h') \<Rightarrow> m' x = m x))"

text \<open>A driver that was initialised over the stub: found in the interrupt table, with both buffers, its
  thunk at \<open>a\<close>.\<close>

definition pk_ready :: "('h, 'x) dpmi_scheme \<Rightarrow> u32 \<Rightarrow> ('h, 'n) pkt \<Rightarrow> bool" where
  "pk_ready d a s \<longleftrightarrow> thunk_lin s = a \<and> rx_layout d s \<and> \<not> rx_pending s \<and> pk_bounce_seg s \<noteq> 0 \<and> int_num s \<noteq> 0 \<and> int_num s \<noteq> -1"

definition pk_idle :: "('h, 'x) dpmi_scheme \<Rightarrow> u32 \<Rightarrow> ('h, 'n) pkt \<Rightarrow> bool" where
  "pk_idle d a s \<longleftrightarrow> pk_ready d a s \<and> waiting s = []"

section \<open>Lemmas\<close>

subsection \<open>The packet driver as a frame driver\<close>

lemma poll_rmstub_keeps [frame_rules]:
  "pk_bounce_seg (pktdrv_poll_rmstub d s) = pk_bounce_seg s" "int_num (pktdrv_poll_rmstub d s) = int_num s"
  "pk_thunk_seg (pktdrv_poll_rmstub d s) = pk_thunk_seg s" "p_ne2k (pktdrv_poll_rmstub d s) = p_ne2k s"
  by (simp_all add: pktdrv_poll_rmstub_def Let_def)

lemma recv_keeps:
  assumes "rx_layout d s" "Pktdrv.pktdrv_recv d nic n s = (f, t)"
  shows "pk_bounce_seg t = pk_bounce_seg s" "int_num t = int_num s" "thunk_lin t = thunk_lin s"
  using assms by (auto simp: Pktdrv.pktdrv_recv_def rx_layout_def thunk_lin_def frame_rules Let_def split: if_splits)

lemma recv_ready:
  assumes "pk_ready d a s" "Pktdrv.pktdrv_recv d nic n s = (f, t)"
  shows "(case waiting s of [] \<Rightarrow> f = [] | q # _ \<Rightarrow> f = take n q) \<and> pk_idle d a t"
  using recv_waiting[of d s nic n f t] recv_keeps[of d s nic n f t] assms by (simp add: pk_ready_def pk_idle_def)

lemma waiting_cases: "waiting s = [] \<or> (\<exists>q. waiting s = [q] \<and> q \<noteq> [])"
  by (simp add: waiting_def Let_def)

interpretation pk: frame_driver "Pktdrv.pktdrv_recv d nic" "pk_ready d a" "pk_idle d a" waiting
  for d :: "('h, 'x) dpmi_scheme" and a and nic :: "('n, 'y) nic_scheme"
proof
  fix s t :: "('h, 'n) pkt" and n f q qs
  assume s: "pk_ready d a s" "Pktdrv.pktdrv_recv d nic n s = (f, t)"
  note r = recv_ready[OF s]
  show "f = [] \<and> pk_idle d a t \<and> waiting t = []" if "waiting s = []"
    using r that by (simp add: pk_idle_def)
  show "f = take n q \<and> q \<noteq> [] \<and> pk_idle d a t \<and> waiting t = qs" if "waiting s = q # qs"
    using r that waiting_cases[of s] by (simp add: pk_idle_def)
qed

lemma stack_recv:
  assumes "pk_ready d a (w_pkt w)" "eth_recv (stack_env d nic e) w = (f, v)"
  shows "Pktdrv.pktdrv_recv d nic 1514 (w_pkt w) = (f, w_pkt v) \<and> w_ip v = w_ip w"
  using assms
  by (auto simp: eth_recv_def stack_env_def pk_ready_def rx_layout_def Pktdrv.pktdrv_is_active_def split: prod.splits)

subsection \<open>Sending\<close>

text \<open>What a send of the initialised driver does to the memory the receive path reads.\<close>

lemma send_memory:
  assumes "pk_ready d a s" "Pktdrv.pktdrv_send d nic p (length p) s = Some (rc, t)" "length p \<le> 2048"
  shows "\<exists>rm cf rm' m h dev. eax rm = 0x0400
    \<and> rm_call d rm (store_bytes d (pk_bounce_linear s) p (p_mem s)) (p_host s) = (cf, rm', m, h)
    \<and> t = s\<lparr>p_mem := m, p_host := h, p_ne2k := (p_ne2k s)\<lparr>n_dev := dev\<rparr>\<rparr>"
proof -
  let ?rm = "rmcs0\<lparr>ebx := word_of_int (handle s), ecx := of_nat (length p), eax := 0x0400, ds := ucast (pk_bounce_seg s),
    cs := ucast (pk_thunk_seg s), ip := 0, ss := 0, sp := 0\<rparr>"
  obtain cf rm' m h where c: "rm_call d ?rm (store_bytes d (pk_bounce_linear s) p (p_mem s)) (p_host s) = (cf, rm', m, h)"
    by (cases "rm_call d ?rm (store_bytes d (pk_bounce_linear s) p (p_mem s)) (p_host s)") auto
  have "\<exists>dev. t = s\<lparr>p_mem := m, p_host := h, p_ne2k := (p_ne2k s)\<lparr>n_dev := dev\<rparr>\<rparr>"
    using assms c
    by (auto simp: pk_ready_def rx_layout_def Pktdrv.pktdrv_send_def int60_def pktdrv_call_int60_thunk_def Let_def
        split: prod.splits)
  with c show ?thesis by (intro exI[of _ ?rm]) auto
qed

lemma send_returns_ready:
  assumes "pk_ready d a s"
  shows "\<exists>rc t. Pktdrv.pktdrv_send d nic p n s = Some (rc, t)"
  using assms by (simp add: pk_ready_def rx_layout_def Pktdrv.pktdrv_send_def Let_def split_beta)

lemma send_keeps_ready:
  assumes "pk_ready d a s" "Pktdrv.pktdrv_send d nic p (length p) s = Some (rc, t)" "length p \<le> 2048"
  shows "pk_ready d a t" "pk_bounce_linear t = pk_bounce_linear s"
  using send_memory[OF assms] assms(1) by (auto simp: pk_ready_def rx_layout_def thunk_lin_def)

lemma send_keepsD:
  assumes "send_keeps d a n" "eax rm = 0x0400" "in_block a n x" "rm_call d rm m h = (cf, rm', m', h')"
  shows "m' x = m x"
  using spec[OF spec[OF spec[OF spec[OF assms(1)[unfolded send_keeps_def], of rm], of m], of h], of x] assms(2-4) by simp

text \<open>The words of the stub survive a send; the frame in the bounce buffer is overwritten by the one sent.\<close>

lemma send_keeps_words:
  assumes "pk_ready d a s" "Pktdrv.pktdrv_send d nic p (length p) s = Some (rc, t)" "length p \<le> 2048"
    and "send_keeps d a 0x50" "k < 0x4F"
  shows "read16 (p_mem t) (a + of_nat k) = read16 (p_mem s) (a + of_nat k)"
proof -
  obtain rm cf rm' m h where c: "eax rm = 0x0400" "p_mem t = m"
    "rm_call d rm (store_bytes d (pk_bounce_linear s) p (p_mem s)) (p_host s) = (cf, rm', m, h)"
    using send_memory[OF assms(1-3)] by auto
  have lay: "rx_layout d s" "thunk_lin s = a" using assms(1) by (simp_all add: pk_ready_def)
  have "m x = p_mem s x" if x: "in_block a 0x50 x" for x
  proof -
    have "m x = store_bytes d (pk_bounce_linear s) p (p_mem s) x"
      by (rule send_keepsD[OF assms(4) c(1) x c(3)])
    moreover have "\<not> in_block (pk_bounce_linear s) (length p) x"
      using lay x in_block_mono[OF _ assms(3)] by (auto simp: rx_layout_def)
    ultimately show ?thesis by (simp add: store_bytes_other)
  qed
  moreover have "in_block a 0x50 (a + of_nat k)"
    using in_block_offset[of k "0x50"] assms(5) by simp
  moreover have "in_block a 0x50 (a + of_nat k + 1)"
    using in_block_offset[of "Suc k" "0x50" a] assms(5) by (simp add: ac_simps)
  ultimately show ?thesis by (simp add: read16_def c(2))
qed

lemma send_keeps_idle:
  assumes "pk_idle d a s" "Pktdrv.pktdrv_send d nic p (length p) s = Some (rc, t)" "send_keeps d a 0x50"
  shows "pk_idle d a t"
proof (cases "length p \<le> 2048")
  case True
  have r: "pk_ready d a s" and "waiting s = []" using assms(1) by (simp_all add: pk_idle_def)
  note w = send_keeps_words[OF r assms(2) True assms(3)]
  have "waiting t = []"
    using w[of "0x40"] w[of "0x42"] send_keeps_ready[OF r assms(2) True] r \<open>waiting s = []\<close>
    by (auto simp: waiting_def pk_ready_def Let_def split: if_splits)
  with send_keeps_ready[OF r assms(2) True] show ?thesis by (simp add: pk_idle_def)
next
  case False
  with assms(1,2) show ?thesis
    by (auto simp: pk_idle_def pk_ready_def rx_layout_def Pktdrv.pktdrv_send_def)
qed

lemma sent_keeps_idle:
  "pk_idle d a s \<Longrightarrow> sent d nic ps s = Some t \<Longrightarrow> send_keeps d a 0x50 \<Longrightarrow> pk_idle d a t"
proof (induction ps arbitrary: s)
  case (Cons p ps)
  then obtain rc u where u: "Pktdrv.pktdrv_send d nic p (length p) s = Some (rc, u)" "sent d nic ps u = Some t"
    by (auto split: option.splits)
  with send_keeps_idle[OF Cons.prems(1) u(1) Cons.prems(3)] Cons.IH[OF _ u(2)] Cons.prems(3) show ?case by simp
qed simp

text \<open>Storing over the start of a block that was there.\<close>

lemma store_bytes_over:
  assumes "\<forall>x. in_block b 2048 x \<longrightarrow> writable d x" "length p \<le> 2048" "n \<le> 2048"
  shows "load_bytes (store_bytes d b p m) b n = take n p @ drop (length p) (load_bytes m b n)"
proof (rule nth_equalityI)
  show "length (load_bytes (store_bytes d b p m) b n) = length (take n p @ drop (length p) (load_bytes m b n))"
    by simp
  fix i assume "i < length (load_bytes (store_bytes d b p m) b n)"
  then have i: "i < n" by simp
  have "load_bytes (store_bytes d b p m) b (length p) = p"
    using assms(1,2) by (intro store_bytes_load) (auto simp: in_block_def)
  then have "store_bytes d b p m (b + of_nat i) = p ! i" if "i < length p"
    using that load_bytes_nth[of i "length p"] by metis
  moreover have "store_bytes d b p m (b + of_nat i) = m (b + of_nat i)" if "\<not> i < length p"
    using that i assms(3)
    by (intro store_bytes_other) (simp add: in_block_def unat_of_nat take_bit_nat_eq_self)
  ultimately show "load_bytes (store_bytes d b p m) b n ! i = (take n p @ drop (length p) (load_bytes m b n)) ! i"
    using i by (simp add: load_bytes_nth nth_append min_def)
qed

lemma send_overwrites:
  assumes "pk_ready d a s" "waiting s = [f]" "Pktdrv.pktdrv_send d nic p (length p) s = Some (rc, t)" "length p \<le> 2048"
    and "send_keeps d a 0x50" "send_keeps d (pk_bounce_linear s) 2048"
  shows "waiting t = [take (length f) p @ drop (length p) f]"
proof -
  obtain rm cf rm' m h where c: "eax rm = 0x0400" "p_mem t = m"
    "rm_call d rm (store_bytes d (pk_bounce_linear s) p (p_mem s)) (p_host s) = (cf, rm', m, h)"
    using send_memory[OF assms(1,3,4)] by auto
  note words = send_keeps_words[OF assms(1,3,4,5), of "0x40"] send_keeps_words[OF assms(1,3,4,5), of "0x42"]
  have f: "length f \<le> 1518" "f = load_bytes (p_mem s) (pk_bounce_linear s) (length f)"
    using assms(2) by (auto simp: waiting_def Let_def split: if_splits)
  have "load_bytes (p_mem t) (pk_bounce_linear s) (length f)
      = load_bytes (store_bytes d (pk_bounce_linear s) p (p_mem s)) (pk_bounce_linear s) (length f)"
    using f(1) unfolding c(2)
    by (intro load_bytes_cong send_keepsD[OF assms(6) c(1) _ c(3)]) (auto simp: in_block_def)
  also have "\<dots> = take (length f) p @ drop (length p) f"
    using assms(1,4) f by (subst store_bytes_over) (auto simp: pk_ready_def rx_layout_def)
  finally show ?thesis
    using words assms(1,2) send_keeps_ready[OF assms(1,3,4)]
    by (auto simp: waiting_def pk_ready_def Let_def split: if_splits)
qed

subsection \<open>The stack\<close>

lemma stack_serves:
  assumes lw: "lwip_takes d nic e L" and k: "send_keeps d a 0x50"
  shows "serves (Pktdrv.pktdrv_recv d nic) (pk_ready d a) (pk_idle d a) waiting (stack_env d nic e) w_pkt (\<lambda>w. L (w_ip w))"
  unfolding serves_def
proof (intro conjI allI impI)
  fix w n f
  show "case eth_recv (stack_env d nic e) w of (f, v) \<Rightarrow> Pktdrv.pktdrv_recv d nic 1514 (w_pkt w) = (f, w_pkt v)
      \<and> L (w_ip v) = L (w_ip w)" if "pk_ready d a (w_pkt w)"
    using stack_recv[OF that] by (auto split: prod.split)
  show "case pbuf_alloc (stack_env d nic e) n w of (ok, v) \<Rightarrow> ok \<and> w_pkt v = w_pkt w \<and> L (w_ip v) = L (w_ip w)"
    using spec[OF spec[OF conjunct1[OF lw[unfolded lwip_takes_def]]], of w n] by (simp add: stack_env_def)
  assume i: "pk_idle d a (w_pkt w)"
  obtain er v where v: "netif_input e f w = (er, v)" by (cases "netif_input e f w")
  obtain ps where "L (w_ip v) = L (w_ip w) @ [f]" "sent d nic ps (w_pkt w) = Some (w_pkt v)"
    using spec[OF spec[OF conjunct2[OF lw[unfolded lwip_takes_def]]], of w f] v by auto
  with sent_keeps_idle[OF i this(2) k] i v
  show "case netif_input (stack_env d nic e) f w of (er, v) \<Rightarrow>
      pk_ready d a (w_pkt v) \<and> waiting (w_pkt v) = waiting (w_pkt w) \<and> L (w_ip v) = L (w_ip w) @ [f]"
    by (simp add: stack_env_def pk_idle_def)
qed

lemmas stack_pump_drains = pk.pump_rx_drains[OF stack_serves]

lemma linkoutput_idle:
  assumes "pk_idle d a (w_pkt w)" "send_keeps d a 0x50" "uc386dos_eth_linkoutput (stack_env d nic e) p w = Some (er, v)"
  shows "pk_idle d a (w_pkt v) \<and> w_ip v = w_ip w"
proof -
  have "Pktdrv.pktdrv_is_active (w_pkt w)"
    using assms(1) by (simp add: pk_idle_def pk_ready_def Pktdrv.pktdrv_is_active_def)
  then show ?thesis
    using assms send_keeps_idle[OF assms(1) _ assms(2)]
    by (auto simp: uc386dos_eth_linkoutput_def stack_env_def split: if_splits)
qed

lemma irq_ready: "pk_ready d a (irq_frame d f s) = pk_ready d a s"
  by (simp add: pk_ready_def irq_frame_layout) (simp add: irq_frame_def Let_def)

end
