(* ===== verification/Pkt_Irq.thy ===== *)
theory Pkt_Irq
  imports Net_Stack
begin

text \<open>
  The packet driver with interrupts in the middle of its functions. \<open>pktdrv_poll_rmstub\<close>, \<open>pktdrv_recv\<close>
  and \<open>pktdrv_send\<close> of \<open>pktdrv_uc386dos.c\<close> run with the interrupts of the card enabled (but for the
  dispatch of a send), and the receiver stub takes a frame whether or not the previous one was fetched.
  Here the same functions run against a schedule of arrivals: before every access to the memory they
  share with the stub, before every single byte of a \<open>memcpy\<close>, any number of frames may arrive. A
  frame that arrives is handled to the end before the program goes on.

  \<open>Pktdrv\<close> has the functions as they run when nothing arrives meanwhile; with an empty schedule the
  two agree (\<open>recv_live_quiet\<close>, \<open>send_live_quiet\<close>).
\<close>

section \<open>Definitions\<close>

text \<open>
  The driver and the frames still to come: \<open>l_sched\<close> lists, access by access, the frames that arrive
  before it; after its end nothing arrives. Two fields only record what happens, no definition reads
  them: \<open>l_race\<close> is set when a frame the stub takes arrives inside a copy out of the bounce buffer, or a
  byte to be sent is stored over a frame that waits there; \<open>l_sent\<close> are the frames copied into the
  bounce buffer for sending, oldest first.
\<close>

record ('h, 'n) live =
  l_pkt :: "('h, 'n) pkt"
  l_sched :: "bytes list list"
  l_race :: bool
  l_sent :: "bytes list"

abbreviation l_mem :: "('h, 'n, 'z) live_scheme \<Rightarrow> mem" where
  "l_mem w \<equiv> p_mem (l_pkt w)"

definition due :: "('h, 'n, 'z) live_scheme \<Rightarrow> bytes list" where
  "due w = (case l_sched w of [] \<Rightarrow> [] | frames # q \<Rightarrow> frames)"

text \<open>The interrupts before the next access.\<close>

definition irqs :: "('h, 'x) dpmi_scheme \<Rightarrow> ('h, 'n, 'z) live_scheme \<Rightarrow> ('h, 'n, 'z) live_scheme" where
  "irqs d w = w\<lparr>l_pkt := fold (irq_frame d) (due w) (l_pkt w), l_sched := tl (l_sched w)\<rparr>"

definition note_race :: "bool \<Rightarrow> ('h, 'n, 'z) live_scheme \<Rightarrow> ('h, 'n, 'z) live_scheme" where
  "note_race b w = w\<lparr>l_race := l_race w \<or> b\<rparr>"

text \<open>The \<open>memcpy\<close> of \<open>pktdrv_poll_rmstub\<close>, byte by byte.\<close>

fun copy_out :: "('h, 'x) dpmi_scheme \<Rightarrow> u32 \<Rightarrow> nat list \<Rightarrow> ('h, 'n, 'z) live_scheme \<Rightarrow> bytes \<times> ('h, 'n, 'z) live_scheme" where
  "copy_out d a [] w = ([], w)"
| "copy_out d a (i # is) w =
     (let w = note_race (\<exists>f\<in>set (due w). acceptable f) (irqs d w);
          (bs, v) = copy_out d a is w
      in (l_mem w (a + of_nat i) # bs, v))"

text \<open>The store that frees the slot of the stub.\<close>

definition clear_live :: "('h, 'x) dpmi_scheme \<Rightarrow> ('h, 'n, 'z) live_scheme \<Rightarrow> ('h, 'n, 'z) live_scheme" where
  "clear_live d w = w\<lparr>l_pkt := (l_pkt w)\<lparr>p_mem := store_bytes d (pend_at (l_pkt w)) [0, 0] (l_mem w)\<rparr>\<rparr>"

definition poll_live :: "('h, 'x) dpmi_scheme \<Rightarrow> ('h, 'n, 'z) live_scheme \<Rightarrow> ('h, 'n, 'z) live_scheme" where
  "poll_live d w =
     (if pk_thunk_seg (l_pkt w) = 0 then w
      else if rx_pending (l_pkt w) then w
      else let w = irqs d w
           in if read16 (l_mem w) (pend_at (l_pkt w)) = 0 then w
              else let w = irqs d w;
                       n = read16 (l_mem w) (len_at (l_pkt w))
                   in if n = 0 \<or> n > PKTDRV_MAX_FRAME then clear_live d (irqs d w)
                      else let w = (if pk_bounce_linear (l_pkt w) \<noteq> 0
                                    then let (bs, v) = copy_out d (pk_bounce_linear (l_pkt w)) [0..<n] w
                                         in v\<lparr>l_pkt := (l_pkt v)\<lparr>rx_buf := bs @ drop n (rx_buf (l_pkt v))\<rparr>\<rparr>
                                    else w);
                               w = clear_live d (irqs d (w\<lparr>l_pkt := (l_pkt w)\<lparr>rx_len := n\<rparr>\<rparr>))
                           in w\<lparr>l_pkt := (l_pkt w)\<lparr>rx_pending := True\<rparr>\<rparr>)"

text \<open>The stub never touches \<open>pktdrv_rx_buf\<close>, so the rest of the function has no access to share.\<close>

definition recv_live ::
  "('h, 'x) dpmi_scheme \<Rightarrow> ('n, 'y) nic_scheme \<Rightarrow> nat \<Rightarrow> ('h, 'n, 'z) live_scheme \<Rightarrow> bytes \<times> ('h, 'n, 'z) live_scheme" where
  "recv_live d nic maxlen w =
     (if ne2k_initialized (p_ne2k (l_pkt w))
      then let ((n, out), ne) = ne2k_poll_rx nic maxlen (p_ne2k (l_pkt w))
           in (take n out, w\<lparr>l_pkt := (l_pkt w)\<lparr>p_ne2k := ne\<rparr>\<rparr>)
      else let w = poll_live d w; s = l_pkt w
           in if \<not> rx_pending s then ([], w)
              else let n = (if rx_len s > maxlen then maxlen else rx_len s)
                   in (take n (rx_buf s), w\<lparr>l_pkt := s\<lparr>rx_pending := False, rx_len := 0\<rparr>\<rparr>))"

text \<open>The \<open>memcpy\<close> of \<open>pktdrv_send\<close>.\<close>

fun copy_in :: "('h, 'x) dpmi_scheme \<Rightarrow> u32 \<Rightarrow> bytes \<Rightarrow> nat list \<Rightarrow> ('h, 'n, 'z) live_scheme \<Rightarrow> ('h, 'n, 'z) live_scheme" where
  "copy_in d a p [] w = w"
| "copy_in d a p (i # is) w =
     (let w = irqs d w;
          w = note_race (waiting (l_pkt w) \<noteq> []) w
      in copy_in d a p is (w\<lparr>l_pkt := (l_pkt w)\<lparr>p_mem := store d (a + of_nat i) (p ! i) (l_mem w)\<rparr>\<rparr>))"

text \<open>
  The interrupts of the card are masked from the write to port 0xA1 to the end of the dispatch, which
  is one step here. A card on another line than 9 or 11 is not masked; what its frames do to the
  memory read by the receiver is the same whether they arrive before the dispatch or in it.
\<close>

definition send_live ::
  "('h, 'x) pkt_host_scheme \<Rightarrow> ('n, 'y) nic_scheme \<Rightarrow> bytes \<Rightarrow> nat \<Rightarrow> ('h, 'n, 'z) live_scheme
     \<Rightarrow> (int \<times> ('h, 'n, 'z) live_scheme) option" where
  "send_live d nic buf len w =
     (if ne2k_initialized (p_ne2k (l_pkt w))
      then map_option (\<lambda>(r, ne). (r, w\<lparr>l_pkt := (l_pkt w)\<lparr>p_ne2k := ne\<rparr>\<rparr>)) (ne2k_send_direct nic buf len (p_ne2k (l_pkt w)))
      else if int_num (l_pkt w) = 0 then Some (-1, w)
      else if len > PKTDRV_BOUNCE_SIZE then Some (-1, w)
      else if pk_bounce_seg (l_pkt w) = 0
      then let (cf, r, out, h) = bare_int d (word_of_int (int_num (l_pkt w)))
                 (regs0\<lparr>R_EAX := 0x0400, R_ECX := of_nat len\<rparr>) (take len buf) (p_host (l_pkt w))
           in Some (if cf then -1 else 0, w\<lparr>l_pkt := (l_pkt w)\<lparr>p_host := h\<rparr>\<rparr>)
      else let p = take len buf;
               w = copy_in d (pk_bounce_linear (l_pkt w)) p [0..<length p] (w\<lparr>l_sent := l_sent w @ [p]\<rparr>);
               w = irqs d w;
               s = l_pkt w;
               rm = rmcs0\<lparr>ebx := word_of_int (handle s), ecx := of_nat len, eax := 0x0400, ds := ucast (pk_bounce_seg s)\<rparr>;
               (saved_mask, dev) = ne2k_inb nic 0xA1 (n_dev (p_ne2k s));
               dev = ne2k_outb nic 0xA1 (saved_mask OR 0x0A) dev;
               (cf, rm, s) = int60 d rm s;
               dev = ne2k_outb nic 0xA1 saved_mask dev;
               s = s\<lparr>p_ne2k := (p_ne2k s)\<lparr>n_dev := dev\<rparr>\<rparr>
           in Some (if cf \<or> flags rm AND 1 \<noteq> 0 then -1 else 0, w\<lparr>l_pkt := s\<rparr>))"

text \<open>\<open>k\<close> calls of \<open>pktdrv_recv\<close> in a row: the frames handed out.\<close>

fun recvs :: "('h, 'x) dpmi_scheme \<Rightarrow> ('n, 'y) nic_scheme \<Rightarrow> nat \<Rightarrow> nat \<Rightarrow> ('h, 'n, 'z) live_scheme
    \<Rightarrow> bytes list \<times> ('h, 'n, 'z) live_scheme" where
  "recvs d nic maxlen 0 w = ([], w)"
| "recvs d nic maxlen (Suc k) w =
     (let (out, w) = recv_live d nic maxlen w;
          (outs, w) = recvs d nic maxlen k w
      in (if out = [] then outs else out # outs, w))"

text \<open>
  What a buffer that was handed out may hold. \<open>W\<close> is its window, the frame whose length it has and
  those that arrived while it was copied; every byte stands at its own place in a frame of the window,
  or in one of the frames \<open>P\<close> that were sent.
\<close>

definition drawn :: "bytes set \<Rightarrow> nat \<Rightarrow> (nat \<Rightarrow> byte) \<Rightarrow> bool" where
  "drawn S n h \<longleftrightarrow> (\<forall>i<n. \<exists>g\<in>S. i < length g \<and> h i = g ! i)"

definition mixed :: "nat \<Rightarrow> bytes set \<Rightarrow> bytes \<Rightarrow> bytes list \<Rightarrow> bool" where
  "mixed maxlen P out W \<longleftrightarrow> W \<noteq> [] \<and> length out = min maxlen (length (hd W))
     \<and> drawn (set W \<union> P) (length out) ((!) out)"

abbreviation taken :: "bytes list list \<Rightarrow> bytes list" where
  "taken u \<equiv> filter acceptable (concat u)"

section \<open>Lemmas\<close>

subsection \<open>Without interrupts\<close>

lemma irqs_quiet: "l_sched w = [] \<Longrightarrow> irqs d w = w"
  by (simp add: irqs_def due_def)

lemma due_quiet: "l_sched w = [] \<Longrightarrow> due w = []"
  by (simp add: due_def)

lemma note_race_False [simp]: "note_race False w = w"
  by (simp add: note_race_def)

lemma copy_out_quiet: "l_sched w = [] \<Longrightarrow> copy_out d a is w = (map (\<lambda>i. l_mem w (a + of_nat i)) is, w)"
  by (induction "is") (simp_all add: irqs_quiet due_quiet)

lemma load_bytes_map: "load_bytes m a n = map (\<lambda>i. m (a + of_nat i)) [0..<n]"
  by (intro nth_equalityI) (simp_all add: load_bytes_nth)

lemma poll_live_quiet:
  assumes "l_sched w = []"
  shows "poll_live d w = w\<lparr>l_pkt := pktdrv_poll_rmstub d (l_pkt w)\<rparr>"
  using assms
  by (simp add: poll_live_def pktdrv_poll_rmstub_def irqs_quiet copy_out_quiet copy_to_rx_def load_bytes_map clear_live_def Let_def
      thunk_lin_def del: store_bytes.simps)

lemma recv_live_quiet:
  assumes "l_sched w = []"
  shows "recv_live d nic maxlen w
    = (case Pktdrv.pktdrv_recv d nic maxlen (l_pkt w) of (out, s) \<Rightarrow> (out, w\<lparr>l_pkt := s\<rparr>))"
  by (simp add: recv_live_def Pktdrv.pktdrv_recv_def poll_live_quiet[OF assms] Let_def split_beta)


lemma store_bytes_fold: "store_bytes d a p m = fold (\<lambda>i. store d (a + of_nat i) (p ! i)) [0..<length p] m"
proof (induction p arbitrary: a m)
  case (Cons b p)
  have "[0..<length (b # p)] = 0 # map Suc [0..<length p]"
    by (simp add: upt_conv_Cons map_Suc_upt del: upt_Suc)
  then have "fold (\<lambda>i. store d (a + of_nat i) ((b # p) ! i)) [0..<length (b # p)] m
      = fold (\<lambda>i. store d (a + 1 + of_nat i) (p ! i)) [0..<length p] (store d a b m)"
    by (simp only: fold_simps fold_map comp_def) (simp add: add.assoc)
  with Cons show ?case by simp
qed simp

lemma copy_in_quiet:
  assumes "l_sched w = []"
  shows "\<exists>r. copy_in d a p is w
    = w\<lparr>l_pkt := (l_pkt w)\<lparr>p_mem := fold (\<lambda>i. store d (a + of_nat i) (p ! i)) is (l_mem w)\<rparr>, l_race := r\<rparr>"
  using assms
proof (induction "is" arbitrary: w)
  case Nil
  show ?case by (intro exI[of _ "l_race w"]) simp
next
  case (Cons i "is")
  let ?w = "note_race (waiting (l_pkt w) \<noteq> []) w"
  let ?v = "?w\<lparr>l_pkt := (l_pkt ?w)\<lparr>p_mem := store d (a + of_nat i) (p ! i) (l_mem ?w)\<rparr>\<rparr>"
  have "l_sched ?v = []" using Cons.prems by (simp add: note_race_def)
  from Cons.IH[OF this] show ?case using Cons.prems by (simp add: irqs_quiet note_race_def)
qed

lemma send_live_quiet:
  assumes "l_sched w = []"
  shows "\<exists>r sd. send_live d nic buf len w
    = map_option (\<lambda>(rc, s). (rc, w\<lparr>l_pkt := s, l_race := r, l_sent := sd\<rparr>)) (Pktdrv.pktdrv_send d nic buf len (l_pkt w))"
proof -
  let ?p = "take len buf" and ?w = "w\<lparr>l_sent := l_sent w @ [take len buf]\<rparr>"
  obtain r where r: "copy_in d (pk_bounce_linear (l_pkt w)) ?p [0..<length ?p] ?w
      = ?w\<lparr>l_pkt := (l_pkt w)\<lparr>p_mem := store_bytes d (pk_bounce_linear (l_pkt w)) ?p (l_mem w)\<rparr>, l_race := r\<rparr>"
    using copy_in_quiet[of ?w d "pk_bounce_linear (l_pkt w)" ?p "[0..<length ?p]"] assms by (auto simp: store_bytes_fold)
  show ?thesis
  proof (cases "ne2k_initialized (p_ne2k (l_pkt w)) \<or> int_num (l_pkt w) = 0 \<or> len > 2048 \<or> pk_bounce_seg (l_pkt w) = 0")
    case True
    then consider "ne2k_initialized (p_ne2k (l_pkt w))"
      | "\<not> ne2k_initialized (p_ne2k (l_pkt w))" "int_num (l_pkt w) = 0 \<or> len > 2048"
      | "\<not> ne2k_initialized (p_ne2k (l_pkt w))" "int_num (l_pkt w) \<noteq> 0" "\<not> len > 2048" "pk_bounce_seg (l_pkt w) = 0"
      by blast
    then show ?thesis
    proof cases
      case 1
      then show ?thesis
        by (intro exI[of _ "l_race w"] exI[of _ "l_sent w"])
          (cases "ne2k_send_direct nic buf len (p_ne2k (l_pkt w))"; simp add: send_live_def Pktdrv.pktdrv_send_def split_beta)
    next
      case 2
      then show ?thesis
        by (intro exI[of _ "l_race w"] exI[of _ "l_sent w"]) (auto simp: send_live_def Pktdrv.pktdrv_send_def)
    next
      case 3
      then show ?thesis
        by (intro exI[of _ "l_race w"] exI[of _ "l_sent w"])
          (simp add: send_live_def Pktdrv.pktdrv_send_def Let_def split_beta)
    qed
  next
    case False
    then show ?thesis
      using r assms by (intro exI[of _ r] exI[of _ "l_sent w @ [?p]"])
        (simp add: send_live_def Pktdrv.pktdrv_send_def Let_def irqs_quiet split_beta)
  qed
qed

subsection \<open>What an interrupt does\<close>

lemma fold_irq_shape: "\<exists>M. fold (irq_frame d) arr s = s\<lparr>p_mem := M\<rparr>"
proof (induction arr arbitrary: s)
  case Nil
  show ?case by (intro exI[of _ "p_mem s"]) simp
next
  case (Cons f arr)
  have "\<exists>M. irq_frame d f s = s\<lparr>p_mem := M\<rparr>"
    by (cases "length f \<le> 1518") (auto simp: irq_frame_def Let_def intro: exI[of _ "p_mem s"])
  with Cons[of "irq_frame d f s"] show ?case by auto
qed

lemma store_len_keeps:
  assumes "rx_layout d s" "n \<le> 2048"
  shows "load_bytes (store_bytes d (len_at s) [x, y] m) (pk_bounce_linear s) n = load_bytes m (pk_bounce_linear s) n"
proof (intro load_bytes_cong store_bytes_other)
  fix z assume z: "in_block (pk_bounce_linear s) n z"
  show "\<not> in_block (len_at s) (length [x, y]) z"
  proof
    assume "in_block (len_at s) (length [x, y]) z"
    then have "in_block (thunk_lin s) 0x50 z"
      using in_block_sub[of "thunk_lin s" "0x42" "Suc (Suc 0)" z "0x50"] by simp
    with assms in_block_mono[OF z assms(2)] show False by (auto simp: rx_layout_def)
  qed
qed (use assms(2) in simp)

lemma irq_bounce:
  assumes "rx_layout d s" "length f \<le> 1518" "n \<le> 1518"
  shows "load_bytes (p_mem (irq_frame d f s)) (pk_bounce_linear s) n
    = take n f @ drop (length f) (load_bytes (p_mem s) (pk_bounce_linear s) n)"
proof -
  let ?b = "pk_bounce_linear s"
  define m1 where "m1 = store_bytes d (len_at s) [ucast (of_nat (length f) :: u16), ucast (drop_bit 8 (of_nat (length f) :: u16))] (p_mem s)"
  have "p_mem (irq_frame d f s) = store_bytes d (pend_at s) [1, 0] (store_bytes d ?b f m1)"
    using assms(2) by (simp add: irq_frame_def Let_def m1_def)
  moreover have "load_bytes (store_bytes d ?b f m1) ?b n = take n f @ drop (length f) (load_bytes m1 ?b n)"
    using assms by (intro store_bytes_over) (auto simp: rx_layout_def)
  moreover have "load_bytes m1 ?b n = load_bytes (p_mem s) ?b n"
    unfolding m1_def using assms by (intro store_len_keeps) auto
  ultimately show ?thesis
    using store_pend_keeps(3)[OF assms(1), of n] assms(3) by simp
qed

lemma drawn_mono: "drawn S n h \<Longrightarrow> S \<subseteq> S' \<Longrightarrow> drawn S' n h"
  unfolding drawn_def by blast

lemma drawn_less: "drawn S n h \<Longrightarrow> m \<le> n \<Longrightarrow> drawn S m h"
  by (simp add: drawn_def)

text \<open>Writing a frame over a buffer, or one byte of it.\<close>

lemma drawn_over:
  assumes "drawn S n h" "\<And>i. i < n \<Longrightarrow> h' i = (if i < length f then f ! i else h i)"
  shows "drawn (insert f S) n h'"
  using assms unfolding drawn_def by (metis insertCI)

lemma drawn_byte:
  assumes "drawn S n h" "\<And>i. i < n \<Longrightarrow> h' i = h i \<or> i < length f \<and> h' i = f ! i"
  shows "drawn (insert f S) n h'"
  using assms unfolding drawn_def by (metis insertCI)

abbreviation in_bounce :: "('h, 'n) pkt \<Rightarrow> nat \<Rightarrow> byte" where
  "in_bounce s i \<equiv> p_mem s (pk_bounce_linear s + of_nat i)"

lemma irq_drawn:
  assumes "rx_layout d s" "drawn S n (in_bounce s)" "n \<le> 1518"
  shows "drawn (S \<union> set (filter acceptable [f])) n (in_bounce (irq_frame d f s))"
proof (cases "acceptable f")
  case True
  then have l: "length f \<le> 1518" by (simp add: acceptable_def)
  have "in_bounce (irq_frame d f s) i = (if i < length f then f ! i else in_bounce s i)" if "i < n" for i
  proof -
    have "in_bounce (irq_frame d f s) i = load_bytes (p_mem (irq_frame d f s)) (pk_bounce_linear s) n ! i"
      using that by (simp add: irq_frame_layout load_bytes_nth)
    with that show ?thesis
      unfolding irq_bounce[OF assms(1) l assms(3)] by (auto simp: nth_append load_bytes_nth)
  qed
  from drawn_over[OF assms(2) this] True show ?thesis by simp
next
  case False
  then have "f = [] \<or> length f > 1518" by (auto simp: acceptable_def)
  then have "in_bounce (irq_frame d f s) i = in_bounce s i" if "i < n" for i
  proof
    assume "f = []"
    then have "load_bytes (p_mem (irq_frame d f s)) (pk_bounce_linear s) n ! i = load_bytes (p_mem s) (pk_bounce_linear s) n ! i"
      using irq_bounce[OF assms(1) _ assms(3), of "[]"] by simp
    with that show ?thesis by (simp add: irq_frame_layout load_bytes_nth)
  qed (simp add: irq_frame_def)
  with assms(2) False show ?thesis by (simp add: drawn_def)
qed

lemma fold_irq_drawn:
  assumes "rx_layout d s" "drawn S n (in_bounce s)" "n \<le> 1518"
  shows "drawn (S \<union> set (filter acceptable arr)) n (in_bounce (fold (irq_frame d) arr s))"
  using assms(1,2)
proof (induction arr arbitrary: s S)
  case (Cons f arr)
  show ?case
    using Cons.IH[OF _ irq_drawn[OF Cons.prems(1,2) assms(3), of f]] Cons.prems(1)
    by (auto simp: irq_frame_layout intro: drawn_mono)
qed simp

text \<open>
  The frame that waits: \<open>W\<close> is empty for none, or the frame that arrived, whose length it has and whose
  bytes it has except where a frame of \<open>P\<close> was written over it.
\<close>

definition holds :: "bytes set \<Rightarrow> bytes list \<Rightarrow> ('h, 'n) pkt \<Rightarrow> bool" where
  "holds P W s \<longleftrightarrow> list_all2 (\<lambda>g f. length g = length f \<and> drawn (insert f P) (length g) ((!) g)) (waiting s) W"

lemma drawn_self: "f \<in> S \<Longrightarrow> drawn S (length f) ((!) f)"
  unfolding drawn_def by blast

lemma holds_Nil: "waiting s = [] \<Longrightarrow> holds P W s \<longleftrightarrow> W = []"
  by (simp add: holds_def)

lemma holds_own: "holds P (waiting s) s"
  by (auto simp: holds_def list_all2_refl drawn_self)

lemma holds_fold_irq:
  assumes "rx_layout d s" "holds P W s"
  shows "\<exists>W'. holds P W' (fold (irq_frame d) arr s) \<and> subseq W' (W @ filter acceptable arr)"
  using assms
proof (induction arr arbitrary: s W)
  case Nil
  then show ?case by auto
next
  case (Cons f arr)
  define W1 where "W1 = (if length f > 1518 then W else if f = [] then [] else [f])"
  have lay: "rx_layout d (irq_frame d f s)" using Cons.prems(1) by (simp add: irq_frame_layout)
  have "holds P W1 (irq_frame d f s)"
    using Cons.prems(2) by (auto simp: W1_def holds_def waiting_irq[OF Cons.prems(1)] drawn_self)
  then obtain W' where W': "holds P W' (fold (irq_frame d) arr (irq_frame d f s))" "subseq W' (W1 @ filter acceptable arr)"
    using Cons.IH[OF lay] by blast
  have "subseq W1 (W @ filter acceptable [f])"
    by (auto simp: W1_def acceptable_def)
  then have "subseq (W1 @ filter acceptable arr) (W @ filter acceptable [f] @ filter acceptable arr)"
    using list_emb_append_mono[OF _ subseq_order.refl] by (metis append_assoc)
  with W' show ?case
    by (intro exI[of _ W']) (auto elim!: subseq_order.trans)
qed

subsection \<open>Receiving\<close>

text \<open>From \<open>w\<close> to \<open>v\<close> the part \<open>u\<close> of the schedule went by and nothing but the memory changed.\<close>

definition later :: "('h, 'n, 'z) live_scheme \<Rightarrow> bytes list list \<Rightarrow> ('h, 'n, 'z) live_scheme \<Rightarrow> bool" where
  "later w u v \<longleftrightarrow> (\<exists>M q r. v = w\<lparr>l_pkt := (l_pkt w)\<lparr>p_mem := M\<rparr>, l_sched := q, l_race := r\<rparr>
     \<and> l_sched w = u @ q \<and> (l_race w \<longrightarrow> r))"

lemma later_refl: "later w [] w"
  unfolding later_def by (intro exI[of _ "l_mem w"] exI[of _ "l_sched w"] exI[of _ "l_race w"]) simp

lemma laterI: "l_sched w = u @ q \<Longrightarrow> (l_race w \<Longrightarrow> r) \<Longrightarrow>
    later w u (w\<lparr>l_pkt := (l_pkt w)\<lparr>p_mem := M\<rparr>, l_sched := q, l_race := r\<rparr>)"
  unfolding later_def by blast

lemma later_trans:
  assumes "later w u v" "later v u' x"
  shows "later w (u @ u') x"
proof -
  obtain M q r where 1: "v = w\<lparr>l_pkt := (l_pkt w)\<lparr>p_mem := M\<rparr>, l_sched := q, l_race := r\<rparr>" "l_sched w = u @ q" "l_race w \<Longrightarrow> r"
    using assms(1) by (auto simp: later_def)
  obtain M' q' r' where 2: "x = v\<lparr>l_pkt := (l_pkt v)\<lparr>p_mem := M'\<rparr>, l_sched := q', l_race := r'\<rparr>"
    "l_sched v = u' @ q'" "l_race v \<Longrightarrow> r'"
    using assms(2) by (auto simp: later_def)
  show ?thesis
    using laterI[of w "u @ u'" q' r' M'] 1 2 by simp
qed

lemma laterD:
  assumes "later w u v"
  shows "rx_layout d (l_pkt v) = rx_layout d (l_pkt w)" "thunk_lin (l_pkt v) = thunk_lin (l_pkt w)"
    "pk_bounce_linear (l_pkt v) = pk_bounce_linear (l_pkt w)" "rx_pending (l_pkt v) = rx_pending (l_pkt w)"
    "l_sched w = u @ l_sched v" "l_race w \<Longrightarrow> l_race v"
  using assms by (auto simp: later_def rx_layout_def thunk_lin_def)

lemma later_irqs: "later w (take 1 (l_sched w)) (irqs d w)"
proof -
  obtain M where "fold (irq_frame d) (due w) (l_pkt w) = (l_pkt w)\<lparr>p_mem := M\<rparr>"
    using fold_irq_shape by blast
  then show ?thesis unfolding later_def irqs_def
    by (intro exI[of _ M] exI[of _ "tl (l_sched w)"] exI[of _ "l_race w"]) (cases "l_sched w"; simp)
qed

lemma later_note: "later w u v \<Longrightarrow> later w u (note_race b v)"
  unfolding later_def note_race_def by fastforce

lemma taken_due [simp]: "filter acceptable (concat (take (Suc 0) (l_sched w))) = filter acceptable (due w)"
  by (cases "l_sched w") (simp_all add: due_def)

lemma holds_irqs:
  assumes "rx_layout d (l_pkt w)" "holds P W (l_pkt w)"
  shows "\<exists>W'. holds P W' (l_pkt (irqs d w)) \<and> subseq W' (W @ taken (take 1 (l_sched w)))"
  using holds_fold_irq[OF assms, of "due w"] by (simp add: irqs_def)

lemma copy_out_drawn:
  assumes "rx_layout d (l_pkt w)" "drawn (set W \<union> P) n (in_bounce (l_pkt w))" "n \<le> 1518" "set is \<subseteq> {..<n}"
    and "copy_out d (pk_bounce_linear (l_pkt w)) is w = (bs, v)"
  shows "\<exists>u. later w u v \<and> length bs = length is
    \<and> (\<forall>j<length is. \<exists>g\<in>set (W @ taken u) \<union> P. is ! j < length g \<and> bs ! j = g ! (is ! j))
    \<and> (\<not> l_race v \<longrightarrow> taken u = [])"
  using assms(1,2,4,5)
proof (induction "is" arbitrary: w W bs)
  case Nil
  then show ?case using later_refl[of w] by (intro exI[of _ "[]"]) simp
next
  case (Cons i "is")
  define w1 where "w1 = note_race (\<exists>f\<in>set (due w). acceptable f) (irqs d w)"
  let ?u1 = "take 1 (l_sched w)"
  have l1: "later w ?u1 w1" unfolding w1_def by (intro later_note later_irqs)
  note keep = laterD[OF l1]
  obtain cs where cs: "copy_out d (pk_bounce_linear (l_pkt w)) is w1 = (cs, v)" "bs = in_bounce (l_pkt w1) i # cs"
    using Cons.prems(4) keep(3) by (auto simp: Let_def w1_def split: prod.splits)
  have "drawn (set (W @ taken ?u1) \<union> P) n (in_bounce (l_pkt w1))"
    using fold_irq_drawn[OF Cons.prems(1,2) assms(3), of "due w"]
    by (simp add: w1_def note_race_def irqs_def flip: filter_concat) (simp add: Un_ac)
  note IH = Cons.IH[OF _ this, of cs] and here = this
  obtain u where u: "later w1 u v" "length cs = length is" "\<not> l_race v \<longrightarrow> taken u = []"
    "\<forall>j<length is. \<exists>g\<in>set ((W @ taken ?u1) @ taken u) \<union> P. is ! j < length g \<and> cs ! j = g ! (is ! j)"
    using IH Cons.prems(1,3) keep(1,3) cs(1) by auto
  have "\<exists>g\<in>set (W @ taken ?u1) \<union> P. i < length g \<and> in_bounce (l_pkt w1) i = g ! i"
    using here Cons.prems(3) unfolding drawn_def by simp
  then have "\<forall>j<length (i # is). \<exists>g\<in>set (W @ taken (?u1 @ u)) \<union> P. (i # is) ! j < length g \<and> bs ! j = g ! ((i # is) ! j)"
    using u(4) by (auto simp: cs(2) nth_Cons split: nat.split)
  moreover have "taken ?u1 = []" if "\<not> l_race v"
    using that laterD(6)[OF u(1)] by (auto simp: w1_def note_race_def filter_empty_conv)
  ultimately show ?case
    using later_trans[OF l1 u(1)] u(2,3) cs(2) by (intro exI[of _ "?u1 @ u"]) auto
qed

text \<open>From \<open>w\<close> to \<open>v\<close> the part \<open>u\<close> of the schedule went by and only the memory and the receive slot changed.\<close>

definition rx_step :: "('h, 'n, 'z) live_scheme \<Rightarrow> bytes list list \<Rightarrow> ('h, 'n, 'z) live_scheme \<Rightarrow> bool" where
  "rx_step w u v \<longleftrightarrow> (\<exists>M B n p q r. v = w\<lparr>l_pkt := (l_pkt w)\<lparr>p_mem := M, rx_buf := B, rx_len := n, rx_pending := p\<rparr>,
       l_sched := q, l_race := r\<rparr>
     \<and> length B = length (rx_buf (l_pkt w)) \<and> l_sched w = u @ q \<and> (l_race w \<longrightarrow> r))"

lemma rx_stepI: "l_sched w = u @ q \<Longrightarrow> (l_race w \<Longrightarrow> r) \<Longrightarrow> length B = length (rx_buf (l_pkt w)) \<Longrightarrow>
    rx_step w u (w\<lparr>l_pkt := (l_pkt w)\<lparr>p_mem := M, rx_buf := B, rx_len := n, rx_pending := p\<rparr>, l_sched := q, l_race := r\<rparr>)"
  unfolding rx_step_def by blast

lemma rx_stepD:
  assumes "rx_step w u v"
  shows "rx_layout d (l_pkt v) = rx_layout d (l_pkt w)" "thunk_lin (l_pkt v) = thunk_lin (l_pkt w)"
    "pk_bounce_linear (l_pkt v) = pk_bounce_linear (l_pkt w)" "pk_bounce_seg (l_pkt v) = pk_bounce_seg (l_pkt w)"
    "int_num (l_pkt v) = int_num (l_pkt w)" "l_sent v = l_sent w" "live.more v = live.more w"
    "l_sched w = u @ l_sched v" "l_race w \<Longrightarrow> l_race v"
  using assms by (auto simp: rx_step_def rx_layout_def thunk_lin_def)

lemma rx_step_trans:
  assumes "rx_step w u v" "rx_step v u' x"
  shows "rx_step w (u @ u') x"
proof -
  obtain M B n p q r where 1: "v = w\<lparr>l_pkt := (l_pkt w)\<lparr>p_mem := M, rx_buf := B, rx_len := n, rx_pending := p\<rparr>,
      l_sched := q, l_race := r\<rparr>" "length B = length (rx_buf (l_pkt w))" "l_sched w = u @ q" "l_race w \<Longrightarrow> r"
    using assms(1) by (auto simp: rx_step_def)
  obtain M' B' n' p' q' r' where 2: "x = v\<lparr>l_pkt := (l_pkt v)\<lparr>p_mem := M', rx_buf := B', rx_len := n', rx_pending := p'\<rparr>,
      l_sched := q', l_race := r'\<rparr>" "length B' = length (rx_buf (l_pkt v))" "l_sched v = u' @ q'" "l_race v \<Longrightarrow> r'"
    using assms(2) by (auto simp: rx_step_def)
  show ?thesis
    using rx_stepI[of w "u @ u'" q' r' B' p' n' M'] 1 2 by simp
qed

lemma later_rx_step: "later w u v \<Longrightarrow> rx_step w u v"
proof -
  assume "later w u v"
  then obtain M q r where 1: "v = w\<lparr>l_pkt := (l_pkt w)\<lparr>p_mem := M\<rparr>, l_sched := q, l_race := r\<rparr>" "l_sched w = u @ q" "l_race w \<Longrightarrow> r"
    by (auto simp: later_def)
  then show ?thesis
    using rx_stepI[of w u q r "rx_buf (l_pkt w)" "rx_pending (l_pkt w)" "rx_len (l_pkt w)" M] by simp
qed

lemma slot_rx_step:
  "length B = length (rx_buf (l_pkt w)) \<Longrightarrow>
   rx_step w [] (w\<lparr>l_pkt := (l_pkt w)\<lparr>p_mem := M, rx_buf := B, rx_len := n, rx_pending := p\<rparr>\<rparr>)"
  using rx_stepI[of w "[]" "l_sched w" "l_race w" B p n M] by simp

lemma slot_pending_step: "rx_step w [] (w\<lparr>l_pkt := (l_pkt w)\<lparr>rx_pending := p\<rparr>\<rparr>)"
  using slot_rx_step[of "rx_buf (l_pkt w)" w p "rx_len (l_pkt w)" "l_mem w"] by simp

lemma clear_live_step: "rx_step w [] (clear_live d w)"
  using slot_rx_step[of "rx_buf (l_pkt w)" w "rx_pending (l_pkt w)" "rx_len (l_pkt w)"] by (simp add: clear_live_def)

lemma clear_live_waiting: "rx_layout d (l_pkt w) \<Longrightarrow> waiting (l_pkt (clear_live d w)) = []"
  using store_pend_keeps(1)[of d "l_pkt w" 0 0 "l_mem w"]
  by (simp add: clear_live_def waiting_def thunk_lin_def Let_def del: store_bytes.simps)

lemma clear_live_slot [simp]:
  "rx_pending (l_pkt (clear_live d w)) = rx_pending (l_pkt w)" "rx_len (l_pkt (clear_live d w)) = rx_len (l_pkt w)"
  "rx_buf (l_pkt (clear_live d w)) = rx_buf (l_pkt w)" "l_race (clear_live d w) = l_race w" "l_sched (clear_live d w) = l_sched w"
  by (simp_all add: clear_live_def)

lemma fold_irq_pend:
  assumes "rx_layout d s" "read16 (p_mem s) (pend_at s) \<noteq> 0"
  shows "read16 (p_mem (fold (irq_frame d) arr s)) (pend_at s) \<noteq> 0"
  using assms
proof (induction arr arbitrary: s)
  case (Cons f arr)
  have "read16 (p_mem (irq_frame d f s)) (pend_at s) \<noteq> 0"
  proof (cases "length f \<le> 1518")
    case True
    then show ?thesis using irq_frame_memory(1)[OF Cons.prems(1)] by simp
  next
    case False
    then have "irq_frame d f s = s" by (simp add: irq_frame_def)
    with Cons.prems(2) show ?thesis by simp
  qed
  with Cons.IH[of "irq_frame d f s"] Cons.prems(1) show ?case by (simp add: irq_frame_layout)
qed simp

text \<open>
  One poll. The frame that waits on entry and those that arrive meanwhile are split, in order, into the
  window \<open>W1\<close> of the frame that was copied, if any, and the frame that waits afterwards.
\<close>

lemma poll_live_window:
  assumes lay: "rx_layout d (l_pkt w)" and np: "\<not> rx_pending (l_pkt w)" and h: "holds P W (l_pkt w)"
    and v: "poll_live d w = v"
  shows "\<exists>u W1 W2. rx_step w (take 1 (l_sched w) @ u) v \<and> holds P W2 (l_pkt v) \<and> subseq (W1 @ W2) (W @ taken (take 1 (l_sched w) @ u))
    \<and> (\<not> l_race v \<longrightarrow> length W1 \<le> 1)
    \<and> (if rx_pending (l_pkt v)
       then W1 \<noteq> [] \<and> rx_len (l_pkt v) = length (hd W1) \<and> rx_len (l_pkt v) \<le> length (rx_buf (l_pkt v)) \<and> drawn (set W1 \<union> P) (rx_len (l_pkt v)) ((!) (rx_buf (l_pkt v)))
       else W1 = [])"
    (is "\<exists>u W1 W2. ?post u W1 W2")
proof -
  let ?q = "\<lambda>w. take 1 (l_sched w)"
  define w1 where "w1 = irqs d w"
  define w2 where "w2 = irqs d w1"
  have s1: "later w (?q w) w1" and s2: "later w1 (?q w1) w2" unfolding w1_def w2_def by (rule later_irqs)+
  have lay1: "rx_layout d (l_pkt w1)" and lay2: "rx_layout d (l_pkt w2)" and np2: "\<not> rx_pending (l_pkt w2)" and np1: "\<not> rx_pending (l_pkt w1)"
    using lay np laterD(1,4)[OF s1] laterD(1,4)[OF s2] by auto
  have tz: "pk_thunk_seg (l_pkt w) \<noteq> 0" and bz: "pk_bounce_linear (l_pkt w2) \<noteq> 0" and rb: "length (rx_buf (l_pkt w2)) = 1518"
    using lay lay2 by (auto simp: rx_layout_def)
  obtain V1 where V1: "holds P V1 (l_pkt w1)" "subseq V1 (W @ taken (?q w))"
    using holds_irqs[OF lay h] unfolding w1_def by blast
  obtain V2 where V2: "holds P V2 (l_pkt w2)" "subseq V2 (V1 @ taken (?q w1))"
    using holds_irqs[OF lay1 V1(1)] unfolding w2_def by blast
  have V2': "subseq V2 (W @ taken (?q w @ ?q w1))"
    using subseq_order.trans[OF V2(2) list_emb_append_mono[OF V1(2) subseq_order.refl]] by simp
  let ?n = "read16 (l_mem w2) (len_at (l_pkt w2))"
  consider (none) "read16 (l_mem w1) (pend_at (l_pkt w1)) = 0"
    | (bogus) "read16 (l_mem w1) (pend_at (l_pkt w1)) \<noteq> 0" "?n = 0 \<or> ?n > 1518"
    | (frame) "read16 (l_mem w1) (pend_at (l_pkt w1)) \<noteq> 0" "?n \<noteq> 0" "?n \<le> 1518" by linarith
  then show ?thesis
  proof cases
    case none
    then have "v = w1"
      using v np tz by (simp add: poll_live_def w1_def Let_def)
    with V1 later_rx_step[OF s1] np1 have "?post [] [] V1" by simp
    then show ?thesis by blast
  next
    case bogus
    define w3 where "w3 = irqs d w2"
    have s3: "later w2 (?q w2) w3" unfolding w3_def by (rule later_irqs)
    have v3: "v = clear_live d w3"
      using v np tz bogus by (auto simp: poll_live_def w1_def w2_def w3_def Let_def)
    have "rx_step w (?q w @ (?q w1 @ ?q w2)) v"
      using rx_step_trans[OF later_rx_step[OF later_trans[OF later_trans[OF s1 s2] s3]] clear_live_step[of w3 d]] v3 by simp
    moreover have "waiting (l_pkt v) = []" "\<not> rx_pending (l_pkt v)"
      using lay2 np2 v3 by (simp_all add: clear_live_waiting laterD[OF s3])
    ultimately have "?post (?q w1 @ ?q w2) [] []" by (simp add: holds_Nil)
    then show ?thesis by blast
  next
    case frame
    let ?b = "pk_bounce_linear (l_pkt w2)"
    obtain bs x where c: "copy_out d ?b [0..<?n] w2 = (bs, x)" by fastforce
    define x1 where "x1 = x\<lparr>l_pkt := (l_pkt x)\<lparr>rx_buf := bs @ drop ?n (rx_buf (l_pkt x)), rx_len := ?n\<rparr>\<rparr>"
    define x2 where "x2 = irqs d x1"
    have v3: "v = (clear_live d x2)\<lparr>l_pkt := (l_pkt (clear_live d x2))\<lparr>rx_pending := True\<rparr>\<rparr>"
      using v np tz frame bz c by (simp add: poll_live_def w1_def w2_def x1_def x2_def Let_def)
    have "read16 (l_mem w2) (pend_at (l_pkt w2)) \<noteq> 0"
      using fold_irq_pend[OF lay1 frame(1), of "due w1"] laterD(2)[OF s2] by (simp add: w2_def irqs_def)
    then have wt: "waiting (l_pkt w2) = [load_bytes (l_mem w2) ?b ?n]"
      using frame by (simp add: waiting_def Let_def)
    then obtain f where f: "V2 = [f]" "length f = ?n" "drawn (insert f P) ?n ((!) (load_bytes (l_mem w2) ?b ?n))"
      using V2(1) by (auto simp: holds_def list_all2_Cons1)
    then have dr: "drawn (set [f] \<union> P) ?n (in_bounce (l_pkt w2))"
      by (auto simp: drawn_def load_bytes_nth)
    obtain u where u: "later w2 u x" "length bs = ?n"
      "\<forall>j<?n. \<exists>g\<in>set ([f] @ taken u) \<union> P. j < length g \<and> bs ! j = g ! j" "\<not> l_race x \<longrightarrow> taken u = []"
      using copy_out_drawn[OF lay2 dr frame(3) _ c] by (auto simp: subset_iff)
    have rbx: "rx_buf (l_pkt x) = rx_buf (l_pkt w2)" "\<not> rx_pending (l_pkt x)"
      using u(1) np2 by (auto simp: later_def)
    have sx: "rx_step x [] x1"
      using slot_rx_step[of "bs @ drop ?n (rx_buf (l_pkt x))" x "rx_pending (l_pkt x)" ?n "l_mem x"] rbx(1) rb u(2) frame(3)
      by (simp add: x1_def)
    have s4: "later x1 (?q x1) x2" unfolding x2_def by (rule later_irqs)
    have sv: "rx_step (clear_live d x2) [] v"
      unfolding v3 by (rule slot_pending_step)
    note steps = rx_step_trans[OF rx_step_trans[OF rx_step_trans[OF rx_step_trans[OF later_rx_step[OF later_trans[OF later_trans[OF s1 s2] u(1)]] sx]
          later_rx_step[OF s4]] clear_live_step[of x2 d]] sv]
    have slot: "rx_buf (l_pkt v) = bs @ drop ?n (rx_buf (l_pkt w2))" "rx_len (l_pkt v) = ?n" "rx_pending (l_pkt v)" "l_race v = l_race x2"
      using s4 rbx by (auto simp: v3 later_def x1_def)
    have "rx_layout d (l_pkt x2)"
      using lay2 by (simp add: laterD[OF s4] rx_stepD[OF sx] laterD[OF u(1)])
    then have "waiting (l_pkt v) = []"
      using clear_live_waiting[of d x2] by (simp add: v3 waiting_def thunk_lin_def Let_def split: if_splits)
    moreover have "l_race x \<Longrightarrow> l_race v"
      using slot(4) laterD(6)[OF s4] by (simp add: x1_def)
    moreover have "subseq ([f] @ taken u) ((W @ taken (?q w @ ?q w1)) @ taken (u @ ?q x1))"
      using V2' f(1) by (intro list_emb_append_mono) auto
    moreover have "drawn (set ([f] @ taken u) \<union> P) ?n ((!) (rx_buf (l_pkt v)))"
      using u(2,3) by (simp add: drawn_def slot(1) nth_append)
    ultimately have "?post (?q w1 @ u @ ?q x1) ([f] @ taken u) []"
      using steps slot(1-3) f(2) u(2,4) frame(3) rb by (auto simp: holds_Nil)
    then show ?thesis by blast
  qed
qed

lemma rx_pending_rx_len: "s\<lparr>rx_pending := p, rx_len := n\<rparr> = s\<lparr>rx_len := n, rx_pending := p\<rparr>"
  by simp

lemma waiting_slot [simp]: "waiting (s\<lparr>rx_pending := p, rx_len := n\<rparr>) = waiting s"
  by (simp add: waiting_def thunk_lin_def Let_def)

text \<open>One call of \<open>pktdrv_recv\<close>, and \<open>k\<close> of them in a row.\<close>

lemma recv_live_window:
  assumes lay: "rx_layout d (l_pkt w)" and np: "\<not> rx_pending (l_pkt w)" and h: "holds P W (l_pkt w)"
    and r: "recv_live d nic maxlen w = (out, v)"
  shows "\<exists>u W1 W2. rx_step w (take 1 (l_sched w) @ u) v \<and> \<not> rx_pending (l_pkt v) \<and> holds P W2 (l_pkt v)
    \<and> subseq (W1 @ W2) (W @ taken (take 1 (l_sched w) @ u)) \<and> (\<not> l_race v \<longrightarrow> length W1 \<le> 1)
    \<and> (if W1 = [] then out = [] else mixed maxlen P out W1)"
proof -
  define v0 where "v0 = poll_live d w"
  obtain u W1 W2 where p: "rx_step w (take 1 (l_sched w) @ u) v0" "holds P W2 (l_pkt v0)"
    "subseq (W1 @ W2) (W @ taken (take 1 (l_sched w) @ u))" "\<not> l_race v0 \<longrightarrow> length W1 \<le> 1"
    "if rx_pending (l_pkt v0)
     then W1 \<noteq> [] \<and> rx_len (l_pkt v0) = length (hd W1) \<and> rx_len (l_pkt v0) \<le> length (rx_buf (l_pkt v0)) \<and> drawn (set W1 \<union> P) (rx_len (l_pkt v0)) ((!) (rx_buf (l_pkt v0)))
     else W1 = []"
    using poll_live_window[OF lay np h v0_def[symmetric]] by blast
  have ne: "\<not> ne2k_initialized (p_ne2k (l_pkt w))" using lay by (simp add: rx_layout_def)
  show ?thesis
  proof (cases "rx_pending (l_pkt v0)")
    case False
    then have "out = []" "v = v0" using r ne by (simp_all add: recv_live_def v0_def[symmetric] Let_def)
    with p False show ?thesis by (intro exI[of _ u] exI[of _ W1] exI[of _ W2]) simp
  next
    case True
    let ?s = "l_pkt v0"
    have o: "out = take (min maxlen (rx_len ?s)) (rx_buf ?s)" "v = v0\<lparr>l_pkt := ?s\<lparr>rx_pending := False, rx_len := 0\<rparr>\<rparr>"
      using r ne True by (auto simp: recv_live_def v0_def[symmetric] Let_def min_def)
    have "rx_step v0 [] v"
      unfolding o(2) using slot_rx_step[of "rx_buf ?s" v0 False 0 "l_mem v0"] by (simp add: rx_pending_rx_len)
    from rx_step_trans[OF p(1) this] have st: "rx_step w (take 1 (l_sched w) @ u) v" by simp
    have "rx_len ?s \<le> length (rx_buf ?s)" using p(5) True by simp
    then have "mixed maxlen P out W1"
      using p(5) True by (auto simp: mixed_def o(1) drawn_def)
    with st p(2-5) True show ?thesis
      by (intro exI[of _ u] exI[of _ W1] exI[of _ W2]) (simp add: o(2) holds_def)
  qed
qed

lemma recvs_windows:
  assumes "rx_layout d (l_pkt w)" "\<not> rx_pending (l_pkt w)" "holds P W (l_pkt w)" "recvs d nic maxlen k w = (got, v)"
  shows "\<exists>u ws W2. rx_step w u v \<and> holds P W2 (l_pkt v) \<and> list_all2 (mixed maxlen P) got ws
    \<and> subseq (concat ws @ W2) (W @ taken u) \<and> (\<not> l_race v \<longrightarrow> list_all (\<lambda>W. length W \<le> 1) ws)"
  using assms
proof (induction k arbitrary: w W got)
  case 0
  then show ?case
    using later_rx_step[OF later_refl, of w] by (intro exI[of _ "[]"] exI[of _ W]) simp
next
  case (Suc k)
  obtain out x where x: "recv_live d nic maxlen w = (out, x)" by fastforce
  obtain outs where outs: "recvs d nic maxlen k x = (outs, v)" "got = (if out = [] then outs else out # outs)"
    using Suc.prems(4) x by (auto simp: Let_def split: prod.splits)
  obtain u W1 W2 where r: "rx_step w u x" "\<not> rx_pending (l_pkt x)" "holds P W2 (l_pkt x)" "subseq (W1 @ W2) (W @ taken u)"
    "\<not> l_race x \<longrightarrow> length W1 \<le> 1" "if W1 = [] then out = [] else mixed maxlen P out W1"
    using recv_live_window[OF Suc.prems(1-3) x] by blast
  obtain u' ws W3 where i: "rx_step x u' v" "holds P W3 (l_pkt v)" "list_all2 (mixed maxlen P) outs ws"
    "subseq (concat ws @ W3) (W2 @ taken u')" "\<not> l_race v \<longrightarrow> list_all (\<lambda>W. length W \<le> 1) ws"
    using Suc.IH[OF _ r(2,3) outs(1)] Suc.prems(1) rx_stepD(1)[OF r(1)] by blast
  have "subseq (W1 @ (W2 @ taken u')) (W @ taken (u @ u'))"
    using list_emb_append_mono[OF r(4) subseq_order.refl, of "taken u'"] by simp
  then have s: "subseq (W1 @ concat ws @ W3) (W @ taken (u @ u'))"
    using list_emb_append_mono[OF subseq_order.refl i(4), of W1] subseq_order.trans by blast
  have race: "\<not> l_race v \<longrightarrow> length W1 \<le> 1" using r(5) rx_stepD(9)[OF i(1)] by blast
  show ?case
  proof (cases "out = []")
    case True
    have "subseq (concat ws @ W3) (W @ taken (u @ u'))"
      by (rule subseq_order.trans[OF subseq_drop_many[OF subseq_order.refl] s])
    moreover have "list_all2 (mixed maxlen P) got ws" using True outs(2) i(3) by simp
    ultimately show ?thesis using i(2,5) rx_step_trans[OF r(1) i(1)] by blast
  next
    case False
    then have "mixed maxlen P out W1" using r(6) by (auto split: if_splits)
    then have "list_all2 (mixed maxlen P) got (W1 # ws)" "subseq (concat (W1 # ws) @ W3) (W @ taken (u @ u'))"
      "\<not> l_race v \<longrightarrow> list_all (\<lambda>W. length W \<le> 1) (W1 # ws)"
      using False outs(2) i(3,5) s race by simp_all
    with i(2) rx_step_trans[OF r(1) i(1)] show ?thesis by blast
  qed
qed

text \<open>A window of one frame that nothing was written over is that frame.\<close>

lemma mixed_single:
  assumes "mixed maxlen {} out W" "length W \<le> 1"
  shows "map (take maxlen) W = [out]"
proof -
  obtain f where f: "W = [f]" using assms by (cases W) (auto simp: mixed_def)
  have l: "length out = min maxlen (length f)" using assms(1) by (simp add: mixed_def f)
  have n: "out ! i = f ! i" if "i < length out" for i
  proof -
    have "\<exists>g\<in>set W \<union> {}. i < length g \<and> out ! i = g ! i"
      using assms(1) that unfolding mixed_def drawn_def by blast
    then show ?thesis by (simp add: f)
  qed
  have "take maxlen f = out"
    by (rule nth_equalityI) (simp_all add: l n)
  with f show ?thesis by simp
qed

lemma mixed_all_single:
  assumes "list_all2 (mixed maxlen {}) got ws" "list_all (\<lambda>W. length W \<le> 1) ws"
  shows "got = map (take maxlen) (concat ws)"
  using assms
proof (induction rule: list_all2_induct)
  case (Cons out outs W ws)
  then show ?case using mixed_single[of maxlen out W] by simp
qed simp

section \<open>Properties\<close>

text \<open>
  C5. Receiving under any schedule of interrupts, those inside \<open>pktdrv_recv\<close> and inside its copy
  included. Every frame handed out has a window of frames that arrived: it has the length of the first,
  cut at \<open>maxlen\<close>, and each of its bytes stands at its own place in one of them. The windows follow each
  other in the order of arrival and no frame is in two, so nothing is handed out twice or out of order.
  When no frame arrived inside a copy the windows are single frames and what is handed out is a
  subsequence of the frames that arrived, each whole up to \<open>maxlen\<close>; otherwise a frame may be torn.
\<close>

theorem rx_in_order:
  assumes "rx_layout d s" "\<not> rx_pending s" "waiting s = []"
    and "recvs d nic maxlen k \<lparr>l_pkt = s, l_sched = q, l_race = False, l_sent = []\<rparr> = (got, w)"
  shows "\<exists>u ws. q = u @ l_sched w \<and> list_all2 (mixed maxlen {}) got ws \<and> subseq (concat ws) (filter acceptable (concat u))
    \<and> (\<not> l_race w \<longrightarrow> subseq got (map (take maxlen) (filter acceptable (concat u))))"
proof -
  obtain u ws W2 where r: "rx_step \<lparr>l_pkt = s, l_sched = q, l_race = False, l_sent = []\<rparr> u w"
    "list_all2 (mixed maxlen {}) got ws" "subseq (concat ws @ W2) (filter acceptable (concat u))"
    "\<not> l_race w \<longrightarrow> list_all (\<lambda>W. length W \<le> 1) ws"
    using recvs_windows[OF _ _ _ assms(4), of "{}" "[]"] assms(1-3) by (auto simp: holds_Nil)
  have s: "subseq (concat ws) (filter acceptable (concat u))"
    using r(3) subseq_order.trans[OF subseq_rev_drop_many[OF subseq_order.refl]] by blast
  then have "subseq got (map (take maxlen) (filter acceptable (concat u)))" if "\<not> l_race w"
    using mixed_all_single[OF r(2)] r(4) that by (simp add: subseq_map)
  with r(2) s rx_stepD(8)[OF r(1)] show ?thesis by auto
qed

text \<open>Two frames of two bytes; the second arrives when one byte of the first is copied.\<close>

lemma rx_torn: "fst (recvs demo_host (const_nic 0) 1514 1 \<lparr>l_pkt = demo_ready, l_sched = [[[1, 2]], [], [], [[3, 4]]],
    l_race = False, l_sent = []\<rparr>) = [[1, 4]]"
  by code_simp

theorem rx_in_order_witness:
  "\<exists>ws. list_all2 (mixed 1514 {}) [[1, 4]] ws \<and> subseq (concat ws) [[1, 2], [3, 4]]"
proof -
  obtain w where r: "recvs demo_host (const_nic 0) 1514 1 \<lparr>l_pkt = demo_ready, l_sched = [[[1, 2]], [], [], [[3, 4]]],
      l_race = False, l_sent = []\<rparr> = ([[1, 4]], w)"
    using rx_torn by (metis prod.collapse)
  obtain u ws where u: "[[[1, 2]], [], [], [[3, 4]]] = u @ l_sched w" "list_all2 (mixed 1514 {}) [[1, 4]] ws"
    "subseq (concat ws) (taken u)"
    using rx_in_order[OF demo_ready_layout demo_ready_slots(1,2) r] by blast
  have "taken ([[[1, 2]], [], [], [[3, 4 :: byte]]] :: bytes list list) = [[1, 2], [3, 4]]" by (simp add: acceptable_def)
  then have "[[1, 2], [3, 4]] = taken u @ taken (l_sched w)" by (simp add: u(1))
  with u(2,3) subseq_rev_drop_many[OF u(3), of "taken (l_sched w)"] show ?thesis by metis
qed

end
