(* ===== verification/Net_Irq.thy ===== *)
theory Net_Irq
  imports Pkt_Irq
begin

text \<open>
  The network stack of \<open>Net_Stack\<close> on the driver of \<open>Pkt_Irq\<close>: the lwIP glue polls and sends while
  frames arrive at any time, also inside the copies of the driver and while a received frame waits.
\<close>

section \<open>Definitions\<close>

record ('h, 'n, 'l) live_world = "('h, 'n) live" +
  v_ip :: 'l

definition live_env ::
  "('h, 'x) pkt_host_scheme \<Rightarrow> ('n, 'y) nic_scheme \<Rightarrow> ('h, 'n, 'l) live_world net_env \<Rightarrow> ('h, 'n, 'l) live_world net_env" where
  "live_env d nic e = e\<lparr>
     pktdrv_is_active := (\<lambda>w. Pktdrv.pktdrv_is_active (l_pkt w)),
     pktdrv_init := (\<lambda>w. case Pktdrv.pktdrv_init d nic (l_pkt w) of ((rc, mac), s) \<Rightarrow> (rc, mac, w\<lparr>l_pkt := s\<rparr>)),
     pktdrv_send := (\<lambda>p w. send_live d nic p (length p) w),
     pktdrv_recv := (\<lambda>n w. recv_live d nic n w)\<rparr>"

fun sends :: "('h, 'x) pkt_host_scheme \<Rightarrow> ('n, 'y) nic_scheme \<Rightarrow> bytes list \<Rightarrow> ('h, 'n, 'z) live_scheme
    \<Rightarrow> ('h, 'n, 'z) live_scheme option" where
  "sends d nic [] w = Some w"
| "sends d nic (p # ps) w =
     (case send_live d nic p (length p) w of None \<Rightarrow> None | Some (rc, w) \<Rightarrow> sends d nic ps w)"

text \<open>
  What lwIP does with a frame, as in \<open>Net_Stack\<close>: packet buffers are available, a frame is taken over
  whole, and the driver is touched by sending only.
\<close>

definition lwip_live ::
  "('h, 'x) pkt_host_scheme \<Rightarrow> ('n, 'y) nic_scheme \<Rightarrow> ('h, 'n, 'l) live_world net_env \<Rightarrow> ('l \<Rightarrow> bytes list) \<Rightarrow> bool" where
  "lwip_live d nic e L \<longleftrightarrow>
     (\<forall>w n. case pbuf_alloc e n w of (ok, v) \<Rightarrow> ok \<and> v = w\<lparr>v_ip := v_ip v\<rparr> \<and> L (v_ip v) = L (v_ip w))
     \<and> (\<forall>w f. case netif_input e f w of (er, v) \<Rightarrow>
          L (v_ip v) = L (v_ip w) @ [f] \<and> (\<exists>ps u. sends d nic ps w = Some u \<and> v = u\<lparr>v_ip := v_ip v\<rparr>))"

text \<open>Runs of the stack: the glue polls and the program sends, in any order; the arrivals are in the schedule.\<close>

inductive live_run :: "('h, 'n, 'l) live_world net_env \<Rightarrow> ('h, 'n, 'l) live_world eth \<Rightarrow> ('h, 'n, 'l) live_world eth \<Rightarrow> bool"
  for e s where
  run_start: "live_run e s s"
| run_poll: "live_run e s t \<Longrightarrow> uc386dos_eth_pump_rx e t = Some u \<Longrightarrow> live_run e s u"
| run_send: "live_run e s t \<Longrightarrow> uc386dos_eth_linkoutput e p (e_world t) = Some (er, w) \<Longrightarrow>
    live_run e s (t\<lparr>e_world := w\<rparr>)"

section \<open>Lemmas\<close>

subsection \<open>Sending\<close>

lemma waiting_cong:
  assumes "thunk_lin t = thunk_lin s" "pk_bounce_linear t = pk_bounce_linear s"
    and "read16 (p_mem t) (pend_at s) = read16 (p_mem s) (pend_at s)" "read16 (p_mem t) (len_at s) = read16 (p_mem s) (len_at s)"
    and "\<And>n. n \<le> 1518 \<Longrightarrow> load_bytes (p_mem t) (pk_bounce_linear s) n = load_bytes (p_mem s) (pk_bounce_linear s) n"
  shows "waiting t = waiting s"
  using assms by (auto simp: waiting_def Let_def)

lemma holds_mono: "holds P W s \<Longrightarrow> P \<subseteq> P' \<Longrightarrow> holds P' W s"
  unfolding holds_def by (erule list_all2_mono) (auto elim!: drawn_mono)

lemma mixed_mono: "mixed n P out W \<Longrightarrow> P \<subseteq> P' \<Longrightarrow> mixed n P' out W"
  unfolding mixed_def by (auto elim!: drawn_mono)

lemma holds_length: "holds P W s \<Longrightarrow> length W = length (waiting s)"
  unfolding holds_def by (simp add: list_all2_lengthD)

lemma waiting_length: "length (waiting s) \<le> 1"
  by (simp add: waiting_def Let_def)

lemma bounce_byte_apart:
  assumes "rx_layout d s" "i < 2048" "k < 0x4F"
  shows "pk_bounce_linear s + of_nat i \<noteq> thunk_lin s + of_nat k" "pk_bounce_linear s + of_nat i \<noteq> thunk_lin s + of_nat k + 1"
proof -
  have "in_block (pk_bounce_linear s) 2048 (pk_bounce_linear s + of_nat i)"
    using assms(2) by (simp add: in_block_def unat_of_nat take_bit_nat_eq_self)
  then show "pk_bounce_linear s + of_nat i \<noteq> thunk_lin s + of_nat k"
    "pk_bounce_linear s + of_nat i \<noteq> thunk_lin s + of_nat k + 1"
    using rx_layout_word(3,4)[OF assms(1,3), of 2048] by auto
qed

text \<open>A byte to be sent is stored in the bounce buffer.\<close>

definition put_byte :: "('h, 'x) dpmi_scheme \<Rightarrow> nat \<Rightarrow> bytes \<Rightarrow> ('h, 'n) pkt \<Rightarrow> ('h, 'n) pkt" where
  "put_byte d i p s = s\<lparr>p_mem := store d (pk_bounce_linear s + of_nat i) (p ! i) (p_mem s)\<rparr>"

lemma put_byte_holds:
  assumes lay: "rx_layout d s" and i: "i < length p" "length p \<le> 2048"
  shows "holds P W s \<Longrightarrow> p \<in> P \<Longrightarrow> holds P W (put_byte d i p s)" "waiting s = [] \<Longrightarrow> waiting (put_byte d i p s) = []"
proof -
  let ?t = "put_byte d i p s" and ?b = "pk_bounce_linear s"
  have i': "i < 2048" using i by simp
  have "in_block ?b 2048 (?b + of_nat i)"
    using i' by (simp add: in_block_def unat_of_nat take_bit_nat_eq_self)
  then have wr: "writable d (?b + of_nat i)" using lay by (simp add: rx_layout_def)
  have w: "read16 (p_mem ?t) (pend_at s) = read16 (p_mem s) (pend_at s)" "read16 (p_mem ?t) (len_at s) = read16 (p_mem s) (len_at s)"
    using bounce_byte_apart[OF lay i', of "0x40"] bounce_byte_apart[OF lay i', of "0x42"]
    by (simp_all add: put_byte_def read16_def store_def)
  have same: "thunk_lin ?t = thunk_lin s" "pk_bounce_linear ?t = ?b" by (simp_all add: put_byte_def thunk_lin_def)
  show "waiting s = [] \<Longrightarrow> waiting ?t = []"
    using w same by (auto simp: waiting_def Let_def split: if_splits)
  assume h: "holds P W s" and p: "p \<in> P"
  show "holds P W ?t"
  proof (cases "waiting s = []")
    case True
    with h w same show ?thesis by (auto simp: holds_def waiting_def Let_def split: if_splits)
  next
    case False
    let ?n = "read16 (p_mem s) (len_at s)"
    have ws: "waiting s = [load_bytes (p_mem s) ?b ?n]" "waiting ?t = [load_bytes (p_mem ?t) ?b ?n]" and n: "?n \<le> 1518"
      using False w same by (auto simp: waiting_def Let_def split: if_splits)
    obtain f where f: "W = [f]" "length f = ?n" "drawn (insert f P) ?n ((!) (load_bytes (p_mem s) ?b ?n))"
      using h ws(1) by (auto simp: holds_def list_all2_Cons1)
    have ld: "load_bytes (p_mem ?t) ?b ?n ! j = load_bytes (p_mem s) ?b ?n ! j
        \<or> j < length p \<and> load_bytes (p_mem ?t) ?b ?n ! j = p ! j" if "j < ?n" for j
    proof (cases "j = i")
      case True
      then show ?thesis using that i(1) by (simp add: load_bytes_nth put_byte_def store_def wr)
    next
      case False
      then have "unat (of_nat j :: u32) \<noteq> unat (of_nat i :: u32)"
        using that n i' by (simp add: unat_of_nat take_bit_nat_eq_self)
      then have "?b + of_nat j \<noteq> ?b + of_nat i" by auto
      with that show ?thesis by (simp add: load_bytes_nth put_byte_def store_def)
    qed
    have "drawn (insert p (insert f P)) ?n ((!) (load_bytes (p_mem ?t) ?b ?n))"
      by (rule drawn_byte[OF f(3) ld])
    with p have "drawn (insert f P) ?n ((!) (load_bytes (p_mem ?t) ?b ?n))" by (simp add: insert_absorb)
    with f ws(2) show ?thesis by (simp add: holds_def)
  qed
qed

text \<open>The copy of a frame into the bounce buffer, in the same terms.\<close>

lemma copy_in_holds:
  assumes "rx_layout d (l_pkt w)" "holds P W (l_pkt w)" "set is \<subseteq> {..<length p}" "length p \<le> 2048"
    and "copy_in d (pk_bounce_linear (l_pkt w)) p is w = v"
  shows "\<exists>u P' W'. later w u v \<and> holds P' W' (l_pkt v) \<and> P' \<subseteq> insert p P \<and> (\<not> l_race v \<longrightarrow> P' = P)
    \<and> subseq W' (W @ taken u)"
  using assms(1-3,5)
proof (induction "is" arbitrary: w P W)
  case Nil
  then show ?case using later_refl[of w] by (intro exI[of _ "[]"] exI[of _ P] exI[of _ W]) auto
next
  case (Cons i "is")
  let ?u1 = "take 1 (l_sched w)"
  define w1 where "w1 = irqs d w"
  define r where "r \<longleftrightarrow> waiting (l_pkt w1) \<noteq> []"
  define w2 where "w2 = note_race r w1"
  define w3 where "w3 = w2\<lparr>l_pkt := put_byte d i p (l_pkt w2)\<rparr>"
  have s1: "later w ?u1 w1" unfolding w1_def by (rule later_irqs)
  have s2: "later w ?u1 w2" unfolding w2_def by (rule later_note[OF s1])
  have s3: "later w2 [] w3"
    using laterI[of w2 "[]" "l_sched w2" "l_race w2"] by (simp add: w3_def put_byte_def)
  note s13 = later_trans[OF s2 s3, simplified]
  note k1 = laterD[OF s1] and k2 = laterD[OF s2] and k3 = laterD[OF s13]
  have pk: "l_pkt w2 = l_pkt w1" "l_race w3 \<longleftrightarrow> l_race w1 \<or> r" by (simp_all add: w2_def w3_def note_race_def)
  obtain W1 where W1: "holds P W1 (l_pkt w1)" "subseq W1 (W @ taken ?u1)"
    using holds_irqs[OF Cons.prems(1,2)] unfolding w1_def by blast
  define P1 where "P1 = (if r then insert p P else P)"
  have i: "i < length p" using Cons.prems(3) by simp
  have lay1: "rx_layout d (l_pkt w1)" using Cons.prems(1) by (simp add: k1(1))
  have "holds P1 W1 (l_pkt w3)"
  proof (cases r)
    case True
    then show ?thesis
      using put_byte_holds(1)[OF lay1 i assms(4) holds_mono[OF W1(1), of "insert p P"]] by (auto simp: P1_def w3_def pk)
  next
    case False
    then have "waiting (l_pkt w1) = []" by (simp add: r_def)
    with put_byte_holds(2)[OF lay1 i assms(4) this] W1(1) False show ?thesis by (simp add: P1_def w3_def pk holds_def)
  qed
  note IH = Cons.IH[OF _ this]
  have "copy_in d (pk_bounce_linear (l_pkt w3)) p is w3 = v"
    using Cons.prems(4) k1(3) by (simp add: w1_def[symmetric] r_def[symmetric] w2_def[symmetric] Let_def)
      (simp add: w3_def put_byte_def pk(1))
  then obtain u P' W' where u: "later w3 u v" "holds P' W' (l_pkt v)" "P' \<subseteq> insert p P1" "\<not> l_race v \<longrightarrow> P' = P1" "subseq W' (W1 @ taken u)"
    using IH Cons.prems(1,3) by (auto simp: k3(1))
  have "subseq W' (W @ taken (?u1 @ u))"
    using subseq_order.trans[OF u(5) list_emb_append_mono[OF W1(2) subseq_order.refl]] by simp
  moreover have "\<not> l_race v \<longrightarrow> \<not> r" using laterD(6)[OF u(1)] pk(2) by blast
  moreover have "P' \<subseteq> insert p P" using u(3) by (auto simp: P1_def split: if_splits)
  ultimately show ?case
    using later_trans[OF s13 u(1)] u(2,4) by (intro exI[of _ "?u1 @ u"] exI[of _ P'] exI[of _ W']) (auto simp: P1_def)
qed

text \<open>The dispatch leaves what the receiver reads as it was.\<close>

lemma dispatch_waiting:
  assumes "pk_ready d a s" "send_keeps d a 0x50" "send_keeps d (pk_bounce_linear s) 2048" "eax rm = 0x0400"
    and "int60 d rm s = (cf, rm', t)"
  shows "waiting t = waiting s" "\<exists>M h. t = s\<lparr>p_mem := M, p_host := h\<rparr>"
proof -
  let ?rm = "rm\<lparr>cs := ucast (pk_thunk_seg s), ip := 0, ss := 0, sp := 0\<rparr>"
  have lay: "thunk_lin s = a" "pk_thunk_seg s \<noteq> 0" using assms(1) by (auto simp: pk_ready_def rx_layout_def)
  obtain c M h where c: "rm_call d ?rm (p_mem s) (p_host s) = (c, rm', M, h)" "t = s\<lparr>p_mem := M, p_host := h\<rparr>"
    using assms(5) lay(2) by (auto simp: int60_def pktdrv_call_int60_thunk_def Let_def split: prod.splits)
  show "\<exists>M h. t = s\<lparr>p_mem := M, p_host := h\<rparr>" using c(2) by blast
  have e: "eax ?rm = 0x0400" using assms(4) by simp
  have m: "M x = p_mem s x" if "in_block a 0x50 x \<or> in_block (pk_bounce_linear s) 2048 x" for x
    using that send_keepsD[OF assms(2) e _ c(1)] send_keepsD[OF assms(3) e _ c(1)] by blast
  have "in_block a 0x50 (a + of_nat k)" "in_block a 0x50 (a + of_nat k + 1)" if "k < 0x4F" for k
    using in_block_offset[of k "0x50" a] in_block_offset[of "Suc k" "0x50" a] that by (simp_all add: ac_simps)
  from this[of "0x40"] this[of "0x42"]
  have "read16 M (a + 0x40) = read16 (p_mem s) (a + 0x40)" "read16 M (a + 0x42) = read16 (p_mem s) (a + 0x42)"
    by (simp_all add: read16_def m)
  moreover have "load_bytes M (pk_bounce_linear s) n = load_bytes (p_mem s) (pk_bounce_linear s) n" if "n \<le> 1518" for n
    using that by (intro load_bytes_cong m disjI2) (auto simp: in_block_def)
  ultimately show "waiting t = waiting s"
    using lay by (intro waiting_cong) (simp_all add: c(2) thunk_lin_def)
qed

lemma send_live_holds:
  assumes "pk_ready d a (l_pkt w)" "holds P W (l_pkt w)" "send_keeps d a 0x50" "send_keeps d (pk_bounce_linear (l_pkt w)) 2048"
    and "P \<subseteq> set (l_sent w)"
  shows "\<exists>rc v u P' W'. send_live d nic p (length p) w = Some (rc, v) \<and> l_sched w = u @ l_sched v \<and> (l_race w \<longrightarrow> l_race v)
    \<and> pk_ready d a (l_pkt v) \<and> pk_bounce_linear (l_pkt v) = pk_bounce_linear (l_pkt w) \<and> holds P' W' (l_pkt v)
    \<and> P' \<subseteq> set (l_sent v) \<and> set (l_sent w) \<subseteq> set (l_sent v) \<and> (\<not> l_race v \<longrightarrow> P' = P) \<and> subseq W' (W @ taken u)
    \<and> live.more v = live.more w"
proof (cases "length p \<le> 2048")
  case False
  have "send_live d nic p (length p) w = Some (-1, w)"
    using assms(1) False by (simp add: send_live_def pk_ready_def rx_layout_def)
  moreover have "l_sched w = [] @ l_sched w" "subseq W (W @ taken [])" by simp_all
  ultimately show ?thesis using assms(1,2,5) by blast
next
  case True
  let ?w0 = "w\<lparr>l_sent := l_sent w @ [p]\<rparr>"
  define w1 where "w1 = copy_in d (pk_bounce_linear (l_pkt w)) p [0..<length p] ?w0"
  define w2 where "w2 = irqs d w1"
  have r: "rx_layout d (l_pkt ?w0)" "holds P W (l_pkt ?w0)" using assms(1,2) by (simp_all add: pk_ready_def)
  have "set [0..<length p] \<subseteq> {..<length p}" by auto
  then obtain u P' W1 where c: "later ?w0 u w1" "holds P' W1 (l_pkt w1)" "P' \<subseteq> insert p P" "\<not> l_race w1 \<longrightarrow> P' = P"
      "subseq W1 (W @ taken u)"
    using copy_in_holds[OF r _ True, of "[0..<length p]" w1] by (auto simp: w1_def)
  have lay1: "rx_layout d (l_pkt w1)" using r(1) by (simp add: laterD[OF c(1)])
  obtain W2 where W2: "holds P' W2 (l_pkt w2)" "subseq W2 (W1 @ taken (take 1 (l_sched w1)))"
    using holds_irqs[OF lay1 c(2)] unfolding w2_def by blast
  have s2: "later ?w0 (u @ take 1 (l_sched w1)) w2"
    unfolding w2_def by (rule later_trans[OF c(1) later_irqs])
  have race: "l_race w2 = l_race w1" by (simp add: w2_def irqs_def)
  obtain M where l2: "l_pkt w2 = (l_pkt w)\<lparr>p_mem := M\<rparr>" using s2 by (auto simp: later_def)
  have kept: "l_sent w2 = l_sent w @ [p]" "live.more w2 = live.more w" using s2 by (auto simp: later_def)
  have r2: "pk_ready d a (l_pkt w2)" using assms(1) by (simp add: l2 pk_ready_def rx_layout_def thunk_lin_def)
  let ?rm = "rmcs0\<lparr>ebx := word_of_int (handle (l_pkt w2)), ecx := of_nat (length p), eax := 0x0400, ds := ucast (pk_bounce_seg (l_pkt w2))\<rparr>"
  obtain cf rm' t where i: "int60 d ?rm (l_pkt w2) = (cf, rm', t)" by (cases "int60 d ?rm (l_pkt w2)")
  have e: "eax ?rm = 0x0400" by simp
  have k2: "send_keeps d (pk_bounce_linear (l_pkt w2)) 2048" using assms(4) by (simp add: l2)
  note dis = dispatch_waiting[OF r2 assms(3) k2 e i]
  obtain M' h where t: "t = (l_pkt w2)\<lparr>p_mem := M', p_host := h\<rparr>" using dis(2) by blast
  have pn: "p_ne2k t = p_ne2k (l_pkt w2)" by (simp add: t)
  obtain rc ne where s: "send_live d nic p (length p) w = Some (rc, w2\<lparr>l_pkt := t\<lparr>p_ne2k := (p_ne2k t)\<lparr>n_dev := ne\<rparr>\<rparr>\<rparr>)"
    using assms(1) True i by (simp add: send_live_def pk_ready_def rx_layout_def Let_def w1_def[symmetric] w2_def[symmetric] split_beta flip: pn)
  let ?t = "t\<lparr>p_ne2k := (p_ne2k t)\<lparr>n_dev := ne\<rparr>\<rparr>"
  have wt: "waiting ?t = waiting (l_pkt w2)"
    unfolding dis(1)[symmetric] by (simp add: waiting_def thunk_lin_def Let_def)
  have ft: "pk_ready d a ?t" "pk_bounce_linear ?t = pk_bounce_linear (l_pkt w)"
    using r2 l2 by (simp_all add: t pk_ready_def rx_layout_def thunk_lin_def)
  have "holds P' W2 ?t" using W2(1) wt by (simp add: holds_def)
  moreover have "subseq W2 (W @ taken (u @ take 1 (l_sched w1)))"
    using subseq_order.trans[OF W2(2) list_emb_append_mono[OF c(5) subseq_order.refl]] by simp
  moreover have "P' \<subseteq> set (l_sent w2)" "set (l_sent w) \<subseteq> set (l_sent w2)"
    using c(3) assms(5) by (auto simp: kept(1))
  ultimately show ?thesis
    using s kept(2) ft c(4) race laterD(5,6)[OF s2]
    by (intro exI[of _ rc] exI[of _ "w2\<lparr>l_pkt := ?t\<rparr>"] exI[of _ "u @ take 1 (l_sched w1)"] exI[of _ P'] exI[of _ W2]) simp
qed

subsection \<open>The flow of frames\<close>

text \<open>
  From \<open>s\<close> to \<open>w\<close> the driver handed out \<open>got\<close>, with the windows \<open>ws\<close>, and \<open>W\<close> is the window of the frame
  that waits; \<open>P\<close> are the sent frames that were written over a frame that waited.
\<close>

definition flow :: "('h, 'x) pkt_host_scheme \<Rightarrow> u32 \<Rightarrow> u32 \<Rightarrow> ('h, 'n, 'z) live_scheme \<Rightarrow> bytes set \<Rightarrow> bytes list
    \<Rightarrow> bytes list list \<Rightarrow> bytes list \<Rightarrow> ('h, 'n, 'z) live_scheme \<Rightarrow> bool" where
  "flow d a b s P got ws W w \<longleftrightarrow> (\<exists>u. l_sched s = u @ l_sched w \<and> subseq (concat ws @ W) (taken u))
     \<and> pk_ready d a (l_pkt w) \<and> pk_bounce_linear (l_pkt w) = b \<and> P \<subseteq> set (l_sent w)
     \<and> list_all2 (mixed 1514 P) got ws \<and> holds P W (l_pkt w)
     \<and> (\<not> l_race w \<longrightarrow> P = {} \<and> list_all (\<lambda>W. length W \<le> 1) ws)"

text \<open>What is left to do: the schedule, and the frame that waits.\<close>

definition load :: "('h, 'n, 'z) live_scheme \<Rightarrow> nat" where
  "load w = 2 * length (l_sched w) + length (waiting (l_pkt w))"

lemma flow_start: "pk_idle d a (l_pkt s) \<Longrightarrow> flow d a (pk_bounce_linear (l_pkt s)) s {} [] [] [] s"
  by (auto simp: flow_def pk_idle_def holds_Nil)

lemma subseq_extend:
  assumes "subseq (xs @ W) A" "subseq V (W @ B)"
  shows "subseq (xs @ V) (A @ B)"
proof -
  have "subseq (xs @ V) ((xs @ W) @ B)"
    using list_emb_append_mono[OF subseq_order.refl assms(2), of xs] by simp
  then show ?thesis
    by (rule subseq_order.trans) (rule list_emb_append_mono[OF assms(1) subseq_order.refl])
qed

lemma flow_send:
  assumes f: "flow d a b s P got ws W w" and k: "send_keeps d a 0x50" "send_keeps d b 2048"
  shows "\<exists>rc v P' W'. send_live d nic p (length p) w = Some (rc, v) \<and> flow d a b s P' got ws W' v \<and> live.more v = live.more w
    \<and> length (l_sched v) \<le> length (l_sched w) \<and> (l_sched w = [] \<longrightarrow> load v \<le> load w)"
proof -
  have r: "pk_ready d a (l_pkt w)" "pk_bounce_linear (l_pkt w) = b" "P \<subseteq> set (l_sent w)" "holds P W (l_pkt w)"
    "list_all2 (mixed 1514 P) got ws" "\<not> l_race w \<longrightarrow> P = {} \<and> list_all (\<lambda>W. length W \<le> 1) ws"
    using f by (simp_all add: flow_def)
  obtain u0 where u0: "l_sched s = u0 @ l_sched w" "subseq (concat ws @ W) (taken u0)"
    using f by (auto simp: flow_def)
  obtain rc v u P' W' where v: "send_live d nic p (length p) w = Some (rc, v)" "l_sched w = u @ l_sched v"
    "l_race w \<longrightarrow> l_race v" "pk_ready d a (l_pkt v)" "pk_bounce_linear (l_pkt v) = pk_bounce_linear (l_pkt w)"
    "holds P' W' (l_pkt v)" "P' \<subseteq> set (l_sent v)" "set (l_sent w) \<subseteq> set (l_sent v)" "\<not> l_race v \<longrightarrow> P' = P"
    "subseq W' (W @ taken u)" "live.more v = live.more w"
    using send_live_holds[OF r(1,4) k(1) _ r(3)] k(2) r(2) by metis
  define Q where "Q = P \<union> P'"
  have Q: "P \<subseteq> Q" "P' \<subseteq> Q" "Q \<subseteq> set (l_sent v)" using r(3) v(7,8) by (auto simp: Q_def)
  have "list_all2 (mixed 1514 Q) got ws" "holds Q W' (l_pkt v)"
    using r(5) by (auto elim: list_all2_mono mixed_mono[OF _ Q(1)]) (rule holds_mono[OF v(6) Q(2)])
  moreover have "l_sched s = (u0 @ u) @ l_sched v" "subseq (concat ws @ W') (taken (u0 @ u))"
    using u0(1) v(2) subseq_extend[OF u0(2) v(10)] by simp_all
  moreover have "\<not> l_race v \<longrightarrow> Q = {} \<and> list_all (\<lambda>W. length W \<le> 1) ws"
    using r(6) v(3,9) by (auto simp: Q_def)
  ultimately have "flow d a b s Q got ws W' v"
    unfolding flow_def using v(4,5) r(2) Q(3) by blast
  moreover have "load v \<le> load w" if "l_sched w = []"
    using list_emb_length[OF v(10)] v(2) that holds_length[OF v(6)] holds_length[OF r(4)] by (simp add: load_def)
  ultimately show ?thesis using v(1,2,11) by (metis le_add2 length_append)
qed

lemma flow_recv:
  assumes f: "flow d a b s P got ws W w" and r: "recv_live d nic 1514 w = (out, v)"
  shows "\<exists>got' ws' W'. flow d a b s P got' ws' W' v \<and> got' = (if out = [] then got else got @ [out]) \<and> live.more v = live.more w
    \<and> (l_sched w \<noteq> [] \<longrightarrow> length (l_sched v) < length (l_sched w)) \<and> (l_sched w = [] \<and> out \<noteq> [] \<longrightarrow> l_sched v = [] \<and> load v < load w)"
proof -
  have k: "pk_ready d a (l_pkt w)" "rx_layout d (l_pkt w)" "\<not> rx_pending (l_pkt w)" "holds P W (l_pkt w)"
    "pk_bounce_linear (l_pkt w) = b" "P \<subseteq> set (l_sent w)" "list_all2 (mixed 1514 P) got ws"
    "\<not> l_race w \<longrightarrow> P = {} \<and> list_all (\<lambda>W. length W \<le> 1) ws"
    using f by (simp_all add: flow_def pk_ready_def)
  obtain u0 where u0: "l_sched s = u0 @ l_sched w" "subseq (concat ws @ W) (taken u0)"
    using f by (auto simp: flow_def)
  obtain u W1 W2 where p: "rx_step w (take 1 (l_sched w) @ u) v" "\<not> rx_pending (l_pkt v)" "holds P W2 (l_pkt v)"
    "subseq (W1 @ W2) (W @ taken (take 1 (l_sched w) @ u))" "\<not> l_race v \<longrightarrow> length W1 \<le> 1"
    "if W1 = [] then out = [] else mixed 1514 P out W1"
    using recv_live_window[OF k(2-4) r] by blast
  note st = rx_stepD[OF p(1)]
  define ws' where "ws' = (if out = [] then ws else ws @ [W1])"
  have out: "out \<noteq> [] \<Longrightarrow> W1 \<noteq> [] \<and> mixed 1514 P out W1" using p(6) by (auto split: if_splits)
  have "subseq ((concat ws @ W1) @ W2) (taken u0 @ taken (take 1 (l_sched w) @ u))"
    using subseq_extend[OF u0(2) p(4)] by simp
  moreover have "subseq (concat ws @ W2) ((concat ws @ W1) @ W2)"
    by (rule list_emb_append_mono[OF subseq_rev_drop_many[OF subseq_order.refl] subseq_order.refl])
  ultimately have "subseq (concat ws' @ W2) (taken (u0 @ take 1 (l_sched w) @ u))"
    using subseq_order.trans by (auto simp: ws'_def)
  moreover have "l_sched s = (u0 @ take 1 (l_sched w) @ u) @ l_sched v" using u0(1) st(8) by simp
  moreover have "pk_ready d a (l_pkt v)" using k(1) p(2) by (simp add: pk_ready_def st(1-5))
  moreover have "list_all2 (mixed 1514 P) (if out = [] then got else got @ [out]) ws'"
    using k(7) out by (auto simp: ws'_def list_all2_appendI)
  moreover have "\<not> l_race v \<longrightarrow> P = {} \<and> list_all (\<lambda>W. length W \<le> 1) ws'"
    using k(8) st(9) p(5) by (auto simp: ws'_def)
  ultimately have "flow d a b s P (if out = [] then got else got @ [out]) ws' W2 v"
    unfolding flow_def using k(5,6) p(3) st(3,6) by auto
  moreover have "length (l_sched v) < length (l_sched w)" if "l_sched w \<noteq> []"
    using st(8) that by (cases "l_sched w") auto
  moreover have "l_sched v = [] \<and> load v < load w" if "l_sched w = []" "out \<noteq> []"
    using list_emb_length[OF p(4)] st(8) that(1) out[OF that(2)] holds_length[OF p(3)] holds_length[OF k(4)]
    by (cases W1) (auto simp: load_def)
  ultimately show ?thesis using st(7) by blast
qed

subsection \<open>The glue\<close>

lemma flow_sends:
  assumes "flow d a b s P got ws W w" "send_keeps d a 0x50" "send_keeps d b 2048" "sends d nic ps w = Some v"
  shows "\<exists>P' W'. flow d a b s P' got ws W' v \<and> live.more v = live.more w
    \<and> length (l_sched v) \<le> length (l_sched w) \<and> (l_sched w = [] \<longrightarrow> load v \<le> load w)"
  using assms(1,4)
proof (induction ps arbitrary: P W w)
  case Nil
  then show ?case by auto
next
  case (Cons p ps)
  obtain rc x P' W' where x: "send_live d nic p (length p) w = Some (rc, x)" "flow d a b s P' got ws W' x" "live.more x = live.more w"
    "length (l_sched x) \<le> length (l_sched w)" "l_sched w = [] \<longrightarrow> load x \<le> load w"
    using flow_send[OF Cons.prems(1) assms(2,3)] by blast
  have "sends d nic ps x = Some v" using Cons.prems(2) x(1) by simp
  from Cons.IH[OF x(2) this] x(3-5) show ?case by fastforce
qed

lemma flow_ip [simp]: "flow d a b s P got ws W (w\<lparr>v_ip := x\<rparr>) = flow d a b s P got ws W w" "load (w\<lparr>v_ip := x\<rparr>) = load w"
  by (simp_all add: flow_def load_def)

lemma lwip_liveD:
  assumes "lwip_live d nic e L"
  shows "pbuf_alloc e n w = (ok, v) \<Longrightarrow> ok \<and> v = w\<lparr>v_ip := v_ip v\<rparr> \<and> L (v_ip v) = L (v_ip w)"
    and "netif_input e f w = (er, v) \<Longrightarrow> L (v_ip v) = L (v_ip w) @ [f] \<and> (\<exists>ps u. sends d nic ps w = Some u \<and> v = u\<lparr>v_ip := v_ip v\<rparr>)"
  using spec[OF spec[OF conjunct1[OF assms[unfolded lwip_live_def]]], of w n]
    spec[OF spec[OF conjunct2[OF assms[unfolded lwip_live_def]]], of w f] by simp_all

lemma flow_loop:
  assumes lw: "lwip_live d nic e L" and k: "send_keeps d a 0x50" "send_keeps d b 2048"
  shows "flow d a b s P got ws W w \<Longrightarrow> L (v_ip w) = L0 @ got \<Longrightarrow>
    \<exists>v P' got' ws' W'. pump_loop (live_env d nic e) w = Some v \<and> flow d a b s P' got' ws' W' v \<and> L (v_ip v) = L0 @ got'"
proof (induction "load w" arbitrary: w P got ws W rule: less_induct)
  case less
  let ?e = "live_env d nic e"
  have "Pktdrv.pktdrv_is_active (l_pkt w)"
    using less.prems(1) by (simp add: flow_def pk_ready_def Pktdrv.pktdrv_is_active_def)
  then have er: "eth_recv ?e w = recv_live d nic 1514 w" by (simp add: eth_recv_def live_env_def)
  obtain out v where r: "recv_live d nic 1514 w = (out, v)" by fastforce
  obtain got1 ws1 W1 where v: "flow d a b s P got1 ws1 W1 v" "got1 = (if out = [] then got else got @ [out])" "live.more v = live.more w"
    "l_sched w \<noteq> [] \<longrightarrow> length (l_sched v) < length (l_sched w)" "l_sched w = [] \<and> out \<noteq> [] \<longrightarrow> l_sched v = [] \<and> load v < load w"
    using flow_recv[OF less.prems(1) r] by blast
  have ip: "v_ip v = v_ip w" using v(3) by (cases v; cases w) simp
  show ?case
  proof (cases "out = []")
    case True
    then have "pump_loop ?e w = Some v" using er r by (subst pump_loop.simps) simp
    with v(1,2) True less.prems(2) ip show ?thesis by auto
  next
    case False
    obtain ok v' where a: "pbuf_alloc ?e (length out) v = (ok, v')" by fastforce
    obtain er' x where i: "netif_input ?e out v' = (er', x)" by fastforce
    have ae: "pbuf_alloc e (length out) v = (ok, v')" "netif_input e out v' = (er', x)"
      using a i by (simp_all add: live_env_def)
    note al = lwip_liveD(1)[OF lw ae(1)] and inp = lwip_liveD(2)[OF lw ae(2)]
    obtain ps u where u: "sends d nic ps v' = Some u" "x = u\<lparr>v_ip := v_ip x\<rparr>" using inp by blast
    have v': "v' = v\<lparr>v_ip := v_ip v'\<rparr>" using al by simp
    have "flow d a b s P got1 ws1 W1 v'" using v(1) by (subst v') simp
    from flow_sends[OF this k u(1)] obtain P2 W2 where f2: "flow d a b s P2 got1 ws1 W2 u"
      "length (l_sched u) \<le> length (l_sched v')" "l_sched v' = [] \<longrightarrow> load u \<le> load v'" by blast
    have q: "l_sched v' = l_sched v" "load v' = load v" by (subst v', simp)+
    have "load u < load w"
    proof (cases "l_sched w = []")
      case True
      with v(5) False f2(3) q show ?thesis by simp
    next
      case False
      then have "length (l_sched u) < length (l_sched w)" using v(4) f2(2) q by simp
      with waiting_length[of "l_pkt u"] show ?thesis by (simp add: load_def)
    qed
    moreover have "load x = load u" "flow d a b s P2 got1 ws1 W2 x" using f2(1) by (subst u(2), simp)+
    moreover have "L (v_ip x) = L0 @ got1" using inp al less.prems(2) v(2) ip False by simp
    moreover have "pump_loop ?e w = pump_loop ?e x"
      using er r a i al False by (subst pump_loop.simps) simp
    ultimately show ?thesis using less.hyps[of x] by metis
  qed
qed

text \<open>When nothing more arrives a poll hands over the frame that waits, and that is all.\<close>

definition at_rest :: "('h, 'x) dpmi_scheme \<Rightarrow> u32 \<Rightarrow> ('h, 'n, 'z) live_scheme \<Rightarrow> bool" where
  "at_rest d a w \<longleftrightarrow> pk_idle d a (l_pkt w) \<and> l_sched w = []"

lemma rest_recv:
  assumes "pk_ready d a (l_pkt w)" "l_sched w = []" "recv_live d nic n w = (out, v)"
  shows "(case waiting (l_pkt w) of [] \<Rightarrow> out = [] | q # _ \<Rightarrow> out = take n q) \<and> at_rest d a v \<and> live.more v = live.more w"
proof -
  obtain o' s where r: "Pktdrv.pktdrv_recv d nic n (l_pkt w) = (o', s)" by fastforce
  then have e: "out = o'" "v = w\<lparr>l_pkt := s\<rparr>" using assms(3) by (simp_all add: recv_live_quiet[OF assms(2)])
  from recv_ready[OF assms(1) r] assms(2) show ?thesis unfolding e by (simp add: at_rest_def)
qed

lemma rest_send:
  assumes "at_rest d a w" "send_keeps d a 0x50" "send_live d nic p (length p) w = Some (rc, v)"
  shows "at_rest d a v"
proof -
  have w: "pk_idle d a (l_pkt w)" "l_sched w = []" using assms(1) by (simp_all add: at_rest_def)
  obtain r sd s where "Pktdrv.pktdrv_send d nic p (length p) (l_pkt w) = Some (rc, s)" "v = w\<lparr>l_pkt := s, l_race := r, l_sent := sd\<rparr>"
    using send_live_quiet[OF w(2), of d nic p "length p"] assms(3)
    by (cases "Pktdrv.pktdrv_send d nic p (length p) (l_pkt w)") auto
  with send_keeps_idle[OF w(1) _ assms(2)] w(2) show ?thesis by (simp add: at_rest_def)
qed

lemma rest_sends: "at_rest d a w \<Longrightarrow> send_keeps d a 0x50 \<Longrightarrow> sends d nic ps w = Some v \<Longrightarrow> at_rest d a v"
  by (induction ps arbitrary: w) (auto split: option.splits intro: rest_send)

lemma live_eth_recv: "pk_ready d a (l_pkt w) \<Longrightarrow> eth_recv (live_env d nic e) w = recv_live d nic 1514 w"
  by (simp add: eth_recv_def live_env_def pk_ready_def Pktdrv.pktdrv_is_active_def)

lemma rest_pump_end:
  assumes "at_rest d a w"
  shows "\<exists>v. pump_loop (live_env d nic e) w = Some v \<and> v_ip v = v_ip w"
proof -
  have r: "pk_ready d a (l_pkt w)" "waiting (l_pkt w) = []" "l_sched w = []"
    using assms by (simp_all add: at_rest_def pk_idle_def)
  obtain out v where o: "recv_live d nic 1514 w = (out, v)" by fastforce
  have "out = []" "live.more v = live.more w" using rest_recv[OF r(1,3) o] r(2) by simp_all
  then show ?thesis
    using live_eth_recv[OF r(1), of nic e] o by (subst pump_loop.simps) (cases v; cases w; simp)
qed

lemma rest_pump:
  assumes lw: "lwip_live d nic e L" and k: "send_keeps d a 0x50" and w: "pk_ready d a (l_pkt w)" "l_sched w = []"
    and v: "pump_loop (live_env d nic e) w = Some v"
  shows "L (v_ip v) = L (v_ip w) @ map (take 1514) (waiting (l_pkt w))"
proof (cases "waiting (l_pkt w) = []")
  case True
  with w have "at_rest d a w" by (simp add: at_rest_def pk_idle_def)
  from rest_pump_end[OF this, of nic e] v True show ?thesis by auto
next
  case False
  let ?e = "live_env d nic e"
  obtain q where q: "waiting (l_pkt w) = [q]" "q \<noteq> []" using waiting_cases[of "l_pkt w"] False by auto
  obtain out x where o: "recv_live d nic 1514 w = (out, x)" by fastforce
  have x: "out = take 1514 q" "at_rest d a x" "live.more x = live.more w" using rest_recv[OF w o] q by simp_all
  obtain ok x' where a: "pbuf_alloc ?e (length out) x = (ok, x')" by fastforce
  obtain er y where i: "netif_input ?e out x' = (er, y)" by fastforce
  have ae: "pbuf_alloc e (length out) x = (ok, x')" "netif_input e out x' = (er, y)"
    using a i by (simp_all add: live_env_def)
  note al = lwip_liveD(1)[OF lw ae(1)] and inp = lwip_liveD(2)[OF lw ae(2)]
  obtain ps u where u: "sends d nic ps x' = Some u" "y = u\<lparr>v_ip := v_ip y\<rparr>" using inp by blast
  have x': "x' = x\<lparr>v_ip := v_ip x'\<rparr>" using al by simp
  have "at_rest d a x'" using x(2) by (subst x') (simp add: at_rest_def)
  from rest_sends[OF this k u(1)] have y: "at_rest d a y" by (subst u(2)) (simp add: at_rest_def)
  have "out \<noteq> []" using x(1) q(2) by simp
  then have "pump_loop ?e w = pump_loop ?e y"
    using live_eth_recv[OF w(1), of nic e] o a i al by (subst pump_loop.simps) simp
  with rest_pump_end[OF y, of nic e] v have "v_ip v = v_ip y" by auto
  moreover have "v_ip x = v_ip w" using x(3) by (cases x; cases w) simp
  ultimately show ?thesis using inp al x(1) q(1) by simp
qed

text \<open>Runs.\<close>

lemma flow_linkoutput:
  assumes "flow d a b s P got ws W w" "send_keeps d a 0x50" "send_keeps d b 2048"
    and "uc386dos_eth_linkoutput (live_env d nic e) p w = Some (er, v)"
  shows "\<exists>P' W'. flow d a b s P' got ws W' v \<and> v_ip v = v_ip w"
proof (cases "length p \<le> 1514")
  case False
  then show ?thesis using assms(1,4) by (auto simp: uc386dos_eth_linkoutput_def)
next
  case True
  obtain rc x P' W' where x: "send_live d nic p (length p) w = Some (rc, x)" "flow d a b s P' got ws W' x" "live.more x = live.more w"
    using flow_send[OF assms(1-3)] by blast
  have "Pktdrv.pktdrv_is_active (l_pkt w)"
    using assms(1) by (simp add: flow_def pk_ready_def Pktdrv.pktdrv_is_active_def)
  then have "v = x" using assms(4) True x(1) by (simp add: uc386dos_eth_linkoutput_def live_env_def)
  moreover have "v_ip x = v_ip w" using x(3) by (cases x; cases w) simp
  ultimately show ?thesis using x(2) by blast
qed

lemma live_run_flow:
  assumes "live_run (live_env d nic e) s t" "lwip_live d nic e L" "send_keeps d a 0x50"
    and "send_keeps d (pk_bounce_linear (l_pkt (e_world s))) 2048" "eth_active s" "pk_idle d a (l_pkt (e_world s))"
  shows "\<exists>P got ws W. flow d a (pk_bounce_linear (l_pkt (e_world s))) (e_world s) P got ws W (e_world t)
    \<and> L (v_ip (e_world t)) = L (v_ip (e_world s)) @ got \<and> eth_active t"
  using assms(1)
proof (induction rule: live_run.induct)
  case run_start
  show ?case using flow_start[OF assms(6)] assms(5) by fastforce
next
  case (run_poll t u)
  then obtain P got ws W where t: "flow d a (pk_bounce_linear (l_pkt (e_world s))) (e_world s) P got ws W (e_world t)"
    "L (v_ip (e_world t)) = L (v_ip (e_world s)) @ got" "eth_active t" by blast
  obtain z P' got' ws' W' where z: "pump_loop (live_env d nic e) (e_world t) = Some z"
    "flow d a (pk_bounce_linear (l_pkt (e_world s))) (e_world s) P' got' ws' W' z" "L (v_ip z) = L (v_ip (e_world s)) @ got'"
    using flow_loop[OF assms(2-4) t(1,2)] by blast
  have "u = t\<lparr>e_world := z\<rparr>" using run_poll.hyps(2) t(3) z(1) by (simp add: uc386dos_eth_pump_rx_def)
  with z(2,3) t(3) show ?case
    by (intro exI[of _ P'] exI[of _ got'] exI[of _ ws'] exI[of _ W']) simp
next
  case (run_send t p er w)
  then obtain P got ws W where t: "flow d a (pk_bounce_linear (l_pkt (e_world s))) (e_world s) P got ws W (e_world t)"
    "L (v_ip (e_world t)) = L (v_ip (e_world s)) @ got" "eth_active t" by blast
  from flow_linkoutput[OF t(1) assms(3,4) run_send.hyps(2)] t(2,3) show ?case by auto
qed

lemma mixed_list_mono:
  assumes "list_all2 (mixed n P) got ws" "P \<subseteq> P'"
  shows "list_all2 (mixed n P') got ws"
  using assms by (auto elim: list_all2_mono intro: mixed_mono)

lemma flow_result:
  assumes "flow d a b s P got ws W w"
  shows "\<exists>u. l_sched s = u @ l_sched w \<and> list_all2 (mixed 1514 (set (l_sent w))) got ws \<and> subseq (concat ws) (taken u)
    \<and> (\<not> l_race w \<longrightarrow> subseq got (map (take 1514) (taken u)))"
proof -
  obtain u where u: "l_sched s = u @ l_sched w" "subseq (concat ws @ W) (taken u)"
    using assms by (auto simp: flow_def)
  have s: "subseq (concat ws) (taken u)"
    by (rule subseq_order.trans[OF subseq_rev_drop_many[OF subseq_order.refl] u(2)])
  have m: "list_all2 (mixed 1514 P) got ws" "P \<subseteq> set (l_sent w)" "\<not> l_race w \<longrightarrow> P = {} \<and> list_all (\<lambda>W. length W \<le> 1) ws"
    using assms by (simp_all add: flow_def)
  have "subseq got (map (take 1514) (taken u))" if "\<not> l_race w"
    using mixed_all_single[of 1514 got ws] m(1,3) that s by (simp add: subseq_map)
  with u(1) s mixed_list_mono[OF m(1,2)] show ?thesis by blast
qed

subsection \<open>A stack for the witnesses\<close>

text \<open>The driver in use, and an lwIP that logs every frame and sends it back.\<close>

definition demo_up :: "(unit, unit) pkt" where
  "demo_up = demo_ready\<lparr>int_num := 0x60\<rparr>"

lemma demo_up_idle: "pk_idle demo_host 0x20000 demo_up"
proof -
  have "rx_layout demo_host demo_up"
    using demo_ready_layout by (simp add: demo_up_def rx_layout_def thunk_lin_def)
  moreover have "waiting demo_up = []"
    using demo_ready_slots(2) by (simp add: demo_up_def waiting_def thunk_lin_def Let_def split: if_splits)
  ultimately show ?thesis
    using demo_ready_slots(1)
    by (simp add: pk_idle_def pk_ready_def demo_up_def) (simp add: demo_ready_def demo_pkt_def thunk_lin_def)
qed

lemma demo_send_keeps: "send_keeps demo_host a n"
  by (simp add: send_keeps_def demo_host_def)

definition echo_env :: "(unit, unit, bytes list) live_world net_env" where
  "echo_env = \<lparr>pktdrv_is_active = (\<lambda>_. False), pktdrv_init = (\<lambda>w. (-1, [], w)),
     pktdrv_send = (\<lambda>_ _. None), pktdrv_recv = (\<lambda>_ w. ([], w)),
     ethdrv_init = (\<lambda>w. (-1, [], w)), ethdrv_send = (\<lambda>_ w. (-1, w)), ethdrv_recv = (\<lambda>_ w. ([], w)),
     netif_list_empty = (\<lambda>_. True), lwip_init = (\<lambda>w. w), netif_add = (\<lambda>w. (True, w)),
     netif_input = (\<lambda>f w. (True, (case send_live demo_host (const_nic 0) f (length f) w of
         None \<Rightarrow> w\<lparr>v_ip := v_ip w @ [f]\<rparr> | Some (rc, v) \<Rightarrow> v\<lparr>v_ip := v_ip w @ [f]\<rparr>))),
     pbuf_alloc = (\<lambda>_ w. (True, w)), dhcp_start = (\<lambda>w. (True, w)), dhcp_release_and_stop = (\<lambda>w. w),
     netif_poll_all = (\<lambda>w. w), sys_check_timeouts = (\<lambda>w. w)\<rparr>"

definition demo_eth :: "bytes list list \<Rightarrow> (unit, unit, bytes list) live_world eth" where
  "demo_eth q = \<lparr>e_world = \<lparr>l_pkt = demo_up, l_sched = q, l_race = False, l_sent = [], v_ip = []\<rparr>,
     eth_active = True, lwip_initialised = True, poll_registered = True,
     e_hwaddr = [], e_ip = 0, e_netmask = 0, e_gw = 0, e_up = True\<rparr>"

lemma echo_live: "lwip_live demo_host (const_nic 0) echo_env (\<lambda>l. l)"
proof -
  have "\<exists>ps u. sends demo_host (const_nic 0) ps w = Some u
      \<and> snd (netif_input echo_env f w) = u\<lparr>v_ip := v_ip (snd (netif_input echo_env f w))\<rparr>" for f w
  proof (cases "send_live demo_host (const_nic 0) f (length f) w")
    case None
    then show ?thesis by (intro exI[of _ "[]"] exI[of _ w]) (simp add: echo_env_def)
  next
    case (Some r)
    then show ?thesis by (intro exI[of _ "[f]"] exI[of _ "snd r"]) (simp add: echo_env_def split: prod.split)
  qed
  then show ?thesis
    by (simp add: lwip_live_def split_beta) (simp add: echo_env_def split: option.split prod.split)
qed

text \<open>A frame arrives before the first byte of a send is stored.\<close>

lemma send_live_after:
  assumes "pk_ready d a (l_pkt w)" "tl (l_sched w) = []" "p \<noteq> []" "length p \<le> 2048"
  shows "send_live d nic p (length p) w = send_live d nic p (length p) (irqs d w)"
proof -
  obtain M where M: "fold (irq_frame d) (due w) (l_pkt w) = (l_pkt w)\<lparr>p_mem := M\<rparr>" using fold_irq_shape by blast
  have i: "irqs d w = w\<lparr>l_pkt := (l_pkt w)\<lparr>p_mem := M\<rparr>, l_sched := []\<rparr>"
    using assms(2) by (simp add: irqs_def M)
  have c: "irqs d (w\<lparr>l_sent := x\<rparr>) = (irqs d w)\<lparr>l_sent := x\<rparr>" "irqs d (irqs d w) = irqs d w"
    "irqs d ((irqs d w)\<lparr>l_sent := x\<rparr>) = (irqs d w)\<lparr>l_sent := x\<rparr>" for x
    using assms(2) by (simp_all add: irqs_def due_def)
  have "[0..<length p] = 0 # [1..<length p]" using assms(3) by (simp add: upt_conv_Cons)
  then show ?thesis
    using assms(1,4) by (simp add: send_live_def pk_ready_def rx_layout_def Let_def c) (simp add: i)
qed

lemma demo_hit:
  "\<exists>er w. uc386dos_eth_linkoutput (live_env demo_host (const_nic 0) echo_env) [9] (e_world (demo_eth [[[1, 2]]])) = Some (er, w)
     \<and> waiting (l_pkt w) = [[9, 2]] \<and> l_sched w = [] \<and> v_ip w = []"
proof -
  let ?w = "e_world (demo_eth [[[1, 2]]])"
  let ?v = "irqs demo_host ?w"
  have up: "pk_ready demo_host 0x20000 demo_up" "rx_layout demo_host demo_up"
    using demo_up_idle by (simp_all add: pk_idle_def pk_ready_def)
  have v: "l_pkt ?v = irq_frame demo_host [1, 2] demo_up" "l_sched ?v = []" "v_ip ?v = []"
    by (simp_all add: demo_eth_def irqs_def due_def)
  have wv: "waiting (l_pkt ?v) = [[1, 2]]" unfolding v(1) by (simp add: waiting_irq[OF up(2)])
  have r: "pk_ready demo_host 0x20000 (l_pkt ?v)" unfolding v(1) using up(1) by (simp add: irq_ready)
  obtain rc t where t: "Pktdrv.pktdrv_send demo_host (const_nic 0) [9] 1 (l_pkt ?v) = Some (rc, t)"
    using send_returns_ready[OF r] by blast
  then have "waiting t = [[9, 2]]"
    using send_overwrites[OF r wv _ _ demo_send_keeps demo_send_keeps, of "const_nic 0" "[9]" rc t] by simp
  moreover obtain x sd where "send_live demo_host (const_nic 0) [9] 1 ?v = Some (rc, ?v\<lparr>l_pkt := t, l_race := x, l_sent := sd\<rparr>)"
    using send_live_quiet[OF v(2), of demo_host "const_nic 0" "[9]" 1] t by auto
  moreover have "send_live demo_host (const_nic 0) [9] 1 ?w = send_live demo_host (const_nic 0) [9] 1 ?v"
    using send_live_after[of demo_host "0x20000" ?w "[9]" "const_nic 0"] up(1) by (simp add: demo_eth_def)
  moreover have "Pktdrv.pktdrv_is_active (l_pkt ?w)"
    using up(1) by (simp add: demo_eth_def pk_ready_def Pktdrv.pktdrv_is_active_def)
  ultimately show ?thesis using v(2,3) by (simp add: uc386dos_eth_linkoutput_def live_env_def)
qed

section \<open>Properties\<close>

text \<open>
  C16. The network stack from the interrupt to lwIP, with frames arriving at any time, inside the copies
  of the driver included, and the glue polling and the program sending in any order; lwIP may answer a
  frame by sending while it handles it. Every frame lwIP is given has a window of frames that arrived:
  it has the length of the first, cut at 1514, and each of its bytes stands at its own place in one of
  them or in a frame that was sent (the two directions share the buffer). The windows follow each other
  in the order of arrival and no frame is in two. When no frame arrived inside a copy and no byte to be
  sent was stored over a frame that waited, what lwIP is given is a subsequence of the frames that
  arrived, each whole up to 1514 bytes. At every moment a poll ends, and when nothing more arrives it
  hands over the frame that waits.
\<close>

theorem stack_delivers_in_order:
  assumes "lwip_live d nic e L" "send_keeps d a 0x50" "send_keeps d (pk_bounce_linear (l_pkt (e_world s))) 2048"
    and "eth_active s" "pk_idle d a (l_pkt (e_world s))" "live_run (live_env d nic e) s t"
  shows "(\<exists>u got ws. l_sched (e_world s) = u @ l_sched (e_world t) \<and> L (v_ip (e_world t)) = L (v_ip (e_world s)) @ got
      \<and> list_all2 (mixed 1514 (set (l_sent (e_world t)))) got ws \<and> subseq (concat ws) (filter acceptable (concat u))
      \<and> (\<not> l_race (e_world t) \<longrightarrow> subseq got (map (take 1514) (filter acceptable (concat u)))))
    \<and> (\<exists>v. uc386dos_eth_pump_rx (live_env d nic e) t = Some v
      \<and> (l_sched (e_world t) = [] \<longrightarrow> L (v_ip (e_world v)) = L (v_ip (e_world t)) @ map (take 1514) (waiting (l_pkt (e_world t)))))"
proof -
  obtain P got ws W where t: "flow d a (pk_bounce_linear (l_pkt (e_world s))) (e_world s) P got ws W (e_world t)"
    "L (v_ip (e_world t)) = L (v_ip (e_world s)) @ got" "eth_active t"
    using live_run_flow[OF assms(6,1-5)] by blast
  obtain w where w: "pump_loop (live_env d nic e) (e_world t) = Some w"
    using flow_loop[OF assms(1-3) t(1,2)] by blast
  have "uc386dos_eth_pump_rx (live_env d nic e) t = Some (t\<lparr>e_world := w\<rparr>)"
    using w t(3) by (simp add: uc386dos_eth_pump_rx_def)
  moreover have "pk_ready d a (l_pkt (e_world t))" using t(1) by (simp add: flow_def)
  note rest_pump[OF assms(1,2) this _ w]
  ultimately show ?thesis using flow_result[OF t(1)] t(2) by auto
qed

theorem stack_delivers_in_order_witness:
  "\<exists>t v. live_run (live_env demo_host (const_nic 0) echo_env) (demo_eth [[[1, 2]]]) t
     \<and> uc386dos_eth_pump_rx (live_env demo_host (const_nic 0) echo_env) t = Some v \<and> v_ip (e_world v) = [[9, 2]]"
proof -
  let ?e = "live_env demo_host (const_nic 0) echo_env" and ?s = "demo_eth [[[1, 2]]]"
  obtain er w where w: "uc386dos_eth_linkoutput ?e [9] (e_world ?s) = Some (er, w)"
    "waiting (l_pkt w) = [[9, 2]]" "l_sched w = []" "v_ip w = []"
    using demo_hit by blast
  note run = live_run.run_send[OF live_run.run_start w(1)]
  have "pk_idle demo_host 0x20000 (l_pkt (e_world ?s))" "eth_active ?s"
    using demo_up_idle by (simp_all add: demo_eth_def)
  from stack_delivers_in_order[OF echo_live demo_send_keeps demo_send_keeps this(2,1) run] run w(2-4)
  show ?thesis by fastforce
qed

end
