(* ===== verification/Digest.thy ===== *)
theory Digest
  imports Prelude
begin

text \<open>
  The interface of an incremental hash function: \<open>init\<close>, \<open>update\<close> and \<open>final\<close> over an opaque context, as
  axtls and the patched SHA-256 offer it, and the contract its clients rely on: the digest depends only
  on the bytes fed in, not on how they were cut into calls.
\<close>

record 'c digest =
  d_init :: 'c
  d_update :: "bytes \<Rightarrow> 'c \<Rightarrow> 'c"
  d_final :: "'c \<Rightarrow> bytes \<times> 'c"

locale digest_law =
  fixes d :: "'c digest" and H :: "bytes \<Rightarrow> bytes" and n :: nat
  assumes streams: "fst (d_final d (fold (d_update d) ms (d_init d))) = H (concat ms)"
    and digest_size: "length (H m) = n"
begin

text \<open>The two shapes of call the clients use.\<close>

lemma one_shot: "fst (d_final d (d_update d m (d_init d))) = H m"
  using streams[of "[m]"] by simp

lemma two_parts: "fst (d_final d (d_update d b (d_update d a (d_init d)))) = H (a @ b)"
  using streams[of "[a, b]"] by simp

lemma prefixed: "fst (d_final d (fold (d_update d) ms (d_update d a (d_init d)))) = H (a @ concat ms)"
  using streams[of "a # ms"] by simp

end

end
