(* ===== verification/Big_Endian.thy ===== *)
theory Big_Endian
  imports Prelude
begin

text \<open>
  Numbers as big-endian byte strings, both ways, for the bignum, the hash and the counter mode.
\<close>

section \<open>Definitions\<close>

text \<open>The number that big-endian bytes stand for.\<close>

definition be_val :: "bytes \<Rightarrow> nat" where
  "be_val bs = foldl (\<lambda>v b. 256 * v + unat b) 0 bs"

text \<open>The last \<open>k\<close> big-endian bytes of a number.\<close>

fun be_bytes :: "nat \<Rightarrow> nat \<Rightarrow> bytes" where
  "be_bytes 0 v = []"
| "be_bytes (Suc k) v = be_bytes k (v div 256) @ [of_nat (v mod 256)]"

section \<open>Lemmas\<close>

lemma be_val_simps [simp]: "be_val [] = 0" "be_val [b] = unat b"
  by (simp_all add: be_val_def)

lemma be_val_foldl: "foldl (\<lambda>v b. 256 * v + unat b) v bs = 256 ^ length bs * v + be_val bs"
proof (induction bs arbitrary: v)
  case (Cons b bs)
  show ?case
    using Cons[of "256 * v + unat b"] Cons[of "unat b"] by (simp add: be_val_def algebra_simps)
qed simp

lemma be_val_Cons: "be_val (b # bs) = unat b * 256 ^ length bs + be_val bs"
  using be_val_foldl[of "unat b" bs] by (simp add: be_val_def)

lemma be_val_append: "be_val (as @ bs) = be_val as * 256 ^ length bs + be_val bs"
  using be_val_foldl[of "be_val as" bs] by (simp add: be_val_def)

lemma be_val_less: "be_val bs < 256 ^ length bs"
proof (induction bs)
  case (Cons b bs)
  have "unat b < 256" using unsigned_less[where w = b and 'a = nat] by simp
  then have "unat b * 256 ^ length bs + 256 ^ length bs \<le> 256 * 256 ^ length bs"
    by (metis Suc_leI add.commute mult_Suc mult_le_mono1)
  with Cons.IH show ?case unfolding be_val_Cons length_Cons power_Suc by linarith
qed simp

lemma length_be_bytes [simp]: "length (be_bytes k v) = k"
  by (induction k arbitrary: v) auto

lemma be_val_bytes: "be_val (be_bytes k v) = v mod 256 ^ k"
proof (induction k arbitrary: v)
  case (Suc k)
  have "unat (of_nat (v mod 256) :: byte) = v mod 256"
    by (simp add: unat_of_nat take_bit_nat_eq_self)
  then show ?case
    using mod_mult2_eq[of v 256 "256 ^ k"] by (simp add: be_val_append Suc mult.commute)
qed simp

lemma be_val_snoc: "be_val (bs @ [b]) = 256 * be_val bs + unat b"
  by (simp add: be_val_append)

lemma be_val_snoc_div: "be_val (bs @ [b]) div 256 = be_val bs" "be_val (bs @ [b]) mod 256 = unat b"
  using unsigned_less[where w = b and 'a = nat] by (simp_all add: be_val_snoc)

lemma be_bytes_val: "be_bytes (length bs) (be_val bs) = bs"
  by (induction bs rule: rev_induct) (simp_all add: be_val_snoc_div)

lemma be_bytes_nth: "i < k \<Longrightarrow> be_bytes k v ! i = of_nat (v div 256 ^ (k - 1 - i) mod 256)"
proof (induction k arbitrary: v)
  case (Suc k)
  show ?case
  proof (cases "i = k")
    case False
    then have "v div 256 div 256 ^ (k - 1 - i) = v div 256 ^ (k - i)"
      using Suc.prems by (simp add: flip: div_mult2_eq power_Suc) (metis Suc_diff_Suc diff_Suc_eq_diff_pred diff_commute less_SucE)
    with False Suc show ?thesis by (simp add: nth_append)
  qed (simp add: nth_append)
qed simp

text \<open>Four bytes shifted together.\<close>

lemma shifted_bytes_apart:
  "push_bit 8 (ucast (c :: byte)) AND ucast (d :: byte) = (0 :: u32)"
  "push_bit 16 (ucast (b :: byte)) AND (push_bit 8 (ucast c) + ucast d) = (0 :: u32)"
  "push_bit 24 (ucast (a :: byte)) AND (push_bit 16 (ucast b) + (push_bit 8 (ucast c) + ucast d)) = (0 :: u32)"
proof -
  show 1: "push_bit 8 (ucast c) AND ucast d = (0 :: u32)"
    by (rule bit_word_eqI) (auto simp: bit_simps)
  show 2: "push_bit 16 (ucast b) AND (push_bit 8 (ucast c) + ucast d) = (0 :: u32)"
    unfolding disjunctive_add_eq_or[OF 1] by (rule bit_word_eqI) (auto simp: bit_simps)
  show "push_bit 24 (ucast a) AND (push_bit 16 (ucast b) + (push_bit 8 (ucast c) + ucast d)) = (0 :: u32)"
    unfolding disjunctive_add_eq_or[OF 2] unfolding disjunctive_add_eq_or[OF 1]
    by (rule bit_word_eqI) (auto simp: bit_simps)
qed

lemma be_word4:
  "push_bit 24 (ucast a) OR push_bit 16 (ucast b) OR push_bit 8 (ucast c) OR ucast d = (of_nat (be_val [a, b, c, d]) :: u32)"
proof -
  have "push_bit 24 (ucast a) OR (push_bit 16 (ucast b) OR (push_bit 8 (ucast c) OR ucast d))
      = (push_bit 24 (ucast a) + (push_bit 16 (ucast b) + (push_bit 8 (ucast c) + ucast d)) :: u32)"
    by (simp only: disjunctive_add_eq_or[OF shifted_bytes_apart(3), symmetric]
        disjunctive_add_eq_or[OF shifted_bytes_apart(2), symmetric] disjunctive_add_eq_or[OF shifted_bytes_apart(1), symmetric])
  then show ?thesis
    by (simp add: be_val_def push_bit_eq_mult or.assoc algebra_simps)
qed

lemma be_bytes_word:
  "be_bytes 4 (unat (w :: u32)) = [ucast (drop_bit 24 w AND 0xFF), ucast (drop_bit 16 w AND 0xFF),
     ucast (drop_bit 8 w AND 0xFF), ucast (w AND 0xFF)]"
proof -
  have k: "of_nat (unat w div 2 ^ k mod 256) = (ucast (drop_bit k w AND 0xFF) :: byte)" for k
    by (simp add: word_unat_eq_iff unat_byte_at unat_of_nat take_bit_nat_eq_self)
  have "(4 :: nat) = Suc (Suc (Suc (Suc 0)))" by simp
  then have "be_bytes 4 (unat w) = map (\<lambda>k. of_nat (unat w div 2 ^ k mod 256)) [24, 16, 8, 0]"
    by (simp only: be_bytes.simps) (simp flip: div_mult2_eq)
  then show ?thesis unfolding k by simp
qed

text \<open>A word is its four bytes shifted together.\<close>

lemma word_of_bytes:
  obtains a b c d where "be_bytes 4 (unat (w :: u32)) = [a, b, c, d]"
    "w = push_bit 24 (ucast a) OR push_bit 16 (ucast b) OR push_bit 8 (ucast c) OR ucast d"
proof -
  obtain a b c d where bs: "be_bytes 4 (unat w) = [a, b, c, d]" using be_bytes_word by blast
  have "be_val (be_bytes 4 (unat w)) = unat w"
    using unsigned_less[where w = w and 'a = nat] by (simp add: be_val_bytes)
  then have "w = of_nat (be_val [a, b, c, d])" by (simp add: bs)
  with bs that show ?thesis by (metis be_word4)
qed

end
