(* ===== verification/Sha256.thy ===== *)
theory Sha256
  imports Digest Big_Endian
begin

text \<open>
  The SHA-256 of \<open>rigs/tls-smoke/patches/sha256.c\<close>, the implementation axtls is linked with, and its
  equivalence with the definition of FIPS 180-4: message padding, division into blocks, message
  schedule and compression, written down independently.

  The context is the C structure; \<open>datalen\<close> stays below 64 and is a natural number, \<open>bitlen\<close> is the
  64-bit counter, the state words are 32-bit.
\<close>

section \<open>Definitions\<close>

subsection \<open>The code\<close>

record sha_ctx =
  sc_data :: bytes
  sc_datalen :: nat
  sc_bitlen :: "64 word"
  sc_state :: "u32 list"

definition sha_K :: "u32 list" where
  "sha_K =
   concat
    [[0x428a2f98,0x71374491,0xb5c0fbcf,0xe9b5dba5,0x3956c25b,0x59f111f1,0x923f82a4,0xab1c5ed5],
     [0xd807aa98,0x12835b01,0x243185be,0x550c7dc3,0x72be5d74,0x80deb1fe,0x9bdc06a7,0xc19bf174],
     [0xe49b69c1,0xefbe4786,0x0fc19dc6,0x240ca1cc,0x2de92c6f,0x4a7484aa,0x5cb0a9dc,0x76f988da],
     [0x983e5152,0xa831c66d,0xb00327c8,0xbf597fc7,0xc6e00bf3,0xd5a79147,0x06ca6351,0x14292967],
     [0x27b70a85,0x2e1b2138,0x4d2c6dfc,0x53380d13,0x650a7354,0x766a0abb,0x81c2c92e,0x92722c85],
     [0xa2bfe8a1,0xa81a664b,0xc24b8b70,0xc76c51a3,0xd192e819,0xd6990624,0xf40e3585,0x106aa070],
     [0x19a4c116,0x1e376c08,0x2748774c,0x34b0bcb5,0x391c0cb3,0x4ed8aa4a,0x5b9cca4f,0x682e6ff3],
     [0x748f82ee,0x78a5636f,0x84c87814,0x8cc70208,0x90befffa,0xa4506ceb,0xbef9a3f7,0xc67178f2]]"

definition rotr :: "u32 \<Rightarrow> nat \<Rightarrow> u32" where
  "rotr x n = drop_bit n x OR push_bit (32 - n) x"

definition load_word :: "bytes \<Rightarrow> nat \<Rightarrow> u32" where
  "load_word d i =
     (let j = i * 4
      in push_bit 24 (ucast (d ! j)) OR push_bit 16 (ucast (d ! (j + 1)))
         OR push_bit 8 (ucast (d ! (j + 2))) OR ucast (d ! (j + 3)))"

text \<open>The loop that extends the schedule, one word per round; \<open>m\<close> is the part of the array filled so far.\<close>

definition expand_step :: "u32 list \<Rightarrow> u32 list" where
  "expand_step m =
     (let i = length m;
          s0 = rotr (m ! (i - 15)) 7 XOR rotr (m ! (i - 15)) 18 XOR drop_bit 3 (m ! (i - 15));
          s1 = rotr (m ! (i - 2)) 17 XOR rotr (m ! (i - 2)) 19 XOR drop_bit 10 (m ! (i - 2))
      in m @ [m ! (i - 16) + s0 + m ! (i - 7) + s1])"

definition schedule :: "bytes \<Rightarrow> u32 list" where
  "schedule d = (expand_step ^^ 48) (map (load_word d) [0..<16])"

type_synonym vars = "u32 \<times> u32 \<times> u32 \<times> u32 \<times> u32 \<times> u32 \<times> u32 \<times> u32"

definition sha_round :: "u32 list \<Rightarrow> nat \<Rightarrow> vars \<Rightarrow> vars" where
  "sha_round m i = (\<lambda>(a, b, c, d2, e2, f, g, h).
     let S1 = rotr e2 6 XOR rotr e2 11 XOR rotr e2 25;
         ch = (e2 AND f) XOR (NOT e2 AND g);
         S0 = rotr a 2 XOR rotr a 13 XOR rotr a 22;
         mj = (a AND b) XOR (a AND c) XOR (b AND c);
         t1 = h + S1 + ch + sha_K ! i + m ! i;
         t2 = S0 + mj
     in (t1 + t2, a, b, c, d2 + t1, e2, f, g))"

definition sha256_transform :: "bytes \<Rightarrow> u32 list \<Rightarrow> u32 list" where
  "sha256_transform d st =
     (let m = schedule d;
          (a, b, c, d2, e2, f, g, h) =
            fold (sha_round m) [0..<64] (st ! 0, st ! 1, st ! 2, st ! 3, st ! 4, st ! 5, st ! 6, st ! 7)
      in [st ! 0 + a, st ! 1 + b, st ! 2 + c, st ! 3 + d2, st ! 4 + e2, st ! 5 + f, st ! 6 + g, st ! 7 + h])"

text \<open>\<open>data\<close> is whatever the buffer held before.\<close>

definition sha256_init :: "bytes \<Rightarrow> sha_ctx" where
  "sha256_init data = \<lparr>sc_data = data, sc_datalen = 0, sc_bitlen = 0,
     sc_state = [0x6a09e667, 0xbb67ae85, 0x3c6ef372, 0xa54ff53a, 0x510e527f, 0x9b05688c, 0x1f83d9ab, 0x5be0cd19]\<rparr>"

definition update_byte :: "byte \<Rightarrow> sha_ctx \<Rightarrow> sha_ctx" where
  "update_byte v ctx =
     (let ctx = ctx\<lparr>sc_data := (sc_data ctx)[sc_datalen ctx := v], sc_datalen := sc_datalen ctx + 1\<rparr>
      in if sc_datalen ctx = 64
         then ctx\<lparr>sc_state := sha256_transform (sc_data ctx) (sc_state ctx),
                  sc_bitlen := sc_bitlen ctx + 512, sc_datalen := 0\<rparr>
         else ctx)"

definition sha256_update :: "bytes \<Rightarrow> sha_ctx \<Rightarrow> sha_ctx" where
  "sha256_update data ctx = fold update_byte data ctx"

text \<open>\<open>data[i++] = 0x80; while (i < limit) data[i++] = 0\<close>.\<close>

definition pad_from :: "nat \<Rightarrow> nat \<Rightarrow> bytes \<Rightarrow> bytes" where
  "pad_from i limit data = take i data @ 0x80 # replicate (limit - (i + 1)) 0 @ drop (max (i + 1) limit) data"

definition length_field :: "64 word \<Rightarrow> bytes" where
  "length_field n = map (\<lambda>k. ucast (drop_bit k n)) [56, 48, 40, 32, 24, 16, 8, 0]"

definition digest_bytes :: "u32 list \<Rightarrow> bytes" where
  "digest_bytes st = map (\<lambda>p. ucast (drop_bit (24 - (p mod 4) * 8) (st ! (p div 4)) AND 0xFF)) [0..<32]"

definition sha256_final :: "sha_ctx \<Rightarrow> bytes \<times> sha_ctx" where
  "sha256_final ctx =
     (let i = sc_datalen ctx;
          ctx = (if i < 56 then ctx\<lparr>sc_data := pad_from i 56 (sc_data ctx)\<rparr>
                 else let data = pad_from i 64 (sc_data ctx)
                      in ctx\<lparr>sc_state := sha256_transform data (sc_state ctx), sc_data := replicate 56 0 @ drop 56 data\<rparr>);
          ctx = ctx\<lparr>sc_bitlen := sc_bitlen ctx + of_nat (sc_datalen ctx) * 8\<rparr>;
          ctx = ctx\<lparr>sc_data := take 56 (sc_data ctx) @ length_field (sc_bitlen ctx)\<rparr>;
          ctx = ctx\<lparr>sc_state := sha256_transform (sc_data ctx) (sc_state ctx)\<rparr>
      in (digest_bytes (sc_state ctx), ctx))"

subsection \<open>FIPS 180-4\<close>

text \<open>Section 4.1.2, the functions.\<close>

definition fips_Ch :: "u32 \<Rightarrow> u32 \<Rightarrow> u32 \<Rightarrow> u32" where
  "fips_Ch x y z = (x AND y) XOR (NOT x AND z)"

definition fips_Maj :: "u32 \<Rightarrow> u32 \<Rightarrow> u32 \<Rightarrow> u32" where
  "fips_Maj x y z = (x AND y) XOR (x AND z) XOR (y AND z)"

definition fips_S0 :: "u32 \<Rightarrow> u32" where
  "fips_S0 x = word_rotr 2 x XOR word_rotr 13 x XOR word_rotr 22 x"

definition fips_S1 :: "u32 \<Rightarrow> u32" where
  "fips_S1 x = word_rotr 6 x XOR word_rotr 11 x XOR word_rotr 25 x"

definition fips_s0 :: "u32 \<Rightarrow> u32" where
  "fips_s0 x = word_rotr 7 x XOR word_rotr 18 x XOR drop_bit 3 x"

definition fips_s1 :: "u32 \<Rightarrow> u32" where
  "fips_s1 x = word_rotr 17 x XOR word_rotr 19 x XOR drop_bit 10 x"

text \<open>
  Sections 4.2.2 and 5.3.3, the constants: the first 32 bits of the fractional parts of the cube
  roots of the first 64 primes, and of the square roots of the first eight. The bits of the root
  down to the binary place 32 are the greatest \<open>y\<close> with \<open>y ^ k \<le> p * 2 ^ (32 * k)\<close>; the conversion to
  32 bits drops its integral part.
\<close>

definition fips_primes :: "nat list" where
  "fips_primes =
    [2, 3, 5, 7, 11, 13, 17, 19, 23, 29, 31, 37, 41, 43, 47, 53,
     59, 61, 67, 71, 73, 79, 83, 89, 97, 101, 103, 107, 109, 113, 127, 131,
     137, 139, 149, 151, 157, 163, 167, 173, 179, 181, 191, 193, 197, 199, 211, 223,
     227, 229, 233, 239, 241, 251, 257, 263, 269, 271, 277, 281, 283, 293, 307, 311]"

definition frac_root :: "nat \<Rightarrow> nat \<Rightarrow> u32" where
  "frac_root k p = of_nat (GREATEST y. y ^ k \<le> p * 2 ^ (32 * k))"

definition fips_K :: "nat \<Rightarrow> u32" where
  "fips_K t = frac_root 3 (fips_primes ! t)"

definition fips_H0 :: "u32 list" where
  "fips_H0 = map (frac_root 2) (take 8 fips_primes)"

text \<open>Section 6.2.2: the message schedule of a block, and the compression.\<close>

fun fips_W :: "bytes \<Rightarrow> nat \<Rightarrow> u32" where
  "fips_W M t =
     (if t < 16 then of_nat (be_val (take 4 (drop (4 * t) M)))
      else fips_s1 (fips_W M (t - 2)) + fips_W M (t - 7) + fips_s0 (fips_W M (t - 15)) + fips_W M (t - 16))"

declare fips_W.simps [simp del]

fun fips_vars :: "bytes \<Rightarrow> vars \<Rightarrow> nat \<Rightarrow> vars" where
  "fips_vars M v 0 = v"
| "fips_vars M v (Suc t) =
     (case fips_vars M v t of (a, b, c, d, e, f, g, h) \<Rightarrow>
        let T1 = h + fips_S1 e + fips_Ch e f g + fips_K t + fips_W M t;
            T2 = fips_S0 a + fips_Maj a b c
        in (T1 + T2, a, b, c, d + T1, e, f, g))"

definition fips_compress :: "u32 list \<Rightarrow> bytes \<Rightarrow> u32 list" where
  "fips_compress H M =
     (case fips_vars M (H ! 0, H ! 1, H ! 2, H ! 3, H ! 4, H ! 5, H ! 6, H ! 7) 64 of
        (a, b, c, d, e, f, g, h) \<Rightarrow> map2 (+) H [a, b, c, d, e, f, g, h])"

text \<open>Sections 5.1.1 and 5.2.1: padding (the length is a 64-bit field) and the blocks.\<close>

definition fips_pad :: "bytes \<Rightarrow> bytes" where
  "fips_pad m = m @ [0x80] @ replicate ((119 - length m mod 64) mod 64) 0 @ be_bytes 8 (8 * length m)"

fun blocks :: "bytes \<Rightarrow> bytes list" where
  "blocks m = (if length m < 64 then [] else take 64 m # blocks (drop 64 m))"

declare blocks.simps [simp del]

definition fips_sha256 :: "bytes \<Rightarrow> bytes" where
  "fips_sha256 m = concat (map (\<lambda>w. be_bytes 4 (unat w)) (foldl fips_compress fips_H0 (blocks (fips_pad m))))"

section \<open>Lemmas\<close>

lemma rotr_word_rotr:
  assumes "0 < n" "n < 32"
  shows "rotr x n = word_rotr n x"
proof (rule bit_word_eqI)
  fix i assume "i < LENGTH(32)"
  then have i: "i < 32" by simp
  show "bit (rotr x n) i = bit (word_rotr n x) i"
  proof (cases "i + n < 32")
    case True
    then show ?thesis using i assms by (auto simp: rotr_def bit_simps add.commute)
  next
    case False
    then have "(i + n) mod 32 = i + n - 32" "\<not> bit x (n + i)"
      using i assms bit_imp_le_length[of x "n + i"] by (simp_all add: le_mod_geq) force
    with False show ?thesis using i assms by (auto simp: rotr_def bit_simps add.commute)
  qed
qed

lemma load_word_spec:
  assumes "4 * i + 4 \<le> length d"
  shows "load_word d i = of_nat (be_val (take 4 (drop (4 * i) d)))"
proof -
  have "take 4 (drop (4 * i) d) = [d ! (4 * i), d ! (4 * i + 1), d ! (4 * i + 2), d ! (4 * i + 3)]"
    using assms by (intro nth_equalityI) (auto simp: nth_Cons' less_Suc_eq numeral_eq_Suc)
  then show ?thesis
    using be_word4[of "d ! (4 * i)" "d ! (4 * i + 1)" "d ! (4 * i + 2)" "d ! (4 * i + 3)"]
    by (simp only: load_word_def Let_def mult.commute)
qed

subsection \<open>The constants\<close>

lemma frac_root_eqI:
  assumes "y ^ k \<le> p * 2 ^ (32 * k)" "p * 2 ^ (32 * k) < (y + 1) ^ k"
  shows "frac_root k p = of_nat y"
proof -
  have "(GREATEST y. y ^ k \<le> p * 2 ^ (32 * k)) = y"
  proof (rule Greatest_equality)
    fix z assume "z ^ k \<le> p * 2 ^ (32 * k)"
    with assms(2) have "z ^ k < (y + 1) ^ k" by simp
    then show "z \<le> y" using power_mono[of "y + 1" z k] by (cases "z \<le> y") auto
  qed (rule assms(1))
  then show ?thesis by (simp add: frac_root_def)
qed

text \<open>A table of 32-bit fractions, checked entry by entry: \<open>c\<close> is the integral part of the root.\<close>

lemma frac_rootI:
  assumes "(c * 2 ^ 32 + unat w) ^ k \<le> p * 2 ^ (32 * k)" "p * 2 ^ (32 * k) < (c * 2 ^ 32 + unat w + 1) ^ k"
  shows "frac_root k p = w"
proof -
  have "frac_root k p = of_nat (c * 2 ^ 32 + unat w)"
    using assms by (rule frac_root_eqI)
  also have "\<dots> = of_nat c * of_nat (2 ^ 32) + of_nat (unat w)" by (simp only: of_nat_add of_nat_mult)
  also have "of_nat (2 ^ 32) = (0 :: u32)" by simp
  finally show ?thesis by simp
qed

fun frac_check :: "nat \<Rightarrow> u32 list \<Rightarrow> (nat \<times> nat) list \<Rightarrow> bool" where
  "frac_check k (w # ws) ((c, p) # ps) =
     ((c * 2 ^ 32 + unat w) ^ k \<le> p * 2 ^ (32 * k) \<and> p * 2 ^ (32 * k) < (c * 2 ^ 32 + unat w + 1) ^ k
      \<and> frac_check k ws ps)"
| "frac_check k ws ps = (ws = [] \<and> ps = [])"

lemma frac_check_root: "frac_check k ws ps \<Longrightarrow> ws = map (frac_root k \<circ> snd) ps"
  by (induction k ws ps rule: frac_check.induct) (auto simp del: power_Suc intro: frac_rootI[symmetric])

text \<open>The integral parts of the cube roots.\<close>

definition cube_ints :: "nat list" where
  "cube_ints = concat [[1, 1, 1, 1], [2, 2, 2, 2, 2], [3, 3, 3, 3, 3, 3, 3, 3, 3],
     [4, 4, 4, 4, 4, 4, 4, 4, 4, 4, 4, 4], [5, 5, 5, 5, 5, 5, 5, 5, 5, 5, 5, 5, 5, 5, 5, 5, 5],
     [6, 6, 6, 6, 6, 6, 6, 6, 6, 6, 6, 6, 6, 6, 6, 6, 6]]"

lemma K_table: "frac_check 3 sha_K (zip cube_ints fips_primes)"
  by (simp only: sha_K_def fips_primes_def cube_ints_def concat.simps append_Cons append_Nil append_Nil2 zip_Cons_Cons zip_Nil)
    simp

lemma sha_K_roots: "sha_K = map (frac_root 3) fips_primes"
proof -
  have "length cube_ints = length fips_primes" by (simp add: cube_ints_def fips_primes_def)
  then have "map (frac_root 3 \<circ> snd) (zip cube_ints fips_primes) = map (frac_root 3) fips_primes"
    by (simp flip: map_map)
  then show ?thesis using frac_check_root[OF K_table] by simp
qed

lemma sha_K_spec: "t < 64 \<Longrightarrow> sha_K ! t = fips_K t"
  unfolding sha_K_roots fips_K_def by (rule nth_map) (simp add: fips_primes_def)

lemma H0_table:
  "frac_check 2 [0x6a09e667, 0xbb67ae85, 0x3c6ef372, 0xa54ff53a, 0x510e527f, 0x9b05688c, 0x1f83d9ab, 0x5be0cd19]
     (zip [1, 1, 2, 2, 3, 3, 4, 4] (take 8 fips_primes))"
  by (simp add: fips_primes_def)

lemma fips_H0_eq:
  "fips_H0 = [0x6a09e667, 0xbb67ae85, 0x3c6ef372, 0xa54ff53a, 0x510e527f, 0x9b05688c, 0x1f83d9ab, 0x5be0cd19]"
  unfolding frac_check_root[OF H0_table] by (simp add: fips_H0_def fips_primes_def)

lemma small_sigmas:
  "rotr x 7 XOR rotr x 18 XOR drop_bit 3 x = fips_s0 x" "rotr x 17 XOR rotr x 19 XOR drop_bit 10 x = fips_s1 x"
  by (simp_all add: fips_s0_def fips_s1_def rotr_word_rotr)

lemma big_sigmas:
  "rotr x 2 XOR rotr x 13 XOR rotr x 22 = fips_S0 x" "rotr x 6 XOR rotr x 11 XOR rotr x 25 = fips_S1 x"
  by (simp_all add: fips_S0_def fips_S1_def rotr_word_rotr)

lemma expand_step_spec:
  assumes "16 \<le> k"
  shows "expand_step (map (fips_W M) [0..<k]) = map (fips_W M) [0..<Suc k]"
proof -
  have "fips_W M k = fips_s1 (fips_W M (k - 2)) + fips_W M (k - 7) + fips_s0 (fips_W M (k - 15)) + fips_W M (k - 16)"
    using assms by (subst fips_W.simps) simp
  then show ?thesis
    using assms by (simp add: expand_step_def Let_def small_sigmas nth_map algebra_simps)
qed

lemma schedule_spec:
  assumes "length M = 64"
  shows "schedule M = map (fips_W M) [0..<64]"
proof -
  have l: "map (load_word M) [0..<16] = map (fips_W M) [0..<16]"
    using assms by (intro map_cong) (auto simp: load_word_spec fips_W.simps[where t = "_ :: nat"])
  have "(expand_step ^^ n) (map (fips_W M) [0..<16]) = map (fips_W M) [0..<16 + n]" for n
    by (induction n) (simp_all add: expand_step_spec del: upt_Suc)
  from this[of 48] show ?thesis by (simp add: schedule_def l)
qed

lemma rounds_spec:
  assumes "length M = 64" "t \<le> 64"
  shows "fold (sha_round (schedule M)) [0..<t] v = fips_vars M v t"
  using assms(2)
proof (induction t)
  case (Suc t)
  then have "schedule M ! t = fips_W M t" by (simp add: schedule_spec[OF assms(1)])
  with Suc show ?case
    by (simp add: sha_K_spec sha_round_def Let_def big_sigmas fips_Ch_def fips_Maj_def split: prod.split)
qed simp

lemma transform_spec:
  assumes "length M = 64" "length st = 8"
  shows "sha256_transform M st = fips_compress st M"
proof -
  obtain s0 s1 s2 s3 s4 s5 s6 s7 where "st = [s0, s1, s2, s3, s4, s5, s6, s7]"
    using assms(2) by (auto simp: length_Suc_conv numeral_eq_Suc)
  then show ?thesis
    by (simp add: sha256_transform_def fips_compress_def rounds_spec[OF assms(1)] Let_def split: prod.split)
qed

subsection \<open>Streaming\<close>

lemma blocks_append: "list_all (\<lambda>b. length b = 64) bs \<Longrightarrow> blocks (concat bs @ x) = bs @ blocks x"
  by (induction bs) (simp_all add: blocks.simps[of "_ @ _"])

lemma blocks_one: "length b = 64 \<Longrightarrow> blocks b = [b]"
  by (simp add: blocks.simps)

text \<open>What the context holds after the bytes \<open>m\<close>.\<close>

definition sha_inv :: "sha_ctx \<Rightarrow> bytes \<Rightarrow> bool" where
  "sha_inv ctx m \<longleftrightarrow> (\<exists>bs part. m = concat bs @ part \<and> list_all (\<lambda>b. length b = 64) bs
     \<and> length part = sc_datalen ctx \<and> sc_datalen ctx < 64 \<and> length (sc_data ctx) = 64
     \<and> take (sc_datalen ctx) (sc_data ctx) = part
     \<and> sc_state ctx = foldl fips_compress fips_H0 bs \<and> sc_bitlen ctx = of_nat (512 * length bs))"

lemma sha_invE:
  assumes "sha_inv ctx m"
  obtains bs part where "m = concat bs @ part" "list_all (\<lambda>b. length b = 64) bs"
    "length part = sc_datalen ctx" "sc_datalen ctx < 64" "length (sc_data ctx) = 64"
    "take (sc_datalen ctx) (sc_data ctx) = part"
    "sc_state ctx = foldl fips_compress fips_H0 bs" "sc_bitlen ctx = of_nat (512 * length bs)"
  using assms unfolding sha_inv_def by blast

lemma length_compress [simp]: "length st = 8 \<Longrightarrow> length (fips_compress st M) = 8"
  by (simp add: fips_compress_def split: prod.split)

lemma length_compress_fold [simp]: "length (foldl fips_compress fips_H0 bs) = 8"
  by (induction bs rule: rev_induct) (simp_all add: fips_H0_eq)

lemma update_byte_inv:
  assumes "sha_inv ctx m"
  shows "sha_inv (update_byte v ctx) (m @ [v])"
proof -
  obtain bs part where I: "m = concat bs @ part" "list_all (\<lambda>b. length b = 64) bs"
      "length part = sc_datalen ctx" "sc_datalen ctx < 64" "length (sc_data ctx) = 64"
      "take (sc_datalen ctx) (sc_data ctx) = part"
      "sc_state ctx = foldl fips_compress fips_H0 bs" "sc_bitlen ctx = of_nat (512 * length bs)"
    by (rule sha_invE[OF assms])
  let ?data = "(sc_data ctx)[sc_datalen ctx := v]"
  have tk: "take (Suc (sc_datalen ctx)) ?data = part @ [v]"
    using I(3-6) by (simp add: take_Suc_conv_app_nth)
  show ?thesis
  proof (cases "sc_datalen ctx = 63")
    case True
    then have blk: "?data = part @ [v]" using tk I(5) by simp
    then have l: "length (part @ [v]) = 64" using I(5) by (metis length_list_update)
    have "update_byte v ctx = ctx\<lparr>sc_data := part @ [v], sc_state := fips_compress (sc_state ctx) (part @ [v]),
        sc_bitlen := sc_bitlen ctx + 512, sc_datalen := 0\<rparr>"
      using True blk transform_spec[OF l] I(7) by (simp add: update_byte_def Let_def)
    with I l show ?thesis
      unfolding sha_inv_def by (intro exI[of _ "bs @ [part @ [v]]"] exI[of _ "[]"]) simp
  next
    case False
    then have "update_byte v ctx = ctx\<lparr>sc_data := ?data, sc_datalen := sc_datalen ctx + 1\<rparr>"
      by (simp add: update_byte_def)
    with I tk False show ?thesis
      unfolding sha_inv_def by (intro exI[of _ bs] exI[of _ "part @ [v]"]) simp
  qed
qed

lemma update_inv: "sha_inv ctx m \<Longrightarrow> sha_inv (sha256_update data ctx) (m @ data)"
proof (induction data arbitrary: ctx m)
  case (Cons v data)
  from Cons.IH[OF update_byte_inv[OF Cons.prems]] show ?case by (simp add: sha256_update_def)
qed (simp add: sha256_update_def)

lemma updates_inv: "sha_inv ctx m \<Longrightarrow> sha_inv (fold sha256_update ms ctx) (m @ concat ms)"
proof (induction ms arbitrary: ctx m)
  case (Cons a ms)
  from Cons.IH[OF update_inv[OF Cons.prems, of a]] show ?case by simp
qed simp

lemma init_inv: "length data = 64 \<Longrightarrow> sha_inv (sha256_init data) []"
  unfolding sha_inv_def sha256_init_def by (intro exI[of _ "[]"]) (simp add: fips_H0_eq)

subsection \<open>Finishing\<close>

lemma byte_of_word64:
  assumes "k + 8 \<le> 64"
  shows "(ucast (drop_bit k (of_nat n :: 64 word)) :: byte) = of_nat (n div 2 ^ k mod 256)"
proof -
  have "n div 2 ^ k mod 256 = take_bit 8 (drop_bit k n)" by (simp add: drop_bit_eq_div take_bit_eq_mod)
  then show ?thesis using assms by (auto intro!: bit_word_eqI simp: bit_simps)
qed

lemma length_field_spec: "length_field (of_nat n) = be_bytes 8 n"
proof -
  have "[56, 48, 40, 32, 24, 16, 8, 0] = map (\<lambda>i. 8 * (7 - i)) [0..<8 :: nat]" by (simp add: upt_rec)
  then have "length_field (of_nat n) = map (\<lambda>i. of_nat (n div 256 ^ (7 - i) mod 256)) [0..<8]"
    unfolding length_field_def by (simp add: byte_of_word64 power_mult)
  also have "\<dots> = be_bytes 8 n"
    by (intro nth_equalityI) (simp_all add: be_bytes_nth)
  finally show ?thesis .
qed

lemma length_field_total: "length_field (8 * of_nat n) = be_bytes 8 (8 * n)"
  using length_field_spec[of "8 * n"] by simp

lemma digest_bytes_spec:
  assumes "length st = 8"
  shows "digest_bytes st = concat (map (\<lambda>w. be_bytes 4 (unat w)) st)"
proof -
  obtain s0 s1 s2 s3 s4 s5 s6 s7 where "st = [s0, s1, s2, s3, s4, s5, s6, s7]"
    using assms by (auto simp: length_Suc_conv numeral_eq_Suc)
  then show ?thesis by (simp add: digest_bytes_def be_bytes_word upt_rec)
qed

lemma length_concat_blocks: "list_all (\<lambda>b. length b = 64) bs \<Longrightarrow> length (concat bs) = 64 * length bs"
  by (induction bs) auto

text \<open>The last block or blocks, as the code builds them.\<close>

lemma final_short:
  assumes "sha_inv ctx m" "sc_datalen ctx < 56"
  shows "fst (sha256_final ctx) = fips_sha256 m"
proof -
  obtain bs part where I: "m = concat bs @ part" "list_all (\<lambda>b. length b = 64) bs"
      "length part = sc_datalen ctx" "sc_datalen ctx < 64" "length (sc_data ctx) = 64"
      "take (sc_datalen ctx) (sc_data ctx) = part"
      "sc_state ctx = foldl fips_compress fips_H0 bs" "sc_bitlen ctx = of_nat (512 * length bs)"
    by (rule sha_invE[OF assms(1)])
  define i where "i = sc_datalen ctx"
  have i: "i < 56" "length part = i" using assms(2) I(3) by (simp_all add: i_def)
  have len: "length m = 64 * length bs + i" using length_concat_blocks[OF I(2)] I(1) i by simp
  define blk where "blk = part @ 0x80 # replicate (55 - i) 0 @ be_bytes 8 (8 * length m)"
  have lb: "length blk = 64" using i by (simp add: blk_def)
  have bl: "sc_bitlen ctx + of_nat i * 8 = of_nat (8 * length m)" by (simp add: I(8) len algebra_simps)
  have "56 - i = Suc (55 - i)" using i by simp
  then have "take 56 (pad_from i 56 (sc_data ctx)) = part @ 0x80 # replicate (55 - i) 0"
    using i I(6) by (simp add: pad_from_def flip: i_def)
  then have "fst (sha256_final ctx) = digest_bytes (sha256_transform blk (sc_state ctx))"
    using i bl by (simp add: sha256_final_def Let_def blk_def length_field_total flip: i_def)
  also have "\<dots> = digest_bytes (foldl fips_compress fips_H0 (bs @ [blk]))"
    using transform_spec[OF lb] I(7) by simp
  also have "bs @ [blk] = blocks (fips_pad m)"
  proof -
    have "length m mod 64 = i" "119 - i = 55 - i + 64" using i len by simp_all
    then have "(119 - length m mod 64) mod 64 = 55 - i" by (simp only: mod_add_self2) simp
    then have "fips_pad m = concat bs @ blk" by (simp add: fips_pad_def blk_def I(1))
    then show ?thesis using blocks_append[OF I(2), of blk] lb by (simp add: blocks_one)
  qed
  finally show ?thesis by (simp add: fips_sha256_def digest_bytes_spec)
qed

lemma final_long:
  assumes "sha_inv ctx m" "\<not> sc_datalen ctx < 56"
  shows "fst (sha256_final ctx) = fips_sha256 m"
proof -
  obtain bs part where I: "m = concat bs @ part" "list_all (\<lambda>b. length b = 64) bs"
      "length part = sc_datalen ctx" "sc_datalen ctx < 64" "length (sc_data ctx) = 64"
      "take (sc_datalen ctx) (sc_data ctx) = part"
      "sc_state ctx = foldl fips_compress fips_H0 bs" "sc_bitlen ctx = of_nat (512 * length bs)"
    by (rule sha_invE[OF assms(1)])
  define i where "i = sc_datalen ctx"
  have i: "56 \<le> i" "i < 64" "length part = i" using assms(2) I(3,4) by (simp_all add: i_def)
  have len: "length m = 64 * length bs + i" using length_concat_blocks[OF I(2)] I(1) i by simp
  define b1 where "b1 = part @ 0x80 # replicate (63 - i) 0"
  define b2 where "b2 = replicate 56 0 @ be_bytes 8 (8 * length m)"
  have lb: "length b1 = 64" "length b2 = 64" using i by (simp_all add: b1_def b2_def)
  have bl: "sc_bitlen ctx + of_nat i * 8 = of_nat (8 * length m)" by (simp add: I(8) len algebra_simps)
  have "pad_from i 64 (sc_data ctx) = b1"
    using i I(5,6) by (simp add: pad_from_def i_def b1_def)
  then have "fst (sha256_final ctx) = digest_bytes (sha256_transform b2 (sha256_transform b1 (sc_state ctx)))"
    using i bl by (simp add: sha256_final_def Let_def b2_def length_field_total flip: i_def)
  also have "\<dots> = digest_bytes (foldl fips_compress fips_H0 (bs @ [b1, b2]))"
    using transform_spec lb I(7) by simp
  also have "bs @ [b1, b2] = blocks (fips_pad m)"
  proof -
    have k: "(119 - length m mod 64) mod 64 = (63 - i) + 56" using i len by simp
    have "fips_pad m = concat (bs @ [b1]) @ b2"
      unfolding fips_pad_def k by (simp add: b1_def b2_def I(1) replicate_add)
    then show ?thesis using blocks_append[of "bs @ [b1]" b2] I(2) lb by (simp add: blocks_one)
  qed
  finally show ?thesis by (simp add: fips_sha256_def digest_bytes_spec)
qed

lemma final_spec: "sha_inv ctx m \<Longrightarrow> fst (sha256_final ctx) = fips_sha256 m"
  using final_short final_long by blast

lemma length_fips_sha256: "length (fips_sha256 m) = 32"
proof -
  have "length (concat (map (\<lambda>w. be_bytes 4 (unat w)) ws)) = 4 * length ws" for ws :: "u32 list"
    by (induction ws) auto
  then show ?thesis by (simp add: fips_sha256_def)
qed

section \<open>SHA-256 as a digest\<close>

text \<open>The three entry points; a fresh context starts with a zeroed buffer.\<close>

definition sha256_digest :: "sha_ctx digest" where
  "sha256_digest = \<lparr>d_init = sha256_init (replicate 64 0), d_update = sha256_update, d_final = sha256_final\<rparr>"

interpretation sha: digest_law sha256_digest fips_sha256 32
proof
  fix ms
  have "sha_inv (fold sha256_update ms (sha256_init (replicate 64 0))) (concat ms)"
    using updates_inv[OF init_inv, of "replicate 64 0" ms] by simp
  then show "fst (d_final sha256_digest (fold (d_update sha256_digest) ms (d_init sha256_digest))) = fips_sha256 (concat ms)"
    by (simp add: sha256_digest_def final_spec)
qed (rule length_fips_sha256)

section \<open>Properties\<close>

text \<open>
  C4. The code computes SHA-256 as FIPS 180-4 defines it, for every message and however the message is
  cut into \<open>sha256_update\<close> calls, whatever the buffer held before \<open>sha256_init\<close>.
\<close>

theorem sha256_is_fips:
  "fst (sha256_final (fold sha256_update ms (sha256_init (take 64 (junk @ replicate 64 0))))) = fips_sha256 (concat ms)"
proof -
  have "length (take 64 (junk @ replicate 64 0)) = 64" by simp
  from updates_inv[OF init_inv[OF this], of ms] show ?thesis by (simp add: final_spec)
qed

end
