(* ===== verification/Ssh_Hash.thy ===== *)
theory Ssh_Hash
  imports Sha256
begin

text \<open>
  The hash and HMAC entry points of \<open>libssh2_axtls.c\<close>: a context with an algorithm number that
  dispatches to one of the five axtls hash functions, and HMAC built on it.

  The five functions are parameters (a record of digests, see \<open>Digest\<close>) that share the opaque storage
  \<open>'c\<close> of the context. What \<open>hash_update\<close> prints is in \<open>Ssh_Backend\<close>; lengths are below \<open>2 ^ 31\<close>, so
  that the conversions to \<open>int\<close> do not change them.
\<close>

section \<open>Definitions\<close>

record 'c axtls_hashes =
  SHA1 :: "'c digest"
  SHA256 :: "'c digest"
  SHA384 :: "'c digest"
  SHA512 :: "'c digest"
  MD5 :: "'c digest"

abbreviation LIBSSH2_AXTLS_HASH_SHA1 :: int where "LIBSSH2_AXTLS_HASH_SHA1 \<equiv> 1"
abbreviation LIBSSH2_AXTLS_HASH_SHA256 :: int where "LIBSSH2_AXTLS_HASH_SHA256 \<equiv> 2"
abbreviation LIBSSH2_AXTLS_HASH_SHA384 :: int where "LIBSSH2_AXTLS_HASH_SHA384 \<equiv> 3"
abbreviation LIBSSH2_AXTLS_HASH_SHA512 :: int where "LIBSSH2_AXTLS_HASH_SHA512 \<equiv> 4"
abbreviation LIBSSH2_AXTLS_HASH_MD5 :: int where "LIBSSH2_AXTLS_HASH_MD5 \<equiv> 5"

abbreviation LIBSSH2_AXTLS_HMAC_MAX_KEY :: nat where "LIBSSH2_AXTLS_HMAC_MAX_KEY \<equiv> 128"

text \<open>The \<open>switch\<close> on the algorithm; \<open>None\<close> is the case that falls out of it.\<close>

definition hash_switch :: "'c axtls_hashes \<Rightarrow> int \<Rightarrow> 'c digest option" where
  "hash_switch ax algo =
     (if algo = LIBSSH2_AXTLS_HASH_SHA1 then Some (SHA1 ax)
      else if algo = LIBSSH2_AXTLS_HASH_SHA256 then Some (SHA256 ax)
      else if algo = LIBSSH2_AXTLS_HASH_SHA384 then Some (SHA384 ax)
      else if algo = LIBSSH2_AXTLS_HASH_SHA512 then Some (SHA512 ax)
      else if algo = LIBSSH2_AXTLS_HASH_MD5 then Some (MD5 ax)
      else None)"

record 'c hash_ctx =
  hc_algo :: int
  hc_storage :: 'c

text \<open>\<open>True\<close> is the result 1.\<close>

definition libssh2_axtls_hash_init :: "'c axtls_hashes \<Rightarrow> int \<Rightarrow> 'c hash_ctx \<Rightarrow> bool \<times> 'c hash_ctx" where
  "libssh2_axtls_hash_init ax algo ctx =
     (let ctx = ctx\<lparr>hc_algo := algo\<rparr>
      in case hash_switch ax algo of
           Some d \<Rightarrow> (True, ctx\<lparr>hc_storage := d_init d\<rparr>)
         | None \<Rightarrow> (False, ctx))"

definition libssh2_axtls_hash_update :: "'c axtls_hashes \<Rightarrow> bytes \<Rightarrow> 'c hash_ctx \<Rightarrow> bool \<times> 'c hash_ctx" where
  "libssh2_axtls_hash_update ax data ctx =
     (case hash_switch ax (hc_algo ctx) of
        Some d \<Rightarrow> (True, ctx\<lparr>hc_storage := d_update d data (hc_storage ctx)\<rparr>)
      | None \<Rightarrow> (False, ctx))"

text \<open>\<open>None\<close> is the result 0, with nothing written.\<close>

definition libssh2_axtls_hash_final :: "'c axtls_hashes \<Rightarrow> 'c hash_ctx \<Rightarrow> bytes option \<times> 'c hash_ctx" where
  "libssh2_axtls_hash_final ax ctx =
     (case hash_switch ax (hc_algo ctx) of
        Some d \<Rightarrow> let (out, c) = d_final d (hc_storage ctx) in (Some out, ctx\<lparr>hc_storage := c\<rparr>)
      | None \<Rightarrow> (None, ctx))"

text \<open>The context is a local variable; \<open>c\<close> is what it held.\<close>

definition libssh2_axtls_hash :: "'c axtls_hashes \<Rightarrow> 'c hash_ctx \<Rightarrow> bytes \<Rightarrow> int \<Rightarrow> bytes option" where
  "libssh2_axtls_hash ax c data algo =
     (let (ok, c) = libssh2_axtls_hash_init ax algo c
      in if \<not> ok then None
         else let (ok, c) = libssh2_axtls_hash_update ax data c
              in if \<not> ok then None else fst (libssh2_axtls_hash_final ax c))"

record 'c hmac_ctx =
  hm_algo :: int
  hm_hash_size :: nat
  hm_block_size :: nat
  hm_k_opad :: bytes
  hm_inner :: "'c hash_ctx"

definition hmac_sizes :: "int \<Rightarrow> (nat \<times> nat) option" where
  "hmac_sizes algo =
     (if algo = LIBSSH2_AXTLS_HASH_SHA1 then Some (64, 20)
      else if algo = LIBSSH2_AXTLS_HASH_SHA256 then Some (64, 32)
      else if algo = LIBSSH2_AXTLS_HASH_SHA384 then Some (128, 48)
      else if algo = LIBSSH2_AXTLS_HASH_SHA512 then Some (128, 64)
      else if algo = LIBSSH2_AXTLS_HASH_MD5 then Some (64, 16)
      else None)"

text \<open>A \<open>memcpy\<close> or a digest stored at the start of a buffer.\<close>

definition put :: "bytes \<Rightarrow> bytes \<Rightarrow> bytes" where
  "put src buf = src @ drop (length src) buf"

definition hmac_key_block :: "'c axtls_hashes \<Rightarrow> 'c hash_ctx \<Rightarrow> int \<Rightarrow> nat \<Rightarrow> bytes \<Rightarrow> bytes" where
  "hmac_key_block ax c algo block_size key =
     (let k_block = replicate LIBSSH2_AXTLS_HMAC_MAX_KEY 0
      in if length key > block_size
         then (case libssh2_axtls_hash ax c key algo of Some h \<Rightarrow> put h k_block | None \<Rightarrow> k_block)
         else put key k_block)"

definition hmac_init :: "'c axtls_hashes \<Rightarrow> 'c hash_ctx \<Rightarrow> 'c hmac_ctx \<Rightarrow> int \<Rightarrow> bytes \<Rightarrow> bool \<times> 'c hmac_ctx" where
  "hmac_init ax c ctx algo key =
     (case hmac_sizes algo of
        None \<Rightarrow> (False, ctx)
      | Some (block_size, hash_size) \<Rightarrow>
          let ctx = ctx\<lparr>hm_algo := algo, hm_block_size := block_size, hm_hash_size := hash_size\<rparr>;
              k_block = hmac_key_block ax c algo block_size key;
              k_ipad = map (\<lambda>i. k_block ! i XOR 0x36) [0..<block_size];
              ctx = ctx\<lparr>hm_k_opad := put (map (\<lambda>i. k_block ! i XOR 0x5C) [0..<block_size]) (hm_k_opad ctx)\<rparr>;
              (ok, inner) = libssh2_axtls_hash_init ax algo (hm_inner ctx);
              ctx = ctx\<lparr>hm_inner := inner\<rparr>
          in if \<not> ok then (False, ctx)
             else let (ok, inner) = libssh2_axtls_hash_update ax k_ipad (hm_inner ctx)
                  in (ok, ctx\<lparr>hm_inner := inner\<rparr>))"

text \<open>\<open>memset\<close> of the whole structure; \<open>z\<close> is the zeroed storage.\<close>

definition libssh2_hmac_ctx_init :: "'c \<Rightarrow> 'c hmac_ctx" where
  "libssh2_hmac_ctx_init z = \<lparr>hm_algo = 0, hm_hash_size = 0, hm_block_size = 0,
     hm_k_opad = replicate LIBSSH2_AXTLS_HMAC_MAX_KEY 0, hm_inner = \<lparr>hc_algo = 0, hc_storage = z\<rparr>\<rparr>"

definition libssh2_hmac_update :: "'c axtls_hashes \<Rightarrow> bytes \<Rightarrow> 'c hmac_ctx \<Rightarrow> bool \<times> 'c hmac_ctx" where
  "libssh2_hmac_update ax data ctx =
     (let (ok, inner) = libssh2_axtls_hash_update ax data (hm_inner ctx) in (ok, ctx\<lparr>hm_inner := inner\<rparr>))"

definition libssh2_hmac_final :: "'c axtls_hashes \<Rightarrow> 'c hash_ctx \<Rightarrow> 'c hmac_ctx \<Rightarrow> bytes option \<times> 'c hmac_ctx" where
  "libssh2_hmac_final ax c ctx =
     (let (h, inner) = libssh2_axtls_hash_final ax (hm_inner ctx);
          ctx = ctx\<lparr>hm_inner := inner\<rparr>
      in case h of
           None \<Rightarrow> (None, ctx)
         | Some inner_hash \<Rightarrow>
             let (ok, outer) = libssh2_axtls_hash_init ax (hm_algo ctx) c
             in if \<not> ok then (None, ctx)
                else let (ok, outer) = libssh2_axtls_hash_update ax (take (hm_block_size ctx) (hm_k_opad ctx)) outer
                     in if \<not> ok then (None, ctx)
                        else let (ok, outer) = libssh2_axtls_hash_update ax (take (hm_hash_size ctx) inner_hash) outer
                             in if \<not> ok then (None, ctx) else (fst (libssh2_axtls_hash_final ax outer), ctx))"

definition libssh2_hmac_cleanup :: "'c \<Rightarrow> 'c hmac_ctx" where
  "libssh2_hmac_cleanup z = libssh2_hmac_ctx_init z"

section \<open>HMAC as RFC 2104 defines it\<close>

definition rfc_hmac :: "(bytes \<Rightarrow> bytes) \<Rightarrow> nat \<Rightarrow> bytes \<Rightarrow> bytes \<Rightarrow> bytes" where
  "rfc_hmac H B K text =
     (let K0 = (if length K > B then H K else K);
          K0 = K0 @ replicate (B - length K0) 0
      in H (map (\<lambda>b. b XOR 0x5C) K0 @ H (map (\<lambda>b. b XOR 0x36) K0 @ text)))"

section \<open>Lemmas\<close>

lemma hmac_sizes_bounds: "hmac_sizes algo = Some (B, n) \<Longrightarrow> n \<le> B \<and> B \<le> 128 \<and> (\<exists>d. hash_switch ax algo = Some d)"
  by (auto simp: hmac_sizes_def hash_switch_def split: if_splits)

lemma hash_one_shot:
  assumes "hash_switch ax algo = Some d" "digest_law d H n"
  shows "libssh2_axtls_hash ax c data algo = Some (H data)"
  using assms(1) digest_law.one_shot[OF assms(2), of data]
  by (simp add: libssh2_axtls_hash_def libssh2_axtls_hash_init_def libssh2_axtls_hash_update_def
      libssh2_axtls_hash_final_def Let_def split_beta)

text \<open>The padded key, read out of the 128-byte block.\<close>

lemma put_zeros: "length src \<le> B \<Longrightarrow> B \<le> 128 \<Longrightarrow>
    map (\<lambda>i. put src (replicate 128 0) ! i XOR v) [0..<B] = map (\<lambda>b. b XOR v) (src @ replicate (B - length src) 0)"
  by (intro nth_equalityI) (auto simp: put_def nth_append)

lemma hmac_init_result:
  fixes key :: bytes
  assumes "hmac_sizes algo = Some (B, n)" "hash_switch ax algo = Some d" "digest_law d H n" "length (hm_k_opad ctx) = 128"
  defines "K0 \<equiv> (if length key > B then H key else key)"
  shows "\<exists>t. hmac_init ax c ctx algo key = (True, t) \<and> hm_algo t = algo \<and> hm_block_size t = B \<and> hm_hash_size t = n
    \<and> take B (hm_k_opad t) = map (\<lambda>b. b XOR 0x5C) (K0 @ replicate (B - length K0) 0)
    \<and> hm_inner t = \<lparr>hc_algo = algo, hc_storage = d_update d (map (\<lambda>b. b XOR 0x36) (K0 @ replicate (B - length K0) 0)) (d_init d)\<rparr>"
proof -
  have B: "n \<le> B" "B \<le> 128" using hmac_sizes_bounds[OF assms(1), of ax] by auto
  have "length (H key) = n" using digest_law.digest_size[OF assms(3)] .
  then have K0: "length K0 \<le> B" using B by (auto simp: K0_def)
  have "hmac_key_block ax c algo B key = put K0 (replicate 128 0)"
    using hash_one_shot[OF assms(2,3), of c key] by (simp add: hmac_key_block_def K0_def Let_def)
  then show ?thesis
    using assms(1,2) put_zeros[OF K0 B(2)] B K0
    by (simp add: hmac_init_def libssh2_axtls_hash_init_def libssh2_axtls_hash_update_def put_def Let_def)
qed

lemma hmac_updates:
  assumes "hash_switch ax algo = Some d" "hc_algo (hm_inner ctx) = algo"
  shows "fold (\<lambda>m x. snd (libssh2_hmac_update ax m x)) ms ctx =
    ctx\<lparr>hm_inner := (hm_inner ctx)\<lparr>hc_storage := fold (d_update d) ms (hc_storage (hm_inner ctx))\<rparr>\<rparr>"
  using assms
  by (induction ms arbitrary: ctx)
    (simp_all add: libssh2_hmac_update_def libssh2_axtls_hash_update_def)

section \<open>Properties\<close>

text \<open>
  C11. HMAC is RFC 2104: for each of the five algorithms, when its axtls hash meets the digest contract
  with the size the code assumes, initialising with any key, feeding the message in any pieces and
  finishing writes \<open>H (K0 xor opad, H (K0 xor ipad, text))\<close>; keys longer than a block are hashed first.
\<close>

theorem hmac_is_rfc2104:
  assumes "hmac_sizes algo = Some (B, n)" "hash_switch ax algo = Some d" "digest_law d H n"
  shows "fst (libssh2_hmac_final ax c2 (fold (\<lambda>m x. snd (libssh2_hmac_update ax m x)) ms
      (snd (hmac_init ax c (libssh2_hmac_ctx_init z) algo key)))) = Some (rfc_hmac H B key (concat ms))"
proof -
  note law = digest_law.prefixed[OF assms(3)] digest_law.two_parts[OF assms(3)] digest_law.digest_size[OF assms(3)]
  define K where "K = (let K0 = (if length key > B then H key else key) in K0 @ replicate (B - length K0) 0)"
  have op: "length (hm_k_opad (libssh2_hmac_ctx_init z)) = 128" by (simp add: libssh2_hmac_ctx_init_def)
  obtain t where t: "hmac_init ax c (libssh2_hmac_ctx_init z) algo key = (True, t)" "hm_algo t = algo"
      "hm_block_size t = B" "hm_hash_size t = n" "take B (hm_k_opad t) = map (\<lambda>b. b XOR 0x5C) K"
      "hm_inner t = \<lparr>hc_algo = algo, hc_storage = d_update d (map (\<lambda>b. b XOR 0x36) K) (d_init d)\<rparr>"
    using hmac_init_result[OF assms op, of c key] by (auto simp: K_def Let_def)
  have "fst (d_final d (fold (d_update d) ms (d_update d (map (\<lambda>b. b XOR 0x36) K) (d_init d)))) = H (map (\<lambda>b. b XOR 0x36) K @ concat ms)"
    by (rule law(1))
  with law(2)[of "H (map (\<lambda>b. b XOR 0x36) K @ concat ms)" "map (\<lambda>b. b XOR 0x5C) K"] show ?thesis
    using t assms(2) law(3)
    by (simp add: hmac_updates[OF assms(2)] libssh2_hmac_final_def libssh2_axtls_hash_final_def libssh2_axtls_hash_init_def
        libssh2_axtls_hash_update_def rfc_hmac_def K_def Let_def split_beta)
qed

text \<open>All five slots filled with the SHA-256 of \<open>Sha256\<close>; the property applies to its own slot.\<close>

definition sha_hashes :: "sha_ctx axtls_hashes" where
  "sha_hashes = \<lparr>SHA1 = sha256_digest, SHA256 = sha256_digest, SHA384 = sha256_digest, SHA512 = sha256_digest, MD5 = sha256_digest\<rparr>"

theorem hmac_is_rfc2104_witness:
  "fst (libssh2_hmac_final sha_hashes \<lparr>hc_algo = 0, hc_storage = sha256_init []\<rparr>
     (fold (\<lambda>m x. snd (libssh2_hmac_update sha_hashes m x)) [[1], [2, 3]]
        (snd (hmac_init sha_hashes \<lparr>hc_algo = 0, hc_storage = sha256_init []\<rparr>
           (libssh2_hmac_ctx_init (sha256_init [])) LIBSSH2_AXTLS_HASH_SHA256 (replicate 100 7)))))
   = Some (rfc_hmac fips_sha256 64 (replicate 100 7) [1, 2, 3])"
proof -
  have "hmac_sizes LIBSSH2_AXTLS_HASH_SHA256 = Some (64, 32)" "hash_switch sha_hashes LIBSSH2_AXTLS_HASH_SHA256 = Some sha256_digest"
    by (simp_all add: hmac_sizes_def hash_switch_def sha_hashes_def)
  from hmac_is_rfc2104[OF this sha.digest_law_axioms, where ms = "[[1], [2, 3]]" and key = "replicate 100 7"]
  show ?thesis by simp
qed

end
