(* ===== verification/Ssh_Cipher.thy ===== *)
theory Ssh_Cipher
  imports Big_Endian
begin

text \<open>
  The ciphers of \<open>libssh2_axtls.c\<close>: AES in CBC mode by axtls, and counter mode built here on axtls's
  block function, which works on four big-endian words.

  axtls is a record of functions over its key schedule \<open>'k\<close>. The machine is little-endian: \<open>memcpy\<close> to a
  \<open>uint32_t\<close> array and back is \<open>le_words\<close> and \<open>le_bytes\<close>, and \<open>ntohl\<close> and \<open>htonl\<close> swap the bytes.
\<close>

section \<open>Definitions\<close>

datatype aes_mode = AES_MODE_128 | AES_MODE_256

record 'k aes =
  AES_set_key :: "bytes \<Rightarrow> bytes \<Rightarrow> aes_mode \<Rightarrow> 'k"
  AES_convert_key :: "'k \<Rightarrow> 'k"
  AES_encrypt :: "'k \<Rightarrow> u32 list \<Rightarrow> u32 list"
  AES_cbc_encrypt :: "'k \<Rightarrow> bytes \<Rightarrow> bytes \<times> 'k"
  AES_cbc_decrypt :: "'k \<Rightarrow> bytes \<Rightarrow> bytes \<times> 'k"

record 'k cipher_ctx =
  keylen_bits :: nat
  ctr_iv :: bytes
  is_ctr :: bool
  ci_storage :: 'k

abbreviation cipher_aes128 :: int where "cipher_aes128 \<equiv> 1"
abbreviation cipher_aes192 :: int where "cipher_aes192 \<equiv> 2"
abbreviation cipher_aes256 :: int where "cipher_aes256 \<equiv> 3"
abbreviation cipher_aes128ctr :: int where "cipher_aes128ctr \<equiv> 4"
abbreviation cipher_aes192ctr :: int where "cipher_aes192ctr \<equiv> 5"
abbreviation cipher_aes256ctr :: int where "cipher_aes256ctr \<equiv> 6"

text \<open>The \<open>switch\<close>; \<open>None\<close> is the early return of \<open>-1\<close>.\<close>

definition cipher_mode :: "int \<Rightarrow> aes_mode option" where
  "cipher_mode algo =
     (if algo = cipher_aes128 \<or> algo = cipher_aes128ctr then Some AES_MODE_128
      else if algo = cipher_aes192 \<or> algo = cipher_aes192ctr then None
      else if algo = cipher_aes256 \<or> algo = cipher_aes256ctr then Some AES_MODE_256
      else None)"

definition libssh2_axtls_cipher_init ::
  "'k aes \<Rightarrow> 'k cipher_ctx \<Rightarrow> int \<Rightarrow> bytes \<Rightarrow> bytes \<Rightarrow> bool \<Rightarrow> int \<times> 'k cipher_ctx" where
  "libssh2_axtls_cipher_init ax ctx algo iv secret encrypt =
     (case cipher_mode algo of
        None \<Rightarrow> (-1, ctx)
      | Some m \<Rightarrow>
          let ctx = ctx\<lparr>ci_storage := AES_set_key ax secret iv m,
                        keylen_bits := (if m = AES_MODE_128 then 128 else 256),
                        is_ctr := (cipher_aes128ctr \<le> algo \<and> algo \<le> cipher_aes256ctr)\<rparr>;
              ctx = (if \<not> encrypt \<and> \<not> is_ctr ctx then ctx\<lparr>ci_storage := AES_convert_key ax (ci_storage ctx)\<rparr> else ctx);
              ctx = (if is_ctr ctx then ctx\<lparr>ctr_iv := take 16 iv\<rparr> else ctx)
          in (0, ctx))"

definition ntohl :: "u32 \<Rightarrow> u32" where
  "ntohl w = push_bit 24 (w AND 0xFF) OR push_bit 16 (drop_bit 8 w AND 0xFF) OR push_bit 8 (drop_bit 16 w AND 0xFF) OR (drop_bit 24 w AND 0xFF)"

abbreviation htonl :: "u32 \<Rightarrow> u32" where "htonl \<equiv> ntohl"

definition le_word :: "bytes \<Rightarrow> u32" where
  "le_word bs = push_bit 24 (ucast (bs ! 3)) OR push_bit 16 (ucast (bs ! 2)) OR push_bit 8 (ucast (bs ! 1)) OR ucast (bs ! 0)"

definition le_words :: "bytes \<Rightarrow> u32 list" where
  "le_words bs = map (\<lambda>i. le_word (take 4 (drop (4 * i) bs))) [0..<4]"

definition le_bytes :: "u32 list \<Rightarrow> bytes" where
  "le_bytes ws = concat (map (\<lambda>w. [ucast (w AND 0xFF), ucast (drop_bit 8 w AND 0xFF),
     ucast (drop_bit 16 w AND 0xFF), ucast (drop_bit 24 w AND 0xFF)]) ws)"

definition keystream :: "'k aes \<Rightarrow> 'k \<Rightarrow> bytes \<Rightarrow> bytes" where
  "keystream ax k iv = le_bytes (map htonl (AES_encrypt ax k (map ntohl (le_words iv))))"

text \<open>The loop that increments the counter, from byte \<open>k\<close> down.\<close>

fun ctr_increment :: "nat \<Rightarrow> bytes \<Rightarrow> bytes" where
  "ctr_increment k iv =
     (let iv = iv[k := iv ! k + 1]
      in if iv ! k \<noteq> 0 then iv else case k of 0 \<Rightarrow> iv | Suc j \<Rightarrow> ctr_increment j iv)"

declare ctr_increment.simps [simp del]

text \<open>\<open>block\<close> is what is left of the buffer; the result is what is left in place of it.\<close>

function ctr_loop :: "'k aes \<Rightarrow> bytes \<Rightarrow> 'k cipher_ctx \<Rightarrow> bytes \<times> 'k cipher_ctx" where
  "ctr_loop ax block ctx =
     (if block = [] then ([], ctx)
      else let ks = keystream ax (ci_storage ctx) (ctr_iv ctx);
               n = (if length block < 16 then length block else 16);
               out = map (\<lambda>j. block ! j XOR ks ! j) [0..<n];
               (rest, ctx) = ctr_loop ax (drop 16 block) (ctx\<lparr>ctr_iv := ctr_increment 15 (ctr_iv ctx)\<rparr>)
           in (out @ rest, ctx))"
  by pat_completeness auto
termination
  by (relation "measure (\<lambda>(ax, block, ctx). length block)") auto

declare ctr_loop.simps [simp del]

definition libssh2_axtls_cipher_crypt ::
  "'k aes \<Rightarrow> bool \<Rightarrow> bytes \<Rightarrow> 'k cipher_ctx \<Rightarrow> bytes \<times> 'k cipher_ctx" where
  "libssh2_axtls_cipher_crypt ax encrypt block ctx =
     (if is_ctr ctx then ctr_loop ax block ctx
      else let (out, k) = (if encrypt then AES_cbc_encrypt ax (ci_storage ctx) block else AES_cbc_decrypt ax (ci_storage ctx) block)
           in (out, ctx\<lparr>ci_storage := k\<rparr>))"

section \<open>Counter mode as NIST SP 800-38A defines it\<close>

text \<open>The block function on sixteen bytes, and the counter as a number modulo \<open>2 ^ 128\<close>.\<close>

definition aes_block :: "'k aes \<Rightarrow> 'k \<Rightarrow> bytes \<Rightarrow> bytes" where
  "aes_block ax k bs =
     concat (map (\<lambda>w. be_bytes 4 (unat w))
       (AES_encrypt ax k (map (\<lambda>i. of_nat (be_val (take 4 (drop (4 * i) bs)))) [0..<4])))"

definition counter :: "nat \<Rightarrow> bytes" where
  "counter c = be_bytes 16 c"

definition ctr_stream :: "'k aes \<Rightarrow> 'k \<Rightarrow> nat \<Rightarrow> nat \<Rightarrow> byte" where
  "ctr_stream ax k c i = aes_block ax k (counter (c + i div 16)) ! (i mod 16)"

definition nist_ctr :: "'k aes \<Rightarrow> 'k \<Rightarrow> nat \<Rightarrow> bytes \<Rightarrow> bytes" where
  "nist_ctr ax k c data = map (\<lambda>i. data ! i XOR ctr_stream ax k c i) [0..<length data]"

section \<open>Lemmas\<close>

subsection \<open>Byte order\<close>

lemma byte_of_shifted:
  fixes a b c d :: byte
  defines "w \<equiv> (push_bit 24 (ucast a) OR push_bit 16 (ucast b) OR push_bit 8 (ucast c) OR ucast d :: u32)"
  shows "w AND 0xFF = ucast d" "drop_bit 8 w AND 0xFF = ucast c" "drop_bit 16 w AND 0xFF = ucast b" "drop_bit 24 w AND 0xFF = ucast a"
proof -
  have m: "(0xFF :: u32) = mask 8" by (simp add: mask_eq_exp_minus_1)
  show "w AND 0xFF = ucast d" "drop_bit 8 w AND 0xFF = ucast c" "drop_bit 16 w AND 0xFF = ucast b" "drop_bit 24 w AND 0xFF = ucast a"
    unfolding m w_def by (auto intro!: bit_word_eqI simp: bit_simps dest: bit_byte_less)
qed

lemma ntohl_shifted:
  fixes a b c d :: byte
  shows
  "ntohl (push_bit 24 (ucast a) OR push_bit 16 (ucast b) OR push_bit 8 (ucast c) OR ucast d)
   = push_bit 24 (ucast d) OR push_bit 16 (ucast c) OR push_bit 8 (ucast b) OR ucast a"
  unfolding ntohl_def byte_of_shifted ..

lemma ucast_byte_back [simp]: "ucast (ucast (b :: byte) :: u32) = b"
  by (rule bit_word_eqI) (simp add: bit_simps)

lemma le_bytes_htonl: "le_bytes (map htonl ws) = concat (map (\<lambda>w. be_bytes 4 (unat w)) ws)"
proof (induction ws)
  case (Cons w ws)
  obtain a b c d where w: "be_bytes 4 (unat w) = [a, b, c, d]"
    "w = push_bit 24 (ucast a) OR push_bit 16 (ucast b) OR push_bit 8 (ucast c) OR ucast d" by (rule word_of_bytes)
  have "le_bytes [htonl w] = [a, b, c, d]"
    unfolding w(2) ntohl_shifted le_bytes_def list.map concat.simps byte_of_shifted by simp
  with Cons w(1) show ?case by (simp add: le_bytes_def)
qed (simp add: le_bytes_def)

lemma ntohl_le_word:
  assumes "length bs = 4"
  shows "ntohl (le_word bs) = of_nat (be_val bs)"
proof -
  obtain a b c d where "bs = [a, b, c, d]" using assms by (auto simp: length_Suc_conv numeral_eq_Suc)
  then show ?thesis using be_word4[of a b c d] by (simp add: le_word_def ntohl_shifted)
qed

lemma keystream_block:
  assumes "length iv = 16"
  shows "keystream ax k iv = aes_block ax k iv"
proof -
  have "map ntohl (le_words iv) = map (\<lambda>i. of_nat (be_val (take 4 (drop (4 * i) iv)))) [0..<4]"
    using assms by (simp add: le_words_def ntohl_le_word)
  then show ?thesis by (simp add: keystream_def aes_block_def le_bytes_htonl)
qed

subsection \<open>The counter\<close>

lemma ctr_increment_val:
  "k < length iv \<Longrightarrow> \<exists>ys. ctr_increment k iv = ys @ drop (Suc k) iv \<and> length ys = Suc k
     \<and> be_val ys = (be_val (take (Suc k) iv) + 1) mod 256 ^ Suc k"
proof (induction k arbitrary: iv)
  case 0
  then obtain b bs where iv: "iv = b # bs" by (cases iv) auto
  have "unat (b + 1) = (unat b + 1) mod 256" by (simp add: unat_word_ariths)
  then show ?case
    by (intro exI[of _ "[b + 1]"]) (simp add: iv ctr_increment.simps[of 0] Let_def)
next
  case (Suc k)
  let ?v = "iv ! Suc k + 1" and ?p = "take (Suc k) iv"
  have tk: "take (Suc (Suc k)) iv = ?p @ [iv ! Suc k]" using Suc.prems by (simp add: take_Suc_conv_app_nth)
  have up: "iv[Suc k := ?v] = ?p @ ?v # drop (Suc (Suc k)) iv" using Suc.prems by (rule upd_conv_take_nth_drop)
  have v: "unat ?v = (unat (iv ! Suc k) + 1) mod 256" by (simp add: unat_word_ariths)
  have ib: "unat (iv ! Suc k) < 256" using unsigned_less[where w = "iv ! Suc k" and 'a = nat] by simp
  show ?case
  proof (cases "?v = 0")
    case False
    then have uv: "unat ?v = unat (iv ! Suc k) + 1" using v ib by (cases "unat (iv ! Suc k) = 255") (auto simp: unat_eq_zero)
    have "be_val (?p @ [?v]) < 256 ^ Suc (Suc k)" using be_val_less[of "?p @ [?v]"] Suc.prems by simp
    then have "be_val (?p @ [?v]) = (be_val (take (Suc (Suc k)) iv) + 1) mod 256 ^ Suc (Suc k)"
      using uv by (simp add: be_val_snoc tk)
    with False up Suc.prems show ?thesis
      by (intro exI[of _ "?p @ [?v]"]) (simp add: ctr_increment.simps[of "Suc k"] Let_def nth_append)
  next
    case True
    let ?iv = "?p @ 0 # drop (Suc (Suc k)) iv"
    have "unat (iv ! Suc k) = 255" using True v ib by (cases "unat (iv ! Suc k) < 255") auto
    then have sum: "be_val (take (Suc (Suc k)) iv) + 1 = 256 * (be_val ?p + 1)" by (simp add: tk be_val_snoc)
    have lt: "k < length ?iv" using Suc.prems by simp
    obtain ys where ys: "ctr_increment k ?iv = ys @ drop (Suc k) ?iv" "length ys = Suc k"
        "be_val ys = (be_val (take (Suc k) ?iv) + 1) mod 256 ^ Suc k"
      using Suc.IH[OF lt] by blast
    have "ctr_increment (Suc k) iv = ctr_increment k ?iv"
      using True up Suc.prems by (simp add: ctr_increment.simps[of "Suc k"] Let_def nth_append)
    moreover have "be_val (ys @ [0]) = (be_val (take (Suc (Suc k)) iv) + 1) mod 256 ^ Suc (Suc k)"
    proof -
      have "be_val ys = (be_val ?p + 1) mod 256 ^ Suc k" using ys(3) Suc.prems by simp
      moreover have "be_val (ys @ [0]) = 256 * be_val ys" by (simp add: be_val_snoc)
      ultimately show ?thesis by (simp only: sum power_Suc[of _ "Suc k"] mult_mod_right)
    qed
    ultimately show ?thesis
      using ys(1,2) Suc.prems by (intro exI[of _ "ys @ [0]"]) simp
  qed
qed

lemma be_bytes_mod: "be_bytes k (v mod 256 ^ k) = be_bytes k v"
  using be_bytes_val[of "be_bytes k v"] by (simp add: be_val_bytes)

lemma length_counter [simp]: "length (counter c) = 16"
  by (simp add: counter_def)

lemma counter_of_iv: "length iv = 16 \<Longrightarrow> iv = counter (be_val iv)"
  using be_bytes_val[of iv] by (simp add: counter_def)

lemma ctr_increment_counter: "ctr_increment 15 (counter c) = counter (c + 1)"
proof -
  obtain ys where ys: "ctr_increment 15 (counter c) = ys" "length ys = 16" "be_val ys = (be_val (counter c) + 1) mod 256 ^ 16"
    using ctr_increment_val[of 15 "counter c"] by auto
  then have "be_val ys = (c + 1) mod 256 ^ 16" by (simp only: counter_def be_val_bytes mod_add_left_eq)
  with be_bytes_val[of ys] ys(1,2) show ?thesis
    by (simp only: counter_def be_bytes_mod)
qed

subsection \<open>The mode\<close>

lemma nist_ctr_split:
  assumes "data \<noteq> []"
  shows "nist_ctr ax k c data =
    map (\<lambda>j. data ! j XOR aes_block ax k (counter c) ! j) [0..<if length data < 16 then length data else 16]
    @ nist_ctr ax k (c + 1) (drop 16 data)"
proof (rule nth_equalityI)
  fix i assume "i < length (nist_ctr ax k c data)"
  then have i: "i < length data" by (simp add: nist_ctr_def)
  show "nist_ctr ax k c data ! i = (map (\<lambda>j. data ! j XOR aes_block ax k (counter c) ! j)
      [0..<if length data < 16 then length data else 16] @ nist_ctr ax k (c + 1) (drop 16 data)) ! i"
  proof (cases "i < 16")
    case True
    then show ?thesis using i by (simp add: nist_ctr_def ctr_stream_def nth_append)
  next
    case False
    then obtain j where j: "i = j + 16" by (metis add.commute le_Suc_ex not_less)
    then have "j < length data - 16" "(j + 16) div 16 = Suc (j div 16)" using i by simp_all
    then show ?thesis using i j by (simp add: nist_ctr_def ctr_stream_def nth_append add.commute)
  qed
qed (auto simp: nist_ctr_def)

lemma ctr_loop_spec:
  "ctr_iv ctx = counter c \<Longrightarrow> ctr_loop ax block ctx =
     (nist_ctr ax (ci_storage ctx) c block, ctx\<lparr>ctr_iv := counter (c + (length block + 15) div 16)\<rparr>)"
proof (induction ax block ctx arbitrary: c rule: ctr_loop.induct)
  case (1 ax block ctx)
  show ?case
  proof (cases "block = []")
    case True
    then show ?thesis using 1(2) by (simp add: ctr_loop.simps nist_ctr_def)
  next
    case False
    let ?ctx = "ctx\<lparr>ctr_iv := ctr_increment 15 (ctr_iv ctx)\<rparr>"
    have "ctr_loop ax (drop 16 block) ?ctx =
        (nist_ctr ax (ci_storage ctx) (c + 1) (drop 16 block), ctx\<lparr>ctr_iv := counter (c + 1 + (length block - 16 + 15) div 16)\<rparr>)"
      using 1(1)[OF False, of _ _ _ "c + 1"] 1(2) by (simp add: ctr_increment_counter)
    moreover have "c + 1 + (length block - 16 + 15) div 16 = c + (length block + 15) div 16"
      using False by (cases "length block < 16") (auto simp: div_if)
    ultimately show ?thesis
      using False 1(2) by (subst ctr_loop.simps)
        (simp only: Let_def nist_ctr_split[OF False] keystream_block length_counter if_False prod.case)
  qed
qed

lemma nist_ctr_involution [simp]: "nist_ctr ax k c (nist_ctr ax k c data) = data"
  by (intro nth_equalityI) (simp_all add: nist_ctr_def xor.assoc)

lemma length_nist_ctr [simp]: "length (nist_ctr ax k c data) = length data"
  by (simp add: nist_ctr_def)

text \<open>A session encrypts or decrypts one packet after the other with the same context.\<close>

fun crypt_all :: "'k aes \<Rightarrow> bool \<Rightarrow> bytes list \<Rightarrow> 'k cipher_ctx \<Rightarrow> bytes list" where
  "crypt_all ax encrypt [] ctx = []"
| "crypt_all ax encrypt (p # ps) ctx =
     (let (out, ctx) = libssh2_axtls_cipher_crypt ax encrypt p ctx in out # crypt_all ax encrypt ps ctx)"

lemma crypt_all_back:
  assumes "is_ctr ctx" "length (ctr_iv ctx) = 16"
  shows "crypt_all ax dec (crypt_all ax enc ps ctx) ctx = ps"
  using assms
proof (induction ps arbitrary: ctx)
  case (Cons p ps)
  let ?c = "be_val (ctr_iv ctx)"
  let ?t = "ctx\<lparr>ctr_iv := counter (?c + (length p + 15) div 16)\<rparr>"
  have l: "ctr_loop ax q ctx = (nist_ctr ax (ci_storage ctx) ?c q, ctx\<lparr>ctr_iv := counter (?c + (length q + 15) div 16)\<rparr>)" for q
    using counter_of_iv[OF Cons.prems(2)] by (intro ctr_loop_spec)
  have "crypt_all ax dec (crypt_all ax enc ps ?t) ?t = ps" using Cons by simp
  then show ?case using Cons.prems(1) by (simp add: libssh2_axtls_cipher_crypt_def l)
qed simp

section \<open>Properties\<close>

text \<open>
  C9. Counter mode is that of NIST SP 800-38A: the byte shuffling around axtls's word-oriented block
  function amounts to the AES block function on the sixteen counter bytes, the increment loop adds one
  to the 128-bit big-endian counter (wrapping at \<open>2 ^ 128\<close>), a last partial block uses the first bytes
  of its key stream, the counter moves on by the number of blocks begun, and the direction is ignored.
\<close>

theorem ctr_is_nist:
  assumes "is_ctr ctx" "length (ctr_iv ctx) = 16"
  shows "libssh2_axtls_cipher_crypt ax encrypt data ctx =
    (nist_ctr ax (ci_storage ctx) (be_val (ctr_iv ctx)) data,
     ctx\<lparr>ctr_iv := be_bytes 16 ((be_val (ctr_iv ctx) + (length data + 15) div 16) mod 2 ^ 128)\<rparr>)"
proof -
  have "(256 :: nat) ^ 16 = 2 ^ 128" by simp
  with be_bytes_mod[of 16] have "be_bytes 16 (v mod 2 ^ 128) = be_bytes 16 v" for v by metis
  then show ?thesis
    using assms(1) ctr_loop_spec[OF counter_of_iv[OF assms(2)]]
    by (simp add: libssh2_axtls_cipher_crypt_def counter_def)
qed

text \<open>An axtls for the witnesses, with a block function that adds the key to every word.\<close>

definition toy_aes :: "u32 aes" where
  "toy_aes = \<lparr>AES_set_key = (\<lambda>secret iv m. of_nat (length secret)), AES_convert_key = (\<lambda>k. k), AES_encrypt = (\<lambda>k ws. map (\<lambda>w. w + k) ws),
     AES_cbc_encrypt = (\<lambda>k bs. (bs, k)), AES_cbc_decrypt = (\<lambda>k bs. (bs, k))\<rparr>"

theorem ctr_is_nist_witness:
  "ctr_iv (snd (libssh2_axtls_cipher_crypt toy_aes True (replicate 17 7)
     \<lparr>keylen_bits = 128, ctr_iv = [0, 0, 0, 0, 0, 0, 0, 0, 0, 0, 0, 0, 0, 0, 0, 0xFF], is_ctr = True, ci_storage = 3\<rparr>)) = be_bytes 16 257"
  using ctr_is_nist[of "\<lparr>keylen_bits = 128, ctr_iv = [0, 0, 0, 0, 0, 0, 0, 0, 0, 0, 0, 0, 0, 0, 0, 0xFF], is_ctr = True, ci_storage = 3\<rparr>"
      toy_aes True "replicate 17 7"]
  by (simp add: be_val_def)

text \<open>
  Two ends of a session understand each other: initialised with the same counter-mode algorithm,
  key and IV, one for sending and one for receiving, the receiver gets back every packet the sender
  encrypted, in order, for packets of any length. AES-192 and unknown algorithms are refused with \<open>-1\<close>
  and leave the context alone.
\<close>

theorem ctr_session:
  assumes "algo \<in> {cipher_aes128ctr, cipher_aes256ctr}" "16 \<le> length iv" "bad \<notin> {1, 3, 4, 6}"
  shows "(case (libssh2_axtls_cipher_init ax ca algo iv secret True, libssh2_axtls_cipher_init ax cb algo iv secret False) of
      ((r1, s1), (r2, s2)) \<Rightarrow> r1 = 0 \<and> r2 = 0 \<and> crypt_all ax False (crypt_all ax True ps s1) s2 = ps)
    \<and> libssh2_axtls_cipher_init ax ca bad iv secret enc = (-1, ca)"
proof -
  define s where "s = \<lparr>keylen_bits = (if algo = cipher_aes128ctr then 128 else 256), ctr_iv = take 16 iv, is_ctr = True,
    ci_storage = AES_set_key ax secret iv (if algo = cipher_aes128ctr then AES_MODE_128 else AES_MODE_256)\<rparr>"
  have "libssh2_axtls_cipher_init ax c algo iv secret e = (0, s)" for c e
    using assms(1) by (auto simp: libssh2_axtls_cipher_init_def cipher_mode_def s_def Let_def)
  moreover have "crypt_all ax False (crypt_all ax True ps s) s = ps"
    using assms(2) by (intro crypt_all_back) (simp_all add: s_def)
  moreover have "cipher_mode bad = None" using assms(3) by (simp add: cipher_mode_def)
  ultimately show ?thesis by (simp add: libssh2_axtls_cipher_init_def[of ax ca bad])
qed

theorem ctr_session_witness:
  "libssh2_axtls_cipher_init toy_aes \<lparr>keylen_bits = 0, ctr_iv = [], is_ctr = False, ci_storage = 0\<rparr>
     cipher_aes192ctr (replicate 16 0) [1] True = (-1, \<lparr>keylen_bits = 0, ctr_iv = [], is_ctr = False, ci_storage = 0\<rparr>)
   \<and> fst (libssh2_axtls_cipher_init toy_aes \<lparr>keylen_bits = 0, ctr_iv = [], is_ctr = False, ci_storage = 0\<rparr>
     cipher_aes256ctr (replicate 16 0) [1] False) = 0"
  using ctr_session[where algo = cipher_aes256ctr and iv = "replicate 16 0" and bad = cipher_aes192ctr and ax = toy_aes
      and ca = "\<lparr>keylen_bits = 0, ctr_iv = [], is_ctr = False, ci_storage = 0\<rparr>" and secret = "[1]"
      and cb = "\<lparr>keylen_bits = 0, ctr_iv = [], is_ctr = False, ci_storage = 0\<rparr>" and ps = "[]" and enc = True]
  by (simp add: split_beta)

end
