(* ===== verification/Ssh_Bignum.thy ===== *)
theory Ssh_Bignum
  imports Big_Endian
begin

text \<open>
  The byte-array bignum of \<open>libssh2_axtls.c\<close>. libssh2 loads big-endian bytes into it, reads them back and
  asks for the length in bytes and bits, from which it builds SSH \<open>mpint\<close> fields.

  A bignum is the C structure: \<open>bn_data\<close> is the allocated block (\<open>cap\<close> bytes, of which the first \<open>len\<close>
  count). \<open>malloc n\<close> is the contents of the fresh block, or \<open>None\<close> when memory runs out. A null pointer
  is \<open>None\<close>. The abstraction is the natural number the bytes stand for.
\<close>

section \<open>Definitions\<close>

record bn_impl =
  bn_len :: nat
  bn_cap :: nat
  bn_data :: bytes

type_synonym malloc = "nat \<Rightarrow> bytes option"

definition bn_init :: bn_impl where
  "bn_init = \<lparr>bn_len = 0, bn_cap = 0, bn_data = []\<rparr>"

text \<open>The calls of \<open>free\<close> for a number; its data pointer is null until the first block is allocated.\<close>

definition bn_free :: "bn_impl option \<Rightarrow> nat" where
  "bn_free bn = (case bn of None \<Rightarrow> 0 | Some b \<Rightarrow> (if bn_cap b > 0 then 1 else 0) + 1)"

text \<open>\<open>False\<close> is the result \<open>-1\<close>.\<close>

definition bn_ensure :: "malloc \<Rightarrow> bn_impl \<Rightarrow> nat \<Rightarrow> bool \<times> bn_impl" where
  "bn_ensure malloc b need =
     (if bn_cap b \<ge> need then (True, b)
      else let newcap = (if need > 0 then need else 1)
           in case malloc newcap of
                None \<Rightarrow> (False, b)
              | Some nd \<Rightarrow> (True, b\<lparr>bn_data := nd, bn_cap := newcap\<rparr>))"

text \<open>\<open>memcpy\<close> to the start of the block.\<close>

definition bn_fill :: "bn_impl \<Rightarrow> bytes \<Rightarrow> bn_impl" where
  "bn_fill b src = b\<lparr>bn_data := src @ drop (length src) (bn_data b), bn_len := length src\<rparr>"

text \<open>The loop of \<open>bn_set_word\<close> over the bytes of a 32-bit \<open>unsigned long\<close>, most significant first; \<open>i\<close> bytes are left.\<close>

fun word_bytes :: "u32 \<Rightarrow> nat \<Rightarrow> bytes \<Rightarrow> bytes" where
  "word_bytes val 0 tmp = tmp"
| "word_bytes val (Suc i) tmp =
     (let b = (ucast (drop_bit (i * 8) val AND 0xFF) :: byte)
      in if tmp = [] \<and> b = 0 then word_bytes val i tmp else word_bytes val i (tmp @ [b]))"

definition bn_set_word :: "malloc \<Rightarrow> bn_impl \<Rightarrow> u32 \<Rightarrow> bn_impl" where
  "bn_set_word malloc b val =
     (let tmp = word_bytes val 4 [];
          (ok, b) = bn_ensure malloc b (length tmp)
      in if \<not> ok then b\<lparr>bn_len := 0\<rparr> else bn_fill b tmp)"

fun strip_zeros :: "bytes \<Rightarrow> bytes" where
  "strip_zeros [] = []"
| "strip_zeros (v # vs) = (if v = 0 then strip_zeros vs else v # vs)"

definition bn_from_bin :: "malloc \<Rightarrow> bn_impl option \<Rightarrow> int \<Rightarrow> bytes \<Rightarrow> int \<times> bn_impl option" where
  "bn_from_bin malloc bn len val =
     (case bn of
        None \<Rightarrow> (-1, None)
      | Some b \<Rightarrow>
          if len < 0 then (-1, Some b)
          else let val = strip_zeros (take (nat len) val);
                   (ok, b) = bn_ensure malloc b (length val)
               in if \<not> ok then (-1, Some b) else (0, Some (bn_fill b val)))"

text \<open>The bytes stored at \<open>val\<close>; the result of the C function is their number.\<close>

definition bn_to_bin :: "bn_impl option \<Rightarrow> bytes" where
  "bn_to_bin bn = (case bn of None \<Rightarrow> [] | Some b \<Rightarrow> take (bn_len b) (bn_data b))"

definition bn_bytes :: "bn_impl option \<Rightarrow> nat" where
  "bn_bytes bn = (case bn of None \<Rightarrow> 0 | Some b \<Rightarrow> bn_len b)"

function msb_bits :: "byte \<Rightarrow> nat" where
  "msb_bits msb = (if msb = 0 then 0 else Suc (msb_bits (drop_bit 1 msb)))"
  by pat_completeness auto
termination
proof (relation "measure (\<lambda>msb. unat msb)")
  fix msb :: byte assume "msb \<noteq> 0"
  then have "0 < unat msb" by (simp add: unat_gt_0)
  then show "(drop_bit 1 msb, msb) \<in> measure (\<lambda>msb. unat msb)"
    by (simp add: drop_bit_eq_div unat_div)
qed simp

declare msb_bits.simps [simp del]

definition bn_bits :: "bn_impl option \<Rightarrow> nat" where
  "bn_bits bn =
     (case bn of
        None \<Rightarrow> 0
      | Some b \<Rightarrow> if bn_len b = 0 then 0 else 8 * (bn_len b - 1) + msb_bits (bn_data b ! 0))"

section \<open>The abstract bignum\<close>

definition bn_val :: "bn_impl \<Rightarrow> nat" where
  "bn_val b = be_val (take (bn_len b) (bn_data b))"

text \<open>Well-formed: the block has its size, the bytes that count lie in it and the first is not zero.\<close>

definition bn_wf :: "bn_impl \<Rightarrow> bool" where
  "bn_wf b \<longleftrightarrow> length (bn_data b) = bn_cap b \<and> bn_len b \<le> bn_cap b \<and> (bn_len b = 0 \<or> bn_data b ! 0 > 0)"

definition malloc_ok :: "malloc \<Rightarrow> bool" where
  "malloc_ok malloc \<longleftrightarrow> (\<forall>n blk. malloc n = Some blk \<longrightarrow> length blk = n)"

text \<open>The number of bits of a number.\<close>

fun bit_length :: "nat \<Rightarrow> nat" where
  "bit_length v = (if v = 0 then 0 else Suc (bit_length (v div 2)))"

declare bit_length.simps [simp del]

section \<open>Lemmas\<close>

lemma be_val_strip [simp]: "be_val (strip_zeros bs) = be_val bs"
  by (induction bs) (auto simp: be_val_Cons)

lemma strip_zeros_head: "strip_zeros bs = [] \<or> strip_zeros bs ! 0 > 0"
  by (induction bs) (auto simp: word_neq_0_conv)

lemma strip_zeros_append: "strip_zeros (as @ bs) = (if strip_zeros as = [] then strip_zeros bs else strip_zeros as @ bs)"
  by (induction as) auto

lemma word_bytes_strip:
  "word_bytes val i tmp =
     (let bs = map (\<lambda>j. ucast (drop_bit (j * 8) val AND 0xFF) :: byte) (rev [0..<i])
      in if tmp = [] then strip_zeros bs else tmp @ bs)"
  by (induction i arbitrary: tmp) (simp_all add: Let_def)

lemma bit_length_bounds: "v < 2 ^ bit_length v \<and> (v = 0 \<or> 2 ^ (bit_length v - 1) \<le> v)"
proof (induction v rule: bit_length.induct)
  case (1 v)
  show ?case
  proof (cases "v = 0")
    case False
    let ?k = "bit_length (v div 2)"
    have "v div 2 < 2 ^ ?k \<and> (v div 2 = 0 \<or> 2 ^ (?k - 1) \<le> v div 2)" using 1 False by blast
    moreover have "?k = 0 \<longleftrightarrow> v div 2 = 0" by (subst bit_length.simps) simp
    moreover have "bit_length v = Suc ?k" using False by (subst bit_length.simps) simp
    ultimately show ?thesis
      by (cases ?k) auto
  qed (simp add: bit_length.simps)
qed

lemma bit_length_unique: "2 ^ k \<le> v \<Longrightarrow> v < 2 ^ Suc k \<Longrightarrow> bit_length v = Suc k"
proof (induction k arbitrary: v)
  case 0
  then have "v = 1" by simp
  then show ?case by (simp add: bit_length.simps)
next
  case (Suc k)
  then have "2 ^ k \<le> v div 2" "v div 2 < 2 ^ Suc k" by auto
  then have "bit_length (v div 2) = Suc k" by (rule Suc.IH)
  moreover have "v \<noteq> 0" using Suc.prems(1) zero_less_power[of "2 :: nat" "Suc k"] by linarith
  ultimately show ?case by (subst bit_length.simps) simp
qed

lemma msb_bits_length: "msb_bits m = bit_length (unat m)"
proof (induction m rule: msb_bits.induct)
  case (1 m)
  have "unat (drop_bit 1 m) = unat m div 2" by (simp add: drop_bit_eq_div unat_div)
  with 1 show ?case
    by (subst msb_bits.simps, subst bit_length.simps) (simp add: unat_eq_zero)
qed

text \<open>The value of a number with a non-zero first byte fixes its length in bits.\<close>

lemma bit_length_be_val:
  assumes "b > 0"
  shows "bit_length (be_val (b # bs)) = 8 * length bs + bit_length (unat b)"
proof -
  let ?k = "bit_length (unat b)" and ?n = "length bs"
  have b: "unat b \<noteq> 0" using assms by (simp add: unat_eq_zero)
  then obtain j where j: "?k = Suc j" by (subst (asm) bit_length.simps) auto
  have lo: "2 ^ j \<le> unat b" and hi: "unat b < 2 ^ Suc j"
    using bit_length_bounds[of "unat b"] b j by auto
  have p: "(256 :: nat) ^ ?n = 2 ^ (8 * ?n)" by (simp add: power_mult)
  have "2 ^ (8 * ?n + j) \<le> be_val (b # bs)"
    using mult_le_mono1[OF lo, of "256 ^ ?n"] by (simp add: be_val_Cons p power_add mult.commute trans_le_add1)
  moreover have "be_val (b # bs) < 2 ^ Suc (8 * ?n + j)"
  proof -
    have "(unat b + 1) * 256 ^ ?n \<le> 2 ^ Suc j * 256 ^ ?n" using hi by (intro mult_le_mono1) simp
    then show ?thesis
      using be_val_less[of bs] by (simp add: be_val_Cons p power_add algebra_simps)
  qed
  ultimately show ?thesis using bit_length_unique[of "8 * ?n + j"] j by simp
qed

lemma bn_ensure_wf:
  assumes "bn_wf b" "malloc_ok malloc" "bn_ensure malloc b need = (True, c)"
  shows "need \<le> bn_cap c" "length (bn_data c) = bn_cap c"
  using assms by (auto simp: bn_ensure_def bn_wf_def malloc_ok_def Let_def split: if_splits option.splits)

lemma bn_fill_wf:
  assumes "length (bn_data b) = bn_cap b" "length src \<le> bn_cap b" "src = [] \<or> src ! 0 > 0"
  shows "bn_wf (bn_fill b src) \<and> bn_val (bn_fill b src) = be_val src"
  using assms by (auto simp: bn_wf_def bn_fill_def bn_val_def nth_append)

lemma bn_bits_val:
  assumes "bn_wf b"
  shows "bn_bits (Some b) = bit_length (bn_val b)"
proof (cases "bn_len b")
  case 0
  then show ?thesis by (simp add: bn_bits_def bn_val_def bit_length.simps)
next
  case (Suc n)
  then obtain x xs where d: "bn_data b = x # xs" using assms by (cases "bn_data b") (auto simp: bn_wf_def)
  with Suc assms have "x > 0" "length (take n xs) = n" by (auto simp: bn_wf_def)
  with bit_length_be_val[of x "take n xs"] Suc d show ?thesis
    by (simp add: bn_bits_def bn_val_def msb_bits_length)
qed

lemma word_bytes_val: "be_val (word_bytes val 4 []) = unat val"
proof -
  have "be_val (map (\<lambda>j. ucast (drop_bit (j * 8) val AND 0xFF) :: byte) [3, 2, 1, 0]) = unat val"
  proof -
    define v where "v = unat val"
    have "v < 2 ^ 32" unfolding v_def using unsigned_less[where w = val and 'a = nat] by simp
    then have "v div 256 div 256 div 256 < 256" by (simp add: less_mult_imp_div_less flip: div_mult2_eq)
    moreover have "v = 256 * (v div 256) + v mod 256" "v div 256 = 256 * (v div 256 div 256) + v div 256 mod 256"
        "v div 256 div 256 = 256 * (v div 256 div 256 div 256) + v div 256 div 256 mod 256" by simp_all
    moreover have "v div 65536 = v div 256 div 256" "v div 16777216 = v div 256 div 256 div 256"
      by (simp_all flip: div_mult2_eq)
    ultimately show ?thesis
      unfolding be_val_def list.map foldl_Cons foldl_Nil unat_byte_at v_def[symmetric] by simp
  qed
  moreover have "rev [0..<4] = [3, 2, 1, 0 :: nat]" by (simp add: upt_rec)
  ultimately show ?thesis by (simp only: word_bytes_strip Let_def be_val_strip if_True simp_thms)
qed

lemma bn_ensure_fail: "bn_ensure malloc b need = (False, c) \<Longrightarrow> c = b"
  by (auto simp: bn_ensure_def Let_def split: if_splits option.splits)

lemma word_bytes_head: "word_bytes val 4 [] = [] \<or> word_bytes val 4 [] ! 0 > 0"
  unfolding word_bytes_strip Let_def by (simp only: if_True simp_thms strip_zeros_head)

lemma strip_zeros_dropWhile: "strip_zeros bs = dropWhile (\<lambda>x. x = 0) bs"
  by (induction bs) auto

text \<open>Big-endian bytes without a leading zero are as many as the value needs.\<close>

lemma bytes_needed:
  assumes "bs = [] \<or> bs ! 0 > 0"
  shows "length bs = (bit_length (be_val bs) + 7) div 8"
proof (cases bs)
  case Nil
  then show ?thesis by (simp add: bit_length.simps)
next
  case (Cons x xs)
  with assms have x: "x > 0" by simp
  have "unat x < 2 ^ 8" "unat x \<noteq> 0"
    using unsigned_less[where w = x and 'a = nat] x by (simp_all add: unat_eq_zero)
  then have "1 \<le> bit_length (unat x)" "bit_length (unat x) \<le> 8"
    using bit_length_bounds[of "unat x"] power_le_imp_le_exp[of "2 :: nat" "bit_length (unat x) - 1" 7]
      power_less_imp_less_exp[of "2 :: nat" "bit_length (unat x) - 1" 8] by (auto simp: bit_length.simps)
  with bit_length_be_val[OF x, of xs] Cons show ?thesis by simp
qed

lemma bn_ensure_success:
  "fst (bn_ensure malloc b need) \<longleftrightarrow> need \<le> bn_cap b \<or> malloc (max 1 need) \<noteq> None"
  by (cases need) (auto simp: bn_ensure_def Let_def max_def split: option.splits)

lemma bn_fill_to_bin: "bn_to_bin (Some (bn_fill b src)) = src"
  by (simp add: bn_to_bin_def bn_fill_def)

section \<open>Properties\<close>

text \<open>
  C12. The byte array refines a natural number, and fails exactly when memory does. For \<open>from_bin\<close> let
  \<open>z\<close> be the given bytes without their leading zeros. When \<open>z\<close> fits the block the bignum has, or \<open>malloc\<close>
  grants a block for it, the call reports 0, \<open>to_bin\<close> reads \<open>z\<close> back and the value is that of the bytes;
  otherwise it reports \<open>-1\<close> and the bignum is unchanged. A negative length is refused. \<open>set_word\<close> under the same
  condition, on the number of bytes the word needs, stores the word: \<open>to_bin\<close> reads back its shortest
  big-endian form. Otherwise the bignum is empty, that is 0; the C function has no result to report it by.
\<close>

theorem bn_refines_nat:
  assumes "malloc_ok malloc" "bn_wf b"
  shows "(let z = dropWhile (\<lambda>x. x = 0) (take n val)
      in if length z \<le> bn_cap b \<or> malloc (max 1 (length z)) \<noteq> None
         then \<exists>d. bn_from_bin malloc (Some b) (int n) val = (0, Some d)
           \<and> bn_wf d \<and> bn_to_bin (Some d) = z \<and> bn_val d = be_val (take n val)
         else bn_from_bin malloc (Some b) (int n) val = (-1, Some b))
    \<and> bn_from_bin malloc (Some b) (- 1 - int n) val = (-1, Some b)
    \<and> (let k = (bit_length (unat w) + 7) div 8; d = bn_set_word malloc b w
      in bn_wf d \<and>
         (if k \<le> bn_cap b \<or> malloc (max 1 k) \<noteq> None
          then bn_val d = unat w \<and> be_val (bn_to_bin (Some d)) = unat w \<and> length (bn_to_bin (Some d)) = k
          else bn_val d = 0 \<and> bn_to_bin (Some d) = []))"
proof -
  let ?z = "strip_zeros (take n val)" and ?t = "word_bytes w 4 []"
  have frm: "if length ?z \<le> bn_cap b \<or> malloc (max 1 (length ?z)) \<noteq> None
      then \<exists>d. bn_from_bin malloc (Some b) (int n) val = (0, Some d)
        \<and> bn_wf d \<and> bn_to_bin (Some d) = ?z \<and> bn_val d = be_val (take n val)
      else bn_from_bin malloc (Some b) (int n) val = (-1, Some b)"
  proof (cases "bn_ensure malloc b (length ?z)")
    case (Pair ok c)
    note ok = bn_ensure_success[of malloc b "length ?z", unfolded Pair fst_conv]
    show ?thesis
    proof (cases ok)
      case True
      then have "ok = True" by simp
      note e = bn_ensure_wf[OF assms(2,1) Pair[unfolded this]]
      have "bn_from_bin malloc (Some b) (int n) val = (0, Some (bn_fill c ?z))"
        using Pair True by (simp add: bn_from_bin_def)
      with bn_fill_wf[OF e(2,1) strip_zeros_head] bn_fill_to_bin[of c ?z] ok True show ?thesis by simp
    next
      case False
      then have p: "bn_ensure malloc b (length ?z) = (False, b)" using Pair bn_ensure_fail by fastforce
      then have "bn_from_bin malloc (Some b) (int n) val = (-1, Some b)" by (simp add: bn_from_bin_def)
      moreover have "\<not> (length ?z \<le> bn_cap b \<or> malloc (max 1 (length ?z)) \<noteq> None)" using ok False by blast
      ultimately show ?thesis by (simp only: if_False)
    qed
  qed
  have k: "length ?t = (bit_length (unat w) + 7) div 8"
    using bytes_needed[OF word_bytes_head] by (simp add: word_bytes_val)
  have wrd: "bn_wf (bn_set_word malloc b w) \<and>
     (if length ?t \<le> bn_cap b \<or> malloc (max 1 (length ?t)) \<noteq> None
      then bn_val (bn_set_word malloc b w) = unat w \<and> bn_to_bin (Some (bn_set_word malloc b w)) = ?t
      else bn_val (bn_set_word malloc b w) = 0 \<and> bn_to_bin (Some (bn_set_word malloc b w)) = [])"
  proof (cases "bn_ensure malloc b (length ?t)")
    case (Pair ok c)
    note ok = bn_ensure_success[of malloc b "length ?t", unfolded Pair fst_conv]
    show ?thesis
    proof (cases ok)
      case True
      then have "ok = True" by simp
      note e = bn_ensure_wf[OF assms(2,1) Pair[unfolded this]]
      have "bn_set_word malloc b w = bn_fill c ?t" using Pair True by (simp add: bn_set_word_def)
      with bn_fill_wf[OF e(2,1) word_bytes_head] bn_fill_to_bin[of c ?t] ok True show ?thesis by (simp add: word_bytes_val)
    next
      case False
      then have p: "bn_ensure malloc b (length ?t) = (False, b)" using Pair bn_ensure_fail by fastforce
      then have "bn_set_word malloc b w = b\<lparr>bn_len := 0\<rparr>" by (simp add: bn_set_word_def)
      then have "bn_wf (bn_set_word malloc b w) \<and> bn_val (bn_set_word malloc b w) = 0 \<and> bn_to_bin (Some (bn_set_word malloc b w)) = []"
        using assms(2) by (simp add: bn_wf_def bn_val_def bn_to_bin_def)
      moreover have "\<not> (length ?t \<le> bn_cap b \<or> malloc (max 1 (length ?t)) \<noteq> None)" using ok False by blast
      ultimately show ?thesis by (simp only: if_False simp_thms)
    qed
  qed
  have neg: "bn_from_bin malloc (Some b) (- 1 - int n) val = (-1, Some b)" by (simp add: bn_from_bin_def)
  show ?thesis
    unfolding Let_def k[symmetric] strip_zeros_dropWhile[symmetric] using frm neg wrd word_bytes_val[of w]
    by (intro conjI) (simp_all only: split: if_splits, simp_all)
qed

theorem bn_refines_nat_witness:
  "bn_to_bin (snd (bn_from_bin (\<lambda>n. Some (replicate n 0xAA)) (Some bn_init) 3 [0, 1, 2])) = [1, 2]
   \<and> bn_val (bn_set_word (\<lambda>n. if n \<le> 2 then Some (replicate n 0xAA) else None) bn_init 0x10203) = 0"
  using bn_refines_nat[of "\<lambda>n. Some (replicate n 0xAA)" bn_init 3 "[0, 1, 2]" 0]
    bn_refines_nat[of "\<lambda>n. if n \<le> 2 then Some (replicate n 0xAA) else None" bn_init 0 "[]" "0x10203"]
  by (auto simp: malloc_ok_def bn_wf_def bn_init_def Let_def bit_length.simps)

text \<open>
  What libssh2 asks for is right: on a well-formed bignum \<open>bits\<close> is the bit length of the value,
  \<open>bytes\<close> the least number of bytes that hold it, and \<open>to_bin\<close> writes exactly that many bytes, the
  shortest big-endian form of the value.
\<close>

theorem bn_lengths:
  assumes "bn_wf b"
  shows "bn_bits (Some b) = bit_length (bn_val b)
    \<and> bn_bytes (Some b) = (bit_length (bn_val b) + 7) div 8
    \<and> be_val (bn_to_bin (Some b)) = bn_val b
    \<and> length (bn_to_bin (Some b)) = bn_bytes (Some b)
    \<and> strip_zeros (bn_to_bin (Some b)) = bn_to_bin (Some b)"
proof (cases "bn_len b")
  case 0
  then show ?thesis by (simp add: bn_bits_def bn_bytes_def bn_to_bin_def bn_val_def bit_length.simps)
next
  case (Suc n)
  then obtain x xs where d: "bn_data b = x # xs" using assms by (cases "bn_data b") (auto simp: bn_wf_def)
  with Suc assms have x: "x > 0" "length (take n xs) = n" by (auto simp: bn_wf_def)
  have v: "bn_to_bin (Some b) = x # take n xs" "bn_val b = be_val (x # take n xs)" "bn_bytes (Some b) = length (x # take n xs)"
    using d Suc x(2) by (simp_all add: bn_to_bin_def bn_val_def bn_bytes_def)
  moreover have "bn_bytes (Some b) = (bit_length (bn_val b) + 7) div 8"
    unfolding v(2,3) using x(1) by (intro bytes_needed) simp
  ultimately show ?thesis using bn_bits_val[OF assms] x by auto
qed

theorem bn_lengths_witness:
  "bn_bits (Some \<lparr>bn_len = 2, bn_cap = 3, bn_data = [0x01, 0x80, 0xAA]\<rparr>) = 9"
  using bn_lengths[of "\<lparr>bn_len = 2, bn_cap = 3, bn_data = [0x01, 0x80, 0xAA]\<rparr>"]
  by (simp add: bn_wf_def bn_val_def be_val_def bit_length.simps)

end
