(* ===== verification/Ssh_Keys.thy ===== *)
theory Ssh_Keys
  imports Ssh_Bignum
begin

text \<open>
  Key agreement and signatures of \<open>libssh2_axtls.c\<close>: Curve25519 key exchange and Ed25519 keys, over
  TweetNaCl and libssh2's own helpers.

  TweetNaCl and the helpers of libssh2 are records of functions. The heap counts the blocks that are
  allocated; whether the next allocation succeeds is the head of the list \<open>grants\<close> (an exhausted list
  means success), so that every failure path can be run and leaks show in the count. \<open>None\<close> and \<open>Inl\<close>
  are the error returns.
\<close>

section \<open>Definitions\<close>

record nacl =
  crypto_scalarmult_base :: "bytes \<Rightarrow> bytes"
  crypto_scalarmult :: "bytes \<Rightarrow> bytes \<Rightarrow> bytes option"
  crypto_sign :: "bytes \<Rightarrow> bytes \<Rightarrow> bytes option"
  crypto_sign_open :: "bytes \<Rightarrow> bytes \<Rightarrow> bool"

text \<open>A \<open>string_buf\<close> is the bytes not read yet; \<open>Inl\<close> of \<open>pem_parse\<close> is its error code, and
  \<open>error_proto\<close> the value of \<open>LIBSSH2_ERROR_PROTO\<close>.\<close>

record ssh_lib =
  pem_parse_memory :: "bytes option \<Rightarrow> bytes \<Rightarrow> int + bytes"
  get_string :: "bytes \<Rightarrow> (bytes \<times> bytes) option"
  store_str :: "bytes \<Rightarrow> bytes"
  error_proto :: int

record heap =
  live :: nat
  grants :: "bool list"

definition alloc :: "heap \<Rightarrow> bool \<times> heap" where
  "alloc h = (case grants h of
       [] \<Rightarrow> (True, h\<lparr>live := live h + 1\<rparr>)
     | ok # os \<Rightarrow> (ok, h\<lparr>live := (if ok then live h + 1 else live h), grants := os\<rparr>))"

definition dealloc :: "heap \<Rightarrow> heap" where
  "dealloc h = h\<lparr>live := live h - 1\<rparr>"

subsection \<open>Curve25519\<close>

definition clamp :: "bytes \<Rightarrow> bytes" where
  "clamp priv =
     (let priv = priv[0 := priv ! 0 AND 248];
          priv = priv[31 := priv ! 31 AND 127]
      in priv[31 := priv ! 31 OR 64])"

text \<open>\<open>rnd\<close> is what the generator delivers; the result is the public and the private key.\<close>

definition curve25519_new :: "nacl \<Rightarrow> bytes \<Rightarrow> heap \<Rightarrow> (bytes \<times> bytes) option \<times> heap" where
  "curve25519_new na rnd h =
     (let (priv_ok, h) = alloc h;
          (pub_ok, h) = alloc h
      in if \<not> priv_ok \<or> \<not> pub_ok
         then let h = (if priv_ok then dealloc h else h);
                  h = (if pub_ok then dealloc h else h)
              in (None, h)
         else let priv = clamp (take 32 rnd)
              in (Some (crypto_scalarmult_base na priv, priv), h))"

definition curve25519_gen_k ::
  "nacl \<Rightarrow> malloc \<Rightarrow> bn_impl option \<Rightarrow> bytes \<Rightarrow> bytes \<Rightarrow> int \<times> bn_impl option" where
  "curve25519_gen_k na malloc k private_key server_public_key =
     (case k of
        None \<Rightarrow> (-1, k)
      | Some b \<Rightarrow>
          (case crypto_scalarmult na private_key server_public_key of
             None \<Rightarrow> (-1, k)
           | Some secret \<Rightarrow> bn_from_bin malloc k 32 secret))"

subsection \<open>Ed25519\<close>

record ed25519_ctx =
  public_key :: bytes
  private_key :: bytes
  have_private :: bool

definition ed25519_new_public :: "bytes \<Rightarrow> nat \<Rightarrow> heap \<Rightarrow> ed25519_ctx option \<times> heap" where
  "ed25519_new_public raw_pub_key key_len h =
     (if key_len \<noteq> 32 then (None, h)
      else let (ok, h) = alloc h
           in if \<not> ok then (None, h)
              else (Some \<lparr>public_key = take 32 raw_pub_key, private_key = replicate 64 0, have_private = False\<rparr>, h))"

definition ed25519_verify :: "nacl \<Rightarrow> ed25519_ctx \<Rightarrow> bytes \<Rightarrow> bytes \<Rightarrow> heap \<Rightarrow> int \<times> heap" where
  "ed25519_verify na ctx sig m h =
     (if length sig \<noteq> 64 then (-1, h)
      else let (ok, h) = alloc h
           in if \<not> ok then (-1, h)
              else let sm = sig @ m;
                       (ok, h) = alloc h
                   in if \<not> ok then (-1, dealloc h)
                      else let r = crypto_sign_open na sm (public_key ctx)
                           in (if r then 0 else -1, dealloc (dealloc h)))"

text \<open>On success the decrypted buffer stays allocated and is freed by the caller.\<close>

definition ed25519_parse_priv :: "ssh_lib \<Rightarrow> bytes \<Rightarrow> bytes option \<Rightarrow> heap \<Rightarrow> (int + bytes \<times> bytes) \<times> heap" where
  "ed25519_parse_priv lib filedata passphrase h =
     (case pem_parse_memory lib passphrase filedata of
        Inl rc \<Rightarrow> (Inl rc, h)
      | Inr decrypted \<Rightarrow>
          let h = h\<lparr>live := live h + 1\<rparr>;
              fail = (Inl (error_proto lib), dealloc h)
          in (case get_string lib decrypted of
                None \<Rightarrow> fail
              | Some (kt, decrypted) \<Rightarrow>
                  if kt \<noteq> str ''ssh-ed25519'' then fail
                  else (case get_string lib decrypted of
                          None \<Rightarrow> fail
                        | Some (pub, decrypted) \<Rightarrow>
                            if length pub \<noteq> 32 then fail
                            else (case get_string lib decrypted of
                                    None \<Rightarrow> fail
                                  | Some (priv, decrypted) \<Rightarrow>
                                      if length priv \<noteq> 64 then fail else (Inr (pub, priv), h)))))"

definition ed25519_new_private_frommemory ::
  "ssh_lib \<Rightarrow> bytes \<Rightarrow> bytes option \<Rightarrow> heap \<Rightarrow> (int + ed25519_ctx) \<times> heap" where
  "ed25519_new_private_frommemory lib filedata passphrase h =
     (case ed25519_parse_priv lib filedata passphrase h of
        (Inl rc, h) \<Rightarrow> (Inl rc, h)
      | (Inr (pub, priv), h) \<Rightarrow>
          let (ok, h) = alloc h
          in if \<not> ok then (Inl (-1), dealloc h)
             else (Inr \<lparr>public_key = pub, private_key = priv, have_private = True\<rparr>, dealloc h))"

definition ed25519_sign :: "nacl \<Rightarrow> ed25519_ctx option \<Rightarrow> bytes \<Rightarrow> heap \<Rightarrow> bytes option \<times> heap" where
  "ed25519_sign na ctx message h =
     (case ctx of
        None \<Rightarrow> (None, h)
      | Some c \<Rightarrow>
          if \<not> have_private c then (None, h)
          else let (ok, h) = alloc h
               in if \<not> ok then (None, h)
                  else (case crypto_sign na message (private_key c) of
                          None \<Rightarrow> (None, dealloc h)
                        | Some sm \<Rightarrow>
                            if length sm < 64 then (None, dealloc h)
                            else let (ok, h) = alloc h
                                 in if \<not> ok then (None, dealloc h) else (Some (take 64 sm), dealloc h)))"

definition ed25519_free :: "ed25519_ctx option \<Rightarrow> heap \<Rightarrow> heap" where
  "ed25519_free ctx h = (case ctx of None \<Rightarrow> h | Some c \<Rightarrow> dealloc h)"

text \<open>The method name and the public key blob.\<close>

definition pub_priv_keyfilememory ::
  "ssh_lib \<Rightarrow> bytes \<Rightarrow> bytes option \<Rightarrow> heap \<Rightarrow> (int + bytes \<times> bytes) \<times> heap" where
  "pub_priv_keyfilememory lib privatekeydata passphrase h =
     (case ed25519_parse_priv lib privatekeydata passphrase h of
        (Inl rc, h) \<Rightarrow> (Inl rc, h)
      | (Inr (pub, priv), h) \<Rightarrow>
          let (ok, h) = alloc h
          in if \<not> ok then (Inl (-1), dealloc h)
             else let (ok, h) = alloc h
                  in if \<not> ok then (Inl (-1), dealloc (dealloc h))
                     else (Inr (str ''ssh-ed25519'', store_str lib (str ''ssh-ed25519'') @ store_str lib pub), dealloc h))"

section \<open>Laws of the libraries\<close>

text \<open>X25519 is commutative on clamped scalars and delivers 32 bytes (RFC 7748).\<close>

definition x25519_law :: "nacl \<Rightarrow> bool" where
  "x25519_law na \<longleftrightarrow> (\<forall>a b. length a = 32 \<and> length b = 32 \<longrightarrow> (\<exists>s. length s = 32 \<and> crypto_scalarmult na (clamp a) (crypto_scalarmult_base na (clamp b)) = Some s
     \<and> crypto_scalarmult na (clamp b) (crypto_scalarmult_base na (clamp a)) = Some s))"

text \<open>\<open>crypto_sign\<close> puts a 64-byte signature before the message, and \<open>crypto_sign_open\<close> accepts it under the public key.\<close>

definition ed25519_pair :: "nacl \<Rightarrow> bytes \<Rightarrow> bytes \<Rightarrow> bool" where
  "ed25519_pair na pk sk \<longleftrightarrow> (\<forall>m. \<exists>sig. length sig = 64 \<and> crypto_sign na m sk = Some (sig @ m) \<and> crypto_sign_open na (sig @ m) pk)"

text \<open>SSH strings are read back as they were stored.\<close>

definition wire_law :: "ssh_lib \<Rightarrow> bool" where
  "wire_law lib \<longleftrightarrow> (\<forall>s r. length s < 256 ^ 4 \<longrightarrow> get_string lib (store_str lib s @ r) = Some (s, r))
     \<and> (\<forall>s. length (store_str lib s) = 4 + length s)"

section \<open>Lemmas\<close>

lemma dealloc_live [simp]: "live (dealloc h) = live h - 1" "grants (dealloc h) = grants h"
  by (simp_all add: dealloc_def)

lemma alloc_live: "alloc h = (ok, h') \<Longrightarrow> live h' = (if ok then live h + 1 else live h)"
  by (auto simp: alloc_def split: list.splits)

lemma alloc_granted [simp]: "grants h = [] \<Longrightarrow> alloc h = (True, h\<lparr>live := live h + 1\<rparr>)"
  by (simp add: alloc_def)

lemma parse_priv_live:
  "ed25519_parse_priv lib d p h = (Inl rc, h') \<Longrightarrow> live h' = live h"
  "ed25519_parse_priv lib d p h = (Inr v, h') \<Longrightarrow> live h' = live h + 1"
  by (auto simp: ed25519_parse_priv_def Let_def split: sum.splits option.splits prod.splits if_splits)

lemma clamp_shape:
  assumes "length s = 32"
  shows "\<exists>ms. clamp s = (s ! 0 AND 248) # ms @ [(s ! 31 AND 127) OR 64] \<and> length ms = 30"
proof -
  have "length (clamp s) = 32" using assms by (simp add: clamp_def)
  then obtain x xs where x: "clamp s = x # xs" "length xs = 31" by (cases "clamp s") auto
  obtain ms y where "xs = ms @ [y]" using x(2) by (cases xs rule: rev_cases) auto
  with x have c: "clamp s = x # ms @ [y]" "length ms = 30" by auto
  have "clamp s ! 0 = s ! 0 AND 248" "clamp s ! 31 = (s ! 31 AND 127) OR 64"
    using assms by (simp_all add: clamp_def)
  with c show ?thesis by (auto simp: nth_append)
qed

lemma clamp_ends: "8 dvd unat (b AND 248 :: byte)" "64 \<le> unat ((b AND 127) OR 64 :: byte)" "unat ((b AND 127) OR 64 :: byte) < 128"
proof -
  have "\<forall>n\<in>set [0..<256]. 8 dvd unat (word_of_nat n AND 248 :: byte) \<and> 64 \<le> unat ((word_of_nat n AND 127) OR 64 :: byte)
      \<and> unat ((word_of_nat n AND 127) OR 64 :: byte) < 128"
    by code_simp
  from byte_forall_upt[OF this, of b]
  show "8 dvd unat (b AND 248)" "64 \<le> unat ((b AND 127) OR 64)" "unat ((b AND 127) OR 64) < 128" by auto
qed

subsection \<open>Libraries for the witnesses\<close>

definition sum_bytes :: "bytes \<Rightarrow> byte" where
  "sum_bytes bs = foldr (+) bs 0"

definition toy_nacl :: nacl where
  "toy_nacl = \<lparr>crypto_scalarmult_base = (\<lambda>s. s), crypto_scalarmult = (\<lambda>a p. Some (replicate 32 (sum_bytes a + sum_bytes p))),
     crypto_sign = (\<lambda>m sk. Some (replicate 64 7 @ m)), crypto_sign_open = (\<lambda>sm pk. take 64 sm = replicate 64 7)\<rparr>"

text \<open>SSH strings with their big-endian length, and a key file that is its own payload.\<close>

definition wire_lib :: ssh_lib where
  "wire_lib = \<lparr>pem_parse_memory = (\<lambda>_ d. Inr d),
     get_string = (\<lambda>b. if length b < 4 then None
       else let n = be_val (take 4 b) in if length b < 4 + n then None else Some (take n (drop 4 b), drop (4 + n) b)),
     store_str = (\<lambda>s. be_bytes 4 (length s) @ s), error_proto = -14\<rparr>"

definition demo_file :: bytes where
  "demo_file = store_str wire_lib (str ''ssh-ed25519'') @ store_str wire_lib (replicate 32 1) @ store_str wire_lib (replicate 64 2)"

lemma toy_x25519: "x25519_law toy_nacl"
  by (simp add: x25519_law_def toy_nacl_def add.commute)

lemma toy_pair: "ed25519_pair toy_nacl pk sk"
  by (simp add: ed25519_pair_def toy_nacl_def)

lemma wire_get: "length s < 256 ^ 4 \<Longrightarrow> get_string wire_lib (store_str wire_lib s @ r) = Some (s, r)"
  by (simp add: wire_lib_def be_val_bytes Let_def)

lemma demo_file_parse:
  "ed25519_parse_priv wire_lib demo_file None \<lparr>live = 0, grants = []\<rparr> = (Inr (replicate 32 1, replicate 64 2), \<lparr>live = 1, grants = []\<rparr>)"
proof -
  have "pem_parse_memory wire_lib None demo_file = Inr demo_file" by (simp add: wire_lib_def)
  moreover have "get_string wire_lib demo_file = Some (str ''ssh-ed25519'', store_str wire_lib (replicate 32 1) @ store_str wire_lib (replicate 64 2))"
    unfolding demo_file_def by (rule wire_get) (simp add: str_def)
  moreover have "get_string wire_lib (store_str wire_lib (replicate 32 1) @ store_str wire_lib (replicate 64 2)) = Some (replicate 32 1, store_str wire_lib (replicate 64 2))"
    by (rule wire_get) simp
  moreover have "get_string wire_lib (store_str wire_lib (replicate 64 2)) = Some (replicate 64 2, [])"
    using wire_get[of "replicate 64 2" "[]"] by simp
  ultimately show ?thesis by (simp add: ed25519_parse_priv_def)
qed

section \<open>Properties\<close>

text \<open>
  C34. No path leaks or frees twice. Whatever the allocator does, creating a key pair leaves two blocks
  more on success and none otherwise; so do a context (one), verification (none), a signature (one) and
  the method name with the blob (two); the decrypted private key is freed on every path.
\<close>

theorem ssh_keys_no_leak:
  "(case curve25519_new na rnd h of (r, h') \<Rightarrow> live h' = live h + (if r = None then 0 else 2))
   \<and> (case ed25519_new_public pk n h of (r, h') \<Rightarrow> live h' = live h + (if r = None then 0 else 1))
   \<and> (case ed25519_verify na ctx sig m h of (r, h') \<Rightarrow> live h' = live h)
   \<and> (case ed25519_new_private_frommemory lib file pass h of (r, h') \<Rightarrow> live h' = live h + (case r of Inl _ \<Rightarrow> 0 | Inr _ \<Rightarrow> 1))
   \<and> (case ed25519_sign na cx msg h of (r, h') \<Rightarrow> live h' = live h + (if r = None then 0 else 1))
   \<and> (case pub_priv_keyfilememory lib file pass h of (r, h') \<Rightarrow> live h' = live h + (case r of Inl _ \<Rightarrow> 0 | Inr _ \<Rightarrow> 2))"
proof (intro conjI)
  show "case curve25519_new na rnd h of (r, h') \<Rightarrow> live h' = live h + (if r = None then 0 else 2)"
    by (auto simp: curve25519_new_def Let_def dest!: alloc_live split: prod.splits)
  show "case ed25519_new_public pk n h of (r, h') \<Rightarrow> live h' = live h + (if r = None then 0 else 1)"
    by (auto simp: ed25519_new_public_def Let_def dest!: alloc_live split: prod.splits)
  show "case ed25519_verify na ctx sig m h of (r, h') \<Rightarrow> live h' = live h"
    by (auto simp: ed25519_verify_def Let_def dest!: alloc_live split: prod.splits)
  show "case ed25519_new_private_frommemory lib file pass h of (r, h') \<Rightarrow> live h' = live h + (case r of Inl _ \<Rightarrow> 0 | Inr _ \<Rightarrow> 1)"
    by (auto simp: ed25519_new_private_frommemory_def Let_def dest!: alloc_live parse_priv_live split: prod.splits sum.splits)
  show "case ed25519_sign na cx msg h of (r, h') \<Rightarrow> live h' = live h + (if r = None then 0 else 1)"
    by (auto simp: ed25519_sign_def Let_def dest!: alloc_live split: prod.splits option.splits)
  show "case pub_priv_keyfilememory lib file pass h of (r, h') \<Rightarrow> live h' = live h + (case r of Inl _ \<Rightarrow> 0 | Inr _ \<Rightarrow> 2)"
    by (auto simp: pub_priv_keyfilememory_def Let_def dest!: alloc_live parse_priv_live split: prod.splits sum.splits)
qed

text \<open>
  C22. Key exchange. The private scalar is clamped as RFC 7748 demands: read little-endian it is a
  multiple of 8 between \<open>2 ^ 254\<close> and \<open>2 ^ 255\<close>. When X25519 is commutative, two ends that exchange
  the public keys of their pairs compute bignums of the same value, the shared secret read big-endian.
\<close>

theorem kex_agreement:
  assumes "x25519_law na" "malloc_ok malloc" "\<forall>n. malloc n \<noteq> None" "bn_wf b" "bn_wf c"
    and "length ra = 32" "length rb = 32" "grants h = []"
  shows "(case fst (curve25519_new na ra h) of None \<Rightarrow> False | Some (puba, priva) \<Rightarrow>
     8 dvd be_val (rev priva) \<and> 2 ^ 254 \<le> be_val (rev priva) \<and> be_val (rev priva) < 2 ^ 255 \<and>
     (case fst (curve25519_new na rb h) of None \<Rightarrow> False | Some (pubb, privb) \<Rightarrow>
        (case (curve25519_gen_k na malloc (Some b) priva pubb, curve25519_gen_k na malloc (Some c) privb puba) of
           ((r, Some ka), (q, Some kb)) \<Rightarrow> r = 0 \<and> q = 0 \<and> bn_val ka = bn_val kb
             \<and> Some (bn_val ka) = map_option be_val (crypto_scalarmult na priva pubb)
         | _ \<Rightarrow> False)))"
proof -
  obtain sec where sec: "length sec = 32"
      "crypto_scalarmult na (clamp ra) (crypto_scalarmult_base na (clamp rb)) = Some sec"
      "crypto_scalarmult na (clamp rb) (crypto_scalarmult_base na (clamp ra)) = Some sec"
    using assms(1,6,7) unfolding x25519_law_def by blast
  have new: "fst (curve25519_new na r h) = Some (crypto_scalarmult_base na (clamp r), clamp r)" if "length r = 32" for r
    using assms(8) that by (simp add: curve25519_new_def Let_def)
  have k: "\<exists>d. bn_from_bin malloc (Some e) 32 sec = (0, Some d) \<and> bn_val d = be_val sec" if e: "bn_wf e" for e
  proof -
    obtain ok d where en: "bn_ensure malloc e (length (strip_zeros sec)) = (ok, d)" by fastforce
    then have ok using spec[OF assms(3), of "length (strip_zeros sec)"] by (auto simp: bn_ensure_def Let_def split: if_splits option.splits)
    with en have "bn_val (bn_fill d (strip_zeros sec)) = be_val sec"
      using bn_ensure_wf[OF e assms(2)] bn_fill_wf[OF _ _ strip_zeros_head] by simp
    with en \<open>ok\<close> sec(1) show ?thesis by (simp add: bn_from_bin_def)
  qed
  obtain ms where ms: "clamp ra = (ra ! 0 AND 248) # ms @ [(ra ! 31 AND 127) OR 64]" "length ms = 30"
    using clamp_shape[OF assms(6)] by blast
  let ?top = "unat ((ra ! 31 AND 127) OR 64)" and ?mid = "be_val (rev ms)" and ?low = "unat (ra ! 0 AND 248)"
  have v: "be_val (rev (clamp ra)) = 256 * (?top * 256 ^ 30 + ?mid) + ?low"
    by (simp add: ms be_val_snoc be_val_Cons)
  have "?mid < 256 ^ 30" using be_val_less[of "rev ms"] ms(2) by simp
  moreover have "?low < 256" using unsigned_less[where w = "ra ! 0 AND 248" and 'a = nat] by simp
  ultimately have "2 ^ 254 \<le> be_val (rev (clamp ra))" "be_val (rev (clamp ra)) < 2 ^ 255"
    using clamp_ends(2,3)[of "ra ! 31"] by (simp_all add: v)
  moreover have "8 dvd be_val (rev (clamp ra))" using clamp_ends(1)[of "ra ! 0"] by (simp add: v)
  moreover obtain d where "bn_from_bin malloc (Some b) 32 sec = (0, Some d)" "bn_val d = be_val sec" using k[OF assms(4)] by blast
  moreover obtain e where "bn_from_bin malloc (Some c) 32 sec = (0, Some e)" "bn_val e = be_val sec" using k[OF assms(5)] by blast
  ultimately show ?thesis
    using sec by (simp add: new assms(6,7) curve25519_gen_k_def)
qed

theorem kex_agreement_witness:
  "fst (curve25519_new toy_nacl (replicate 32 0xFF) \<lparr>live = 0, grants = []\<rparr>) \<noteq> None"
  using kex_agreement[OF toy_x25519, of "\<lambda>n. Some (replicate n 0)" bn_init bn_init "replicate 32 0xFF" "replicate 32 3"
      "\<lparr>live = 0, grants = []\<rparr>"]
  by (auto simp: malloc_ok_def bn_wf_def bn_init_def split: option.splits)

text \<open>
  Signatures. A private key loaded from memory signs, and a context made from the public key alone
  accepts the signature of that message; a signature of the wrong length is refused, and so is signing
  without a private key. This holds when the file holds a genuine pair and TweetNaCl opens what it
  signed.
\<close>

theorem ed25519_sign_verify:
  assumes "ed25519_parse_priv lib file pass h = (Inr (pk, sk), h1)" "ed25519_pair na pk sk" "grants h = []"
  shows "\<exists>c h2 sig h3 p h4. ed25519_new_private_frommemory lib file pass h = (Inr c, h2) \<and>
    ed25519_sign na (Some c) m h2 = (Some sig, h3) \<and> length sig = 64 \<and>
    ed25519_new_public (public_key c) 32 h3 = (Some p, h4) \<and> fst (ed25519_verify na p sig m h4) = 0
    \<and> ed25519_sign na (Some p) m h4 = (None, h4) \<and> ed25519_verify na p (tl sig) m h4 = (-1, h4)"
proof -
  obtain sig where sig: "length sig = 64" "crypto_sign na m sk = Some (sig @ m)" "crypto_sign_open na (sig @ m) pk"
    using assms(2) by (auto simp: ed25519_pair_def)
  have g: "grants h1 = []" "length pk = 32"
    using assms(1,3) by (auto simp: ed25519_parse_priv_def Let_def split: sum.splits option.splits prod.splits if_splits)
  let ?c = "\<lparr>public_key = pk, private_key = sk, have_private = True\<rparr>"
  have "ed25519_new_private_frommemory lib file pass h = (Inr ?c, dealloc (h1\<lparr>live := live h1 + 1\<rparr>))"
    using assms(1) g by (simp add: ed25519_new_private_frommemory_def)
  then show ?thesis
    using sig g by (simp add: ed25519_sign_def ed25519_new_public_def ed25519_verify_def)
qed

theorem ed25519_sign_verify_witness:
  "\<exists>c h2. ed25519_new_private_frommemory wire_lib demo_file None \<lparr>live = 0, grants = []\<rparr> = (Inr c, h2)
     \<and> (\<exists>sig. fst (ed25519_sign toy_nacl (Some c) [1, 2] h2) = Some sig)"
  using ed25519_sign_verify[OF demo_file_parse toy_pair, of "[1, 2]"] by fastforce

text \<open>
  The public key blob derived from a private key file is the SSH wire form of the key: 51 bytes,
  from which the type name and then the 32-byte public key of the file are read back, with nothing
  left; the method name is the key type.
\<close>

theorem pub_blob_reads_back:
  assumes "wire_law lib" "ed25519_parse_priv lib file pass h = (Inr (pk, sk), h1)" "grants h = []"
  shows "\<exists>blob rest h2. pub_priv_keyfilememory lib file pass h = (Inr (str ''ssh-ed25519'', blob), h2)
    \<and> length blob = 51 \<and> get_string lib blob = Some (str ''ssh-ed25519'', rest) \<and> get_string lib rest = Some (pk, [])"
proof -
  have g: "grants h1 = []" "length pk = 32"
    using assms(2,3) by (auto simp: ed25519_parse_priv_def Let_def split: sum.splits option.splits prod.splits if_splits)
  have "length (str ''ssh-ed25519'') = 11" by (simp add: str_def)
  moreover have gs: "get_string lib (store_str lib s @ r) = Some (s, r)" if "length s < 256 ^ 4" for s r
    using assms(1) that unfolding wire_law_def by blast
  moreover have "get_string lib (store_str lib pk) = Some (pk, [])" using gs[of pk "[]"] g(2) by simp
  moreover have "length (store_str lib s) = 4 + length s" for s using assms(1) unfolding wire_law_def by blast
  ultimately show ?thesis
    using assms(2) g by (simp add: pub_priv_keyfilememory_def)
qed

theorem pub_blob_reads_back_witness:
  "\<exists>blob h2. pub_priv_keyfilememory wire_lib demo_file None \<lparr>live = 0, grants = []\<rparr> = (Inr (str ''ssh-ed25519'', blob), h2)
     \<and> length blob = 51"
proof -
  have "wire_law wire_lib" using wire_get by (simp add: wire_law_def) (simp add: wire_lib_def)
  from pub_blob_reads_back[OF this demo_file_parse] show ?thesis by auto
qed

end
