(* ===== verification/Ssh_Api.thy ===== *)
theory Ssh_Api
  imports Prelude
begin

text \<open>
  How \<open>modssh_uc386dos.c\<close> talks to libssh2. The library is not part of the repository, so a call is a
  value of the type \<open>call\<close>, one constructor for each libssh2 function the module uses, and the library a
  parameter that answers calls over a world of its own. Every call is recorded with its answer, newest
  first; what the module does to libssh2's handles is read off this trace: which handles are live, and
  whether each call was made with live handles only.
\<close>

section \<open>Calls and answers\<close>

datatype ssh_callback = CALLBACK_RECV | CALLBACK_SEND

datatype ssh_method =
    METHOD_HOSTKEY | METHOD_KEX | METHOD_CRYPT_CS | METHOD_CRYPT_SC | METHOD_MAC_CS | METHOD_MAC_SC

text \<open>Pointers are integers and \<open>0\<close> is \<open>NULL\<close>; the first argument is the handle the function works on.\<close>

datatype call =
    Init int
  | Session_init
  | Set_abstract int nat
  | Callback_set int ssh_callback
  | Method_pref int ssh_method string
  | Set_blocking int int
  | Handshake int int
  | Last_error int
  | Userauth_password int bytes bytes
  | Userauth_publickey int bytes "bytes option" bytes "bytes option"
  | Session_disconnect int string
  | Session_free int
  | Channel_open int
  | Channel_exec int bytes
  | Channel_read int nat
  | Channel_eof int
  | Channel_write int bytes
  | Channel_send_eof int
  | Channel_close int
  | Channel_free int
  | Scp_recv int bytes
  | Scp_send int bytes int nat
  | Sftp_init int
  | Sftp_shutdown int
  | Sftp_open int bytes u32 int
  | Sftp_opendir int bytes
  | Sftp_mkdir int bytes int
  | Sftp_rmdir int bytes
  | Sftp_unlink int bytes
  | Sftp_rename int bytes bytes
  | Sftp_stat int bytes
  | Sftp_realpath int bytes nat
  | Sftp_read int nat
  | Sftp_write int bytes
  | Sftp_readdir int nat
  | Sftp_close_handle int
  | Sftp_closedir int
  | Version int
  | Crypto_engine

text \<open>\<open>LIBSSH2_SFTP_ATTRIBUTES\<close>; \<open>flags\<close> tells which of the other fields are set.\<close>

record attributes =
  a_flags :: u32
  a_permissions :: u32
  a_filesize :: "64 word"
  a_atime :: u32
  a_mtime :: u32
  a_uid :: u32
  a_gid :: u32

text \<open>
  An answer: the result (a count, an error code or a pointer), what the library stored in the caller's
  buffer, and the attributes it filled in. The text of the last error is \<open>r_data\<close>, empty when the
  library has none.
\<close>

record reply =
  r_val :: int
  r_data :: bytes
  r_attrs :: attributes

text \<open>The enumerators of \<open>libssh2_crypto_engine_t\<close>; \<open>engine_of\<close> below reads a number as one of them.\<close>

datatype engine =
    libssh2_no_crypto | libssh2_openssl | libssh2_gcrypt | libssh2_mbedtls | libssh2_wincng
  | libssh2_os400qc3 | libssh2_axtls | other_engine

text \<open>The constants of \<open>libssh2.h\<close> and \<open>libssh2_sftp.h\<close> the module refers to belong to the library too.\<close>

record 'w ssh2 =
  answer :: "call \<Rightarrow> 'w \<Rightarrow> reply \<times> 'w"
  ERROR_EAGAIN :: int
  ERROR_SOCKET_RECV :: int
  ERROR_SOCKET_DISCONNECT :: int
  FXF_READ :: u32
  FXF_WRITE :: u32
  FXF_CREAT :: u32
  FXF_TRUNC :: u32
  ATTR_SIZE :: u32
  ATTR_UIDGID :: u32
  ATTR_PERMISSIONS :: u32
  ATTR_ACMODTIME :: u32
  engine_of :: "int \<Rightarrow> engine"

type_synonym trace = "(call \<times> reply) list"

section \<open>Handles\<close>

text \<open>
  A channel and an SFTP instance carry the session they belong to, a file or directory handle its
  SFTP instance.
\<close>

datatype handle =
    Session int
  | Channel int int
  | Sftp int int
  | File int int

fun is_channel :: "int \<Rightarrow> handle \<Rightarrow> bool" where
  "is_channel p (Channel q s) = (p = q)"
| "is_channel p _ = False"

fun is_sftp :: "int \<Rightarrow> handle \<Rightarrow> bool" where
  "is_sftp p (Sftp q s) = (p = q)"
| "is_sftp p _ = False"

fun is_file :: "int \<Rightarrow> handle \<Rightarrow> bool" where
  "is_file p (File q f) = (p = q)"
| "is_file p _ = False"

text \<open>Freeing a handle frees what belongs to it.\<close>

fun in_sftp :: "int \<Rightarrow> handle \<Rightarrow> bool" where
  "in_sftp p (Sftp q s) = (p = q)"
| "in_sftp p (File q f) = (p = f)"
| "in_sftp p _ = False"

fun in_session :: "handle set \<Rightarrow> int \<Rightarrow> handle \<Rightarrow> bool" where
  "in_session L p (Session q) = (p = q)"
| "in_session L p (Channel q s) = (p = s)"
| "in_session L p (Sftp q s) = (p = s)"
| "in_session L p (File q f) = (Sftp f p \<in> L)"

text \<open>The handle an answer creates.\<close>

fun created :: "call \<Rightarrow> int \<Rightarrow> handle option" where
  "created Session_init p = (if p = 0 then None else Some (Session p))"
| "created (Channel_open s) p = (if p = 0 then None else Some (Channel p s))"
| "created (Scp_recv s path) p = (if p = 0 then None else Some (Channel p s))"
| "created (Scp_send s path mode n) p = (if p = 0 then None else Some (Channel p s))"
| "created (Sftp_init s) p = (if p = 0 then None else Some (Sftp p s))"
| "created (Sftp_open f path flags mode) p = (if p = 0 then None else Some (File p f))"
| "created (Sftp_opendir f path) p = (if p = 0 then None else Some (File p f))"
| "created _ p = None"

fun destroyed :: "handle set \<Rightarrow> call \<Rightarrow> handle \<Rightarrow> bool" where
  "destroyed L (Session_free s) h = in_session L s h"
| "destroyed L (Channel_free p) h = is_channel p h"
| "destroyed L (Sftp_shutdown f) h = in_sftp f h"
| "destroyed L (Sftp_close_handle p) h = is_file p h"
| "destroyed L (Sftp_closedir p) h = is_file p h"
| "destroyed L _ h = False"

text \<open>The handles that are live after a trace.\<close>

fun live :: "trace \<Rightarrow> handle set" where
  "live [] = {}"
| "live ((c, r) # t) =
     (let L = live t; L' = {h \<in> L. \<not> destroyed L c h}
      in case created c (r_val r) of None \<Rightarrow> L' | Some h \<Rightarrow> insert h L')"

text \<open>Two handles of the same kind at the same address.\<close>

fun same_ptr :: "handle \<Rightarrow> handle \<Rightarrow> bool" where
  "same_ptr (Session p) (Session q) = (p = q)"
| "same_ptr (Channel p s) (Channel q t) = (p = q)"
| "same_ptr (Sftp p s) (Sftp q t) = (p = q)"
| "same_ptr (File p s) (File q t) = (p = q)"
| "same_ptr _ _ = False"

text \<open>An allocator does not hand out the address of a live object.\<close>

fun fresh :: "trace \<Rightarrow> bool" where
  "fresh [] = True"
| "fresh ((c, r) # t) =
     (fresh t \<and> (case created c (r_val r) of None \<Rightarrow> True | Some h \<Rightarrow> \<forall>h'\<in>live t. \<not> same_ptr h h'))"

text \<open>The handle a call works on is live.\<close>

fun call_ok :: "handle set \<Rightarrow> call \<Rightarrow> bool" where
  "call_ok L (Init k) = True"
| "call_ok L Session_init = True"
| "call_ok L (Version k) = True"
| "call_ok L Crypto_engine = True"
| "call_ok L (Set_abstract s a) = (Session s \<in> L)"
| "call_ok L (Callback_set s k) = (Session s \<in> L)"
| "call_ok L (Method_pref s m v) = (Session s \<in> L)"
| "call_ok L (Set_blocking s b) = (Session s \<in> L)"
| "call_ok L (Handshake s fd) = (Session s \<in> L)"
| "call_ok L (Last_error s) = (Session s \<in> L)"
| "call_ok L (Userauth_password s u p) = (Session s \<in> L)"
| "call_ok L (Userauth_publickey s u pub priv pass) = (Session s \<in> L)"
| "call_ok L (Session_disconnect s d) = (Session s \<in> L)"
| "call_ok L (Session_free s) = (Session s \<in> L)"
| "call_ok L (Channel_open s) = (Session s \<in> L)"
| "call_ok L (Scp_recv s path) = (Session s \<in> L)"
| "call_ok L (Scp_send s path mode n) = (Session s \<in> L)"
| "call_ok L (Sftp_init s) = (Session s \<in> L)"
| "call_ok L (Channel_exec p cmd) = (\<exists>h\<in>L. is_channel p h)"
| "call_ok L (Channel_read p n) = (\<exists>h\<in>L. is_channel p h)"
| "call_ok L (Channel_eof p) = (\<exists>h\<in>L. is_channel p h)"
| "call_ok L (Channel_write p d) = (\<exists>h\<in>L. is_channel p h)"
| "call_ok L (Channel_send_eof p) = (\<exists>h\<in>L. is_channel p h)"
| "call_ok L (Channel_close p) = (\<exists>h\<in>L. is_channel p h)"
| "call_ok L (Channel_free p) = (\<exists>h\<in>L. is_channel p h)"
| "call_ok L (Sftp_shutdown f) = (\<exists>h\<in>L. is_sftp f h)"
| "call_ok L (Sftp_open f path flags mode) = (\<exists>h\<in>L. is_sftp f h)"
| "call_ok L (Sftp_opendir f path) = (\<exists>h\<in>L. is_sftp f h)"
| "call_ok L (Sftp_mkdir f path mode) = (\<exists>h\<in>L. is_sftp f h)"
| "call_ok L (Sftp_rmdir f path) = (\<exists>h\<in>L. is_sftp f h)"
| "call_ok L (Sftp_unlink f path) = (\<exists>h\<in>L. is_sftp f h)"
| "call_ok L (Sftp_rename f a b) = (\<exists>h\<in>L. is_sftp f h)"
| "call_ok L (Sftp_stat f path) = (\<exists>h\<in>L. is_sftp f h)"
| "call_ok L (Sftp_realpath f path n) = (\<exists>h\<in>L. is_sftp f h)"
| "call_ok L (Sftp_read p n) = (\<exists>h\<in>L. is_file p h)"
| "call_ok L (Sftp_write p d) = (\<exists>h\<in>L. is_file p h)"
| "call_ok L (Sftp_readdir p n) = (\<exists>h\<in>L. is_file p h)"
| "call_ok L (Sftp_close_handle p) = (\<exists>h\<in>L. is_file p h)"
| "call_ok L (Sftp_closedir p) = (\<exists>h\<in>L. is_file p h)"

fun well_used :: "trace \<Rightarrow> bool" where
  "well_used [] = True"
| "well_used ((c, r) # t) = (well_used t \<and> call_ok (live t) c)"

section \<open>Lemmas\<close>

lemma fresh_append: "fresh (x @ t) \<Longrightarrow> fresh t"
  by (induction x) auto

text \<open>Fresh addresses keep handles apart: a live address has one owner.\<close>

lemma same_ptr_sym: "same_ptr a b = same_ptr b a"
  by (cases a; cases b) auto

lemma live_unique:
  "fresh t \<Longrightarrow> a \<in> live t \<Longrightarrow> b \<in> live t \<Longrightarrow> same_ptr a b \<Longrightarrow> a = b"
  by (induction t) (auto simp: Let_def same_ptr_sym split: option.splits)

lemma live_nonnull:
  "Session 0 \<notin> live t" "Channel 0 s \<notin> live t" "Sftp 0 s \<notin> live t" "File 0 f \<notin> live t"
  by (induction t) (auto simp: Let_def elim!: created.elims split: option.splits if_splits)

subsection \<open>Calls that keep every handle\<close>

definition plain :: "call \<Rightarrow> bool" where
  "plain c \<longleftrightarrow> (\<forall>p. created c p = None) \<and> (\<forall>L h. \<not> destroyed L c h)"

definition on_session :: "int \<Rightarrow> call \<Rightarrow> bool" where
  "on_session p c \<longleftrightarrow> plain c \<and> (\<forall>L. call_ok L c = (Session p \<in> L))"

definition on_channel :: "int \<Rightarrow> call \<Rightarrow> bool" where
  "on_channel p c \<longleftrightarrow> plain c \<and> (\<forall>L. call_ok L c = (\<exists>h\<in>L. is_channel p h))"

definition on_sftp :: "int \<Rightarrow> call \<Rightarrow> bool" where
  "on_sftp p c \<longleftrightarrow> plain c \<and> (\<forall>L. call_ok L c = (\<exists>h\<in>L. is_sftp p h))"

definition on_file :: "int \<Rightarrow> call \<Rightarrow> bool" where
  "on_file p c \<longleftrightarrow> plain c \<and> (\<forall>L. call_ok L c = (\<exists>h\<in>L. is_file p h))"

lemma on_session_intros [intro, simp]:
  "on_session p (Userauth_password p u pw)" "on_session p (Userauth_publickey p u pub priv pass)"
  "on_session p (Set_abstract p a)" "on_session p (Callback_set p k)" "on_session p (Method_pref p m v)"
  "on_session p (Set_blocking p b)" "on_session p (Handshake p fd)" "on_session p (Last_error p)"
  "on_session p (Session_disconnect p d)"
  by (auto simp: on_session_def plain_def)

lemma on_channel_intros [intro, simp]:
  "on_channel p (Channel_exec p cmd)" "on_channel p (Channel_read p n)" "on_channel p (Channel_eof p)"
  "on_channel p (Channel_write p d)" "on_channel p (Channel_send_eof p)" "on_channel p (Channel_close p)"
  by (auto simp: on_channel_def plain_def)

lemma on_sftp_intros [intro, simp]:
  "on_sftp p (Sftp_mkdir p path mode)" "on_sftp p (Sftp_rmdir p path)" "on_sftp p (Sftp_unlink p path)"
  "on_sftp p (Sftp_rename p a b)" "on_sftp p (Sftp_stat p path)" "on_sftp p (Sftp_realpath p path n)"
  by (auto simp: on_sftp_def plain_def)

lemma on_file_intros [intro, simp]:
  "on_file p (Sftp_read p n)" "on_file p (Sftp_write p d)" "on_file p (Sftp_readdir p n)"
  by (auto simp: on_file_def plain_def)

lemma plain_live:
  assumes "\<forall>(c, r) \<in> set x. plain c \<and> call_ok (live t) c"
  shows "live (x @ t) = live t \<and> fresh (x @ t) = fresh t \<and> well_used (x @ t) = well_used t"
  using assms by (induction x) (auto simp: Let_def plain_def)

end
