(* ===== verification/Ssh_Session.thy ===== *)
theory Ssh_Session
  imports Ssh_Api
begin

text \<open>
  \<open>modssh_uc386dos.c\<close>: the Python objects \<open>Session\<close>, \<open>SFTP\<close>, \<open>SFTPFile\<close> and \<open>SFTPDir\<close> around libssh2
  handles, and every operation on them. The objects of a kind form a list and a Python reference is a
  position in it; a handle field is \<open>0\<close> once the object is closed. The checks of the argument types that
  MicroPython's run time makes and the console traces are left out. The transfer loops run until the
  peer ends them, so they are partial functions: \<open>None\<close> is a loop that never ends.

  The buffer in which \<open>exec\<close>, \<open>scp_recv\<close> and the SFTP read collect their data is a list: it grows without
  fail. In the code MicroPython raises \<open>MemoryError\<close> when it cannot grow, which leaves \<open>exec\<close> and \<open>scp_recv\<close> from inside
  their loops with the channel open; that path is not modelled.
\<close>

section \<open>State\<close>

datatype ssh_exc =
    SshErrno errno
  | SshError int bytes
  | SshFailed string int
  | UnsupportedStream

record session_obj =
  session :: int
  sock :: nat
  authenticated :: bool

record sftp_obj =
  sftp :: int
  sftp_session :: nat

text \<open>\<open>mp_obj_ssh_sftp_file_t\<close> and \<open>mp_obj_ssh_sftp_dir_t\<close> have the same fields.\<close>

record handle_obj =
  hnd :: int
  hnd_sftp :: nat

record 'w ssh =
  world :: 'w
  calls :: trace
  initialized :: bool
  sessions :: "session_obj list"
  sftps :: "sftp_obj list"
  files :: "handle_obj list"
  dirs :: "handle_obj list"

type_synonym ('w, 'a) result = "(ssh_exc + 'a) \<times> 'w ssh"

definition invoke :: "'w ssh2 \<Rightarrow> call \<Rightarrow> 'w ssh \<Rightarrow> reply \<times> 'w ssh" where
  "invoke l c s = (let (r, w) = answer l c (world s) in (r, s\<lparr>world := w, calls := (c, r) # calls s\<rparr>))"

text \<open>A call whose result is not used.\<close>

definition run :: "'w ssh2 \<Rightarrow> call \<Rightarrow> 'w ssh \<Rightarrow> 'w ssh" where
  "run l c s = snd (invoke l c s)"

section \<open>Callbacks\<close>

text \<open>
  What libssh2's transport sees of the socket: the end of the stream and a time-out are both \<open>EAGAIN\<close>.
  \<open>posix_read\<close> returns the result and, when it is negative, \<open>errno\<close>; a missing socket is \<open>None\<close>.
\<close>

definition ssh_recv_cb :: "(nat \<Rightarrow> nat \<Rightarrow> 'w \<Rightarrow> int \<times> int \<times> bytes \<times> 'w) \<Rightarrow> int \<Rightarrow> nat option \<Rightarrow> nat \<Rightarrow> 'w \<Rightarrow> int \<times> bytes \<times> 'w" where
  "ssh_recv_cb posix_read EAGAIN abstract len w =
     (case abstract of
        None \<Rightarrow> (-1, [], w)
      | Some so \<Rightarrow>
          let (n, errno, buf, w) = posix_read so len w
          in if n = 0 then (- EAGAIN, [], w)
             else if n < 0 \<and> errno = 110 then (- EAGAIN, [], w)
             else (n, buf, w))"

definition ssh_send_cb :: "(nat \<Rightarrow> bytes \<Rightarrow> 'w \<Rightarrow> int \<times> 'w) \<Rightarrow> nat option \<Rightarrow> bytes \<Rightarrow> 'w \<Rightarrow> int \<times> 'w" where
  "ssh_send_cb posix_write abstract buf w =
     (case abstract of None \<Rightarrow> (-1, w) | Some so \<Rightarrow> posix_write so buf w)"

section \<open>Session\<close>

definition ssh_lazy_init :: "'w ssh2 \<Rightarrow> 'w ssh \<Rightarrow> 'w ssh" where
  "ssh_lazy_init l s = (if initialized s then s else (run l (Init 0) s)\<lparr>initialized := True\<rparr>)"

definition ssh_raise_session_error :: "'w ssh2 \<Rightarrow> int \<Rightarrow> int \<Rightarrow> string \<Rightarrow> 'w ssh \<Rightarrow> ('w, 'a) result" where
  "ssh_raise_session_error l ses err fallback s =
     (let (r, s) = invoke l (Last_error ses) s
      in if r_data r \<noteq> [] then (Inl (SshError err (r_data r)), s) else (Inl (SshFailed fallback err), s))"

text \<open>Two preferences that are set together; the second only when the first was accepted.\<close>

definition method_pref2 ::
  "'w ssh2 \<Rightarrow> int \<Rightarrow> ssh_method \<Rightarrow> ssh_method \<Rightarrow> string \<Rightarrow> 'w ssh \<Rightarrow> int \<times> 'w ssh" where
  "method_pref2 l ses m1 m2 v s =
     (let (r, s) = invoke l (Method_pref ses m1 v) s
      in if r_val r = 0 then let (r, s) = invoke l (Method_pref ses m2 v) s in (r_val r, s)
         else (r_val r, s))"

definition ssh_session_make_new :: "'w ssh2 \<Rightarrow> nat \<Rightarrow> bool \<Rightarrow> 'w ssh \<Rightarrow> ('w, nat) result" where
  "ssh_session_make_new l so is_stream s =
     (let s = ssh_lazy_init l s
      in if \<not> is_stream then (Inl UnsupportedStream, s)
         else let (r, s) = invoke l Session_init s; ses = r_val r
      in if ses = 0 then (Inl (SshErrno MP_ENOMEM), s)
         else let s = run l (Set_abstract ses so) s;
                  s = run l (Callback_set ses CALLBACK_RECV) s;
                  s = run l (Callback_set ses CALLBACK_SEND) s;
                  (r, s) = invoke l (Method_pref ses METHOD_HOSTKEY ''ssh-ed25519'') s
      in if r_val r \<noteq> 0 then ssh_raise_session_error l ses (r_val r) ''session_method_pref hostkey'' s
         else let (r, s) = invoke l (Method_pref ses METHOD_KEX ''curve25519-sha256,curve25519-sha256@libssh.org'') s
      in if r_val r \<noteq> 0 then ssh_raise_session_error l ses (r_val r) ''session_method_pref kex'' s
         else let (r, s) = method_pref2 l ses METHOD_CRYPT_CS METHOD_CRYPT_SC ''aes256-ctr,aes128-ctr'' s
      in if r \<noteq> 0 then ssh_raise_session_error l ses r ''session_method_pref crypt'' s
         else let (r, s) = method_pref2 l ses METHOD_MAC_CS METHOD_MAC_SC ''hmac-sha2-256,hmac-sha1'' s
      in if r \<noteq> 0 then ssh_raise_session_error l ses r ''session_method_pref mac'' s
         else let s = run l (Set_blocking ses 1) s;
                  (r, s) = invoke l (Handshake ses 0) s
      in if r_val r \<noteq> 0 then ssh_raise_session_error l ses (r_val r) ''session_handshake'' s
         else (Inr (length (sessions s)),
               s\<lparr>sessions := sessions s @ [\<lparr>session = ses, sock = so, authenticated = False\<rparr>]\<rparr>))"

definition ssh_session_userauth_password :: "'w ssh2 \<Rightarrow> nat \<Rightarrow> bytes \<Rightarrow> bytes \<Rightarrow> 'w ssh \<Rightarrow> ('w, unit) result" where
  "ssh_session_userauth_password l i user pw s =
     (let ses = session (sessions s ! i)
      in if ses = 0 then (Inl (SshErrno MP_EBADF), s)
         else let (r, s) = invoke l (Userauth_password ses user pw) s
              in if r_val r \<noteq> 0 then ssh_raise_session_error l ses (r_val r) ''userauth_password'' s
                 else (Inr (), s\<lparr>sessions := (sessions s)[i := (sessions s ! i)\<lparr>authenticated := True\<rparr>]\<rparr>))"

text \<open>The passphrase is handed on as a C string.\<close>

definition ssh_session_userauth_publickey ::
  "'w ssh2 \<Rightarrow> nat \<Rightarrow> bytes \<Rightarrow> bytes \<Rightarrow> bytes option \<Rightarrow> bytes option \<Rightarrow> 'w ssh \<Rightarrow> ('w, unit) result" where
  "ssh_session_userauth_publickey l i user priv pub pass s =
     (let ses = session (sessions s ! i)
      in if ses = 0 then (Inl (SshErrno MP_EBADF), s)
         else let (r, s) = invoke l (Userauth_publickey ses user pub priv (map_option cstr pass)) s
              in if r_val r \<noteq> 0 then ssh_raise_session_error l ses (r_val r) ''userauth_publickey'' s
                 else (Inr (), s\<lparr>sessions := (sessions s)[i := (sessions s ! i)\<lparr>authenticated := True\<rparr>]\<rparr>))"

text \<open>The bytes a read has put into the buffer.\<close>

definition chunk :: "reply \<Rightarrow> bytes" where
  "chunk r = take (nat (r_val r)) (r_data r)"

text \<open>The loop of \<open>exec\<close>; \<open>Inl n\<close> leaves it through the error branch.\<close>

partial_function (option) exec_loop :: "'w ssh2 \<Rightarrow> int \<Rightarrow> bytes \<Rightarrow> 'w ssh \<Rightarrow> ((int + bytes) \<times> 'w ssh) option" where
  "exec_loop l channel vstr s =
     (case invoke l (Channel_read channel 256) s of (r, s) \<Rightarrow>
        if r_val r > 0 then exec_loop l channel (vstr @ chunk r) s
        else if r_val r = 0
        then (case invoke l (Channel_eof channel) s of (e, s) \<Rightarrow>
                if r_val e \<noteq> 0 then Some (Inr vstr, s) else exec_loop l channel vstr s)
        else if vstr \<noteq> [] then Some (Inr vstr, s)
        else (case invoke l (Channel_eof channel) s of (e, s) \<Rightarrow>
                if r_val e \<noteq> 0 \<or> r_val r = ERROR_SOCKET_RECV l \<or> r_val r = ERROR_SOCKET_DISCONNECT l
                then Some (Inr vstr, s) else Some (Inl (r_val r), s)))"

text \<open>\<open>libssh2_channel_exec\<close> measures the command with \<open>strlen\<close>.\<close>

definition ssh_session_exec :: "'w ssh2 \<Rightarrow> nat \<Rightarrow> bytes \<Rightarrow> 'w ssh \<Rightarrow> ('w, bytes) result option" where
  "ssh_session_exec l i cmd s =
     (let ses = session (sessions s ! i)
      in if ses = 0 then Some (Inl (SshErrno MP_EBADF), s)
         else let (r, s) = invoke l (Channel_open ses) s; channel = r_val r
      in if channel = 0 then Some (ssh_raise_session_error l ses (-1) ''channel_open_session'' s)
         else let (r, s) = invoke l (Channel_exec channel (cstr cmd)) s
      in if r_val r \<noteq> 0
         then Some (ssh_raise_session_error l ses (r_val r) ''channel_exec'' (run l (Channel_free channel) s))
         else (case exec_loop l channel [] s of
                 None \<Rightarrow> None
               | Some (Inl n, s) \<Rightarrow> Some (ssh_raise_session_error l ses n ''channel_read'' (run l (Channel_free channel) s))
               | Some (Inr out, s) \<Rightarrow> Some (Inr out, run l (Channel_free channel) (run l (Channel_close channel) s))))"

definition ssh_session_close :: "'w ssh2 \<Rightarrow> nat \<Rightarrow> 'w ssh \<Rightarrow> ('w, unit) result" where
  "ssh_session_close l i s =
     (let ses = session (sessions s ! i)
      in if ses \<noteq> 0
         then let s = run l (Session_disconnect ses ''bye'') s;
                  s = run l (Session_free ses) s
              in (Inr (), s\<lparr>sessions := (sessions s)[i := (sessions s ! i)\<lparr>session := 0\<rparr>]\<rparr>)
         else (Inr (), s))"

section \<open>SCP\<close>

partial_function (option) scp_recv_loop ::
  "'w ssh2 \<Rightarrow> int \<Rightarrow> bytes \<Rightarrow> nat \<Rightarrow> 'w ssh \<Rightarrow> ((int + bytes) \<times> 'w ssh) option" where
  "scp_recv_loop l channel vstr empty_polls s =
     (case invoke l (Channel_read channel 256) s of (r, s) \<Rightarrow>
        if r_val r > 0
        then (case invoke l (Channel_eof channel) s of (e, s) \<Rightarrow>
                if r_val e \<noteq> 0 then Some (Inr (vstr @ chunk r), s)
                else scp_recv_loop l channel (vstr @ chunk r) 0 s)
        else if r_val r = 0 then Some (Inr vstr, s)
        else if r_val r = ERROR_EAGAIN l
        then (if vstr \<noteq> [] \<and> empty_polls + 1 > 20 then Some (Inr vstr, s)
              else scp_recv_loop l channel vstr (if vstr \<noteq> [] then empty_polls + 1 else empty_polls) s)
        else if r_val r = ERROR_SOCKET_RECV l \<or> r_val r = ERROR_SOCKET_DISCONNECT l then Some (Inr vstr, s)
        else Some (Inl (r_val r), s))"

text \<open>The terminator of the SCP protocol.\<close>

definition strip_nul :: "bytes \<Rightarrow> bytes" where
  "strip_nul v = (if v \<noteq> [] \<and> last v = 0 then butlast v else v)"

definition ssh_session_scp_recv :: "'w ssh2 \<Rightarrow> nat \<Rightarrow> bytes \<Rightarrow> 'w ssh \<Rightarrow> ('w, bytes) result option" where
  "ssh_session_scp_recv l i path s =
     (let ses = session (sessions s ! i)
      in if ses = 0 then Some (Inl (SshErrno MP_EBADF), s)
         else let (r, s) = invoke l (Scp_recv ses (cstr path)) s; channel = r_val r
      in if channel = 0 then Some (ssh_raise_session_error l ses (-1) ''scp_recv2'' s)
         else (case scp_recv_loop l channel [] 0 s of
                 None \<Rightarrow> None
               | Some (Inl n, s) \<Rightarrow> Some (ssh_raise_session_error l ses n ''scp_channel_read'' (run l (Channel_free channel) s))
               | Some (Inr v, s) \<Rightarrow>
                   Some (Inr (strip_nul v), run l (Channel_free channel) (run l (Channel_close channel) s))))"

text \<open>\<open>buf\<close> is what remains to be sent; \<open>Inl n\<close> is an error other than \<open>EAGAIN\<close>.\<close>

partial_function (option) scp_write_loop :: "'w ssh2 \<Rightarrow> int \<Rightarrow> bytes \<Rightarrow> 'w ssh \<Rightarrow> ((int + unit) \<times> 'w ssh) option" where
  "scp_write_loop l channel buf s =
     (if buf = [] then Some (Inr (), s)
      else case invoke l (Channel_write channel buf) s of (r, s) \<Rightarrow>
        if r_val r = ERROR_EAGAIN l then scp_write_loop l channel buf s
        else if r_val r < 0 then Some (Inl (r_val r), s)
        else scp_write_loop l channel (drop (nat (r_val r)) buf) s)"

partial_function (option) scp_nul_loop :: "'w ssh2 \<Rightarrow> int \<Rightarrow> 'w ssh \<Rightarrow> 'w ssh option" where
  "scp_nul_loop l channel s =
     (case invoke l (Channel_write channel [0]) s of (r, s) \<Rightarrow>
        if r_val r = 1 then Some s
        else if r_val r \<noteq> ERROR_EAGAIN l then Some s
        else scp_nul_loop l channel s)"

definition ssh_session_scp_send :: "'w ssh2 \<Rightarrow> nat \<Rightarrow> bytes \<Rightarrow> int \<Rightarrow> bytes \<Rightarrow> 'w ssh \<Rightarrow> ('w, nat) result option" where
  "ssh_session_scp_send l i path mode data s =
     (let ses = session (sessions s ! i)
      in if ses = 0 then Some (Inl (SshErrno MP_EBADF), s)
         else let (r, s) = invoke l (Scp_send ses (cstr path) mode (length data)) s; channel = r_val r
      in if channel = 0 then Some (ssh_raise_session_error l ses (-1) ''scp_send_ex'' s)
         else (case scp_write_loop l channel data s of
                 None \<Rightarrow> None
               | Some (Inl n, s) \<Rightarrow> Some (ssh_raise_session_error l ses n ''scp_channel_write'' (run l (Channel_free channel) s))
               | Some (Inr _, s) \<Rightarrow>
                   (case scp_nul_loop l channel s of
                      None \<Rightarrow> None
                    | Some s \<Rightarrow>
                        Some (Inr (length data),
                              run l (Channel_free channel) (run l (Channel_close channel) (run l (Channel_send_eof channel) s))))))"

section \<open>SFTP\<close>

definition ssh_session_sftp :: "'w ssh2 \<Rightarrow> nat \<Rightarrow> 'w ssh \<Rightarrow> ('w, nat) result" where
  "ssh_session_sftp l i s =
     (let ses = session (sessions s ! i)
      in if ses = 0 then (Inl (SshErrno MP_EBADF), s)
         else let (r, s) = invoke l (Sftp_init ses) s
              in if r_val r = 0 then ssh_raise_session_error l ses (-1) ''sftp_init'' s
                 else (Inr (length (sftps s)), s\<lparr>sftps := sftps s @ [\<lparr>sftp = r_val r, sftp_session = i\<rparr>]\<rparr>))"

definition ssh_sftp_close :: "'w ssh2 \<Rightarrow> nat \<Rightarrow> 'w ssh \<Rightarrow> ('w, unit) result" where
  "ssh_sftp_close l j s =
     (let f = sftp (sftps s ! j)
      in if f \<noteq> 0
         then let s = run l (Sftp_shutdown f) s
              in (Inr (), s\<lparr>sftps := (sftps s)[j := (sftps s ! j)\<lparr>sftp := 0\<rparr>]\<rparr>)
         else (Inr (), s))"

text \<open>The session of an SFTP object, and the way its operations raise.\<close>

definition sess_of :: "'w ssh \<Rightarrow> nat \<Rightarrow> int" where
  "sess_of s j = session (sessions s ! sftp_session (sftps s ! j))"

definition ssh_sftp_open :: "'w ssh2 \<Rightarrow> nat \<Rightarrow> bytes \<Rightarrow> bytes option \<Rightarrow> 'w ssh \<Rightarrow> ('w, nat) result" where
  "ssh_sftp_open l j path mode s =
     (let f = sftp (sftps s ! j)
      in if f = 0 then (Inl (SshErrno MP_EBADF), s)
         else let m = cstr (case mode of None \<Rightarrow> str ''r'' | Some m \<Rightarrow> m);
                  flags = (if m \<noteq> [] \<and> hd m = of_char (CHR ''w'')
                           then FXF_WRITE l OR FXF_CREAT l OR FXF_TRUNC l else FXF_READ l);
                  (r, s) = invoke l (Sftp_open f (cstr path) flags 420) s
              in if r_val r = 0 then ssh_raise_session_error l (sess_of s j) (-1) ''sftp_open'' s
                 else (Inr (length (files s)), s\<lparr>files := files s @ [\<lparr>hnd = r_val r, hnd_sftp = j\<rparr>]\<rparr>))"

definition ssh_sftp_opendir :: "'w ssh2 \<Rightarrow> nat \<Rightarrow> bytes \<Rightarrow> 'w ssh \<Rightarrow> ('w, nat) result" where
  "ssh_sftp_opendir l j path s =
     (let f = sftp (sftps s ! j)
      in if f = 0 then (Inl (SshErrno MP_EBADF), s)
         else let (r, s) = invoke l (Sftp_opendir f (cstr path)) s
              in if r_val r = 0 then ssh_raise_session_error l (sess_of s j) (-1) ''sftp_opendir'' s
                 else (Inr (length (dirs s)), s\<lparr>dirs := dirs s @ [\<lparr>hnd = r_val r, hnd_sftp = j\<rparr>]\<rparr>))"

text \<open>\<open>(mode, size, atime, mtime, uid, gid)\<close>; a field the server did not send reads as \<open>0\<close>.\<close>

definition attrs_to_tuple :: "'w ssh2 \<Rightarrow> attributes \<Rightarrow> int list" where
  "attrs_to_tuple l a =
     [if a_flags a AND ATTR_PERMISSIONS l \<noteq> 0 then sint (a_permissions a) else 0,
      if a_flags a AND ATTR_SIZE l \<noteq> 0 then uint (a_filesize a) else 0,
      if a_flags a AND ATTR_ACMODTIME l \<noteq> 0 then sint (a_atime a) else 0,
      if a_flags a AND ATTR_ACMODTIME l \<noteq> 0 then sint (a_mtime a) else 0,
      if a_flags a AND ATTR_UIDGID l \<noteq> 0 then sint (a_uid a) else 0,
      if a_flags a AND ATTR_UIDGID l \<noteq> 0 then sint (a_gid a) else 0]"

definition ssh_sftp_mkdir :: "'w ssh2 \<Rightarrow> nat \<Rightarrow> bytes \<Rightarrow> int option \<Rightarrow> 'w ssh \<Rightarrow> ('w, unit) result" where
  "ssh_sftp_mkdir l j path mode s =
     (let f = sftp (sftps s ! j)
      in if f = 0 then (Inl (SshErrno MP_EBADF), s)
         else let (r, s) = invoke l (Sftp_mkdir f (cstr path) (case mode of None \<Rightarrow> 493 | Some m \<Rightarrow> m)) s
              in if r_val r \<noteq> 0 then ssh_raise_session_error l (sess_of s j) (r_val r) ''sftp_mkdir'' s
                 else (Inr (), s))"

definition ssh_sftp_rmdir :: "'w ssh2 \<Rightarrow> nat \<Rightarrow> bytes \<Rightarrow> 'w ssh \<Rightarrow> ('w, unit) result" where
  "ssh_sftp_rmdir l j path s =
     (let f = sftp (sftps s ! j)
      in if f = 0 then (Inl (SshErrno MP_EBADF), s)
         else let (r, s) = invoke l (Sftp_rmdir f (cstr path)) s
              in if r_val r \<noteq> 0 then ssh_raise_session_error l (sess_of s j) (r_val r) ''sftp_rmdir'' s
                 else (Inr (), s))"

definition ssh_sftp_unlink :: "'w ssh2 \<Rightarrow> nat \<Rightarrow> bytes \<Rightarrow> 'w ssh \<Rightarrow> ('w, unit) result" where
  "ssh_sftp_unlink l j path s =
     (let f = sftp (sftps s ! j)
      in if f = 0 then (Inl (SshErrno MP_EBADF), s)
         else let (r, s) = invoke l (Sftp_unlink f (cstr path)) s
              in if r_val r \<noteq> 0 then ssh_raise_session_error l (sess_of s j) (r_val r) ''sftp_unlink'' s
                 else (Inr (), s))"

definition ssh_sftp_rename :: "'w ssh2 \<Rightarrow> nat \<Rightarrow> bytes \<Rightarrow> bytes \<Rightarrow> 'w ssh \<Rightarrow> ('w, unit) result" where
  "ssh_sftp_rename l j old_path new_path s =
     (let f = sftp (sftps s ! j)
      in if f = 0 then (Inl (SshErrno MP_EBADF), s)
         else let (r, s) = invoke l (Sftp_rename f (cstr old_path) (cstr new_path)) s
              in if r_val r \<noteq> 0 then ssh_raise_session_error l (sess_of s j) (r_val r) ''sftp_rename'' s
                 else (Inr (), s))"

definition ssh_sftp_stat :: "'w ssh2 \<Rightarrow> nat \<Rightarrow> bytes \<Rightarrow> 'w ssh \<Rightarrow> ('w, int list) result" where
  "ssh_sftp_stat l j path s =
     (let f = sftp (sftps s ! j)
      in if f = 0 then (Inl (SshErrno MP_EBADF), s)
         else let (r, s) = invoke l (Sftp_stat f (cstr path)) s
              in if r_val r \<noteq> 0 then ssh_raise_session_error l (sess_of s j) (r_val r) ''sftp_stat'' s
                 else (Inr (attrs_to_tuple l (r_attrs r)), s))"

definition ssh_sftp_realpath :: "'w ssh2 \<Rightarrow> nat \<Rightarrow> bytes \<Rightarrow> 'w ssh \<Rightarrow> ('w, bytes) result" where
  "ssh_sftp_realpath l j path s =
     (let f = sftp (sftps s ! j)
      in if f = 0 then (Inl (SshErrno MP_EBADF), s)
         else let (r, s) = invoke l (Sftp_realpath f (cstr path) 512) s
              in if r_val r < 0 then ssh_raise_session_error l (sess_of s j) (r_val r) ''sftp_realpath'' s
                 else (Inr (chunk r), s))"

subsection \<open>Files and directories\<close>

definition ssh_sftp_file_close :: "'w ssh2 \<Rightarrow> nat \<Rightarrow> 'w ssh \<Rightarrow> ('w, unit) result" where
  "ssh_sftp_file_close l k s =
     (let h = hnd (files s ! k)
      in if h \<noteq> 0
         then let s = run l (Sftp_close_handle h) s
              in (Inr (), s\<lparr>files := (files s)[k := (files s ! k)\<lparr>hnd := 0\<rparr>]\<rparr>)
         else (Inr (), s))"

text \<open>\<open>Inl n\<close> leaves the loop through the error branch.\<close>

partial_function (option) sftp_read_loop ::
  "'w ssh2 \<Rightarrow> int \<Rightarrow> int \<Rightarrow> bytes \<Rightarrow> 'w ssh \<Rightarrow> ((int + bytes) \<times> 'w ssh) option" where
  "sftp_read_loop l h max_len vstr s =
     (case invoke l (Sftp_read h (if max_len < 0 \<or> 1024 \<le> max_len then 1024 else nat max_len)) s of (r, s) \<Rightarrow>
        if r_val r > 0
        then (if max_len > 0
              then (if max_len - r_val r = 0 then Some (Inr (vstr @ chunk r), s)
                    else sftp_read_loop l h (max_len - r_val r) (vstr @ chunk r) s)
              else sftp_read_loop l h max_len (vstr @ chunk r) s)
        else if r_val r = 0 then Some (Inr vstr, s)
        else Some (Inl (r_val r), s))"

definition ssh_sftp_file_read :: "'w ssh2 \<Rightarrow> nat \<Rightarrow> int option \<Rightarrow> 'w ssh \<Rightarrow> ('w, bytes) result option" where
  "ssh_sftp_file_read l k sz s =
     (let h = hnd (files s ! k)
      in if h = 0 then Some (Inl (SshErrno MP_EBADF), s)
         else case sftp_read_loop l h (case sz of None \<Rightarrow> -1 | Some n \<Rightarrow> n) [] s of
                None \<Rightarrow> None
              | Some (Inl n, s) \<Rightarrow> Some (ssh_raise_session_error l (sess_of s (hnd_sftp (files s ! k))) n ''sftp_read'' s)
              | Some (Inr v, s) \<Rightarrow> Some (Inr v, s))"

text \<open>\<open>buf\<close> is what remains; the loop returns how much of it was not written.\<close>

function sftp_write_loop :: "'w ssh2 \<Rightarrow> int \<Rightarrow> bytes \<Rightarrow> 'w ssh \<Rightarrow> (int + nat) \<times> 'w ssh" where
  "sftp_write_loop l h buf s =
     (if buf = [] then (Inr 0, s)
      else let (r, s) = invoke l (Sftp_write h buf) s
           in if r_val r < 0 then (Inl (r_val r), s)
              else if r_val r = 0 then (Inr (length buf), s)
              else sftp_write_loop l h (drop (nat (r_val r)) buf) s)"
  by pat_completeness auto
termination
  by (relation "measure (\<lambda>(l, h, buf, s). length buf)") auto

declare sftp_write_loop.simps [simp del]

definition ssh_sftp_file_write :: "'w ssh2 \<Rightarrow> nat \<Rightarrow> bytes \<Rightarrow> 'w ssh \<Rightarrow> ('w, nat) result" where
  "ssh_sftp_file_write l k data s =
     (let h = hnd (files s ! k)
      in if h = 0 then (Inl (SshErrno MP_EBADF), s)
         else case sftp_write_loop l h data s of
                (Inl n, s) \<Rightarrow> ssh_raise_session_error l (sess_of s (hnd_sftp (files s ! k))) n ''sftp_write'' s
              | (Inr remaining, s) \<Rightarrow> (Inr (length data - remaining), s))"

text \<open>\<open>None\<close> is Python's \<open>None\<close>, the end of the directory.\<close>

definition ssh_sftp_dir_read :: "'w ssh2 \<Rightarrow> nat \<Rightarrow> 'w ssh \<Rightarrow> ('w, (bytes \<times> int list) option) result" where
  "ssh_sftp_dir_read l k s =
     (let h = hnd (dirs s ! k)
      in if h = 0 then (Inl (SshErrno MP_EBADF), s)
         else let (r, s) = invoke l (Sftp_readdir h 256) s
              in if r_val r = 0 then (Inr None, s)
                 else if r_val r < 0
                 then ssh_raise_session_error l (sess_of s (hnd_sftp (dirs s ! k))) (r_val r) ''sftp_readdir'' s
                 else (Inr (Some (chunk r, attrs_to_tuple l (r_attrs r))), s))"

definition ssh_sftp_dir_close :: "'w ssh2 \<Rightarrow> nat \<Rightarrow> 'w ssh \<Rightarrow> ('w, unit) result" where
  "ssh_sftp_dir_close l k s =
     (let h = hnd (dirs s ! k)
      in if h \<noteq> 0
         then let s = run l (Sftp_closedir h) s
              in (Inr (), s\<lparr>dirs := (dirs s)[k := (dirs s ! k)\<lparr>hnd := 0\<rparr>]\<rparr>)
         else (Inr (), s))"

declare exec_loop.simps [code] scp_recv_loop.simps [code] scp_write_loop.simps [code]
  scp_nul_loop.simps [code] sftp_read_loop.simps [code]

section \<open>Module functions\<close>

text \<open>\<open>libssh2_version\<close> returns \<open>NULL\<close> for a version that is too old: \<open>None\<close>.\<close>

definition mod_ssh_version :: "'w ssh2 \<Rightarrow> 'w ssh \<Rightarrow> bytes option \<times> 'w ssh" where
  "mod_ssh_version l s =
     (let (r, s) = invoke l (Version 0) s in if r_val r = 0 then (None, s) else (Some (cstr (r_data r)), s))"

definition mod_ssh_crypto_engine :: "'w ssh2 \<Rightarrow> 'w ssh \<Rightarrow> int \<times> 'w ssh" where
  "mod_ssh_crypto_engine l s = (let (r, s) = invoke l Crypto_engine s in (r_val r, s))"

definition engine_name :: "engine \<Rightarrow> string" where
  "engine_name e =
     (case e of
        libssh2_no_crypto \<Rightarrow> ''none''
      | libssh2_openssl \<Rightarrow> ''openssl''
      | libssh2_gcrypt \<Rightarrow> ''gcrypt''
      | libssh2_mbedtls \<Rightarrow> ''mbedtls''
      | libssh2_wincng \<Rightarrow> ''wincng''
      | libssh2_os400qc3 \<Rightarrow> ''os400qc3''
      | libssh2_axtls \<Rightarrow> ''axtls''
      | other_engine \<Rightarrow> ''unknown'')"

definition mod_ssh_crypto_engine_name :: "'w ssh2 \<Rightarrow> 'w ssh \<Rightarrow> string \<times> 'w ssh" where
  "mod_ssh_crypto_engine_name l s =
     (let (r, s) = invoke l Crypto_engine s in (engine_name (engine_of l (r_val r)), s))"

end
