(* ===== verification/Ssh_Safety.thy ===== *)
theory Ssh_Safety
  imports Ssh_Session
begin

text \<open>
  Handle safety of the ssh module: programs as sequences of operations on the Python objects, the
  invariant that ties the objects to libssh2's live handles, and the theorem that a program which closes
  what belongs to a session or an SFTP object before the object itself never passes a dead handle to
  libssh2, whatever the library answers.
\<close>

section \<open>Programs\<close>

datatype op =
    New_session nat bool
  | Auth_password nat bytes bytes
  | Auth_publickey nat bytes bytes "bytes option" "bytes option"
  | Exec nat bytes
  | Scp_get nat bytes
  | Scp_put nat bytes int bytes
  | Close_session nat
  | Start_sftp nat
  | Close_sftp nat
  | Open_file nat bytes "bytes option"
  | Open_dir nat bytes
  | Mkdir nat bytes "int option"
  | Rmdir nat bytes
  | Unlink nat bytes
  | Rename nat bytes bytes
  | Stat nat bytes
  | Realpath nat bytes
  | Read_file nat "int option"
  | Write_file nat bytes
  | Close_file nat
  | Read_dir nat
  | Close_dir nat

text \<open>The state after an operation; \<open>None\<close> is an operation that never returns.\<close>

fun perform :: "'w ssh2 \<Rightarrow> op \<Rightarrow> 'w ssh \<Rightarrow> 'w ssh option" where
  "perform l (New_session so is_stream) s = Some (snd (ssh_session_make_new l so is_stream s))"
| "perform l (Auth_password i user pw) s = Some (snd (ssh_session_userauth_password l i user pw s))"
| "perform l (Auth_publickey i user priv pub pass) s = Some (snd (ssh_session_userauth_publickey l i user priv pub pass s))"
| "perform l (Exec i cmd) s = map_option snd (ssh_session_exec l i cmd s)"
| "perform l (Scp_get i path) s = map_option snd (ssh_session_scp_recv l i path s)"
| "perform l (Scp_put i path mode data) s = map_option snd (ssh_session_scp_send l i path mode data s)"
| "perform l (Close_session i) s = Some (snd (ssh_session_close l i s))"
| "perform l (Start_sftp i) s = Some (snd (ssh_session_sftp l i s))"
| "perform l (Close_sftp j) s = Some (snd (ssh_sftp_close l j s))"
| "perform l (Open_file j path mode) s = Some (snd (ssh_sftp_open l j path mode s))"
| "perform l (Open_dir j path) s = Some (snd (ssh_sftp_opendir l j path s))"
| "perform l (Mkdir j path mode) s = Some (snd (ssh_sftp_mkdir l j path mode s))"
| "perform l (Rmdir j path) s = Some (snd (ssh_sftp_rmdir l j path s))"
| "perform l (Unlink j path) s = Some (snd (ssh_sftp_unlink l j path s))"
| "perform l (Rename j a b) s = Some (snd (ssh_sftp_rename l j a b s))"
| "perform l (Stat j path) s = Some (snd (ssh_sftp_stat l j path s))"
| "perform l (Realpath j path) s = Some (snd (ssh_sftp_realpath l j path s))"
| "perform l (Read_file k n) s = map_option snd (ssh_sftp_file_read l k n s)"
| "perform l (Write_file k data) s = Some (snd (ssh_sftp_file_write l k data s))"
| "perform l (Close_file k) s = Some (snd (ssh_sftp_file_close l k s))"
| "perform l (Read_dir k) s = Some (snd (ssh_sftp_dir_read l k s))"
| "perform l (Close_dir k) s = Some (snd (ssh_sftp_dir_close l k s))"

text \<open>The operand is an object of the program.\<close>

fun has_object :: "op \<Rightarrow> 'w ssh \<Rightarrow> bool" where
  "has_object (New_session so is_stream) s = True"
| "has_object (Auth_password i user pw) s = (i < length (sessions s))"
| "has_object (Auth_publickey i user priv pub pass) s = (i < length (sessions s))"
| "has_object (Exec i cmd) s = (i < length (sessions s))"
| "has_object (Scp_get i path) s = (i < length (sessions s))"
| "has_object (Scp_put i path mode data) s = (i < length (sessions s))"
| "has_object (Close_session i) s = (i < length (sessions s))"
| "has_object (Start_sftp i) s = (i < length (sessions s))"
| "has_object (Close_sftp j) s = (j < length (sftps s))"
| "has_object (Open_file j path mode) s = (j < length (sftps s))"
| "has_object (Open_dir j path) s = (j < length (sftps s))"
| "has_object (Mkdir j path mode) s = (j < length (sftps s))"
| "has_object (Rmdir j path) s = (j < length (sftps s))"
| "has_object (Unlink j path) s = (j < length (sftps s))"
| "has_object (Rename j a b) s = (j < length (sftps s))"
| "has_object (Stat j path) s = (j < length (sftps s))"
| "has_object (Realpath j path) s = (j < length (sftps s))"
| "has_object (Read_file k n) s = (k < length (files s))"
| "has_object (Write_file k data) s = (k < length (files s))"
| "has_object (Close_file k) s = (k < length (files s))"
| "has_object (Read_dir k) s = (k < length (dirs s))"
| "has_object (Close_dir k) s = (k < length (dirs s))"

text \<open>A session is closed after its SFTP objects, an SFTP object after its files and directories.\<close>

fun children_closed :: "op \<Rightarrow> 'w ssh \<Rightarrow> bool" where
  "children_closed (Close_session i) s = (\<forall>x\<in>set (sftps s). sftp_session x = i \<longrightarrow> sftp x = 0)"
| "children_closed (Close_sftp j) s = (\<forall>x\<in>set (files s @ dirs s). hnd_sftp x = j \<longrightarrow> hnd x = 0)"
| "children_closed _ s = True"

definition start :: "'w \<Rightarrow> 'w ssh" where
  "start w = \<lparr>world = w, calls = [], initialized = False, sessions = [], sftps = [], files = [], dirs = []\<rparr>"

text \<open>The states a program can reach; \<open>reach\<close> leaves the order of the operations free.\<close>

inductive tidy_reach :: "'w ssh2 \<Rightarrow> 'w \<Rightarrow> 'w ssh \<Rightarrow> bool" for l w where
  tidy_start: "tidy_reach l w (start w)"
| tidy_step: "tidy_reach l w s \<Longrightarrow> has_object c s \<Longrightarrow> children_closed c s \<Longrightarrow> perform l c s = Some s' \<Longrightarrow> tidy_reach l w s'"

section \<open>The invariant\<close>

text \<open>No two objects hold the same handle.\<close>

definition apart :: "int list \<Rightarrow> bool" where
  "apart ps \<longleftrightarrow> distinct (filter (\<lambda>p. p \<noteq> 0) ps)"

definition sftp_at :: "'w ssh \<Rightarrow> nat \<Rightarrow> int" where
  "sftp_at s j = sftp (sftps s ! j)"

definition objs_ok :: "'w ssh \<Rightarrow> bool" where
  "objs_ok s \<longleftrightarrow>
     (\<forall>x\<in>set (sessions s). session x \<noteq> 0 \<longrightarrow> Session (session x) \<in> live (calls s))
   \<and> (\<forall>x\<in>set (sftps s). sftp x \<noteq> 0 \<longrightarrow> sftp_session x < length (sessions s)
        \<and> session (sessions s ! sftp_session x) \<noteq> 0
        \<and> Sftp (sftp x) (session (sessions s ! sftp_session x)) \<in> live (calls s))
   \<and> (\<forall>x\<in>set (files s @ dirs s). hnd x \<noteq> 0 \<longrightarrow> hnd_sftp x < length (sftps s)
        \<and> sftp_at s (hnd_sftp x) \<noteq> 0 \<and> File (hnd x) (sftp_at s (hnd_sftp x)) \<in> live (calls s))
   \<and> (\<forall>p q. Channel p q \<notin> live (calls s))
   \<and> apart (map session (sessions s)) \<and> apart (map sftp (sftps s)) \<and> apart (map hnd (files s @ dirs s))"

definition ssh_inv :: "'w ssh \<Rightarrow> bool" where
  "ssh_inv s \<longleftrightarrow> (fresh (calls s) \<longrightarrow> well_used (calls s) \<and> objs_ok s)"

subsection \<open>Calls and loops\<close>

lemma invokeE:
  assumes "invoke l c s = (r, s')"
  obtains w where "s' = s\<lparr>world := w, calls := (c, r) # calls s\<rparr>"
  using assms by (auto simp: invoke_def Let_def split: prod.splits)

lemma runE:
  obtains w r where "run l c s = s\<lparr>world := w, calls := (c, r) # calls s\<rparr>"
  unfolding run_def by (metis invokeE prod.collapse)

lemma snd_raise: "snd (ssh_raise_session_error l ses err fallback s) = run l (Last_error ses) s"
  by (simp add: ssh_raise_session_error_def run_def Let_def split_beta)

text \<open>A loop over a handle appends calls of one kind to the trace and changes nothing else.\<close>

definition extends :: "(call \<Rightarrow> bool) \<Rightarrow> 'w ssh \<Rightarrow> 'w ssh \<Rightarrow> bool" where
  "extends P s s' \<longleftrightarrow> (\<exists>w x. s' = s\<lparr>world := w, calls := x @ calls s\<rparr> \<and> (\<forall>(c, r) \<in> set x. P c))"

lemma extends_refl [simp, intro]: "extends P s s"
  unfolding extends_def by (intro exI[of _ "world s"] exI[of _ "[]"]) simp

lemma extends_trans [trans]: "extends P a b \<Longrightarrow> extends P b c \<Longrightarrow> extends P a c"
  unfolding extends_def
proof (elim exE conjE)
  fix w x w' x' assume *: "b = a\<lparr>world := w, calls := x @ calls a\<rparr>" "\<forall>(c, r) \<in> set x. P c"
    "c = b\<lparr>world := w', calls := x' @ calls b\<rparr>" "\<forall>(c, r) \<in> set x'. P c"
  then show "\<exists>w x. c = a\<lparr>world := w, calls := x @ calls a\<rparr> \<and> (\<forall>(c, r) \<in> set x. P c)"
    by (intro exI[of _ w'] exI[of _ "x' @ x"]) auto
qed

lemma extends_invoke: "invoke l c s = (r, s') \<Longrightarrow> P c \<Longrightarrow> extends P s s'"
  unfolding extends_def by (elim invokeE) (rule exI, rule exI[of _ "[(c, r)]"], simp)

lemma exec_loop_extends: "exec_loop l ch v s = Some y \<Longrightarrow> extends (on_channel ch) s (snd y)"
proof (induction rule: exec_loop.raw_induct[rotated 1, consumes 1])
  case (1 f l ch v s y)
  from 1(2) show ?case
    by (auto split: prod.splits if_splits dest!: 1(1) extends_invoke[where P = "on_channel ch"] intro: extends_trans)
qed

lemma scp_recv_loop_extends: "scp_recv_loop l ch v k s = Some y \<Longrightarrow> extends (on_channel ch) s (snd y)"
proof (induction rule: scp_recv_loop.raw_induct[rotated 1, consumes 1])
  case (1 f l ch v k s y)
  from 1(2) show ?case
    by (auto split: prod.splits if_splits dest!: 1(1) extends_invoke[where P = "on_channel ch"] intro: extends_trans)
qed

lemma scp_write_loop_extends: "scp_write_loop l ch buf s = Some y \<Longrightarrow> extends (on_channel ch) s (snd y)"
proof (induction rule: scp_write_loop.raw_induct[rotated 1, consumes 1])
  case (1 f l ch v s y)
  from 1(2) show ?case
    by (auto split: prod.splits if_splits dest!: 1(1) extends_invoke[where P = "on_channel ch"] intro: extends_trans)
qed

lemma scp_nul_loop_extends: "scp_nul_loop l ch s = Some s' \<Longrightarrow> extends (on_channel ch) s s'"
proof (induction rule: scp_nul_loop.raw_induct[rotated 1, consumes 1])
  case (1 f l ch s y)
  from 1(2) show ?case
    by (auto split: prod.splits if_splits dest!: 1(1) extends_invoke[where P = "on_channel ch"] intro: extends_trans)
qed

lemma sftp_read_loop_extends: "sftp_read_loop l h m v s = Some y \<Longrightarrow> extends (on_file h) s (snd y)"
proof (induction rule: sftp_read_loop.raw_induct[rotated 1, consumes 1])
  case (1 f l h m v s y)
  from 1(2) show ?case
    by (auto split: prod.splits if_splits dest!: 1(1) extends_invoke[where P = "on_file h"] intro: extends_trans)
qed

lemma sftp_write_loop_extends: "extends (on_file h) s (snd (sftp_write_loop l h buf s))"
proof (induction l h buf s rule: sftp_write_loop.induct)
  case (1 l h buf s)
  obtain r t where t: "invoke l (Sftp_write h buf) s = (r, t)" by fastforce
  then have "extends (on_file h) s t" by (rule extends_invoke) simp
  with 1 t show ?case
    by (subst sftp_write_loop.simps) (auto intro: extends_trans)
qed

subsection \<open>Handles of the objects\<close>

lemma apart_add: "apart (xs @ ys) \<Longrightarrow> p \<notin> set (xs @ ys) \<Longrightarrow> apart (xs @ p # ys)"
  by (auto simp: apart_def)

lemma apart_split:
  assumes "i < length ps"
  obtains xs ys where "ps = xs @ ps ! i # ys" "ps[i := 0] = xs @ 0 # ys"
  using assms that by (metis id_take_nth_drop upd_conv_take_nth_drop)

lemma apart_zero: "apart ps \<Longrightarrow> apart (ps[i := 0])"
proof (cases "i < length ps")
  case True
  then obtain xs ys where *: "ps = xs @ ps ! i # ys" "ps[i := 0] = xs @ 0 # ys" by (rule apart_split)
  assume "apart ps"
  with *(1) have "apart (xs @ ps ! i # ys)" by simp
  then show "apart (ps[i := 0])" unfolding *(2) apart_def by (auto split: if_splits)
next
  case False
  assume "apart ps"
  with False show "apart (ps[i := 0])" by (simp add: not_less list_update_beyond)
qed

lemma apart_other:
  assumes "apart ps" "i < length ps" "ps ! i \<noteq> 0" "x \<in> set (ps[i := 0])"
  shows "x \<noteq> ps ! i"
proof -
  obtain xs ys where *: "ps = xs @ ps ! i # ys" "ps[i := 0] = xs @ 0 # ys"
    using assms(2) by (rule apart_split)
  have "apart (xs @ ps ! i # ys)" using assms(1) *(1) by simp
  with assms(3,4) show ?thesis unfolding *(2) apart_def by auto
qed

text \<open>An operation that only makes calls keeps the invariant when the handles of the objects survive.\<close>

lemma inv_calls:
  assumes "ssh_inv s" "s' = s\<lparr>world := w, calls := x @ calls s\<rparr>"
    and "fresh (x @ calls s) \<Longrightarrow> objs_ok s \<Longrightarrow>
      live (calls s) \<subseteq> live (x @ calls s) \<and> (\<forall>p q. Channel p q \<in> live (x @ calls s) \<longrightarrow> Channel p q \<in> live (calls s))
      \<and> (well_used (calls s) \<longrightarrow> well_used (x @ calls s))"
  shows "ssh_inv s'"
  unfolding ssh_inv_def
proof
  assume f: "fresh (calls s')"
  then have "fresh (calls s)" using assms(2) fresh_append by auto
  with assms(1) have s: "well_used (calls s)" "objs_ok s" by (auto simp: ssh_inv_def)
  with f assms(2,3) have "live (calls s) \<subseteq> live (calls s')" "well_used (calls s')" "\<forall>p q. Channel p q \<notin> live (calls s')"
    by (auto simp: objs_ok_def)
  with s(2) show "well_used (calls s') \<and> objs_ok s'"
    by (fastforce simp: assms(2) objs_ok_def sftp_at_def)
qed

lemma session_live:
  "objs_ok s \<Longrightarrow> i < length (sessions s) \<Longrightarrow> session (sessions s ! i) \<noteq> 0 \<Longrightarrow>
   Session (session (sessions s ! i)) \<in> live (calls s)"
  by (auto simp: objs_ok_def)

lemma sftp_live:
  assumes "objs_ok s" "j < length (sftps s)" "sftp (sftps s ! j) \<noteq> 0"
  shows "Sftp (sftp (sftps s ! j)) (sess_of s j) \<in> live (calls s)" "Session (sess_of s j) \<in> live (calls s)"
    "sess_of s j \<noteq> 0"
  using assms nth_mem[OF assms(2)] by (auto simp: objs_ok_def sess_of_def)

lemma handle_live:
  assumes "objs_ok s" "x \<in> set (files s @ dirs s)" "hnd x \<noteq> 0"
  shows "File (hnd x) (sftp_at s (hnd_sftp x)) \<in> live (calls s)" "Session (sess_of s (hnd_sftp x)) \<in> live (calls s)"
    "sftp_at s (hnd_sftp x) \<noteq> 0" "sess_of s (hnd_sftp x) \<noteq> 0"
proof -
  have *: "hnd_sftp x < length (sftps s)" "sftp (sftps s ! hnd_sftp x) \<noteq> 0"
      "File (hnd x) (sftp_at s (hnd_sftp x)) \<in> live (calls s)"
    using assms by (auto simp: objs_ok_def sftp_at_def)
  then show "File (hnd x) (sftp_at s (hnd_sftp x)) \<in> live (calls s)" "Session (sess_of s (hnd_sftp x)) \<in> live (calls s)"
    "sftp_at s (hnd_sftp x) \<noteq> 0" "sess_of s (hnd_sftp x) \<noteq> 0"
    using sftp_live[OF assms(1) *(1,2)] by (auto simp: sftp_at_def)
qed

lemma inv_plain:
  assumes "ssh_inv s" "plain c" "objs_ok s \<Longrightarrow> call_ok (live (calls s)) c" "invoke l c s = (r, t)"
  shows "ssh_inv t"
proof -
  obtain w where "t = s\<lparr>world := w, calls := [(c, r)] @ calls s\<rparr>"
    using assms(4) by (elim invokeE) simp
  with assms(1) show ?thesis
    by (rule inv_calls) (use assms(2,3) in \<open>auto simp: plain_def\<close>)
qed

lemma inv_raise:
  assumes "ssh_inv s" "objs_ok s \<Longrightarrow> Session ses \<in> live (calls s)"
  shows "ssh_inv (snd (ssh_raise_session_error l ses err fallback s))"
proof -
  obtain r t where t: "invoke l (Last_error ses) s = (r, t)" by fastforce
  from inv_plain[OF assms(1) _ _ this] assms(2) have "ssh_inv t" by (simp add: plain_def)
  with t show ?thesis by (simp add: ssh_raise_session_error_def Let_def)
qed

text \<open>A call on a session, an SFTP object or an open handle, and the error it may raise.\<close>

lemma inv_session_call:
  assumes "invoke l c s = (r, t)" "ssh_inv s" "i < length (sessions s)" "session (sessions s ! i) \<noteq> 0"
    and "on_session (session (sessions s ! i)) c"
  shows "ssh_inv t" "ssh_inv (snd (ssh_raise_session_error l (session (sessions s ! i)) err fallback t))"
proof -
  show t: "ssh_inv t"
    using assms session_live[OF _ assms(3,4)] by (intro inv_plain[OF assms(2) _ _ assms(1)]) (auto simp: on_session_def)
  have "sessions t = sessions s" using assms(1) by (elim invokeE) simp
  with t session_live[of t i] assms(3,4) show "ssh_inv (snd (ssh_raise_session_error l (session (sessions s ! i)) err fallback t))"
    by (intro inv_raise) auto
qed

lemma inv_sftp_call:
  assumes "invoke l c s = (r, t)" "ssh_inv s" "j < length (sftps s)" "sftp (sftps s ! j) \<noteq> 0"
    and "on_sftp (sftp (sftps s ! j)) c"
  shows "ssh_inv t" "ssh_inv (snd (ssh_raise_session_error l (sess_of t j) err fallback t))"
proof -
  show t: "ssh_inv t"
    using assms sftp_live(1)[OF _ assms(3,4)]
    by (intro inv_plain[OF assms(2) _ _ assms(1)]) (force simp: on_sftp_def)+
  have "sftps t = sftps s" using assms(1) by (elim invokeE) simp
  with t sftp_live(2)[of t j] assms(3,4) show "ssh_inv (snd (ssh_raise_session_error l (sess_of t j) err fallback t))"
    by (intro inv_raise) auto
qed

lemma inv_handle_extends:
  assumes "ssh_inv s" "x \<in> set (files s @ dirs s)" "hnd x \<noteq> 0" "extends (on_file (hnd x)) s t"
  shows "ssh_inv t" "ssh_inv (snd (ssh_raise_session_error l (sess_of t (hnd_sftp x)) err fallback t))"
proof -
  obtain w y where y: "t = s\<lparr>world := w, calls := y @ calls s\<rparr>" "\<forall>(c, r)\<in>set y. on_file (hnd x) c"
    using assms(4) by (auto simp: extends_def)
  have h: "\<exists>h\<in>live (calls s). is_file (hnd x) h" if "objs_ok s"
    using handle_live(1)[OF that assms(2,3)] by force
  show t: "ssh_inv t"
  proof (rule inv_calls[OF assms(1) y(1)])
    assume "objs_ok s"
    with h y(2) have "\<forall>(c, r)\<in>set y. plain c \<and> call_ok (live (calls s)) c" by (fastforce simp: on_file_def)
    from plain_live[OF this]
    show "live (calls s) \<subseteq> live (y @ calls s) \<and> (\<forall>p q. Channel p q \<in> live (y @ calls s) \<longrightarrow> Channel p q \<in> live (calls s))
        \<and> (well_used (calls s) \<longrightarrow> well_used (y @ calls s))" by simp
  qed
  show "ssh_inv (snd (ssh_raise_session_error l (sess_of t (hnd_sftp x)) err fallback t))"
    using t assms(2,3) y(1) by (intro inv_raise handle_live(2)[of t x]) auto
qed

subsection \<open>Operations that keep the objects\<close>

lemma inv_cong:
  "map session (sessions s') = map session (sessions s) \<Longrightarrow> calls s' = calls s \<Longrightarrow> sftps s' = sftps s \<Longrightarrow>
   files s' = files s \<Longrightarrow> dirs s' = dirs s \<Longrightarrow> ssh_inv s \<Longrightarrow> ssh_inv s'"
proof -
  assume a: "map session (sessions s') = map session (sessions s)" "calls s' = calls s" "sftps s' = sftps s"
    "files s' = files s" "dirs s' = dirs s" "ssh_inv s"
  have l: "length (sessions s') = length (sessions s)" using a(1) by (metis length_map)
  have n: "session (sessions s' ! i) = session (sessions s ! i)" if "i < length (sessions s)" for i
    using a(1) l that by (metis nth_map)
  have "session ` set (sessions s') = session ` set (sessions s)"
    using a(1) by (metis image_set)
  then have p: "(\<forall>x\<in>set (sessions s'). P (session x)) = (\<forall>x\<in>set (sessions s). P (session x))" for P
    by (metis (no_types, lifting) imageE image_eqI)
  have "objs_ok s' = objs_ok s"
    unfolding objs_ok_def sftp_at_def a(1-5) l
      p[of "\<lambda>q. q \<noteq> 0 \<longrightarrow> Session q \<in> live (calls s)"] by (simp add: n cong: conj_cong)
  with a(2,6) show "ssh_inv s'" by (simp add: ssh_inv_def)
qed

lemma inv_auth:
  "ssh_inv s \<Longrightarrow> ssh_inv (s\<lparr>sessions := (sessions s)[i := (sessions s ! i)\<lparr>authenticated := True\<rparr>]\<rparr>)"
  by (erule inv_cong[rotated -1])
    (cases "i < length (sessions s)"; auto simp: nth_list_update list_update_beyond intro!: nth_equalityI)+

lemma inv_password:
  "ssh_inv s \<Longrightarrow> i < length (sessions s) \<Longrightarrow> ssh_inv (snd (ssh_session_userauth_password l i user pw s))"
  by (auto simp: ssh_session_userauth_password_def Let_def split: prod.splits dest: inv_session_call intro: inv_auth)

lemma inv_publickey:
  "ssh_inv s \<Longrightarrow> i < length (sessions s) \<Longrightarrow> ssh_inv (snd (ssh_session_userauth_publickey l i user priv pub pass s))"
  by (auto simp: ssh_session_userauth_publickey_def Let_def split: prod.splits dest: inv_session_call intro: inv_auth)

lemma inv_mkdir: "ssh_inv s \<Longrightarrow> j < length (sftps s) \<Longrightarrow> ssh_inv (snd (ssh_sftp_mkdir l j path mode s))"
  by (auto simp: ssh_sftp_mkdir_def Let_def split: prod.splits dest: inv_sftp_call)

lemma inv_rmdir: "ssh_inv s \<Longrightarrow> j < length (sftps s) \<Longrightarrow> ssh_inv (snd (ssh_sftp_rmdir l j path s))"
  by (auto simp: ssh_sftp_rmdir_def Let_def split: prod.splits dest: inv_sftp_call)

lemma inv_unlink: "ssh_inv s \<Longrightarrow> j < length (sftps s) \<Longrightarrow> ssh_inv (snd (ssh_sftp_unlink l j path s))"
  by (auto simp: ssh_sftp_unlink_def Let_def split: prod.splits dest: inv_sftp_call)

lemma inv_rename: "ssh_inv s \<Longrightarrow> j < length (sftps s) \<Longrightarrow> ssh_inv (snd (ssh_sftp_rename l j a b s))"
  by (auto simp: ssh_sftp_rename_def Let_def split: prod.splits dest: inv_sftp_call)

lemma inv_stat: "ssh_inv s \<Longrightarrow> j < length (sftps s) \<Longrightarrow> ssh_inv (snd (ssh_sftp_stat l j path s))"
  by (auto simp: ssh_sftp_stat_def Let_def split: prod.splits dest: inv_sftp_call)

lemma inv_realpath: "ssh_inv s \<Longrightarrow> j < length (sftps s) \<Longrightarrow> ssh_inv (snd (ssh_sftp_realpath l j path s))"
  by (auto simp: ssh_sftp_realpath_def Let_def split: prod.splits dest: inv_sftp_call)

text \<open>The channel of \<open>exec\<close> and the SCP transfers: opened, used and freed again.\<close>

lemma inv_channel:
  assumes "ssh_inv s" "i < length (sessions s)" "session (sessions s ! i) \<noteq> 0"
    and "created c (r_val r) = Some (Channel p (session (sessions s ! i)))" "\<forall>L h. \<not> destroyed L c h"
    and "\<forall>L. call_ok L c = (Session (session (sessions s ! i)) \<in> L)"
    and "\<forall>(d, q) \<in> set x. on_channel p d"
    and "t = s\<lparr>world := w, calls := (Channel_free p, q) # x @ (c, r) # calls s\<rparr>"
  shows "ssh_inv t" "ssh_inv (snd (ssh_raise_session_error l (session (sessions s ! i)) err fallback t))"
proof -
  let ?a = "(c, r) # calls s"
  have la: "live ?a = insert (Channel p (session (sessions s ! i))) (live (calls s))"
    using assms(4,5) by simp
  then have "\<forall>(d, q)\<in>set x. plain d \<and> call_ok (live ?a) d"
    using assms(7) by (auto simp: on_channel_def)
  note x = plain_live[OF this]
  show t: "ssh_inv t"
  proof (rule inv_calls[OF assms(1), where x = "(Channel_free p, q) # x @ [(c, r)]"])
    show "t = s\<lparr>world := w, calls := ((Channel_free p, q) # x @ [(c, r)]) @ calls s\<rparr>" using assms(8) by simp
    assume f: "fresh (((Channel_free p, q) # x @ [(c, r)]) @ calls s)" and ok: "objs_ok s"
    then have "\<not> is_channel p h" if "h \<in> live (calls s)" for h
      using x assms(4) that by (cases h) auto
    then show "live (calls s) \<subseteq> live (((Channel_free p, q) # x @ [(c, r)]) @ calls s) \<and>
        (\<forall>p' q'. Channel p' q' \<in> live (((Channel_free p, q) # x @ [(c, r)]) @ calls s) \<longrightarrow> Channel p' q' \<in> live (calls s)) \<and>
        (well_used (calls s) \<longrightarrow> well_used (((Channel_free p, q) # x @ [(c, r)]) @ calls s))"
      using x la assms(6) session_live[OF ok assms(2,3)] by auto
  qed
  show "ssh_inv (snd (ssh_raise_session_error l (session (sessions s ! i)) err fallback t))"
    using t session_live[of t i] assms(2,3,8) by (intro inv_raise) auto
qed

lemma extends_run: "extends P a s \<Longrightarrow> P c \<Longrightarrow> extends P a (run l c s)"
  by (metis extends_invoke extends_trans prod.collapse run_def)

definition opens_channel :: "int \<Rightarrow> call \<Rightarrow> bool" where
  "opens_channel ses c \<longleftrightarrow> (\<forall>p. created c p = (if p = 0 then None else Some (Channel p ses)))
     \<and> (\<forall>L h. \<not> destroyed L c h) \<and> (\<forall>L. call_ok L c = (Session ses \<in> L))"

lemma opens_channel_intros [intro, simp]:
  "opens_channel p (Channel_open p)" "opens_channel p (Scp_recv p path)" "opens_channel p (Scp_send p path mode n)"
  by (auto simp: opens_channel_def)

text \<open>The same, for a channel that was used by \<open>P\<close>-calls between its creation in \<open>a\<close> and its end in \<open>t\<close>.\<close>

lemma inv_channel_use:
  assumes "ssh_inv s" "i < length (sessions s)" "session (sessions s ! i) \<noteq> 0"
    and "invoke l c s = (r, a)" "r_val r = p" "p \<noteq> 0"
    and "opens_channel (session (sessions s ! i)) c" "extends (on_channel p) a t"
  shows "ssh_inv (run l (Channel_free p) t)"
    "ssh_inv (snd (ssh_raise_session_error l (session (sessions s ! i)) err fallback (run l (Channel_free p) t)))"
proof -
  obtain w where a: "a = s\<lparr>world := w, calls := (c, r) # calls s\<rparr>"
    using assms(4) by (elim invokeE)
  obtain w' x where t: "t = a\<lparr>world := w', calls := x @ calls a\<rparr>" "\<forall>(d, q)\<in>set x. on_channel p d"
    using assms(8) by (auto simp: extends_def)
  obtain w'' q where "run l (Channel_free p) t = t\<lparr>world := w'', calls := (Channel_free p, q) # calls t\<rparr>"
    by (rule runE)
  then have u: "run l (Channel_free p) t = s\<lparr>world := w'', calls := (Channel_free p, q) # x @ (c, r) # calls s\<rparr>"
    using t a by simp
  have "created c (r_val r) = Some (Channel p (session (sessions s ! i)))" "\<forall>L h. \<not> destroyed L c h"
      "\<forall>L. call_ok L c = (Session (session (sessions s ! i)) \<in> L)"
    using assms(5-7) by (auto simp: opens_channel_def)
  note * = inv_channel[OF assms(1-3) this t(2) u]
  show "ssh_inv (run l (Channel_free p) t)" by (rule *(1))
  show "ssh_inv (snd (ssh_raise_session_error l (session (sessions s ! i)) err fallback (run l (Channel_free p) t)))"
    by (rule *(2))
qed

text \<open>A channel that was not opened.\<close>

lemma inv_no_channel:
  assumes "ssh_inv s" "i < length (sessions s)" "session (sessions s ! i) \<noteq> 0"
    and "invoke l c s = (r, a)" "r_val r = 0"
    and "opens_channel (session (sessions s ! i)) c"
  shows "ssh_inv (snd (ssh_raise_session_error l (session (sessions s ! i)) err fallback a))"
proof -
  obtain w where a: "a = s\<lparr>world := w, calls := [(c, r)] @ calls s\<rparr>"
    using assms(4) by (elim invokeE) simp
  have "ssh_inv a"
    by (rule inv_calls[OF assms(1) a]) (use assms(5,6) session_live[OF _ assms(2,3)] in \<open>auto simp: opens_channel_def\<close>)
  then show ?thesis
    using session_live[of a i] assms(2,3) a by (intro inv_raise) auto
qed

lemma inv_exec:
  assumes "ssh_inv s" "i < length (sessions s)" "ssh_session_exec l i cmd s = Some y"
  shows "ssh_inv (snd y)"
proof (cases "session (sessions s ! i) = 0")
  case True
  with assms show ?thesis by (auto simp: ssh_session_exec_def)
next
  case False
  obtain r a where a: "invoke l (Channel_open (session (sessions s ! i))) s = (r, a)" by fastforce
  obtain e b where b: "invoke l (Channel_exec (r_val r) (cstr cmd)) a = (e, b)" by fastforce
  note use = inv_channel_use[OF assms(1,2) False a refl]
  have ab: "extends (on_channel (r_val r)) a b" using b by (rule extends_invoke) simp
  have loop: "extends (on_channel (r_val r)) a t" if "exec_loop l (r_val r) [] b = Some (x, t)" for x t
    using ab exec_loop_extends[OF that] by (auto intro: extends_trans)
  from assms(3) False a b show ?thesis
    by (auto simp: ssh_session_exec_def Let_def split: if_splits option.splits sum.splits
        intro!: inv_no_channel[OF assms(1,2) False a] use ab extends_run dest!: loop)
qed

lemma inv_scp_recv:
  assumes "ssh_inv s" "i < length (sessions s)" "ssh_session_scp_recv l i path s = Some y"
  shows "ssh_inv (snd y)"
proof (cases "session (sessions s ! i) = 0")
  case True
  with assms show ?thesis by (auto simp: ssh_session_scp_recv_def)
next
  case False
  obtain r a where a: "invoke l (Scp_recv (session (sessions s ! i)) (cstr path)) s = (r, a)" by fastforce
  note use = inv_channel_use[OF assms(1,2) False a refl]
  have loop: "extends (on_channel (r_val r)) a t" if "scp_recv_loop l (r_val r) [] 0 a = Some (x, t)" for x t
    using scp_recv_loop_extends[OF that] by simp
  from assms(3) False a show ?thesis
    by (auto simp: ssh_session_scp_recv_def Let_def split: if_splits option.splits sum.splits
        intro!: inv_no_channel[OF assms(1,2) False a] use extends_run dest!: loop)
qed

lemma inv_scp_send:
  assumes "ssh_inv s" "i < length (sessions s)" "ssh_session_scp_send l i path mode data s = Some y"
  shows "ssh_inv (snd y)"
proof (cases "session (sessions s ! i) = 0")
  case True
  with assms show ?thesis by (auto simp: ssh_session_scp_send_def)
next
  case False
  obtain r a where a: "invoke l (Scp_send (session (sessions s ! i)) (cstr path) mode (length data)) s = (r, a)" by fastforce
  note use = inv_channel_use[OF assms(1,2) False a refl]
  show ?thesis
  proof (cases "scp_write_loop l (r_val r) data a")
    case None
    with assms(3) False a show ?thesis
      by (auto simp: ssh_session_scp_send_def Let_def split: if_splits intro!: inv_no_channel[OF assms(1,2) False a])
  next
    case (Some y')
    then have w: "extends (on_channel (r_val r)) a (snd y')" by (rule scp_write_loop_extends)
    have "extends (on_channel (r_val r)) a u" if "scp_nul_loop l (r_val r) (snd y') = Some u" for u
      using w scp_nul_loop_extends[OF that] by (rule extends_trans)
    with w Some assms(3) False a show ?thesis
      by (auto simp: ssh_session_scp_send_def Let_def split: if_splits option.splits sum.splits prod.splits
          intro!: inv_no_channel[OF assms(1,2) False a] use extends_run)
  qed
qed

lemma inv_file_read:
  assumes "ssh_inv s" "k < length (files s)" "ssh_sftp_file_read l k n s = Some y"
  shows "ssh_inv (snd y)"
proof (cases "hnd (files s ! k) = 0")
  case False
  have x: "files s ! k \<in> set (files s @ dirs s)" using assms(2) by simp
  have files: "files t = files s" if "extends P s t" for P t
    using that by (auto simp: extends_def)
  show ?thesis
  proof (cases "sftp_read_loop l (hnd (files s ! k)) (case n of None \<Rightarrow> -1 | Some n \<Rightarrow> n) [] s")
    case None
    with assms(3) False show ?thesis by (simp add: ssh_sftp_file_read_def Let_def)
  next
    case (Some y')
    then have e: "extends (on_file (hnd (files s ! k))) s (snd y')" by (rule sftp_read_loop_extends)
    from inv_handle_extends[OF assms(1) x False e] files[OF e] assms(3) False Some show ?thesis
      by (auto simp: ssh_sftp_file_read_def Let_def split: prod.splits sum.splits)
  qed
qed (use assms in \<open>auto simp: ssh_sftp_file_read_def\<close>)

lemma inv_file_write:
  assumes "ssh_inv s" "k < length (files s)"
  shows "ssh_inv (snd (ssh_sftp_file_write l k data s))"
proof (cases "hnd (files s ! k) = 0")
  case False
  have x: "files s ! k \<in> set (files s @ dirs s)" using assms(2) by simp
  note e = sftp_write_loop_extends[of "hnd (files s ! k)" s l data]
  have "files (snd (sftp_write_loop l (hnd (files s ! k)) data s)) = files s"
    using e by (auto simp: extends_def)
  with False show ?thesis
    using inv_handle_extends[OF assms(1) x False e]
    by (auto simp: ssh_sftp_file_write_def Let_def split: prod.splits sum.splits)
qed (use assms in \<open>auto simp: ssh_sftp_file_write_def\<close>)

lemma inv_dir_read:
  assumes "ssh_inv s" "k < length (dirs s)"
  shows "ssh_inv (snd (ssh_sftp_dir_read l k s))"
proof (cases "hnd (dirs s ! k) = 0")
  case False
  have x: "dirs s ! k \<in> set (files s @ dirs s)" using assms(2) by simp
  obtain r t where t: "invoke l (Sftp_readdir (hnd (dirs s ! k)) 256) s = (r, t)" by fastforce
  then have e: "extends (on_file (hnd (dirs s ! k))) s t" by (rule extends_invoke) simp
  then have "dirs t = dirs s" by (auto simp: extends_def)
  with False t show ?thesis
    using inv_handle_extends[OF assms(1) x False e] by (auto simp: ssh_sftp_dir_read_def Let_def)
qed (use assms in \<open>auto simp: ssh_sftp_dir_read_def\<close>)

subsection \<open>Operations that create an object\<close>

lemma map_session_update [simp]:
  "map session (xs[i := x\<lparr>session := p\<rparr>]) = (map session xs)[i := p]"
  by (simp add: map_update)

lemma inv_start_sftp:
  assumes "ssh_inv s" "i < length (sessions s)"
  shows "ssh_inv (snd (ssh_session_sftp l i s))"
proof (cases "session (sessions s ! i) = 0")
  case False
  let ?ses = "session (sessions s ! i)"
  obtain r a where a: "invoke l (Sftp_init ?ses) s = (r, a)" by fastforce
  then obtain w where a': "a = s\<lparr>world := w, calls := [(Sftp_init ?ses, r)] @ calls s\<rparr>"
    by (elim invokeE) simp
  have inv: "ssh_inv a"
    by (rule inv_calls[OF assms(1) a']) (use session_live[OF _ assms(2) False] in auto)
  show ?thesis
  proof (cases "r_val r = 0")
    case True
    have "ssh_inv (snd (ssh_raise_session_error l ?ses (- 1) ''sftp_init'' a))"
      using inv session_live[of a i] assms(2) False a' by (intro inv_raise) auto
    with True False a show ?thesis by (simp add: ssh_session_sftp_def Let_def)
  next
    case r: False
    let ?t = "a\<lparr>sftps := sftps a @ [\<lparr>sftp = r_val r, sftp_session = i\<rparr>]\<rparr>"
    have "ssh_inv ?t"
      unfolding ssh_inv_def
    proof
      assume f: "fresh (calls ?t)"
      with inv have ok: "well_used (calls a)" "objs_ok a" by (auto simp: ssh_inv_def)
      have "r_val r \<notin> sftp ` set (sftps s)"
      proof
        assume "r_val r \<in> sftp ` set (sftps s)"
        then obtain x where x: "x \<in> set (sftps s)" "sftp x = r_val r" by auto
        have "objs_ok s"
          using f assms(1) a' by (auto simp: ssh_inv_def)
        with x r have "Sftp (r_val r) (session (sessions s ! sftp_session x)) \<in> live (calls s)"
          by (auto simp: objs_ok_def)
        with f r a' show False by force
      qed
      with ok a' r False assms(2) show "well_used (calls ?t) \<and> objs_ok ?t"
        by (auto simp: objs_ok_def sftp_at_def nth_append intro!: apart_add[where ys = "[]", simplified])
    qed
    with r False a show ?thesis by (simp add: ssh_session_sftp_def Let_def)
  qed
qed (use assms in \<open>simp add: ssh_session_sftp_def\<close>)

lemma inv_new_handle:
  assumes "ssh_inv s" "j < length (sftps s)" "sftp (sftps s ! j) \<noteq> 0"
    and "c = Sftp_open (sftp (sftps s ! j)) path flags mode \<or> c = Sftp_opendir (sftp (sftps s ! j)) path"
    and "invoke l c s = (r, a)"
  shows "ssh_inv a" "ssh_inv (snd (ssh_raise_session_error l (sess_of a j) err fallback a))"
    and "r_val r \<noteq> 0 \<Longrightarrow> fresh (calls a) \<Longrightarrow> r_val r \<notin> hnd ` (set (files s) \<union> set (dirs s))"
    and "r_val r \<noteq> 0 \<Longrightarrow> File (r_val r) (sftp_at a j) \<in> live (calls a)"
proof -
  obtain w where a: "a = s\<lparr>world := w, calls := [(c, r)] @ calls s\<rparr>"
    using assms(5) by (elim invokeE) simp
  show inv: "ssh_inv a"
  proof (rule inv_calls[OF assms(1) a])
    assume "objs_ok s"
    then have "\<exists>h\<in>live (calls s). is_sftp (sftp (sftps s ! j)) h"
      using sftp_live(1)[OF _ assms(2,3)] by force
    with assms(4) show "live (calls s) \<subseteq> live ([(c, r)] @ calls s)
        \<and> (\<forall>p q. Channel p q \<in> live ([(c, r)] @ calls s) \<longrightarrow> Channel p q \<in> live (calls s))
        \<and> (well_used (calls s) \<longrightarrow> well_used ([(c, r)] @ calls s))"
      by (auto simp: Let_def split: if_splits)
  qed
  show "ssh_inv (snd (ssh_raise_session_error l (sess_of a j) err fallback a))"
    using inv a sftp_live(2)[of a j] assms(2,3) by (intro inv_raise) auto
  show "File (r_val r) (sftp_at a j) \<in> live (calls a)" if "r_val r \<noteq> 0"
    using that a assms(4) by (auto simp: sftp_at_def)
  show "r_val r \<notin> hnd ` (set (files s) \<union> set (dirs s))" if r: "r_val r \<noteq> 0" and f: "fresh (calls a)"
  proof
    assume "r_val r \<in> hnd ` (set (files s) \<union> set (dirs s))"
    then obtain x where x: "x \<in> set (files s @ dirs s)" "hnd x = r_val r" by (metis imageE set_append)
    have "objs_ok s"
      using f assms(1) a by (auto simp: ssh_inv_def)
    with x r have "File (r_val r) (sftp_at s (hnd_sftp x)) \<in> live (calls s)"
      by (metis handle_live(1))
    with f r a assms(4) show False by force
  qed
qed

lemma inv_open_file:
  assumes "ssh_inv s" "j < length (sftps s)"
  shows "ssh_inv (snd (ssh_sftp_open l j path mode s))"
proof (cases "sftp (sftps s ! j) = 0")
  case False
  define m where "m = cstr (case mode of None \<Rightarrow> str ''r'' | Some m \<Rightarrow> m)"
  define c where "c = Sftp_open (sftp (sftps s ! j)) (cstr path)
    (if m \<noteq> [] \<and> hd m = of_char (CHR ''w'') then FXF_WRITE l OR FXF_CREAT l OR FXF_TRUNC l else FXF_READ l) 420"
  obtain r a where a: "invoke l c s = (r, a)" by fastforce
  note new = inv_new_handle[OF assms False disjI1[OF c_def] a]
  obtain w where a': "a = s\<lparr>world := w, calls := (c, r) # calls s\<rparr>" using a by (elim invokeE)
  have "ssh_inv (a\<lparr>files := files a @ [\<lparr>hnd = r_val r, hnd_sftp = j\<rparr>]\<rparr>)" if "r_val r \<noteq> 0"
    unfolding ssh_inv_def
  proof
    assume f: "fresh (calls (a\<lparr>files := files a @ [\<lparr>hnd = r_val r, hnd_sftp = j\<rparr>]\<rparr>))"
    with new(1) have ok: "well_used (calls a)" "objs_ok a" by (auto simp: ssh_inv_def)
    with new(3,4)[OF that] f a' False assms(2) that
    show "well_used (calls (a\<lparr>files := files a @ [\<lparr>hnd = r_val r, hnd_sftp = j\<rparr>]\<rparr>))
      \<and> objs_ok (a\<lparr>files := files a @ [\<lparr>hnd = r_val r, hnd_sftp = j\<rparr>]\<rparr>)"
      by (auto simp: objs_ok_def sftp_at_def intro!: apart_add)
  qed
  with new(2) False a show ?thesis
    by (auto simp: ssh_sftp_open_def Let_def c_def m_def)
qed (use assms in \<open>simp add: ssh_sftp_open_def\<close>)

lemma inv_open_dir:
  assumes "ssh_inv s" "j < length (sftps s)"
  shows "ssh_inv (snd (ssh_sftp_opendir l j path s))"
proof (cases "sftp (sftps s ! j) = 0")
  case False
  obtain r a where a: "invoke l (Sftp_opendir (sftp (sftps s ! j)) (cstr path)) s = (r, a)" by fastforce
  note new = inv_new_handle[OF assms False disjI2[OF refl] a]
  obtain w where a': "a = s\<lparr>world := w, calls := (Sftp_opendir (sftp (sftps s ! j)) (cstr path), r) # calls s\<rparr>"
    using a by (elim invokeE)
  have "ssh_inv (a\<lparr>dirs := dirs a @ [\<lparr>hnd = r_val r, hnd_sftp = j\<rparr>]\<rparr>)" if "r_val r \<noteq> 0"
    unfolding ssh_inv_def
  proof
    assume f: "fresh (calls (a\<lparr>dirs := dirs a @ [\<lparr>hnd = r_val r, hnd_sftp = j\<rparr>]\<rparr>))"
    with new(1) have ok: "well_used (calls a)" "objs_ok a" by (auto simp: ssh_inv_def)
    with new(3,4)[OF that] f a' False assms(2) that
    show "well_used (calls (a\<lparr>dirs := dirs a @ [\<lparr>hnd = r_val r, hnd_sftp = j\<rparr>]\<rparr>))
      \<and> objs_ok (a\<lparr>dirs := dirs a @ [\<lparr>hnd = r_val r, hnd_sftp = j\<rparr>]\<rparr>)"
      by (auto simp: objs_ok_def sftp_at_def
          intro!: apart_add[where ys = "[]" and xs = "map hnd (files s) @ map hnd (dirs s)", simplified])
  qed
  with new(2) False a show ?thesis
    by (auto simp: ssh_sftp_opendir_def Let_def)
qed (use assms in \<open>simp add: ssh_sftp_opendir_def\<close>)

lemma extends_raise: "extends P a s \<Longrightarrow> P (Last_error ses) \<Longrightarrow> extends P a (snd (ssh_raise_session_error l ses err fallback s))"
  by (auto simp: ssh_raise_session_error_def Let_def dest: extends_invoke extends_trans split: prod.splits)

lemma extends_pref2:
  "method_pref2 l ses m n v s = (r, t) \<Longrightarrow> extends (on_session ses) a s \<Longrightarrow> extends (on_session ses) a t"
  by (auto simp: method_pref2_def Let_def split: prod.splits if_splits
      dest!: extends_invoke[where P = "on_session ses"] intro: extends_trans)

text \<open>\<open>Session()\<close>: everything after \<open>libssh2_session_init\<close> is a call on the new session.\<close>

lemma make_new_shape:
  assumes "invoke l Session_init (ssh_lazy_init l s) = (r, a)"
  obtains
      "snd (ssh_session_make_new l so is_stream s) = ssh_lazy_init l s"
    | "r_val r = 0" "snd (ssh_session_make_new l so is_stream s) = a"
    | t where "r_val r \<noteq> 0" "extends (on_session (r_val r)) a t" "snd (ssh_session_make_new l so is_stream s) = t"
    | t where "r_val r \<noteq> 0" "extends (on_session (r_val r)) a t"
        "snd (ssh_session_make_new l so is_stream s) =
          t\<lparr>sessions := sessions t @ [\<lparr>session = r_val r, sock = so, authenticated = False\<rparr>]\<rparr>"
proof -
  let ?s = "snd (ssh_session_make_new l so is_stream s)" and ?P = "on_session (r_val r)"
  have step: "extends ?P a t'" if "invoke l c t = (q, t')" "extends ?P a t" "?P c" for t c q t'
    using that(2) extends_invoke[where P = ?P, OF that(1,3)] by (rule extends_trans)
  consider "?s = ssh_lazy_init l s" | "r_val r = 0" "?s = a" | "r_val r \<noteq> 0" "is_stream"
    by (cases is_stream; cases "r_val r = 0") (auto simp: ssh_session_make_new_def Let_def assms)
  then show ?thesis
  proof cases
    case 3
    define b where "b = run l (Callback_set (r_val r) CALLBACK_SEND)
      (run l (Callback_set (r_val r) CALLBACK_RECV) (run l (Set_abstract (r_val r) so) a))"
    have b: "extends ?P a b" unfolding b_def by (intro extends_run) auto
    obtain q\<^sub>1 c\<^sub>1 where c\<^sub>1: "invoke l (Method_pref (r_val r) METHOD_HOSTKEY ''ssh-ed25519'') b = (q\<^sub>1, c\<^sub>1)" by fastforce
    note e\<^sub>1 = step[OF this b, simplified]
    obtain q\<^sub>2 c\<^sub>2 where c\<^sub>2: "invoke l (Method_pref (r_val r) METHOD_KEX ''curve25519-sha256,curve25519-sha256@libssh.org'') c\<^sub>1 = (q\<^sub>2, c\<^sub>2)"
      by fastforce
    note e\<^sub>2 = step[OF this e\<^sub>1, simplified]
    obtain q\<^sub>3 c\<^sub>3 where c\<^sub>3: "method_pref2 l (r_val r) METHOD_CRYPT_CS METHOD_CRYPT_SC ''aes256-ctr,aes128-ctr'' c\<^sub>2 = (q\<^sub>3, c\<^sub>3)"
      by fastforce
    note e\<^sub>3 = extends_pref2[OF this e\<^sub>2]
    obtain q\<^sub>4 c\<^sub>4 where c\<^sub>4: "method_pref2 l (r_val r) METHOD_MAC_CS METHOD_MAC_SC ''hmac-sha2-256,hmac-sha1'' c\<^sub>3 = (q\<^sub>4, c\<^sub>4)"
      by fastforce
    note e\<^sub>4 = extends_pref2[OF this e\<^sub>3]
    define c\<^sub>5 where "c\<^sub>5 = run l (Set_blocking (r_val r) 1) c\<^sub>4"
    have e\<^sub>5: "extends ?P a c\<^sub>5" unfolding c\<^sub>5_def using e\<^sub>4 by (rule extends_run) simp
    obtain q\<^sub>6 c\<^sub>6 where c\<^sub>6: "invoke l (Handshake (r_val r) 0) c\<^sub>5 = (q\<^sub>6, c\<^sub>6)" by fastforce
    note e\<^sub>6 = step[OF this e\<^sub>5, simplified]
    note calls = assms c\<^sub>1 c\<^sub>2 c\<^sub>3 c\<^sub>4 c\<^sub>6 b_def[symmetric] c\<^sub>5_def[symmetric]
    have "extends ?P a ?s \<or> (\<exists>t. extends ?P a t \<and>
       ?s = t\<lparr>sessions := sessions t @ [\<lparr>session = r_val r, sock = so, authenticated = False\<rparr>]\<rparr>)"
      using 3 e\<^sub>1 e\<^sub>2 e\<^sub>3 e\<^sub>4 e\<^sub>6 by (auto simp: ssh_session_make_new_def Let_def calls intro!: extends_raise)
    with 3(1) that(3,4) show ?thesis by metis
  qed (use that in metis)+
qed

lemma inv_lazy_init: "ssh_inv s \<Longrightarrow> ssh_inv (ssh_lazy_init l s)"
proof (cases "initialized s")
  case False
  obtain w r where r: "run l (Init 0) s = s\<lparr>world := w, calls := [(Init 0, r)] @ calls s\<rparr>"
    using runE by (metis append_Cons append_Nil)
  assume "ssh_inv s"
  then have "ssh_inv (run l (Init 0) s)"
    by (rule inv_calls[OF _ r]) simp
  then have "ssh_inv ((run l (Init 0) s)\<lparr>initialized := True\<rparr>)"
    by (rule inv_cong[rotated -1]) simp_all
  with False show "ssh_inv (ssh_lazy_init l s)" by (simp add: ssh_lazy_init_def)
qed (simp add: ssh_lazy_init_def)

lemma inv_make_new:
  assumes "ssh_inv s"
  shows "ssh_inv (snd (ssh_session_make_new l so is_stream s))"
proof -
  define b where "b = ssh_lazy_init l s"
  have b: "ssh_inv b" unfolding b_def using assms by (rule inv_lazy_init)
  obtain r a where a: "invoke l Session_init b = (r, a)" by fastforce
  then obtain w where a': "a = b\<lparr>world := w, calls := [(Session_init, r)] @ calls b\<rparr>" by (elim invokeE) simp
  have inv: "ssh_inv a" by (rule inv_calls[OF b a']) auto
  have t: "ssh_inv t \<and> Session (r_val r) \<in> live (calls t) \<and> sessions t = sessions b \<and> (fresh (calls t) \<longrightarrow> fresh (calls a))"
    if e: "extends (on_session (r_val r)) a t" and p: "r_val r \<noteq> 0" for t
  proof -
    obtain w' x where x: "t = a\<lparr>world := w', calls := x @ calls a\<rparr>" "\<forall>(c, r')\<in>set x. on_session (r_val r) c"
      using e by (auto simp: extends_def)
    have "Session (r_val r) \<in> live (calls a)" using p a' by simp
    then have "\<forall>(c, r')\<in>set x. plain c \<and> call_ok (live (calls a)) c"
      using x(2) by (auto simp: on_session_def)
    note l = plain_live[OF this]
    have "ssh_inv t" by (rule inv_calls[OF inv x(1)]) (use l in auto)
    with l x(1) a' p show ?thesis by auto
  qed
  from a[unfolded b_def] show ?thesis
  proof (cases rule: make_new_shape[where so = so and is_stream = is_stream])
    case (4 t)
    note t = t[OF 4(2,1)]
    let ?t = "t\<lparr>sessions := sessions t @ [\<lparr>session = r_val r, sock = so, authenticated = False\<rparr>]\<rparr>"
    have "ssh_inv ?t"
      unfolding ssh_inv_def
    proof
      assume f: "fresh (calls ?t)"
      with t a' b have ok: "well_used (calls t)" "objs_ok t" "objs_ok b" "fresh (calls a)"
        by (auto simp: ssh_inv_def)
      have "r_val r \<notin> session ` set (sessions b)"
        using ok(3,4) a' 4(1) by (force simp: objs_ok_def)
      with ok(1,2) t show "well_used (calls ?t) \<and> objs_ok ?t"
        by (auto simp: objs_ok_def sftp_at_def nth_append intro!: apart_add[where ys = "[]", simplified])
    qed
    with 4(3) show ?thesis by simp
  qed (use assms b inv t b_def in auto)
qed

subsection \<open>Closing\<close>

lemma inv_close_handle:
  assumes "ssh_inv s" "m < length (files s @ dirs s)" "hnd ((files s @ dirs s) ! m) = h" "h \<noteq> 0"
    and "c = Sftp_close_handle h \<or> c = Sftp_closedir h"
    and t: "calls t = (c, r) # calls s" "sessions t = sessions s" "sftps t = sftps s"
    and upd: "map hnd (files t @ dirs t) = (map hnd (files s @ dirs s))[m := 0]"
    and old: "\<And>x. x \<in> set (files t @ dirs t) \<Longrightarrow> hnd x \<noteq> 0 \<Longrightarrow> x \<in> set (files s @ dirs s)"
  shows "ssh_inv t"
  unfolding ssh_inv_def
proof
  let ?ps = "map hnd (files s @ dirs s)"
  assume "fresh (calls t)"
  with assms(1) t(1) have ok: "well_used (calls s)" "objs_ok s" by (auto simp: ssh_inv_def)
  have p: "?ps ! m = h" using assms(2,3) by (metis nth_map)
  have "(files s @ dirs s) ! m \<in> set (files s @ dirs s)" using assms(2) by (rule nth_mem)
  from handle_live(1)[OF ok(2) this] assms(3,4) have "\<exists>g\<in>live (calls s). is_file h g" by force
  then have used: "call_ok (live (calls s)) c" using assms(5) by auto
  have live: "live (calls t) = {g \<in> live (calls s). \<not> is_file h g}"
    using assms(5) t(1) by auto
  have "apart ?ps" using ok(2) by (simp add: objs_ok_def)
  then have apart: "apart (map hnd (files t @ dirs t))"
    unfolding upd by (rule apart_zero)
  have other: "hnd x \<noteq> h" if "x \<in> set (files t @ dirs t)" for x
  proof -
    have "hnd x \<in> set (map hnd (files t @ dirs t))" using that by (metis image_eqI image_set)
    then have "hnd x \<in> set (?ps[m := 0])" unfolding upd .
    from apart_other[OF \<open>apart ?ps\<close> _ _ this] show ?thesis using assms(2,4) p by auto
  qed
  have "\<forall>x\<in>set (files t @ dirs t). hnd x \<noteq> 0 \<longrightarrow> hnd_sftp x < length (sftps t)
      \<and> sftp_at t (hnd_sftp x) \<noteq> 0 \<and> File (hnd x) (sftp_at t (hnd_sftp x)) \<in> live (calls t)"
    using old other ok(2) live t(3) by (fastforce simp: objs_ok_def sftp_at_def)
  with ok used live t apart show "well_used (calls t) \<and> objs_ok t"
    unfolding objs_ok_def by auto
qed

lemma inv_close_file:
  assumes "ssh_inv s" "k < length (files s)"
  shows "ssh_inv (snd (ssh_sftp_file_close l k s))"
proof (cases "hnd (files s ! k) = 0")
  case False
  let ?h = "hnd (files s ! k)"
  obtain w r where r: "run l (Sftp_close_handle ?h) s = s\<lparr>world := w, calls := (Sftp_close_handle ?h, r) # calls s\<rparr>"
    by (rule runE)
  have "ssh_inv (s\<lparr>world := w, calls := (Sftp_close_handle ?h, r) # calls s, files := (files s)[k := (files s ! k)\<lparr>hnd := 0\<rparr>]\<rparr>)"
    using assms(2) False
    by (intro inv_close_handle[OF assms(1), of k ?h])
      (auto simp: map_update list_update_append nth_append dest: set_update_subset_insert[THEN subsetD])
  with False r show ?thesis by (simp add: ssh_sftp_file_close_def Let_def)
qed (use assms in \<open>simp add: ssh_sftp_file_close_def\<close>)

lemma inv_close_dir:
  assumes "ssh_inv s" "k < length (dirs s)"
  shows "ssh_inv (snd (ssh_sftp_dir_close l k s))"
proof (cases "hnd (dirs s ! k) = 0")
  case False
  let ?h = "hnd (dirs s ! k)"
  obtain w r where r: "run l (Sftp_closedir ?h) s = s\<lparr>world := w, calls := (Sftp_closedir ?h, r) # calls s\<rparr>"
    by (rule runE)
  have "ssh_inv (s\<lparr>world := w, calls := (Sftp_closedir ?h, r) # calls s, dirs := (dirs s)[k := (dirs s ! k)\<lparr>hnd := 0\<rparr>]\<rparr>)"
    using assms(2) False
    by (intro inv_close_handle[OF assms(1), of "length (files s) + k" ?h])
      (auto simp: map_update list_update_append nth_append dest: set_update_subset_insert[THEN subsetD])
  with False r show ?thesis by (simp add: ssh_sftp_dir_close_def Let_def)
qed (use assms in \<open>simp add: ssh_sftp_dir_close_def\<close>)

lemma apart_index: "apart ps \<Longrightarrow> i < length ps \<Longrightarrow> k < length ps \<Longrightarrow> i \<noteq> k \<Longrightarrow> ps ! i \<noteq> 0 \<Longrightarrow> ps ! k \<noteq> ps ! i"
  using apart_other[of ps i "ps ! k"] by (metis length_list_update nth_list_update_neq nth_mem)

lemma inv_close_sftp:
  assumes "ssh_inv s" "j < length (sftps s)" "children_closed (Close_sftp j) s"
  shows "ssh_inv (snd (ssh_sftp_close l j s))"
proof (cases "sftp (sftps s ! j) = 0")
  case False
  let ?f = "sftp (sftps s ! j)" and ?ps = "map sftp (sftps s)"
  obtain w r where r: "run l (Sftp_shutdown ?f) s = s\<lparr>world := w, calls := (Sftp_shutdown ?f, r) # calls s\<rparr>"
    by (rule runE)
  define t where "t = s\<lparr>world := w, calls := (Sftp_shutdown ?f, r) # calls s, sftps := (sftps s)[j := (sftps s ! j)\<lparr>sftp := 0\<rparr>]\<rparr>"
  have "ssh_inv t"
    unfolding ssh_inv_def
  proof
    assume "fresh (calls t)"
    with assms(1) have ok: "well_used (calls s)" "objs_ok s" by (auto simp: ssh_inv_def t_def)
    have ap: "apart ?ps" using ok(2) by (simp add: objs_ok_def)
    have used: "\<exists>g\<in>live (calls s). is_sftp ?f g" using sftp_live(1)[OF ok(2) assms(2) False] by force
    have upd: "map sftp (sftps t) = ?ps[j := 0]" by (simp add: t_def map_update)
    have sftps: "x \<in> set (sftps s) \<and> sftp x \<noteq> ?f" if "x \<in> set (sftps t)" "sftp x \<noteq> 0" for x
    proof
      show "x \<in> set (sftps s)"
        using that by (auto simp: t_def dest: set_update_subset_insert[THEN subsetD])
      have "sftp x \<in> set (?ps[j := 0])" using that(1) upd by (metis image_eqI image_set)
      then show "sftp x \<noteq> ?f" using apart_other[OF ap, of j "sftp x"] assms(2) False by simp
    qed
    have at: "sftp_at t k = sftp_at s k \<and> sftp_at s k \<noteq> ?f" if "k \<noteq> j" "k < length (sftps s)" for k
      using that apart_index[OF ap, of j k] assms(2) False by (auto simp: t_def sftp_at_def)
    have "\<forall>x\<in>set (files t @ dirs t). hnd x \<noteq> 0 \<longrightarrow> hnd_sftp x < length (sftps t)
      \<and> sftp_at t (hnd_sftp x) \<noteq> 0 \<and> File (hnd x) (sftp_at t (hnd_sftp x)) \<in> live (calls t)"
    proof (intro ballI impI)
      fix x assume "x \<in> set (files t @ dirs t)" "hnd x \<noteq> 0"
      then have x: "x \<in> set (files s @ dirs s)" "hnd x \<noteq> 0" by (simp_all add: t_def)
      then have "hnd_sftp x < length (sftps s)" "sftp_at s (hnd_sftp x) \<noteq> 0"
          "File (hnd x) (sftp_at s (hnd_sftp x)) \<in> live (calls s)"
        using ok(2) unfolding objs_ok_def by blast+
      moreover have "hnd_sftp x \<noteq> j" using assms(3) x by auto
      ultimately show "hnd_sftp x < length (sftps t)
          \<and> sftp_at t (hnd_sftp x) \<noteq> 0 \<and> File (hnd x) (sftp_at t (hnd_sftp x)) \<in> live (calls t)"
        using at[of "hnd_sftp x"] by (auto simp: t_def)
    qed
    moreover have "apart (map sftp (sftps t))" unfolding upd using ap by (rule apart_zero)
    moreover have "well_used (calls t)" using ok used by (simp add: t_def)
    moreover have "\<forall>x\<in>set (sftps t). sftp x \<noteq> 0 \<longrightarrow> sftp_session x < length (sessions t)
        \<and> session (sessions t ! sftp_session x) \<noteq> 0
        \<and> Sftp (sftp x) (session (sessions t ! sftp_session x)) \<in> live (calls t)"
    proof (intro ballI impI)
      fix x assume "x \<in> set (sftps t)" "sftp x \<noteq> 0"
      from sftps[OF this] this(2) ok(2)
      show "sftp_session x < length (sessions t) \<and> session (sessions t ! sftp_session x) \<noteq> 0
        \<and> Sftp (sftp x) (session (sessions t ! sftp_session x)) \<in> live (calls t)"
        by (simp add: objs_ok_def t_def)
    qed
    ultimately show "well_used (calls t) \<and> objs_ok t"
      using ok(2) unfolding objs_ok_def by (simp add: t_def)
  qed
  with False r show ?thesis by (simp add: ssh_sftp_close_def Let_def t_def)
qed (use assms in \<open>simp add: ssh_sftp_close_def\<close>)

lemma inv_close_session:
  assumes "ssh_inv s" "i < length (sessions s)" "children_closed (Close_session i) s"
  shows "ssh_inv (snd (ssh_session_close l i s))"
proof (cases "session (sessions s ! i) = 0")
  case False
  let ?p = "session (sessions s ! i)" and ?ps = "map session (sessions s)"
  obtain w\<^sub>1 r\<^sub>1 where r\<^sub>1: "run l (Session_disconnect ?p ''bye'') s
      = s\<lparr>world := w\<^sub>1, calls := (Session_disconnect ?p ''bye'', r\<^sub>1) # calls s\<rparr>" (is "_ = ?s")
    by (rule runE)
  obtain w r where r: "run l (Session_free ?p) ?s = ?s\<lparr>world := w, calls := (Session_free ?p, r) # calls ?s\<rparr>"
    by (rule runE)
  define t where "t = s\<lparr>world := w, calls := (Session_free ?p, r) # (Session_disconnect ?p ''bye'', r\<^sub>1) # calls s,
    sessions := (sessions s)[i := (sessions s ! i)\<lparr>session := 0\<rparr>]\<rparr>"
  have "ssh_inv t"
    unfolding ssh_inv_def
  proof
    assume "fresh (calls t)"
    with assms(1) have ok: "well_used (calls s)" "objs_ok s" and f: "fresh (calls s)"
      by (auto simp: ssh_inv_def t_def)
    have ap: "apart ?ps" using ok(2) by (simp add: objs_ok_def)
    have upd: "map session (sessions t) = ?ps[i := 0]" by (simp add: t_def)
    have live: "live (calls t) = {g \<in> live (calls s). \<not> in_session (live (calls s)) ?p g}" by (simp add: t_def Let_def)
    have sess: "x \<in> set (sessions s) \<and> session x \<noteq> ?p" if "x \<in> set (sessions t)" "session x \<noteq> 0" for x
    proof
      show "x \<in> set (sessions s)"
        using that by (auto simp: t_def dest: set_update_subset_insert[THEN subsetD])
      have "session x \<in> set (?ps[i := 0])" using that(1) upd by (metis image_eqI image_set)
      then show "session x \<noteq> ?p" using apart_other[OF ap, of i "session x"] assms(2) False by simp
    qed
    have parent: "sftp_session x < length (sessions t) \<and> session (sessions t ! sftp_session x) = session (sessions s ! sftp_session x)
        \<and> session (sessions s ! sftp_session x) \<noteq> 0 \<and> session (sessions s ! sftp_session x) \<noteq> ?p
        \<and> Sftp (sftp x) (session (sessions s ! sftp_session x)) \<in> live (calls s)"
      if "x \<in> set (sftps s)" "sftp x \<noteq> 0" for x
    proof -
      have *: "sftp_session x < length (sessions s)" "session (sessions s ! sftp_session x) \<noteq> 0"
          "Sftp (sftp x) (session (sessions s ! sftp_session x)) \<in> live (calls s)"
        using ok(2) that unfolding objs_ok_def by blast+
      moreover have k: "sftp_session x \<noteq> i" using assms(3) that by auto
      ultimately show ?thesis
        using apart_index[OF ap, of i "sftp_session x"] assms(2) False by (auto simp: t_def)
    qed
    have "\<forall>x\<in>set (files t @ dirs t). hnd x \<noteq> 0 \<longrightarrow> hnd_sftp x < length (sftps t)
      \<and> sftp_at t (hnd_sftp x) \<noteq> 0 \<and> File (hnd x) (sftp_at t (hnd_sftp x)) \<in> live (calls t)"
    proof (intro ballI impI)
      fix x assume "x \<in> set (files t @ dirs t)" "hnd x \<noteq> 0"
      then have x: "hnd_sftp x < length (sftps s)" "sftp_at s (hnd_sftp x) \<noteq> 0"
          "File (hnd x) (sftp_at s (hnd_sftp x)) \<in> live (calls s)"
        using ok(2) unfolding objs_ok_def t_def by auto
      note p = parent[of "sftps s ! hnd_sftp x"]
      have "Sftp (sftp_at s (hnd_sftp x)) ?p \<notin> live (calls s)"
        using p x live_unique[OF f, of "Sftp (sftp_at s (hnd_sftp x)) ?p"
            "Sftp (sftp_at s (hnd_sftp x)) (session (sessions s ! sftp_session (sftps s ! hnd_sftp x)))"]
        by (auto simp: sftp_at_def)
      with x show "hnd_sftp x < length (sftps t)
          \<and> sftp_at t (hnd_sftp x) \<noteq> 0 \<and> File (hnd x) (sftp_at t (hnd_sftp x)) \<in> live (calls t)"
        unfolding live by (auto simp: t_def sftp_at_def)
    qed
    moreover have "apart (map session (sessions t))" unfolding upd using ap by (rule apart_zero)
    moreover have "well_used (calls t)" using ok session_live[OF ok(2) assms(2) False] by (simp add: t_def)
    moreover have "\<forall>x\<in>set (sessions t). session x \<noteq> 0 \<longrightarrow> Session (session x) \<in> live (calls t)"
    proof (intro ballI impI)
      fix x assume "x \<in> set (sessions t)" "session x \<noteq> 0"
      from sess[OF this] this(2) ok(2) show "Session (session x) \<in> live (calls t)"
        unfolding live by (simp add: objs_ok_def)
    qed
    moreover have "\<forall>x\<in>set (sftps t). sftp x \<noteq> 0 \<longrightarrow> sftp_session x < length (sessions t)
        \<and> session (sessions t ! sftp_session x) \<noteq> 0
        \<and> Sftp (sftp x) (session (sessions t ! sftp_session x)) \<in> live (calls t)"
    proof (intro ballI impI)
      fix x assume "x \<in> set (sftps t)" "sftp x \<noteq> 0"
      then have "x \<in> set (sftps s)" by (simp add: t_def)
      from parent[OF this \<open>sftp x \<noteq> 0\<close>] show "sftp_session x < length (sessions t)
        \<and> session (sessions t ! sftp_session x) \<noteq> 0
        \<and> Sftp (sftp x) (session (sessions t ! sftp_session x)) \<in> live (calls t)"
        unfolding live by simp
    qed
    moreover have "\<forall>p q. Channel p q \<notin> live (calls t)"
      using ok(2) unfolding live by (simp add: objs_ok_def)
    moreover have "sftps t = sftps s" "files t = files s" "dirs t = dirs s" by (simp_all add: t_def)
    ultimately show "well_used (calls t) \<and> objs_ok t"
      using ok(2) by (simp add: objs_ok_def)
  qed
  with False r r\<^sub>1 show ?thesis by (simp add: ssh_session_close_def Let_def t_def)
qed (use assms in \<open>simp add: ssh_session_close_def\<close>)

section \<open>Properties\<close>

lemma perform_inv:
  assumes "ssh_inv s" "has_object c s" "children_closed c s" "perform l c s = Some s'"
  shows "ssh_inv s'"
proof (cases c)
  case Close_session
  with assms show ?thesis by (auto intro: inv_close_session)
next
  case Close_sftp
  with assms show ?thesis by (auto intro: inv_close_sftp)
qed (use assms in \<open>auto intro: inv_make_new inv_password inv_publickey
    inv_start_sftp inv_open_file inv_open_dir inv_mkdir inv_rmdir inv_unlink inv_rename inv_stat inv_realpath
    inv_file_write inv_close_file inv_dir_read inv_close_dir
    dest: inv_exec inv_scp_recv inv_scp_send inv_file_read\<close>)

lemma start_inv: "ssh_inv (start w)"
  by (simp add: ssh_inv_def objs_ok_def start_def apart_def)

lemma tidy_inv: "tidy_reach l w s \<Longrightarrow> ssh_inv s"
  by (induction rule: tidy_reach.induct) (auto intro: start_inv perform_inv)

text \<open>A program as a list of operations, for concrete runs; \<open>None\<close> when it breaks the discipline.\<close>

fun tidy_run :: "'w ssh2 \<Rightarrow> op list \<Rightarrow> 'w ssh \<Rightarrow> 'w ssh option" where
  "tidy_run l [] s = Some s"
| "tidy_run l (c # cs) s =
     (if has_object c s \<and> children_closed c s
      then case perform l c s of None \<Rightarrow> None | Some s' \<Rightarrow> tidy_run l cs s' else None)"

lemma tidy_run_reach: "tidy_reach l w s \<Longrightarrow> tidy_run l cs s = Some t \<Longrightarrow> tidy_reach l w t"
  by (induction cs arbitrary: s) (auto split: if_splits option.splits intro: tidy_step)

text \<open>
  C3. A program that closes SFTP objects before their session and files and directories before their
  SFTP object never misuses a libssh2 handle: every call the module makes gets a handle that is live
  at that moment, so nothing is used after it was freed and nothing is freed twice, on every error
  path of the model and whatever the library answers; no channel outlives the operation that opened it;
  and every handle an object still holds is live. (The path that is not in the model is a \<open>MemoryError\<close> raised by
  MicroPython while the result of a transfer grows, on which a channel does stay open.) The hypothesis is that the library does not hand out the
  address of a live object.
\<close>

theorem ssh_handles_safe:
  assumes "tidy_reach l w s" "fresh (calls s)"
  shows "well_used (calls s) \<and> objs_ok s"
  using tidy_inv[OF assms(1)] assms(2) by (simp add: ssh_inv_def)

text \<open>A library over a counter: every call that creates a handle answers with a new address.\<close>

definition no_attrs :: attributes where
  "no_attrs = \<lparr>a_flags = 0, a_permissions = 0, a_filesize = 0, a_atime = 0, a_mtime = 0, a_uid = 0, a_gid = 0\<rparr>"

definition counting_answer :: "call \<Rightarrow> int \<Rightarrow> reply \<times> int" where
  "counting_answer c w =
     (\<lparr>r_val = (if created c 1 = None then 0 else w), r_data = [], r_attrs = no_attrs\<rparr>, w + 1)"

definition counting_lib :: "int ssh2" where
  "counting_lib = \<lparr>answer = counting_answer, ERROR_EAGAIN = -37, ERROR_SOCKET_RECV = -43, ERROR_SOCKET_DISCONNECT = -13,
     FXF_READ = 1, FXF_WRITE = 2, FXF_CREAT = 8, FXF_TRUNC = 16, ATTR_SIZE = 1, ATTR_UIDGID = 2,
     ATTR_PERMISSIONS = 4, ATTR_ACMODTIME = 8, engine_of = (\<lambda>n. libssh2_axtls)\<rparr>"

definition demo_run :: "int ssh option" where
  "demo_run = tidy_run counting_lib
     [New_session 7 True, Start_sftp 0, Open_file 0 [0x66] None, Write_file 0 [1, 2], Close_file 0,
      Close_sftp 0, Close_session 0] (start 1)"

theorem ssh_handles_safe_witness:
  "\<exists>s. demo_run = Some s \<and> fresh (calls s) \<and> well_used (calls s) \<and> objs_ok s \<and> length (calls s) = 20"
proof -
  have "demo_run \<noteq> None \<and> fresh (calls (the demo_run)) \<and> length (calls (the demo_run)) = 20"
    by (simp add: demo_run_def start_def ssh_session_make_new_def ssh_lazy_init_def method_pref2_def run_def invoke_def
        counting_lib_def counting_answer_def Let_def ssh_session_sftp_def ssh_sftp_open_def ssh_sftp_file_write_def
        sftp_write_loop.simps ssh_sftp_file_close_def ssh_sftp_close_def ssh_session_close_def)
  then obtain s where s: "demo_run = Some s" "fresh (calls s)" "length (calls s) = 20" by (metis option.exhaust_sel)
  from s(1) have "tidy_reach counting_lib 1 s"
    unfolding demo_run_def by (rule tidy_run_reach[OF tidy_start])
  from ssh_handles_safe[OF this s(2)] s show ?thesis by blast
qed

text \<open>
  C40. The discipline is needed: closing a session while an SFTP object of it is open leaves the object
  with a dangling handle that the module does not notice. The next operation on the object, here
  \<open>unlink\<close>, passes the freed handle to libssh2, whatever the library answers.
\<close>

theorem sftp_dangles_after_close:
  assumes "tidy_reach l w s" "fresh (calls s)" "j < length (sftps s)" "sftp (sftps s ! j) \<noteq> 0"
  shows "\<not> well_used (calls (snd (ssh_sftp_unlink l j path (snd (ssh_session_close l (sftp_session (sftps s ! j)) s)))))"
proof -
  let ?i = "sftp_session (sftps s ! j)" and ?f = "sftp (sftps s ! j)"
  let ?p = "session (sessions s ! ?i)"
  define t where "t = snd (ssh_session_close l ?i s)"
  have ok: "objs_ok s" using tidy_inv[OF assms(1)] assms(2) by (simp add: ssh_inv_def)
  note live = sftp_live[OF ok assms(3,4)]
  have p: "?p \<noteq> 0" using live(3) by (simp add: sess_of_def)
  obtain a b where "calls t = (Session_free ?p, a) # (Session_disconnect ?p ''bye'', b) # calls s" and st: "sftps t = sftps s"
    using p by (auto simp: t_def ssh_session_close_def Let_def run_def invoke_def split_beta)
  then have "live (calls t) = {h \<in> live (calls s). \<not> in_session (live (calls s)) ?p h}"
    by (simp add: Let_def)
  moreover have "h = Sftp ?f ?p" if "h \<in> live (calls s)" "is_sftp ?f h" for h
    using that live(1) live_unique[OF assms(2), of h "Sftp ?f ?p"] by (cases h) (auto simp: sess_of_def)
  ultimately have dead: "\<not> (\<exists>h\<in>live (calls t). is_sftp ?f h)" by force
  obtain r u where u: "invoke l (Sftp_unlink ?f (cstr path)) t = (r, u)" by fastforce
  then have "\<not> well_used (calls u)" using dead by (elim invokeE) simp
  moreover have "snd (ssh_sftp_unlink l j path t) = (if r_val r \<noteq> 0 then run l (Last_error (sess_of u j)) u else u)"
    using assms(4) st u by (simp add: ssh_sftp_unlink_def Let_def snd_raise)
  moreover obtain w' q where "run l (Last_error (sess_of u j)) u = u\<lparr>world := w', calls := (Last_error (sess_of u j), q) # calls u\<rparr>"
    by (rule runE)
  ultimately show ?thesis by (auto simp: t_def)
qed

definition demo_open :: "int ssh option" where
  "demo_open = tidy_run counting_lib [New_session 7 True, Start_sftp 0] (start 1)"

theorem sftp_dangles_after_close_witness:
  "\<exists>s. demo_open = Some s \<and> \<not> well_used (calls (snd (ssh_sftp_unlink counting_lib 0 [0x66] (snd (ssh_session_close counting_lib 0 s)))))"
proof -
  have "demo_open \<noteq> None \<and> fresh (calls (the demo_open)) \<and> sftps (the demo_open) = [\<lparr>sftp = 14, sftp_session = 0\<rparr>]"
    by (simp add: demo_open_def start_def ssh_session_make_new_def ssh_lazy_init_def method_pref2_def run_def invoke_def
        counting_lib_def counting_answer_def Let_def ssh_session_sftp_def)
  then obtain s where s: "demo_open = Some s" "fresh (calls s)" "sftps s = [\<lparr>sftp = 14, sftp_session = 0\<rparr>]"
    by (metis option.exhaust_sel)
  from s(1) have "tidy_reach counting_lib 1 s"
    unfolding demo_open_def by (rule tidy_run_reach[OF tidy_start])
  from sftp_dangles_after_close[OF this s(2), of 0 "[0x66]"] s show ?thesis by auto
qed

end
