(* ===== verification/Ssh_Transfer.thy ===== *)
theory Ssh_Transfer
  imports Ssh_Session
begin

text \<open>
  What the transfer loops of the ssh module deliver: \<open>exec\<close> returns the whole output of the command,
  an SFTP read returns exactly the bytes asked for, \<open>scp_send\<close> sends all of the data and the
  terminator, and how \<open>scp_recv\<close> ends when the peer falls silent. What libssh2 does with the bytes is
  described by functions of its world: \<open>R\<close> is what a handle has still to deliver, \<open>W\<close> what it has accepted.
\<close>

section \<open>Contracts of the library\<close>

text \<open>
  A channel that delivers \<open>R\<close> and then closes (\<open>C\<close>): a read returns a prefix of the rest; it returns
  \<open>0\<close> when nothing is there, which happens only finitely often (\<open>m\<close>) before the peer closes.
\<close>

definition channel_delivers ::
  "'w ssh2 \<Rightarrow> int \<Rightarrow> ('w \<Rightarrow> bool) \<Rightarrow> ('w \<Rightarrow> bytes) \<Rightarrow> ('w \<Rightarrow> bool) \<Rightarrow> ('w \<Rightarrow> nat) \<Rightarrow> bool" where
  "channel_delivers l ch I R C m \<longleftrightarrow>
     (\<forall>w. I w \<longrightarrow> (case answer l (Channel_read ch 256) w of (r, w') \<Rightarrow>
        I w' \<and> r_val r = int (length (chunk r)) \<and> R w = chunk r @ R w' \<and> (r_val r = 0 \<longrightarrow> C w' \<or> m w' < m w)))
   \<and> (\<forall>w. I w \<longrightarrow> (case answer l (Channel_eof ch) w of (e, w') \<Rightarrow>
        I w' \<and> R w' = R w \<and> m w' \<le> m w \<and> C w' = C w \<and> (r_val e \<noteq> 0 \<longleftrightarrow> C w)))
   \<and> (\<forall>w. I w \<and> C w \<longrightarrow> R w = [])"

text \<open>A file handle that delivers \<open>R\<close>: a read for a positive count returns \<open>0\<close> only at the end.\<close>

definition file_delivers :: "'w ssh2 \<Rightarrow> int \<Rightarrow> ('w \<Rightarrow> bool) \<Rightarrow> ('w \<Rightarrow> bytes) \<Rightarrow> bool" where
  "file_delivers l h I R \<longleftrightarrow>
     (\<forall>w n. I w \<longrightarrow> (case answer l (Sftp_read h n) w of (r, w') \<Rightarrow>
        I w' \<and> r_val r = int (length (chunk r)) \<and> length (chunk r) \<le> n \<and> R w = chunk r @ R w'
        \<and> (0 < n \<and> chunk r = [] \<longrightarrow> R w = [])))"

text \<open>
  A channel that accepts data: a write takes a non-empty prefix, or answers \<open>EAGAIN\<close> and takes nothing,
  which happens only finitely often (\<open>m\<close>) in a row.
\<close>

definition channel_accepts :: "'w ssh2 \<Rightarrow> int \<Rightarrow> ('w \<Rightarrow> bool) \<Rightarrow> ('w \<Rightarrow> bytes) \<Rightarrow> ('w \<Rightarrow> nat) \<Rightarrow> bool" where
  "channel_accepts l ch I W m \<longleftrightarrow> ERROR_EAGAIN l < 0 \<and>
     (\<forall>w buf. I w \<and> buf \<noteq> [] \<longrightarrow> (case answer l (Channel_write ch buf) w of (r, w') \<Rightarrow>
        I w' \<and> (r_val r = ERROR_EAGAIN l \<and> W w' = W w \<and> m w' < m w
          \<or> 0 < r_val r \<and> r_val r \<le> int (length buf) \<and> W w' = W w @ take (nat (r_val r)) buf)))"

section \<open>Loops\<close>

lemma world_invoke: "invoke l c s = (r, t) \<longleftrightarrow> answer l c (world s) = (r, world t) \<and> t = s\<lparr>world := world t, calls := (c, r) # calls s\<rparr>"
  by (auto simp: invoke_def Let_def split: prod.splits)

lemma invoke_objects:
  "invoke l c s = (r, t) \<Longrightarrow> sessions t = sessions s \<and> sftps t = sftps s \<and> files t = files s \<and> dirs t = dirs s"
  by (auto simp: invoke_def Let_def split: prod.splits)

lemma invoke_calls: "invoke l c s = (r, t) \<Longrightarrow> calls t = (c, r) # calls s"
  by (auto simp: invoke_def Let_def split: prod.splits)

lemma channel_deliversD:
  assumes "channel_delivers l ch I R C m" "I (world s)"
  shows "invoke l (Channel_read ch 256) s = (r, t) \<Longrightarrow>
      I (world t) \<and> r_val r = int (length (chunk r)) \<and> R (world s) = chunk r @ R (world t)
      \<and> (r_val r = 0 \<longrightarrow> C (world t) \<or> m (world t) < m (world s))"
    and "invoke l (Channel_eof ch) s = (e, t) \<Longrightarrow>
      I (world t) \<and> R (world t) = R (world s) \<and> m (world t) \<le> m (world s) \<and> C (world t) = C (world s)
      \<and> (r_val e \<noteq> 0 \<longleftrightarrow> C (world s))"
    and "C (world s) \<Longrightarrow> R (world s) = []"
  using assms unfolding channel_delivers_def world_invoke by fastforce+

lemma exec_loop_delivers:
  assumes "channel_delivers l ch I R C m"
  shows "I (world s) \<Longrightarrow> \<exists>t. exec_loop l ch v s = Some (Inr (v @ R (world s)), t) \<and> I (world t) \<and> C (world t)
     \<and> sessions t = sessions s"
proof (induction "(length (R (world s)), m (world s))" arbitrary: s v
    rule: wf_induct_rule[OF wf_lex_prod[OF wf_less_than wf_less_than]])
  case 1
  obtain r t where t: "invoke l (Channel_read ch 256) s = (r, t)" by fastforce
  note read = channel_deliversD(1)[OF assms 1(2) t]
  show ?case
  proof (cases "r_val r = 0")
    case True
    obtain e u where u: "invoke l (Channel_eof ch) t = (e, u)" by fastforce
    note eof = channel_deliversD(2)[OF assms conjunct1[OF read] u]
    from True read have R: "R (world t) = R (world s)" by simp
    show ?thesis
    proof (cases "C (world t)")
      case C: True
      with channel_deliversD(3)[OF assms conjunct1[OF read]] R have "R (world s) = []" by simp
      with C True t u eof show ?thesis
        by (subst exec_loop.simps) (auto dest!: invoke_objects)
    next
      case False
      with read True R eof have "((length (R (world u)), m (world u)), length (R (world s)), m (world s)) \<in> less_than <*lex*> less_than"
        by auto
      from 1(1)[OF this, of v] eof R t u True False show ?thesis
        by (subst exec_loop.simps) (auto dest!: invoke_objects)
    qed
  next
    case False
    with read have "((length (R (world t)), m (world t)), length (R (world s)), m (world s)) \<in> less_than <*lex*> less_than"
      by auto
    from 1(1)[OF this, of "v @ chunk r"] read t False show ?thesis
      by (subst exec_loop.simps) (auto dest!: invoke_objects)
  qed
qed

lemma file_deliversD:
  "file_delivers l h I R \<Longrightarrow> I (world s) \<Longrightarrow> invoke l (Sftp_read h n) s = (r, t) \<Longrightarrow>
   I (world t) \<and> r_val r = int (length (chunk r)) \<and> length (chunk r) \<le> n \<and> R (world s) = chunk r @ R (world t)
   \<and> (0 < n \<and> chunk r = [] \<longrightarrow> R (world s) = [])"
  unfolding file_delivers_def world_invoke by (drule spec[of _ "world s"], drule spec[of _ n]) auto

text \<open>A negative size is a read to the end of the file.\<close>

definition wanted :: "int \<Rightarrow> bytes \<Rightarrow> bytes" where
  "wanted n v = (if n < 0 then v else take (nat n) v)"

lemma sftp_read_loop_delivers:
  assumes "file_delivers l h I R"
  shows "I (world s) \<Longrightarrow> \<exists>t. sftp_read_loop l h n v s = Some (Inr (v @ wanted n (R (world s))), t)
     \<and> I (world t) \<and> R (world s) = wanted n (R (world s)) @ R (world t)"
proof (induction "length (R (world s))" arbitrary: s v n rule: less_induct)
  case less
  define want where "want = (if n < 0 \<or> 1024 \<le> n then 1024 else nat n)"
  obtain r t where t: "invoke l (Sftp_read h want) s = (r, t)" by fastforce
  note read = file_deliversD[OF assms less(2) t]
  have step: "sftp_read_loop l h n v s =
      (if r_val r > 0
       then if n > 0 then if n - r_val r = 0 then Some (Inr (v @ chunk r), t)
                          else sftp_read_loop l h (n - r_val r) (v @ chunk r) t
            else sftp_read_loop l h n (v @ chunk r) t
       else if r_val r = 0 then Some (Inr v, t) else Some (Inl (r_val r), t))"
    by (subst sftp_read_loop.simps) (simp only: want_def[symmetric] t prod.case)
  show ?case
  proof (cases "chunk r = []")
    case True
    with read have "R (world s) = [] \<or> n = 0" by (auto simp: want_def split: if_splits)
    with True read show ?thesis
      unfolding step by (auto simp: wanted_def)
  next
    case False
    with read have dec: "length (R (world t)) < length (R (world s))" by simp
    have le: "n < 0 \<or> int (length (chunk r)) \<le> n"
      using read by (auto simp: want_def split: if_splits)
    have pos: "n \<noteq> 0" using False le by auto
    have w: "chunk r @ wanted (if n > 0 then n - r_val r else n) (R (world t)) = wanted n (R (world s))"
      using read le pos by (auto simp: wanted_def nat_diff_distrib)
    show ?thesis
    proof (cases "n > 0 \<and> n - r_val r = 0")
      case True
      with w read have "wanted n (R (world s)) = chunk r" by (simp add: wanted_def)
      with True False read show ?thesis
        unfolding step by auto
    next
      case go: False
      obtain u where u: "sftp_read_loop l h (if n > 0 then n - r_val r else n) (v @ chunk r) t
          = Some (Inr ((v @ chunk r) @ wanted (if n > 0 then n - r_val r else n) (R (world t))), u)"
          "I (world u)" "R (world t) = wanted (if n > 0 then n - r_val r else n) (R (world t)) @ R (world u)"
        using less(1)[OF dec] read by blast
      have "sftp_read_loop l h n v s = sftp_read_loop l h (if n > 0 then n - r_val r else n) (v @ chunk r) t"
        unfolding step using go False read by auto
      moreover have "R (world s) = wanted n (R (world s)) @ R (world u)"
        using u(3) w read by (metis append.assoc)
      ultimately show ?thesis
        using u(1,2) w by (metis append.assoc)
    qed
  qed
qed

lemma channel_acceptsD:
  "channel_accepts l ch I W m \<Longrightarrow> I (world s) \<Longrightarrow> buf \<noteq> [] \<Longrightarrow> invoke l (Channel_write ch buf) s = (r, t) \<Longrightarrow>
   I (world t) \<and> (r_val r = ERROR_EAGAIN l \<and> W (world t) = W (world s) \<and> m (world t) < m (world s)
     \<or> 0 < r_val r \<and> r_val r \<le> int (length buf) \<and> W (world t) = W (world s) @ take (nat (r_val r)) buf)"
  unfolding channel_accepts_def world_invoke by (drule conjunct2, drule spec[of _ "world s"], drule spec[of _ buf]) auto

lemma accepts_eagain: "channel_accepts l ch I W m \<Longrightarrow> ERROR_EAGAIN l < 0"
  by (simp add: channel_accepts_def)

lemma scp_write_loop_accepts:
  assumes "channel_accepts l ch I W m"
  shows "I (world s) \<Longrightarrow> \<exists>t. scp_write_loop l ch buf s = Some (Inr (), t) \<and> I (world t) \<and> W (world t) = W (world s) @ buf"
proof (induction "(length buf, m (world s))" arbitrary: s buf
    rule: wf_induct_rule[OF wf_lex_prod[OF wf_less_than wf_less_than]])
  case 1
  show ?case
  proof (cases "buf = []")
    case False
    obtain r t where t: "invoke l (Channel_write ch buf) s = (r, t)" by fastforce
    note acc = channel_acceptsD[OF assms 1(2) False t] accepts_eagain[OF assms]
    show ?thesis
    proof (cases "r_val r = ERROR_EAGAIN l")
      case True
      with acc have "((length buf, m (world t)), length buf, m (world s)) \<in> less_than <*lex*> less_than" by auto
      from 1(1)[OF this] acc t True False show ?thesis
        by (subst scp_write_loop.simps) auto
    next
      case go: False
      with acc have "((length (drop (nat (r_val r)) buf), m (world t)), length buf, m (world s)) \<in> less_than <*lex*> less_than"
        by auto
      from 1(1)[OF this] acc t go False show ?thesis
        by (subst scp_write_loop.simps) (auto simp flip: append.assoc)
    qed
  next
    case True
    with 1(2) show ?thesis by (subst scp_write_loop.simps) simp
  qed
qed

lemma scp_nul_loop_accepts:
  assumes "channel_accepts l ch I W m"
  shows "I (world s) \<Longrightarrow> \<exists>t. scp_nul_loop l ch s = Some t \<and> I (world t) \<and> W (world t) = W (world s) @ [0]"
proof (induction "m (world s)" arbitrary: s rule: less_induct)
  case less
  obtain r t where t: "invoke l (Channel_write ch [0]) s = (r, t)" by fastforce
  note acc = channel_acceptsD[OF assms less(2) _ t, simplified] accepts_eagain[OF assms]
  show ?case
  proof (cases "r_val r = ERROR_EAGAIN l")
    case True
    with acc less(1)[of t] t show ?thesis
      by (subst scp_nul_loop.simps) auto
  next
    case False
    with acc t show ?thesis by (subst scp_nul_loop.simps) auto
  qed
qed

text \<open>A peer that falls silent: every further read answers \<open>EAGAIN\<close>.\<close>

definition silent :: "'w ssh2 \<Rightarrow> int \<Rightarrow> ('w \<Rightarrow> bool) \<Rightarrow> bool" where
  "silent l ch I \<longleftrightarrow> ERROR_EAGAIN l < 0 \<and>
     (\<forall>w. I w \<longrightarrow> (case answer l (Channel_read ch 256) w of (r, w') \<Rightarrow> I w' \<and> r_val r = ERROR_EAGAIN l))"

lemma silentD:
  "silent l ch I \<Longrightarrow> I (world s) \<Longrightarrow> invoke l (Channel_read ch 256) s = (r, t) \<Longrightarrow>
   I (world t) \<and> r_val r = ERROR_EAGAIN l \<and> ERROR_EAGAIN l < 0 \<and> length (calls t) = Suc (length (calls s))"
  using invoke_calls[of l "Channel_read ch 256" s r t] unfolding silent_def by (fastforce simp: world_invoke)

lemma scp_recv_loop_silent:
  assumes "silent l ch I" "v \<noteq> []"
  shows "I (world s) \<Longrightarrow> k \<le> 20 \<Longrightarrow> \<exists>t. scp_recv_loop l ch v k s = Some (Inr v, t) \<and> length (calls t) = length (calls s) + (21 - k)"
proof (induction "20 - k" arbitrary: k s)
  case 0
  obtain r t where t: "invoke l (Channel_read ch 256) s = (r, t)" by fastforce
  from silentD[OF assms(1) 0(2) t] 0 assms(2) t show ?case
    by (subst scp_recv_loop.simps) auto
next
  case (Suc n)
  obtain r t where t: "invoke l (Channel_read ch 256) s = (r, t)" by fastforce
  note read = silentD[OF assms(1) Suc(3) t]
  have "scp_recv_loop l ch v k s = scp_recv_loop l ch v (k + 1) t"
    using read t Suc(2) assms(2) by (subst scp_recv_loop.simps) auto
  moreover have "n = 20 - (k + 1)" "k + 1 \<le> 20" using Suc(2) by auto
  ultimately show ?case
    using Suc(1)[of "k + 1" t] read Suc(2) by auto
qed

lemma scp_recv_loop_stuck:
  assumes "silent l ch I" "I (world s)"
  shows "scp_recv_loop l ch [] k s = None"
proof -
  have "v \<noteq> [] \<or> \<not> I (world s) \<or> \<not> silent l ch I" if "scp_recv_loop l ch v k s = Some y" for v k s y
    using that
  proof (induction rule: scp_recv_loop.raw_induct[rotated 1, consumes 1])
    case (1 f l ch v k s y)
    obtain r t where t: "invoke l (Channel_read ch 256) s = (r, t)" by fastforce
    from silentD[OF _ _ t, of I] 1(1)[of l ch "[]" k t y] 1(2) t show ?case
      by (cases "v = []") (auto split: if_splits)
  qed
  with assms show ?thesis by (cases "scp_recv_loop l ch [] k s") blast+
qed

section \<open>Properties\<close>

text \<open>
  C19. \<open>Session.exec\<close> returns, and returns the whole output of the command: when the channel opens, the
  command starts and the channel delivers its output and closes, the result is that output, however it
  is cut into reads and however often a read finds nothing; the channel is closed and freed after the
  last read.
\<close>

theorem exec_returns_output:
  assumes "session (sessions s ! i) \<noteq> 0" "invoke l (Channel_open (session (sessions s ! i))) s = (r, a)"
    and "r_val r \<noteq> 0" "invoke l (Channel_exec (r_val r) (cstr cmd)) a = (e, b)" "r_val e = 0"
    and "channel_delivers l (r_val r) I R C m" "I (world b)"
  shows "\<exists>t. ssh_session_exec l i cmd s
      = Some (Inr (R (world b)), run l (Channel_free (r_val r)) (run l (Channel_close (r_val r)) t)) \<and> C (world t)"
proof -
  obtain t where "exec_loop l (r_val r) [] b = Some (Inr (R (world b)), t)" "C (world t)"
    using exec_loop_delivers[OF assms(6,7), of "[]"] by auto
  with assms(1-5) show ?thesis by (auto simp: ssh_session_exec_def Let_def)
qed

text \<open>
  C21. An SFTP read is exact: on a handle that delivers the rest \<open>R\<close> of its file, \<open>read(n)\<close> returns the
  next \<open>n\<close> bytes, or all there are, and \<open>read()\<close> the whole rest; it returns, and the bytes after them
  are left for the next read.
\<close>

theorem sftp_read_exact:
  assumes "hnd (files s ! k) \<noteq> 0" "file_delivers l (hnd (files s ! k)) I R" "I (world s)"
  shows "\<exists>t. ssh_sftp_file_read l k sz s = Some (Inr (wanted (case sz of None \<Rightarrow> -1 | Some n \<Rightarrow> n) (R (world s))), t)
     \<and> R (world s) = wanted (case sz of None \<Rightarrow> -1 | Some n \<Rightarrow> n) (R (world s)) @ R (world t)"
  using sftp_read_loop_delivers[OF assms(2,3), of "case sz of None \<Rightarrow> -1 | Some n \<Rightarrow> n" "[]"] assms(1)
  by (auto simp: ssh_sftp_file_read_def Let_def)

text \<open>
  C20. \<open>scp_send\<close> returns and sends everything: on a channel that accepts data, possibly in pieces and
  after any finite number of \<open>EAGAIN\<close> answers, the channel has accepted exactly the data followed by
  the terminating NUL, and the result is the length of the data.
\<close>

theorem scp_send_complete:
  assumes "session (sessions s ! i) \<noteq> 0"
    and "invoke l (Scp_send (session (sessions s ! i)) (cstr path) mode (length data)) s = (r, a)" "r_val r \<noteq> 0"
    and "channel_accepts l (r_val r) I W m" "I (world a)"
  shows "\<exists>t. W (world t) = W (world a) @ data @ [0] \<and>
     ssh_session_scp_send l i path mode data s = Some (Inr (length data),
       run l (Channel_free (r_val r)) (run l (Channel_close (r_val r)) (run l (Channel_send_eof (r_val r)) t)))"
proof -
  obtain t where t: "scp_write_loop l (r_val r) data a = Some (Inr (), t)" "I (world t)" "W (world t) = W (world a) @ data"
    using scp_write_loop_accepts[OF assms(4,5)] by blast
  obtain u where "scp_nul_loop l (r_val r) t = Some u" "W (world u) = W (world t) @ [0]"
    using scp_nul_loop_accepts[OF assms(4) t(2)] by blast
  with t assms(1-3) show ?thesis by (auto simp: ssh_session_scp_send_def Let_def)
qed

text \<open>
  \<open>scp_recv\<close> does not hang on a peer that sent data and then fell silent without closing: after 21
  further reads that answer \<open>EAGAIN\<close> it returns what has arrived, less the terminating NUL, and the
  channel is closed and freed.
\<close>

theorem scp_recv_gives_up:
  assumes "session (sessions s ! i) \<noteq> 0" "invoke l (Scp_recv (session (sessions s ! i)) (cstr path)) s = (r, a)" "r_val r \<noteq> 0"
    and "invoke l (Channel_read (r_val r) 256) a = (q, b)" "r_val q > 0" "chunk q \<noteq> []"
    and "invoke l (Channel_eof (r_val r)) b = (e, c)" "r_val e = 0"
    and "silent l (r_val r) I" "I (world c)"
  shows "\<exists>t. ssh_session_scp_recv l i path s
      = Some (Inr (strip_nul (chunk q)), run l (Channel_free (r_val r)) (run l (Channel_close (r_val r)) t))
    \<and> length (calls t) = length (calls c) + 21"
proof -
  obtain t where "scp_recv_loop l (r_val r) (chunk q) 0 c = Some (Inr (chunk q), t)" "length (calls t) = length (calls c) + 21"
    using scp_recv_loop_silent[OF assms(9,6,10), of 0] by auto
  moreover have "scp_recv_loop l (r_val r) [] 0 a = scp_recv_loop l (r_val r) (chunk q) 0 c"
    using assms(4,5,7,8) by (subst scp_recv_loop.simps) simp
  ultimately show ?thesis
    using assms(1-3) by (auto simp: ssh_session_scp_recv_def Let_def)
qed

text \<open>
  The cap on empty polls counts only after the first byte: a peer that opens the channel and never
  sends anything keeps \<open>scp_recv\<close> in its loop for ever.
\<close>

theorem scp_recv_hangs_without_data:
  assumes "session (sessions s ! i) \<noteq> 0" "invoke l (Scp_recv (session (sessions s ! i)) (cstr path)) s = (r, a)" "r_val r \<noteq> 0"
    and "silent l (r_val r) I" "I (world a)"
  shows "ssh_session_scp_recv l i path s = None"
  using assms scp_recv_loop_stuck[OF assms(4,5)] by (simp add: ssh_session_scp_recv_def Let_def)

subsection \<open>Witnesses\<close>

text \<open>
  A library whose world is what the peer will send, cut into pieces, an empty piece being a poll that
  finds nothing, together with what the channel has accepted and how often it will answer \<open>EAGAIN\<close>.
\<close>

record wire =
  incoming :: "bytes list"
  accepted :: bytes
  busy :: nat

definition no_reply :: "int \<Rightarrow> reply" where
  "no_reply n = \<lparr>r_val = n, r_data = [],
     r_attrs = \<lparr>a_flags = 0, a_permissions = 0, a_filesize = 0, a_atime = 0, a_mtime = 0, a_uid = 0, a_gid = 0\<rparr>\<rparr>"

definition wire_answer :: "call \<Rightarrow> wire \<Rightarrow> reply \<times> wire" where
  "wire_answer c w =
     (case c of
        Channel_open s \<Rightarrow> (no_reply 5, w)
      | Scp_recv s p \<Rightarrow> (no_reply 6, w)
      | Scp_send s p k n \<Rightarrow> (no_reply 5, w)
      | Channel_read ch n \<Rightarrow>
          (case incoming w of
             [] \<Rightarrow> (no_reply (if ch = 6 then -37 else 0), w)
           | d # ds \<Rightarrow> ((no_reply (int (length d)))\<lparr>r_data := d\<rparr>, w\<lparr>incoming := ds\<rparr>))
      | Channel_eof ch \<Rightarrow> (no_reply (if incoming w = [] \<and> ch = 5 then 1 else 0), w)
      | Channel_write ch d \<Rightarrow>
          (if busy w > 0 then (no_reply (-37), w\<lparr>busy := busy w - 1\<rparr>)
           else (no_reply (int (length (take 2 d))), w\<lparr>accepted := accepted w @ take 2 d\<rparr>))
      | Sftp_read h n \<Rightarrow>
          (let d = take (min n 3) (concat (incoming w))
           in ((no_reply (int (length d)))\<lparr>r_data := d\<rparr>, w\<lparr>incoming := [drop (length d) (concat (incoming w))]\<rparr>))
      | _ \<Rightarrow> (no_reply 0, w))"

definition wire_ssh2 :: "wire ssh2" where
  "wire_ssh2 = \<lparr>answer = wire_answer, ERROR_EAGAIN = -37, ERROR_SOCKET_RECV = -43, ERROR_SOCKET_DISCONNECT = -13,
     FXF_READ = 1, FXF_WRITE = 2, FXF_CREAT = 8, FXF_TRUNC = 16, ATTR_SIZE = 1, ATTR_UIDGID = 2,
     ATTR_PERMISSIONS = 4, ATTR_ACMODTIME = 8, engine_of = (\<lambda>n. libssh2_axtls)\<rparr>"

definition wire_state :: "bytes list \<Rightarrow> wire ssh" where
  "wire_state ds = \<lparr>world = \<lparr>incoming = ds, accepted = [], busy = 2\<rparr>, calls = [], initialized = True,
     sessions = [\<lparr>session = 4, sock = 0, authenticated = True\<rparr>], sftps = [\<lparr>sftp = 8, sftp_session = 0\<rparr>],
     files = [\<lparr>hnd = 9, hnd_sftp = 0\<rparr>], dirs = []\<rparr>"

lemmas wire_defs = wire_ssh2_def wire_answer_def wire_state_def no_reply_def

lemma wire_delivers:
  "channel_delivers wire_ssh2 5 (\<lambda>w. True) (concat \<circ> incoming) (\<lambda>w. incoming w = []) (length \<circ> incoming)"
  by (auto simp: channel_delivers_def wire_defs chunk_def split: list.split prod.split)

lemma wire_file_delivers: "file_delivers wire_ssh2 9 (\<lambda>w. True) (concat \<circ> incoming)"
  by (auto simp: file_delivers_def wire_defs chunk_def Let_def min_def split: prod.split if_splits)

lemma wire_accepts: "channel_accepts wire_ssh2 5 (\<lambda>w. True) accepted busy"
  by (auto simp: channel_accepts_def wire_defs min_def split: prod.split)

lemma wire_silent: "silent wire_ssh2 6 (\<lambda>w. incoming w = [])"
  by (auto simp: silent_def wire_defs split: prod.split)

theorem exec_returns_output_witness:
  "\<exists>t. ssh_session_exec wire_ssh2 0 [0x6C, 0x73] (wire_state [[1, 2], [], [3]])
     = Some (Inr [1, 2, 3], run wire_ssh2 (Channel_free 5) (run wire_ssh2 (Channel_close 5) t)) \<and> incoming (world t) = []"
proof -
  let ?s = "wire_state [[1, 2], [], [3]]"
  let ?a = "?s\<lparr>calls := [(Channel_open 4, no_reply 5)]\<rparr>"
  let ?b = "?s\<lparr>calls := [(Channel_exec 5 [0x6C, 0x73], no_reply 0), (Channel_open 4, no_reply 5)]\<rparr>"
  show ?thesis
    using exec_returns_output[of ?s 0 wire_ssh2 "no_reply 5" ?a "[0x6C, 0x73]" "no_reply 0" ?b "\<lambda>w. True"
        "concat \<circ> incoming" "\<lambda>w. incoming w = []" "length \<circ> incoming"] wire_delivers
    by (simp add: invoke_def wire_ssh2_def wire_answer_def) (simp add: wire_defs)
qed

theorem sftp_read_exact_witness:
  "\<exists>t. ssh_sftp_file_read wire_ssh2 0 (Some 4) (wire_state [[1, 2, 3, 4, 5]]) = Some (Inr [1, 2, 3, 4], t)"
  using sftp_read_exact[of "wire_state [[1, 2, 3, 4, 5]]" 0 wire_ssh2 "\<lambda>w. True" "concat \<circ> incoming" "Some 4"] wire_file_delivers
  by (auto simp: wire_state_def wanted_def)

theorem scp_send_complete_witness:
  "\<exists>t. accepted (world t) = [1, 2, 3, 0] \<and> ssh_session_scp_send wire_ssh2 0 [0x66] 420 [1, 2, 3] (wire_state [])
     = Some (Inr 3, run wire_ssh2 (Channel_free 5) (run wire_ssh2 (Channel_close 5) (run wire_ssh2 (Channel_send_eof 5) t)))"
proof -
  let ?a = "(wire_state [])\<lparr>calls := [(Scp_send 4 [0x66] 420 3, no_reply 5)]\<rparr>"
  show ?thesis
    using scp_send_complete[of "wire_state []" 0 wire_ssh2 "[0x66]" 420 "[1, 2, 3]" "no_reply 5" ?a "\<lambda>w. True" accepted busy] wire_accepts
    by (simp add: invoke_def wire_ssh2_def wire_answer_def) (simp add: wire_defs numeral_3_eq_3)
qed

theorem scp_recv_gives_up_witness:
  "\<exists>t. ssh_session_scp_recv wire_ssh2 0 [0x66] (wire_state [[1, 2, 0]])
     = Some (Inr [1, 2], run wire_ssh2 (Channel_free 6) (run wire_ssh2 (Channel_close 6) t)) \<and> length (calls t) = 24"
proof -
  let ?q = "(no_reply 3)\<lparr>r_data := [1, 2, 0]\<rparr>"
  let ?a = "(wire_state [[1, 2, 0]])\<lparr>calls := [(Scp_recv 4 [0x66], no_reply 6)]\<rparr>"
  let ?b = "(wire_state [])\<lparr>calls := [(Channel_read 6 256, ?q), (Scp_recv 4 [0x66], no_reply 6)]\<rparr>"
  let ?c = "(wire_state [])\<lparr>calls := [(Channel_eof 6, no_reply 0), (Channel_read 6 256, ?q), (Scp_recv 4 [0x66], no_reply 6)]\<rparr>"
  show ?thesis
    using scp_recv_gives_up[of "wire_state [[1, 2, 0]]" 0 wire_ssh2 "[0x66]" "no_reply 6" ?a ?q ?b "no_reply 0" ?c "\<lambda>w. incoming w = []"] wire_silent
    by (simp add: invoke_def wire_ssh2_def wire_answer_def) (simp add: wire_defs chunk_def strip_nul_def)
qed

theorem scp_recv_hangs_without_data_witness:
  "ssh_session_scp_recv wire_ssh2 0 [0x66] (wire_state []) = None"
proof -
  let ?a = "(wire_state [])\<lparr>calls := [(Scp_recv 4 [0x66], no_reply 6)]\<rparr>"
  show ?thesis
    using scp_recv_hangs_without_data[of "wire_state []" 0 wire_ssh2 "[0x66]" "no_reply 6" ?a "\<lambda>w. incoming w = []"] wire_silent
    by (simp add: invoke_def wire_ssh2_def wire_answer_def) (simp add: wire_defs)
qed

end
