(* ===== verification/Tls.thy ===== *)
theory Tls
  imports Prelude
begin

text \<open>
  \<open>modtls_axtls_uc386dos.c\<close>: TLS contexts and sockets around axTLS. axTLS and the wrapped socket are
  parameters over a world of their own, and so are the constants of \<open>ssl.h\<close> and MicroPython's error
  numbers. The \<open>options\<close> field of an axTLS context, which the module writes itself, is part of the state,
  and every client connection is recorded with the options it was started with. Argument parsing and
  the checks of MicroPython's run time are left out. The read and write loops of a blocking socket run
  until axTLS ends them: \<open>None\<close> is a loop that never ends.
\<close>

section \<open>axTLS\<close>

datatype ssl_obj = OBJ_X509_CACERT | OBJ_RSA_KEY | OBJ_X509_CERT

record 'w axtls =
  SSL_OK :: int
  SSL_NOT_OK :: int
  SSL_CLOSE_NOTIFY :: int
  SSL_EAGAIN :: int
  SSL_ERROR_CONN_LOST :: int
  SSL_ERROR_NOT_SUPPORTED :: int
  SERVER_VERIFY_LATER :: u32
  CONNECT_IN_PARTS :: u32
  NO_DEFAULT_KEY :: u32
  DEFAULT_CLNT_SESS :: int
  mp_eagain :: int
  mp_enotconn :: int
  mp_enomem :: int
  ebadf :: int
  STREAM_CLOSE :: nat
  STREAM_RAISE_ERROR :: nat
  delegate_error :: bool
  ssl_ctx_new :: "u32 \<Rightarrow> int \<Rightarrow> 'w \<Rightarrow> int \<times> 'w"
  ssl_obj_memory_load :: "int \<Rightarrow> ssl_obj \<Rightarrow> bytes \<Rightarrow> 'w \<Rightarrow> int \<times> 'w"
  ssl_server_new :: "int \<Rightarrow> nat \<Rightarrow> 'w \<Rightarrow> int \<times> 'w"
  ssl_client_new :: "int \<Rightarrow> u32 \<Rightarrow> nat \<Rightarrow> bytes option \<Rightarrow> 'w \<Rightarrow> int \<times> 'w"
  ssl_handshake_status :: "int \<Rightarrow> 'w \<Rightarrow> int \<times> 'w"
  ssl_read :: "int \<Rightarrow> 'w \<Rightarrow> int \<times> bytes \<times> 'w"
  ssl_write :: "int \<Rightarrow> bytes \<Rightarrow> 'w \<Rightarrow> int \<times> 'w"
  ssl_free :: "int \<Rightarrow> 'w \<Rightarrow> 'w"
  lwip_poll :: "'w \<Rightarrow> 'w"
  sock_ioctl :: "nat \<Rightarrow> nat \<Rightarrow> nat \<Rightarrow> 'w \<Rightarrow> (int + int) \<times> 'w"
  sock_setblocking :: "nat \<Rightarrow> bool \<Rightarrow> 'w \<Rightarrow> 'w"

text \<open>The two static assertions of \<open>ssl_raise_error\<close>, and that axTLS's codes are negative and disjoint.\<close>

definition codes_ok :: "('w, 'x) axtls_scheme \<Rightarrow> bool" where
  "codes_ok a \<longleftrightarrow> SSL_NOT_OK a - 3 = SSL_EAGAIN a \<and> SSL_ERROR_CONN_LOST a - 18 = SSL_ERROR_NOT_SUPPORTED a
     \<and> SSL_NOT_OK a < 0 \<and> SSL_ERROR_CONN_LOST a < SSL_EAGAIN a"

section \<open>Errors\<close>

text \<open>\<open>TlsNotAString\<close> is what \<open>mp_obj_str_get_data\<close> raises on an object that is not a string.\<close>

datatype tls_exc =
    TlsOSError int
  | TlsOSErrorText int string
  | TlsValueError string
  | TlsTypeError string
  | TlsNotImplementedError string
  | TlsNotAString

definition ssl_error_tab1 :: "string option list" where
  "ssl_error_tab1 = [Some ''NOT_OK'', Some ''DEAD'', Some ''CLOSE_NOTIFY'', Some ''EAGAIN'']"

definition ssl_error_tab2 :: "string option list" where
  "ssl_error_tab2 =
    [Some ''CONN_LOST'', Some ''RECORD_OVERFLOW'', Some ''SOCK_SETUP_FAILURE'', None,
     Some ''INVALID_HANDSHAKE'', Some ''INVALID_PROT_MSG'', Some ''INVALID_HMAC'',
     Some ''INVALID_VERSION'', Some ''UNSUPPORTED_EXTENSION'', Some ''INVALID_SESSION'',
     Some ''NO_CIPHER'', Some ''INVALID_CERT_HASH_ALG'', Some ''BAD_CERTIFICATE'',
     Some ''INVALID_KEY'', None, Some ''FINISHED_INVALID'', Some ''NO_CERT_DEFINED'',
     Some ''NO_CLIENT_RENOG'', Some ''NOT_SUPPORTED'']"

text \<open>A table access: reading outside the table is an error of its own, \<open>None\<close>.\<close>

definition tab_read :: "string option list \<Rightarrow> int \<Rightarrow> string option option" where
  "tab_read tab i = (if 0 \<le> i \<and> i < int (length tab) then Some (tab ! nat i) else None)"

text \<open>\<open>room\<close> tells whether there is memory for the string object.\<close>

definition ssl_raise_error :: "('w, 'x) axtls_scheme \<Rightarrow> bool \<Rightarrow> int \<Rightarrow> tls_exc option" where
  "ssl_raise_error a room err =
     (let errstr =
        (if SSL_NOT_OK a \<ge> err \<and> err \<ge> SSL_EAGAIN a then tab_read ssl_error_tab1 (SSL_NOT_OK a - err)
         else if SSL_ERROR_CONN_LOST a \<ge> err \<and> err \<ge> SSL_ERROR_NOT_SUPPORTED a
         then tab_read ssl_error_tab2 (SSL_ERROR_CONN_LOST a - err)
         else Some None)
      in case errstr of
           None \<Rightarrow> None
         | Some None \<Rightarrow> Some (TlsOSError err)
         | Some (Some text) \<Rightarrow> if room then Some (TlsOSErrorText err text) else Some (TlsOSError err))"

section \<open>SSLContext\<close>

abbreviation CERT_NONE :: int where "CERT_NONE \<equiv> 0"
abbreviation CERT_REQUIRED :: int where "CERT_REQUIRED \<equiv> 2"

record ssl_context =
  key :: "bytes option"
  cert :: "bytes option"
  ssl_ctx :: int
  verify_mode :: int

text \<open>
  \<open>options\<close> is the field of that name of the axTLS context at an address; \<open>clients\<close> the client
  connections started so far, newest first: context, options and host name.
\<close>

record 'w tls =
  tls_world :: 'w
  options :: "int \<Rightarrow> u32"
  clients :: "(int \<times> u32 \<times> bytes option) list"

definition ssl_context_make_new :: "('w, 'x) axtls_scheme \<Rightarrow> 'w tls \<Rightarrow> (tls_exc + ssl_context) \<times> 'w tls" where
  "ssl_context_make_new a s =
     (let (c, w) = ssl_ctx_new a (SERVER_VERIFY_LATER a) (DEFAULT_CLNT_SESS a) (tls_world s);
          s = s\<lparr>tls_world := w\<rparr>
      in if c = 0 then (Inl (TlsOSError (mp_enomem a)), s)
         else (Inr \<lparr>key = None, cert = None, ssl_ctx = c, verify_mode = CERT_NONE\<rparr>,
               s\<lparr>options := (options s)(c := SERVER_VERIFY_LATER a)\<rparr>))"

text \<open>
  Attribute access: loading an attribute other than \<open>verify_mode\<close> continues the look-up in the class
  (\<open>Lookup\<close>), storing one is refused by the run time (\<open>Refused\<close>).
\<close>

datatype attr_result = Loaded int | Stored | Lookup | Refused

definition ssl_context_attr :: "ssl_context \<Rightarrow> string \<Rightarrow> int option \<Rightarrow> (tls_exc + attr_result) \<times> ssl_context" where
  "ssl_context_attr self attr store =
     (case store of
        None \<Rightarrow> if attr = ''verify_mode'' then (Inr (Loaded (verify_mode self)), self) else (Inr Lookup, self)
      | Some v \<Rightarrow>
          if attr = ''verify_mode''
          then if v \<noteq> CERT_NONE \<and> v \<noteq> CERT_REQUIRED
               then (Inl (TlsValueError ''verify_mode must be CERT_NONE or CERT_REQUIRED''), self)
               else (Inr Stored, self\<lparr>verify_mode := v\<rparr>)
          else (Inr Refused, self))"

definition ssl_context_load_cert_chain :: "ssl_context \<Rightarrow> bytes option \<Rightarrow> bytes option \<Rightarrow> ssl_context" where
  "ssl_context_load_cert_chain self c pkey = self\<lparr>cert := c, key := pkey\<rparr>"

definition ssl_context_load_verify_locations ::
  "('w, 'x) axtls_scheme \<Rightarrow> bool \<Rightarrow> ssl_context \<Rightarrow> bytes option \<Rightarrow> bytes option \<Rightarrow> 'w tls \<Rightarrow> (tls_exc option + unit) \<times> 'w tls" where
  "ssl_context_load_verify_locations a room self cafile cadata s =
     (if cafile \<noteq> None then (Inl (Some (TlsNotImplementedError ''cafile not supported (use cadata=)'')), s)
      else case cadata of
        None \<Rightarrow> (Inl (Some (TlsTypeError ''cadata is required'')), s)
      | Some data \<Rightarrow>
          let (res, w) = ssl_obj_memory_load a (ssl_ctx self) OBJ_X509_CACERT data (tls_world s);
              s = s\<lparr>tls_world := w\<rparr>
          in if res \<noteq> SSL_OK a then (Inl (ssl_raise_error a room res), s) else (Inr (), s))"

section \<open>SSLSocket\<close>

text \<open>
  \<open>pending\<close> is the \<open>bytes_left\<close> bytes at \<open>buf\<close>; \<open>under = None\<close> is the null object. In C \<open>buf\<close> points into a buffer of
  axTLS, here it is a copy of those bytes. Between reads the difference does not show: \<open>read_fill\<close> calls
  \<open>ssl_read\<close> only when nothing is pending, so no call of a read changes bytes still to be handed out. Whether an
  \<open>ssl_write\<close> made while bytes are pending reuses that buffer is up to axTLS, which is not under \<open>src/\<close>; the
  theorem on reading is about reads that follow each other.
\<close>

record ssl_socket =
  under :: "nat option"
  sock_ctx :: int
  ssl_sock :: int
  pending :: bytes
  blocking :: bool

definition load_keys :: "('w, 'x) axtls_scheme \<Rightarrow> ssl_context \<Rightarrow> 'w tls \<Rightarrow> (tls_exc + unit) \<times> 'w tls" where
  "load_keys a c s =
     (case key c of
        None \<Rightarrow> (Inr (), s)
      | Some k \<Rightarrow>
          let (res, w) = ssl_obj_memory_load a (ssl_ctx c) OBJ_RSA_KEY k (tls_world s);
              s = s\<lparr>tls_world := w\<rparr>
          in if res \<noteq> SSL_OK a then (Inl (TlsValueError ''invalid key''), s)
             else case cert c of
                    None \<Rightarrow> (Inl TlsNotAString, s)
                  | Some d \<Rightarrow>
                      let (res, w) = ssl_obj_memory_load a (ssl_ctx c) OBJ_X509_CERT d (tls_world s);
                          s = s\<lparr>tls_world := w\<rparr>
                      in if res \<noteq> SSL_OK a then (Inl (TlsValueError ''invalid cert''), s) else (Inr (), s))"

definition client_options :: "('w, 'x) axtls_scheme \<Rightarrow> ssl_context \<Rightarrow> bool \<Rightarrow> u32 \<Rightarrow> u32" where
  "client_options a c do_handshake opts =
     (let opts = (if verify_mode c = CERT_REQUIRED then opts AND NOT (SERVER_VERIFY_LATER a) else opts OR SERVER_VERIFY_LATER a);
          opts = (if \<not> do_handshake then opts OR CONNECT_IN_PARTS a else opts AND NOT (CONNECT_IN_PARTS a))
      in if key c \<noteq> None then opts OR NO_DEFAULT_KEY a else opts)"

text \<open>What a failed handshake raises.\<close>

definition handshake_errno :: "('w, 'x) axtls_scheme \<Rightarrow> int \<Rightarrow> int" where
  "handshake_errno a r =
     (if r = SSL_CLOSE_NOTIFY a then mp_enotconn a else if r = SSL_EAGAIN a then mp_eagain a else r)"

definition ssl_socket_make_new ::
  "('w, 'x) axtls_scheme \<Rightarrow> bool \<Rightarrow> ssl_context \<Rightarrow> nat \<Rightarrow> bool \<Rightarrow> bool \<Rightarrow> bytes option \<Rightarrow> 'w tls \<Rightarrow>
   (tls_exc option + ssl_socket) \<times> 'w tls" where
  "ssl_socket_make_new a room c so server_side do_handshake server_hostname s =
     (let sck = \<lparr>under = None, sock_ctx = ssl_ctx c, ssl_sock = 0, pending = [], blocking = True\<rparr>
      in case load_keys a c s of
           (Inl e, s) \<Rightarrow> (Inl (Some e), s)
         | (Inr _, s) \<Rightarrow>
             if server_side
             then let (p, w) = ssl_server_new a (ssl_ctx c) so (tls_world s)
                  in (Inr (sck\<lparr>ssl_sock := p, under := Some so\<rparr>), s\<lparr>tls_world := w\<rparr>)
             else let host = map_option cstr server_hostname;
                      opts = client_options a c do_handshake (options s (ssl_ctx c));
                      (p, w) = ssl_client_new a (ssl_ctx c) opts so host (tls_world s);
                      s = s\<lparr>tls_world := w, options := (options s)(ssl_ctx c := opts), clients := (ssl_ctx c, opts, host) # clients s\<rparr>
                  in if do_handshake
                     then let (r, w) = ssl_handshake_status a p (tls_world s);
                              s = s\<lparr>tls_world := w\<rparr>
                          in if r \<noteq> SSL_OK a then (Inl (ssl_raise_error a room (handshake_errno a r)), s)
                             else (Inr (sck\<lparr>ssl_sock := p, under := Some so\<rparr>), s)
                     else (Inr (sck\<lparr>ssl_sock := p, under := Some so\<rparr>), s))"

text \<open>\<open>wrap_socket\<close> hands its arguments on; the defaults are those of its argument table.\<close>

definition ssl_context_wrap_socket ::
  "('w, 'x) axtls_scheme \<Rightarrow> bool \<Rightarrow> ssl_context \<Rightarrow> nat \<Rightarrow> bool option \<Rightarrow> bool option \<Rightarrow> bytes option \<Rightarrow> 'w tls \<Rightarrow>
   (tls_exc option + ssl_socket) \<times> 'w tls" where
  "ssl_context_wrap_socket a room self so server_side do_handshake server_hostname s =
     ssl_socket_make_new a room self so (case server_side of None \<Rightarrow> False | Some b \<Rightarrow> b)
       (case do_handshake of None \<Rightarrow> True | Some b \<Rightarrow> b) server_hostname s"

text \<open>The loop that fills the buffer: \<open>Inl None\<close> is the end of the stream, \<open>Inl (Some e)\<close> an error.\<close>

partial_function (option) read_fill ::
  "('w, 'x) axtls_scheme \<Rightarrow> ssl_socket \<Rightarrow> 'w \<Rightarrow> ((int option + unit) \<times> ssl_socket \<times> 'w) option" where
  "read_fill a sck w =
     (if pending sck \<noteq> [] then Some (Inr (), sck, w)
      else case ssl_read a (ssl_sock sck) w of (r, d, w) \<Rightarrow>
        if r = SSL_OK a
        then (if blocking sck then read_fill a sck (lwip_poll a w) else Some (Inl (Some (mp_eagain a)), sck, w))
        else if r < 0
        then (if r = SSL_CLOSE_NOTIFY a \<or> r = SSL_ERROR_CONN_LOST a then Some (Inl None, sck, w)
              else Some (Inl (Some (if r = SSL_EAGAIN a then mp_eagain a else r)), sck, w))
        else read_fill a (sck\<lparr>pending := take (nat r) d\<rparr>) w)"

definition ssl_socket_read ::
  "('w, 'x) axtls_scheme \<Rightarrow> ssl_socket \<Rightarrow> nat \<Rightarrow> 'w \<Rightarrow> ((int + bytes) \<times> ssl_socket \<times> 'w) option" where
  "ssl_socket_read a sck sz w =
     (if ssl_sock sck = 0 then Some (Inl (ebadf a), sck, w)
      else case read_fill a sck w of
             None \<Rightarrow> None
           | Some (Inl None, sck, w) \<Rightarrow> Some (Inr [], sck, w)
           | Some (Inl (Some e), sck, w) \<Rightarrow> Some (Inl e, sck, w)
           | Some (Inr _, sck, w) \<Rightarrow>
               let sz = (if sz > length (pending sck) then length (pending sck) else sz)
               in Some (Inr (take sz (pending sck)), sck\<lparr>pending := drop sz (pending sck)\<rparr>, w))"

partial_function (option) ssl_write_loop :: "('w, 'x) axtls_scheme \<Rightarrow> ssl_socket \<Rightarrow> bytes \<Rightarrow> 'w \<Rightarrow> (int \<times> 'w) option" where
  "ssl_write_loop a sck buf w =
     (case ssl_write a (ssl_sock sck) buf w of (r, w) \<Rightarrow>
        if r = 0 then (if blocking sck then ssl_write_loop a sck buf w else Some (SSL_EAGAIN a, w))
        else Some (r, w))"

definition ssl_socket_write :: "('w, 'x) axtls_scheme \<Rightarrow> ssl_socket \<Rightarrow> bytes \<Rightarrow> 'w \<Rightarrow> ((int + int) \<times> 'w) option" where
  "ssl_socket_write a sck buf w =
     (if ssl_sock sck = 0 then Some (Inl (ebadf a), w)
      else case ssl_write_loop a sck buf w of
             None \<Rightarrow> None
           | Some (r, w) \<Rightarrow>
               if r < 0
               then (if r = SSL_CLOSE_NOTIFY a \<or> r = SSL_ERROR_CONN_LOST a then Some (Inr 0, w)
                     else Some (Inl (if r = SSL_EAGAIN a then mp_eagain a else r), w))
               else Some (Inr r, w))"

declare read_fill.simps [code] ssl_write_loop.simps [code]

text \<open>
  \<open>Inl\<close> is an exception, which only the request to raise one gives, when the build delegates errors
  (\<open>MICROPY_STREAMS_DELEGATE_ERROR\<close>); otherwise the result is an error code or a value.
\<close>

definition ssl_socket_ioctl ::
  "('w, 'x) axtls_scheme \<Rightarrow> bool \<Rightarrow> ssl_socket \<Rightarrow> nat \<Rightarrow> nat \<Rightarrow> 'w \<Rightarrow> (tls_exc option + (int + int)) \<times> ssl_socket \<times> 'w" where
  "ssl_socket_ioctl a room sck request arg w =
     (if request = STREAM_CLOSE a \<and> ssl_sock sck = 0 then (Inr (Inr 0), sck, w)
      else if request \<noteq> STREAM_CLOSE a \<and> delegate_error a \<and> request = STREAM_RAISE_ERROR a
      then (Inl (ssl_raise_error a room (sint (word_of_nat arg :: u32))), sck, w)
      else let (sck, w) = (if request = STREAM_CLOSE a then (sck\<lparr>ssl_sock := 0\<rparr>, ssl_free a (ssl_sock sck) w) else (sck, w))
           in case under sck of
                None \<Rightarrow> (Inr (Inr 0), sck, w)
              | Some so \<Rightarrow> let (r, w) = sock_ioctl a so request arg w in (Inr r, sck, w))"

definition ssl_socket_setblocking :: "('w, 'x) axtls_scheme \<Rightarrow> ssl_socket \<Rightarrow> bool \<Rightarrow> 'w \<Rightarrow> ssl_socket \<times> 'w" where
  "ssl_socket_setblocking a sck flag w =
     (case under sck of
        None \<Rightarrow> (sck, w)
      | Some so \<Rightarrow> (sck\<lparr>blocking := flag\<rparr>, sock_setblocking a so flag w))"

section \<open>Lemmas\<close>

text \<open>
  What axTLS promises for an open connection with plaintext \<open>R\<close> still to come: a read returns
  \<open>SSL_OK\<close> while a record is incomplete, which with the network polled happens only finitely often
  (\<open>m\<close>) in a row, or a non-empty piece of the plaintext, or one of the two codes for the end of the
  stream when nothing is left.
\<close>

definition tls_delivers :: "('w, 'x) axtls_scheme \<Rightarrow> int \<Rightarrow> ('w \<Rightarrow> bool) \<Rightarrow> ('w \<Rightarrow> bytes) \<Rightarrow> ('w \<Rightarrow> nat) \<Rightarrow> bool" where
  "tls_delivers a p I R m \<longleftrightarrow> SSL_OK a = 0 \<and> SSL_CLOSE_NOTIFY a < 0 \<and> SSL_ERROR_CONN_LOST a < 0 \<and>
     (\<forall>w. I w \<longrightarrow> (case ssl_read a p w of (r, d, w') \<Rightarrow>
        r = SSL_OK a \<and> I (lwip_poll a w') \<and> R (lwip_poll a w') = R w \<and> m (lwip_poll a w') < m w
      \<or> 0 < r \<and> r = int (length d) \<and> R w = d @ R w' \<and> I w'
      \<or> (r = SSL_CLOSE_NOTIFY a \<or> r = SSL_ERROR_CONN_LOST a) \<and> R w = [] \<and> R w' = [] \<and> I w'))"

lemma read_fill_delivers:
  assumes "tls_delivers a (ssl_sock sck) I R m" "blocking sck"
  shows "I w \<Longrightarrow> \<exists>q sck' w'. read_fill a sck w = Some (q, sck', w') \<and> I w'
     \<and> pending sck' @ R w' = pending sck @ R w \<and> ssl_sock sck' = ssl_sock sck \<and> blocking sck'
     \<and> (q = Inl None \<and> pending sck @ R w = [] \<or> q = Inr () \<and> pending sck' \<noteq> [])"
proof (induction "m w" arbitrary: w rule: less_induct)
  case less
  show ?case
  proof (cases "pending sck = []")
    case False
    with assms(2) less(2) show ?thesis by (subst read_fill.simps) auto
  next
    case True
    obtain r d w' where r: "ssl_read a (ssl_sock sck) w = (r, d, w')" by (cases "ssl_read a (ssl_sock sck) w")
    from assms(1) less(2) r have codes: "SSL_OK a = 0" "SSL_CLOSE_NOTIFY a < 0" "SSL_ERROR_CONN_LOST a < 0"
      and "r = SSL_OK a \<and> I (lwip_poll a w') \<and> R (lwip_poll a w') = R w \<and> m (lwip_poll a w') < m w
        \<or> 0 < r \<and> r = int (length d) \<and> R w = d @ R w' \<and> I w'
        \<or> (r = SSL_CLOSE_NOTIFY a \<or> r = SSL_ERROR_CONN_LOST a) \<and> R w = [] \<and> R w' = [] \<and> I w'"
      unfolding tls_delivers_def by (auto dest!: spec[of _ w])
    then consider (again) "r = 0" "I (lwip_poll a w')" "R (lwip_poll a w') = R w" "m (lwip_poll a w') < m w"
      | (data) "0 < r" "r = int (length d)" "R w = d @ R w'" "I w'"
      | (fin) "r = SSL_CLOSE_NOTIFY a \<or> r = SSL_ERROR_CONN_LOST a" "R w = []" "R w' = []" "I w'"
      by auto
    then show ?thesis
    proof cases
      case again
      have "read_fill a sck w = read_fill a sck (lwip_poll a w')"
        using True r again codes assms(2) by (subst read_fill.simps) simp
      with less(1)[OF again(4,2)] again(3) show ?thesis by simp
    next
      case data
      then have "d \<noteq> []" by auto
      have "read_fill a sck w = read_fill a (sck\<lparr>pending := d\<rparr>) w'"
        using True r data codes by (subst read_fill.simps) simp
      also have "\<dots> = Some (Inr (), sck\<lparr>pending := d\<rparr>, w')"
        using \<open>d \<noteq> []\<close> by (subst read_fill.simps) simp
      finally show ?thesis using data True \<open>d \<noteq> []\<close> assms(2) by simp
    next
      case fin
      then have "read_fill a sck w = Some (Inl None, sck, w')"
        using True r codes by (subst read_fill.simps) auto
      with fin True assms(2) show ?thesis by simp
    qed
  qed
qed

text \<open>One read of a blocking socket, against the stream of plaintext.\<close>

lemma socket_read_delivers:
  assumes "tls_delivers a (ssl_sock sck) I R m" "blocking sck" "ssl_sock sck \<noteq> 0" "I w" "0 < n"
  shows "\<exists>d sck' w'. ssl_socket_read a sck n w = Some (Inr d, sck', w') \<and> I w' \<and> blocking sck' \<and> ssl_sock sck' = ssl_sock sck
     \<and> length d \<le> n \<and> pending sck @ R w = d @ pending sck' @ R w' \<and> (d = [] \<longleftrightarrow> pending sck @ R w = [])"
proof -
  obtain q t w' where f: "read_fill a sck w = Some (q, t, w')" "I w'" "pending t @ R w' = pending sck @ R w"
      "ssl_sock t = ssl_sock sck" "blocking t"
      "q = Inl None \<and> pending sck @ R w = [] \<or> q = Inr () \<and> pending t \<noteq> []"
    using read_fill_delivers[OF assms(1,2,4)] by blast
  show ?thesis
  proof (cases "q = Inl None")
    case True
    with f assms(3) show ?thesis by (auto simp: ssl_socket_read_def)
  next
    case False
    define k where "k = (if n > length (pending t) then length (pending t) else n)"
    have "ssl_socket_read a sck n w = Some (Inr (take k (pending t)), t\<lparr>pending := drop k (pending t)\<rparr>, w')"
      using f(1,6) False assms(3) by (auto simp: ssl_socket_read_def Let_def k_def)
    moreover have "take k (pending t) \<noteq> []" "length (take k (pending t)) \<le> n"
      using f(6) False assms(5) by (auto simp: k_def)
    moreover have "take k (pending t) @ drop k (pending t) @ R w' = pending sck @ R w"
      unfolding append.assoc[symmetric] append_take_drop_id by (rule f(3))
    moreover have "pending sck @ R w \<noteq> []" using f(3,6) False by auto
    ultimately show ?thesis using f(2,4,5) by simp
  qed
qed

text \<open>A sequence of reads with the given sizes; the first error or endless loop ends it.\<close>

fun read_all :: "('w, 'x) axtls_scheme \<Rightarrow> ssl_socket \<Rightarrow> nat list \<Rightarrow> 'w \<Rightarrow> (bytes list \<times> ssl_socket \<times> 'w) option" where
  "read_all a sck [] w = Some ([], sck, w)"
| "read_all a sck (n # ns) w =
     (case ssl_socket_read a sck n w of
        Some (Inr d, sck, w) \<Rightarrow> map_option (\<lambda>(ds, z). (d # ds, z)) (read_all a sck ns w)
      | _ \<Rightarrow> None)"

lemma read_all_delivers:
  "tls_delivers a (ssl_sock sck) I R m \<Longrightarrow> blocking sck \<Longrightarrow> ssl_sock sck \<noteq> 0 \<Longrightarrow> I w \<Longrightarrow> list_all (\<lambda>n. 0 < n) ns \<Longrightarrow>
   \<exists>ds sck' w'. read_all a sck ns w = Some (ds, sck', w') \<and> pending sck @ R w = concat ds @ pending sck' @ R w'
     \<and> list_all2 (\<lambda>n d. length d \<le> n) ns ds \<and> ((\<exists>d\<in>set ds. d = []) \<longrightarrow> concat ds = pending sck @ R w)"
proof (induction ns arbitrary: sck w)
  case (Cons n ns)
  obtain d t w1 where d: "ssl_socket_read a sck n w = Some (Inr d, t, w1)" "I w1" "blocking t" "ssl_sock t = ssl_sock sck"
      "length d \<le> n" "pending sck @ R w = d @ pending t @ R w1" "d = [] \<longleftrightarrow> pending sck @ R w = []"
    using socket_read_delivers[OF Cons(2-5), of n] Cons(6) by auto
  obtain ds sck' w' where ds: "read_all a t ns w1 = Some (ds, sck', w')" "pending t @ R w1 = concat ds @ pending sck' @ R w'"
      "list_all2 (\<lambda>n d. length d \<le> n) ns ds" "(\<exists>d\<in>set ds. d = []) \<longrightarrow> concat ds = pending t @ R w1"
    using Cons(1)[of t w1] Cons(2-6) d(2-4) by auto
  then show ?case
    using d by (intro exI[of _ "d # ds"]) auto
qed simp

text \<open>The verification mode of a context is always one of the two the module knows.\<close>

lemma attr_verify_mode:
  "verify_mode self \<in> {CERT_NONE, CERT_REQUIRED} \<Longrightarrow> verify_mode (snd (ssl_context_attr self attr store)) \<in> {CERT_NONE, CERT_REQUIRED}"
  by (auto simp: ssl_context_attr_def split: option.splits)

text \<open>The option word of a client connection, flag by flag.\<close>

lemma and_not_self: "(x AND NOT v) AND v = (0 :: u32)" "(x OR v) AND v = v"
  by (auto intro!: bit_word_eqI simp: bit_simps)

lemma and_other:
  assumes "v AND u = (0 :: u32)"
  shows "(x OR u) AND v = x AND v" "(x AND NOT u) AND v = x AND v"
proof -
  have "\<not> (bit v n \<and> bit u n)" for n
    using arg_cong[OF assms, of "\<lambda>x. bit x n"] by (simp add: bit_simps)
  then show "(x OR u) AND v = x AND v" "(x AND NOT u) AND v = x AND v"
    by (auto intro!: bit_word_eqI simp: bit_simps)
qed

lemma and_commute_zero: "v AND u = (0 :: u32) \<Longrightarrow> u AND v = 0"
  by (simp add: and.commute)

text \<open>The tables.\<close>

lemma tab1_texts: "\<forall>k\<in>set [0..<4]. ssl_error_tab1 ! k \<noteq> None"
  by code_simp

lemma tab2_texts: "\<forall>k\<in>set [0..<19]. (ssl_error_tab2 ! k = None) = (k = 3 \<or> k = 14)"
  by code_simp

lemma tab1_read: "0 \<le> i \<Longrightarrow> i \<le> 3 \<Longrightarrow> \<exists>t. tab_read ssl_error_tab1 i = Some (Some t)"
  using tab1_texts by (auto simp: tab_read_def ssl_error_tab1_def nat_less_iff dest!: bspec[of _ _ "nat i"])

lemma tab2_read:
  assumes "0 \<le> i" "i \<le> 18"
  shows "\<exists>x. tab_read ssl_error_tab2 i = Some x \<and> (x = None \<longleftrightarrow> i = 3 \<or> i = 14)"
proof -
  have "nat i \<in> set [0..<19]" using assms by (simp add: nat_less_iff)
  from bspec[OF tab2_texts this] assms show ?thesis
    by (auto simp: tab_read_def ssl_error_tab2_def nat_eq_iff)
qed

section \<open>Properties\<close>

text \<open>
  C7. Certificate verification cannot be lost: whatever options an axTLS context has collected from
  earlier connections, a client connection of a context with \<open>CERT_REQUIRED\<close> is started with
  \<open>SSL_SERVER_VERIFY_LATER\<close> clear, so that axTLS checks the certificate during the handshake, and one
  with \<open>CERT_NONE\<close> with the flag set; \<open>SSL_CONNECT_IN_PARTS\<close> is set exactly when the handshake is
  deferred; flags other than these two and the default-key flag are as before. At most one connection
  is started, and none when the key or the certificate does not load.
\<close>

theorem client_options_safe:
  assumes "ssl_socket_make_new a room c so False hs host s = (res, s')"
    and "SERVER_VERIFY_LATER a AND CONNECT_IN_PARTS a = 0" "SERVER_VERIFY_LATER a AND NO_DEFAULT_KEY a = 0"
      "CONNECT_IN_PARTS a AND NO_DEFAULT_KEY a = 0"
  shows "clients s' = clients s \<and> (\<exists>e. res = Inl e)
    \<or> (\<exists>opts h. clients s' = (ssl_ctx c, opts, h) # clients s \<and> options s' (ssl_ctx c) = opts
        \<and> opts AND SERVER_VERIFY_LATER a = (if verify_mode c = CERT_REQUIRED then 0 else SERVER_VERIFY_LATER a)
        \<and> opts AND CONNECT_IN_PARTS a = (if hs then 0 else CONNECT_IN_PARTS a)
        \<and> (\<forall>n. \<not> bit (SERVER_VERIFY_LATER a OR CONNECT_IN_PARTS a OR NO_DEFAULT_KEY a) n \<longrightarrow> bit opts n = bit (options s (ssl_ctx c)) n))"
proof -
  obtain q t where q: "load_keys a c s = (q, t)" by fastforce
  then have t: "clients t = clients s" "options t = options s"
    by (auto simp: load_keys_def Let_def split: option.splits prod.splits if_splits)
  show ?thesis
  proof (cases q)
    case (Inl e)
    with assms(1) q t show ?thesis by (auto simp: ssl_socket_make_new_def)
  next
    case (Inr u)
    define opts where "opts = client_options a c hs (options s (ssl_ctx c))"
    have "\<exists>h. clients s' = (ssl_ctx c, opts, h) # clients s" "options s' (ssl_ctx c) = opts"
      using assms(1) q t Inr
      by (auto simp: ssl_socket_make_new_def Let_def opts_def split: prod.splits if_splits)
    moreover have "opts AND SERVER_VERIFY_LATER a = (if verify_mode c = CERT_REQUIRED then 0 else SERVER_VERIFY_LATER a)"
      using assms(2-4) by (simp add: opts_def client_options_def Let_def and_other and_not_self)
    moreover have "opts AND CONNECT_IN_PARTS a = (if hs then 0 else CONNECT_IN_PARTS a)"
      using assms(2-4) by (simp add: opts_def client_options_def Let_def and_other and_not_self)
    moreover have "\<forall>n. \<not> bit (SERVER_VERIFY_LATER a OR CONNECT_IN_PARTS a OR NO_DEFAULT_KEY a) n \<longrightarrow> bit opts n = bit (options s (ssl_ctx c)) n"
      by (auto simp: opts_def client_options_def Let_def bit_simps dest: bit_imp_le_length)
    ultimately show ?thesis by blast
  qed
qed

text \<open>
  C8. A blocking TLS socket is the stream of the plaintext: successive reads of any positive sizes all
  return, each with at most the bytes asked for, and what they return is in order the beginning of
  what was buffered and is still to come, with the rest left for the next read; a read returns nothing
  only when the stream has ended.
\<close>

theorem tls_reads_stream:
  assumes "tls_delivers a (ssl_sock sck) I R m" "blocking sck" "ssl_sock sck \<noteq> 0" "I w" "list_all (\<lambda>n. 0 < n) ns"
  shows "\<exists>ds sck' w'. read_all a sck ns w = Some (ds, sck', w') \<and> pending sck @ R w = concat ds @ pending sck' @ R w'
     \<and> list_all2 (\<lambda>n d. length d \<le> n) ns ds \<and> ((\<exists>d\<in>set ds. d = []) \<longrightarrow> concat ds = pending sck @ R w)"
  using assms by (rule read_all_delivers)

text \<open>
  Closing is final and happens once: the first \<open>close\<close> of an open socket frees the axTLS connection
  and closes the socket below; afterwards a second \<open>close\<close> touches nothing, and reads and writes fail
  with \<open>EBADF\<close> without reaching axTLS.
\<close>

theorem tls_close_final:
  assumes "ssl_sock sck \<noteq> 0" "under sck = Some so"
    and "ssl_socket_ioctl a room sck (STREAM_CLOSE a) arg w = (r, sck', w')"
  shows "w' = snd (sock_ioctl a so (STREAM_CLOSE a) arg (ssl_free a (ssl_sock sck) w))
     \<and> ssl_socket_ioctl a room sck' (STREAM_CLOSE a) arg v = (Inr (Inr 0), sck', v)
     \<and> ssl_socket_read a sck' n v = Some (Inl (ebadf a), sck', v)
     \<and> ssl_socket_write a sck' buf v = Some (Inl (ebadf a), v)"
  using assms by (auto simp: ssl_socket_ioctl_def ssl_socket_read_def ssl_socket_write_def Let_def split: prod.splits)

text \<open>
  Every error code is reported: the look-up never leaves the two tables, the code itself is always
  the first argument of the \<open>OSError\<close>, and the code has a text exactly when it lies in one of the two
  ranges of axTLS codes, is not one of the two unnamed codes 3 and 14 below the connection-lost code,
  and there is memory for the text.
\<close>

theorem ssl_raise_error_total:
  assumes "codes_ok a"
  shows "\<exists>e. ssl_raise_error a room err = Some e \<and> (e = TlsOSError err \<or> (\<exists>t. e = TlsOSErrorText err t))
     \<and> ((\<exists>t. e = TlsOSErrorText err t) \<longleftrightarrow>
          room \<and> (err \<in> {SSL_EAGAIN a..SSL_NOT_OK a}
            \<or> err \<in> {SSL_ERROR_NOT_SUPPORTED a..SSL_ERROR_CONN_LOST a} - {SSL_ERROR_CONN_LOST a - 3, SSL_ERROR_CONN_LOST a - 14}))"
proof -
  consider (one) "err \<in> {SSL_EAGAIN a..SSL_NOT_OK a}"
    | (two) "err \<in> {SSL_ERROR_NOT_SUPPORTED a..SSL_ERROR_CONN_LOST a}" "err \<notin> {SSL_EAGAIN a..SSL_NOT_OK a}"
    | (other) "err \<notin> {SSL_EAGAIN a..SSL_NOT_OK a}" "err \<notin> {SSL_ERROR_NOT_SUPPORTED a..SSL_ERROR_CONN_LOST a}"
    by blast
  then show ?thesis
  proof cases
    case one
    with assms obtain t where "tab_read ssl_error_tab1 (SSL_NOT_OK a - err) = Some (Some t)"
      using tab1_read[of "SSL_NOT_OK a - err"] by (auto simp: codes_ok_def)
    with one show ?thesis by (simp add: ssl_raise_error_def)
  next
    case two
    with assms obtain x where "tab_read ssl_error_tab2 (SSL_ERROR_CONN_LOST a - err) = Some x"
        "x = None \<longleftrightarrow> SSL_ERROR_CONN_LOST a - err = 3 \<or> SSL_ERROR_CONN_LOST a - err = 14"
      using tab2_read[of "SSL_ERROR_CONN_LOST a - err"] by (auto simp: codes_ok_def)
    moreover from two have "\<not> (err \<le> SSL_NOT_OK a \<and> SSL_EAGAIN a \<le> err)" by auto
    ultimately show ?thesis using two by (cases x) (auto simp: ssl_raise_error_def)
  next
    case other
    then show ?thesis by (auto simp: ssl_raise_error_def)
  qed
qed

subsection \<open>Witnesses\<close>

text \<open>An axTLS whose world is the list of records to come; an empty one is an incomplete record.\<close>

definition toy_tls :: "bytes list axtls" where
  "toy_tls = \<lparr>SSL_OK = 0, SSL_NOT_OK = -1, SSL_CLOSE_NOTIFY = -3, SSL_EAGAIN = -4, SSL_ERROR_CONN_LOST = -256,
     SSL_ERROR_NOT_SUPPORTED = -274, SERVER_VERIFY_LATER = 0x20, CONNECT_IN_PARTS = 0x800000, NO_DEFAULT_KEY = 0x40000,
     DEFAULT_CLNT_SESS = 1, mp_eagain = 11, mp_enotconn = 107, mp_enomem = 12, ebadf = 9, STREAM_CLOSE = 4,
     STREAM_RAISE_ERROR = 20, delegate_error = False,
     ssl_ctx_new = (\<lambda>opts n w. (1, w)), ssl_obj_memory_load = (\<lambda>c k d w. (0, w)), ssl_server_new = (\<lambda>c so w. (2, w)),
     ssl_client_new = (\<lambda>c opts so h w. (2, w)), ssl_handshake_status = (\<lambda>p w. (0, w)),
     ssl_read = (\<lambda>p w. case w of [] \<Rightarrow> (-3, [], []) | d # ds \<Rightarrow> (int (length d), d, ds)),
     ssl_write = (\<lambda>p d w. (int (length d), w)), ssl_free = (\<lambda>p w. []), lwip_poll = (\<lambda>w. w),
     sock_ioctl = (\<lambda>so r g w. (Inr 0, w)), sock_setblocking = (\<lambda>so b w. w)\<rparr>"

lemma toy_delivers: "tls_delivers toy_tls p (\<lambda>w. True) concat length"
  by (auto simp: tls_delivers_def toy_tls_def split: list.split)

theorem client_options_safe_witness:
  "\<exists>opts h. clients (snd (ssl_socket_make_new toy_tls True \<lparr>key = None, cert = None, ssl_ctx = 1, verify_mode = CERT_REQUIRED\<rparr> 7 False True None
      \<lparr>tls_world = [], options = (\<lambda>c. 0x820020), clients = []\<rparr>)) = [(1, opts, h)] \<and> opts AND 0x20 = 0 \<and> opts AND 0x800000 = 0"
  using client_options_safe[of toy_tls True "\<lparr>key = None, cert = None, ssl_ctx = 1, verify_mode = CERT_REQUIRED\<rparr>" 7 True None
      "\<lparr>tls_world = [], options = (\<lambda>c. 0x820020), clients = []\<rparr>", OF prod.collapse[symmetric]]
  by (auto simp: toy_tls_def ssl_socket_make_new_def load_keys_def Let_def)

theorem tls_reads_stream_witness:
  "\<exists>ds sck' w'. read_all toy_tls \<lparr>under = Some 7, sock_ctx = 1, ssl_sock = 2, pending = [9], blocking = True\<rparr> [4, 2, 2]
      [[], [1, 2, 3], [], [4]] = Some (ds, sck', w') \<and> [9, 1, 2, 3, 4] = concat ds @ pending sck' @ concat w'"
  using tls_reads_stream[of toy_tls "\<lparr>under = Some 7, sock_ctx = 1, ssl_sock = 2, pending = [9], blocking = True\<rparr>"
      "\<lambda>w. True" concat length "[[], [1, 2, 3], [], [4]]" "[4, 2, 2]"] toy_delivers
  by auto

theorem tls_close_final_witness:
  "let sck = \<lparr>under = Some 7, sock_ctx = 1, ssl_sock = 2, pending = [9], blocking = True\<rparr>;
       sck' = fst (snd (ssl_socket_ioctl toy_tls True sck 4 0 [[1]]))
   in ssl_socket_read toy_tls sck' 3 [] = Some (Inl 9, sck', [])"
  using tls_close_final[of "\<lparr>under = Some 7, sock_ctx = 1, ssl_sock = 2, pending = [9], blocking = True\<rparr>" 7 toy_tls True 0 "[[1]]",
      where v = "[]" and n = 3]
  by (auto simp: toy_tls_def ssl_socket_ioctl_def)

theorem ssl_raise_error_total_witness:
  "\<exists>t. ssl_raise_error toy_tls True (-268) = Some (TlsOSErrorText (-268) t)"
  using ssl_raise_error_total[of toy_tls True "-268"] by (auto simp: codes_ok_def toy_tls_def)

end
