(* ===== verification/Console.thy ===== *)
theory Console
  imports Prelude
begin

text \<open>
  The console helpers the C programs of \<open>rigs/\<close> share: text up to its terminator, a 32-bit word as eight
  hexadecimal digits, a number in decimal. Each function gives the bytes it passes to \<open>write(1, ...)\<close>;
  the rigs differ in what ends a line, which is the argument \<open>eol\<close>. The tagged diagnostic of the packet
  driver and the debugging trace of the DOS calls are here too.
\<close>

section \<open>Definitions\<close>

definition emit :: "string \<Rightarrow> bytes" where
  "emit s = cstr (str s)"

definition hex_tab :: bytes where
  "hex_tab = str ''0123456789abcdef''"

definition hex8 :: "u32 \<Rightarrow> bytes" where
  "hex8 v = map (\<lambda>i. hex_tab ! unat (drop_bit ((7 - i) * 4) v AND 0xF)) [0..<8]"

definition emit_hex8 :: "bytes \<Rightarrow> u32 \<Rightarrow> bytes" where
  "emit_hex8 eol v = [ch_0, 0x78] @ hex8 v @ eol"

text \<open>The digits go to \<open>tmp\<close> lowest first and from there to \<open>buf\<close> in reverse.\<close>

function dec_tmp :: "u32 \<Rightarrow> bytes" where
  "dec_tmp v = (if v > 0 then (ch_0 + ucast (v mod 10)) # dec_tmp (v div 10) else [])"
  by auto

termination
  by (relation "measure unat") (auto simp: unat_div word_less_nat_alt)

declare dec_tmp.simps [simp del]

definition emit_dec :: "bytes \<Rightarrow> u32 \<Rightarrow> bytes" where
  "emit_dec eol v = (if v = 0 then [ch_0] else rev (dec_tmp v)) @ eol"

definition diag_hex32 :: "bytes \<Rightarrow> u32 \<Rightarrow> bytes" where
  "diag_hex32 tag val =
     [0x5B] @ take 4 tag @ [ch_eq]
     @ map (\<lambda>i. let nib = drop_bit ((7 - i) * 4) val AND 0xF
                in if nib < 10 then ch_0 + ucast nib else ch_a + ucast nib - 10) [0..<8]
     @ [0x5D]"

text \<open>The trace of the DOS calls, compiled in for debugging only; a label is cut after 40 characters.\<close>

definition dos_dbg_hex :: "bytes \<Rightarrow> u32 \<Rightarrow> bytes" where
  "dos_dbg_hex label v = take 40 (cstr label) @ [ch_eq] @ hex8 v @ [ch_lf]"

section \<open>Lemmas\<close>

text \<open>Reading a number back.\<close>

definition dec_val :: "bytes \<Rightarrow> nat" where
  "dec_val ds = foldl (\<lambda>n c. n * 10 + unat (c - ch_0)) 0 ds"

definition hex_val :: "bytes \<Rightarrow> nat" where
  "hex_val ds = foldl (\<lambda>n c. n * 16 + (if c \<le> ch_9 then unat (c - ch_0) else unat (c - ch_a) + 10)) 0 ds"

lemma unat_digit: "unat (ucast (v mod 10) :: byte) = unat (v :: u32) mod 10"
proof -
  have "unat (v mod 10) = unat v mod 10" by (simp add: unat_mod)
  then show ?thesis by (simp add: unsigned_ucast_eq take_bit_nat_eq_self)
qed

lemma dec_tmp_val: "dec_val (rev (dec_tmp v)) = unat v"
proof (induction v rule: dec_tmp.induct)
  case (1 v)
  show ?case
  proof (cases "v > 0")
    case True
    have "dec_val (rev (dec_tmp v)) = dec_val (rev (dec_tmp (v div 10))) * 10 + unat v mod 10"
      using True by (subst dec_tmp.simps) (simp add: dec_val_def unat_digit)
    with 1[OF True] show ?thesis by (simp add: unat_div)
  next
    case False
    then have "v = 0" by (simp add: word_gt_0)
    then show ?thesis by (subst dec_tmp.simps) (simp add: dec_val_def)
  qed
qed

lemma length_dec_tmp: "unat v < 10 ^ k \<Longrightarrow> length (dec_tmp v) \<le> k"
proof (induction k arbitrary: v)
  case 0
  then show ?case by (subst dec_tmp.simps) (simp add: unat_eq_zero)
next
  case (Suc k)
  then have "unat (v div 10) < 10 ^ k" by (simp add: unat_div less_mult_imp_div_less mult.commute)
  with Suc.IH show ?case by (subst dec_tmp.simps) simp
qed

section \<open>Properties\<close>

text \<open>
  The decimal printer prints the number: the digits read back give it, there are ten of them at
  most, so that with the two characters of the line end the 12-byte buffer is never overrun.
\<close>

theorem emit_dec_exact:
  "dec_val (emit_dec [] v) = unat v \<and> length (emit_dec [ch_cr, ch_lf] v) \<le> 12"
proof -
  have "unat v < 10 ^ 10" using unsigned_less[of v, where ?'a = nat] by simp
  from length_dec_tmp[OF this] dec_tmp_val[of v] show ?thesis
    by (simp add: emit_dec_def dec_val_def)
qed

end
