(* ===== verification/Ssh_Backend.thy ===== *)
theory Ssh_Backend
  imports Ssh_Hash Ssh_Keys Console
begin

text \<open>
  The rest of the libssh2 backend \<open>libssh2_axtls.c\<close>: initialisation and random bytes, the HMAC entry points
  per algorithm, the console traces of \<open>hash_update\<close> and of the key exchange, and the entry points of what the backend does not
  support (ChaCha20-Poly1305, RSA, Diffie-Hellman, key files, security keys, bcrypt, POSIX sockets), which
  libssh2 links against.

  An unsupported entry point is a function of the memory \<open>'m\<close> its pointer arguments reach, with what it
  returns and the memory afterwards; its other arguments are not used by the code.
\<close>

section \<open>Definitions\<close>

subsection \<open>Initialisation and random bytes\<close>

definition libssh2_axtls_init :: int where
  "libssh2_axtls_init = 0"

text \<open>axTLS's \<open>get_random\<close> gives the bytes; it is a parameter over its generator \<open>'g\<close>.\<close>

definition libssh2_axtls_random :: "(nat \<Rightarrow> 'g \<Rightarrow> bytes \<times> 'g) \<Rightarrow> nat \<Rightarrow> 'g \<Rightarrow> int \<times> bytes \<times> 'g" where
  "libssh2_axtls_random get_random len g = (case get_random len g of (buf, g) \<Rightarrow> (0, buf, g))"

text \<open>\<open>time_t\<close> is a 32-bit \<open>long\<close>; its difference is exact in a \<open>double\<close>.\<close>

definition difftime :: "u32 \<Rightarrow> u32 \<Rightarrow> int" where
  "difftime time1 time0 = sint (time1 - time0)"

subsection \<open>The trace of hash updates\<close>

definition hash_update_trace :: "int \<Rightarrow> bytes \<Rightarrow> bytes" where
  "hash_update_trace algo data =
     (if algo = LIBSSH2_AXTLS_HASH_SHA256
      then let l = (of_nat (length data) :: u32)
           in str ''[hu:''
              @ map (\<lambda>k. hex_tab ! unat (drop_bit k l AND 0xF)) [12, 8, 4, 0]
              @ [ch_colon]
              @ (case data of d # _ \<Rightarrow> [hex_tab ! unat (drop_bit 4 d AND 0xF), hex_tab ! unat (d AND 0xF)]
                 | [] \<Rightarrow> [ch_minus, ch_minus])
              @ [0x5D]
      else [])"

definition hash_init_trace :: "'c axtls_hashes \<Rightarrow> int \<Rightarrow> bytes" where
  "hash_init_trace ax algo = (if hash_switch ax algo = None then str ''[hash:bad-algo]'' else [])"

text \<open>What setting up an HMAC prints: the update of a key that has to be hashed, then that of the inner pad.\<close>

definition hmac_init_trace :: "'c axtls_hashes \<Rightarrow> 'c hash_ctx \<Rightarrow> int \<Rightarrow> bytes \<Rightarrow> bytes" where
  "hmac_init_trace ax c algo key =
     (case hmac_sizes algo of
        None \<Rightarrow> []
      | Some (block_size, hash_size) \<Rightarrow>
          let k_block = hmac_key_block ax c algo block_size key;
              k_ipad = map (\<lambda>i. k_block ! i XOR 0x36) [0..<block_size]
          in (if length key > block_size then hash_init_trace ax algo @ hash_update_trace algo key else [])
             @ hash_init_trace ax algo @ hash_update_trace algo k_ipad)"

subsection \<open>The trace of the key exchange\<close>

definition curve25519_gen_k_trace :: "nacl \<Rightarrow> bn_impl option \<Rightarrow> bytes \<Rightarrow> bytes \<Rightarrow> bytes" where
  "curve25519_gen_k_trace na k priv spub =
     str ''[cv:kE]''
     @ (case k of
          None \<Rightarrow> []
        | Some b \<Rightarrow>
            (case crypto_scalarmult na priv spub of
               None \<Rightarrow> str ''[cv:kFail]''
             | Some secret \<Rightarrow>
                 str ''[K:''
                 @ concat (map (\<lambda>i. [hex_tab ! unat (drop_bit 4 (secret ! i) AND 0xF), hex_tab ! unat (secret ! i AND 0xF)]) [0..<8])
                 @ [0x5D] @ str ''[cv:kM]'' @ str ''[cv:kB]''))"

subsection \<open>HMAC per algorithm\<close>

definition libssh2_hmac_md5_init :: "'c axtls_hashes \<Rightarrow> 'c hash_ctx \<Rightarrow> 'c hmac_ctx \<Rightarrow> bytes \<Rightarrow> bool \<times> 'c hmac_ctx" where
  "libssh2_hmac_md5_init ax c ctx key = hmac_init ax c ctx LIBSSH2_AXTLS_HASH_MD5 key"

definition libssh2_hmac_sha1_init :: "'c axtls_hashes \<Rightarrow> 'c hash_ctx \<Rightarrow> 'c hmac_ctx \<Rightarrow> bytes \<Rightarrow> bool \<times> 'c hmac_ctx" where
  "libssh2_hmac_sha1_init ax c ctx key = hmac_init ax c ctx LIBSSH2_AXTLS_HASH_SHA1 key"

definition libssh2_hmac_sha256_init :: "'c axtls_hashes \<Rightarrow> 'c hash_ctx \<Rightarrow> 'c hmac_ctx \<Rightarrow> bytes \<Rightarrow> bool \<times> 'c hmac_ctx" where
  "libssh2_hmac_sha256_init ax c ctx key = hmac_init ax c ctx LIBSSH2_AXTLS_HASH_SHA256 key"

definition libssh2_hmac_sha512_init :: "'c axtls_hashes \<Rightarrow> 'c hash_ctx \<Rightarrow> 'c hmac_ctx \<Rightarrow> bytes \<Rightarrow> bool \<times> 'c hmac_ctx" where
  "libssh2_hmac_sha512_init ax c ctx key = hmac_init ax c ctx LIBSSH2_AXTLS_HASH_SHA512 key"

subsection \<open>Unsupported entry points\<close>

definition chachapoly_init :: "'m \<Rightarrow> int \<times> 'm" where "chachapoly_init m = (-1, m)"
definition chachapoly_crypt :: "'m \<Rightarrow> int \<times> 'm" where "chachapoly_crypt m = (-1, m)"
definition chachapoly_get_length :: "'m \<Rightarrow> int \<times> 'm" where "chachapoly_get_length m = (-1, m)"
definition posix_select :: "'m \<Rightarrow> int \<times> 'm" where "posix_select m = (-1, m)"
definition posix_recv :: "'m \<Rightarrow> int \<times> 'm" where "posix_recv m = (-1, m)"
definition posix_send :: "'m \<Rightarrow> int \<times> 'm" where "posix_send m = (-1, m)"
definition ed25519_new_private_file :: "'m \<Rightarrow> int \<times> 'm" where "ed25519_new_private_file m = (-1, m)"
definition rsa_new :: "'m \<Rightarrow> int \<times> 'm" where "rsa_new m = (-1, m)"
definition rsa_new_private :: "'m \<Rightarrow> int \<times> 'm" where "rsa_new_private m = (-1, m)"
definition rsa_new_private_frommemory :: "'m \<Rightarrow> int \<times> 'm" where "rsa_new_private_frommemory m = (-1, m)"
definition rsa_sha1_sign :: "'m \<Rightarrow> int \<times> 'm" where "rsa_sha1_sign m = (-1, m)"
definition rsa_sha2_sign :: "'m \<Rightarrow> int \<times> 'm" where "rsa_sha2_sign m = (-1, m)"
definition rsa_sha1_verify :: "'m \<Rightarrow> int \<times> 'm" where "rsa_sha1_verify m = (-1, m)"
definition rsa_sha2_verify :: "'m \<Rightarrow> int \<times> 'm" where "rsa_sha2_verify m = (-1, m)"
definition pub_priv_keyfile :: "'m \<Rightarrow> int \<times> 'm" where "pub_priv_keyfile m = (-1, m)"
definition sk_pub_keyfilememory :: "'m \<Rightarrow> int \<times> 'm" where "sk_pub_keyfilememory m = (-1, m)"
definition bcrypt_pbkdf :: "'m \<Rightarrow> int \<times> 'm" where "bcrypt_pbkdf m = (-1, m)"
definition dh_key_pair :: "'m \<Rightarrow> int \<times> 'm" where "dh_key_pair m = (-1, m)"
definition dh_secret :: "'m \<Rightarrow> int \<times> 'm" where "dh_secret m = (-1, m)"

text \<open>No signature algorithm is offered as an upgrade: the null pointer.\<close>

definition supported_key_sign_algorithms :: "bytes option" where
  "supported_key_sign_algorithms = None"

text \<open>An RSA context holds axTLS's context or null; the calls of \<open>RSA_free\<close> are logged.\<close>

definition rsa_free :: "'r option option \<Rightarrow> 'r list \<Rightarrow> 'r option option \<times> 'r list" where
  "rsa_free rsactx freed =
     (case rsactx of
        Some (Some ctx) \<Rightarrow> (Some None, freed @ [ctx])
      | _ \<Rightarrow> (rsactx, freed))"

section \<open>Lemmas\<close>

lemma hex_pair_all:
  "\<forall>n\<in>set [0..<256]. (word_of_nat (hex_val [hex_tab ! unat (drop_bit 4 (word_of_nat n :: byte) AND 0xF),
     hex_tab ! unat (word_of_nat n AND 0xF :: byte)]) :: byte) = word_of_nat n"
  by code_simp

lemma hex_pair: "word_of_nat (hex_val [hex_tab ! unat (drop_bit 4 b AND 0xF), hex_tab ! unat (b AND 0xF)]) = (b :: byte)"
  by (rule byte_forall_upt[OF hex_pair_all])

text \<open>Reading hexadecimal digits back.\<close>

fun unhex :: "bytes \<Rightarrow> bytes" where
  "unhex (a # b # ds) = word_of_nat (hex_val [a, b]) # unhex ds"
| "unhex _ = []"

lemma unhex_pairs:
  "unhex (concat (map (\<lambda>i. [hex_tab ! unat (drop_bit 4 (f i) AND 0xF), hex_tab ! unat (f i AND 0xF)]) is)) = map f is"
  by (induction "is") (simp_all add: hex_pair)

lemma take_drop_middle: "length a = n \<Longrightarrow> length b = m \<Longrightarrow> take m (drop n (a @ b @ c)) = b"
  by simp

lemma rsa_free_once: "rsa_free (fst (rsa_free r freed)) (snd (rsa_free r freed)) = rsa_free r freed"
  by (auto simp: rsa_free_def split: option.splits)

lemma trace_tail:
  "data \<noteq> [] \<Longrightarrow> drop 9 (hash_update_trace LIBSSH2_AXTLS_HASH_SHA256 data)
     = [hex_tab ! unat (drop_bit 4 (hd data) AND 0xF), hex_tab ! unat (hd data AND 0xF), 0x5D]"
  by (cases data) (simp_all add: hash_update_trace_def Let_def str_def)

section \<open>Properties\<close>

text \<open>
  The trace of the hash gives key material away. Setting up HMAC-SHA-256 with a key of 1 to 64 bytes,
  as every session with \<open>hmac-sha2-256\<close> does, prints a line whose two hexadecimal digits are the first
  byte of the integrity key, but for the constant 36h of the inner pad.
\<close>

theorem hmac_trace_shows_key:
  assumes "key \<noteq> []" "length key \<le> 64"
  shows "word_of_nat (hex_val (take 2 (drop 9 (hmac_init_trace ax c LIBSSH2_AXTLS_HASH_SHA256 key)))) XOR 0x36 = key ! 0"
proof -
  let ?ipad = "map (\<lambda>i. hmac_key_block ax c LIBSSH2_AXTLS_HASH_SHA256 64 key ! i XOR 0x36) [0..<64]"
  have "hmac_key_block ax c LIBSSH2_AXTLS_HASH_SHA256 64 key ! 0 = key ! 0"
    using assms(1,2) by (simp add: hmac_key_block_def put_def nth_append)
  then have hd: "hd ?ipad = key ! 0 XOR 0x36" by (simp add: hd_map)
  have "hmac_init_trace ax c LIBSSH2_AXTLS_HASH_SHA256 key = hash_update_trace LIBSSH2_AXTLS_HASH_SHA256 ?ipad"
    using assms(2) by (simp add: hmac_init_trace_def hmac_sizes_def hash_init_trace_def hash_switch_def Let_def)
  moreover have "drop 9 (hash_update_trace LIBSSH2_AXTLS_HASH_SHA256 ?ipad)
      = [hex_tab ! unat (drop_bit 4 (hd ?ipad) AND 0xF), hex_tab ! unat (hd ?ipad AND 0xF), 0x5D]"
    by (rule trace_tail) simp
  ultimately have "take 2 (drop 9 (hmac_init_trace ax c LIBSSH2_AXTLS_HASH_SHA256 key))
      = [hex_tab ! unat (drop_bit 4 (hd ?ipad) AND 0xF), hex_tab ! unat (hd ?ipad AND 0xF)]"
    by (simp only:) simp
  then show ?thesis by (simp only: hex_pair hd) (simp add: xor.assoc)
qed

theorem hmac_trace_shows_key_witness:
  "word_of_nat (hex_val (take 2 (drop 9 (hmac_init_trace \<lparr>SHA1 = sha256_digest, SHA256 = sha256_digest,
      SHA384 = sha256_digest, SHA512 = sha256_digest, MD5 = sha256_digest\<rparr>
      \<lparr>hc_algo = 0, hc_storage = sha256_init (replicate 64 0)\<rparr> LIBSSH2_AXTLS_HASH_SHA256 [0xA7, 1, 2])))) XOR 0x36 = (0xA7 :: byte)"
  by (subst hmac_trace_shows_key) simp_all

text \<open>
  The trace of the key exchange gives the first eight bytes of the shared secret away: whenever the
  exchange computes a secret, the sixteen hexadecimal digits after its second tag are those bytes.
\<close>

theorem kex_trace_shows_secret:
  assumes "crypto_scalarmult na priv spub = Some secret" "8 \<le> length secret"
  shows "unhex (take 16 (drop 10 (curve25519_gen_k_trace na (Some b) priv spub))) = take 8 secret"
proof -
  let ?ds = "concat (map (\<lambda>i. [hex_tab ! unat (drop_bit 4 (secret ! i) AND 0xF), hex_tab ! unat (secret ! i AND 0xF)]) [0..<8])"
  have len: "length ?ds = 16" by (simp add: length_concat comp_def sum_list_triv)
  have "curve25519_gen_k_trace na (Some b) priv spub
      = (str ''[cv:kE]'' @ str ''[K:'') @ ?ds @ [0x5D] @ str ''[cv:kM]'' @ str ''[cv:kB]''"
    using assms(1) by (simp add: curve25519_gen_k_trace_def)
  moreover have "length (str ''[cv:kE]'' @ str ''[K:'') = 10" by (simp add: str_def)
  ultimately have "take 16 (drop 10 (curve25519_gen_k_trace na (Some b) priv spub)) = ?ds"
    using take_drop_middle[OF _ len] by (simp only:)
  then have "unhex (take 16 (drop 10 (curve25519_gen_k_trace na (Some b) priv spub))) = map ((!) secret) [0..<8]"
    by (simp only: unhex_pairs[of "(!) secret"])
  then show ?thesis using assms(2) by (auto intro: nth_equalityI)
qed

theorem kex_trace_shows_secret_witness:
  "unhex (take 16 (drop 10 (curve25519_gen_k_trace toy_nacl (Some bn_init) (replicate 32 3) (replicate 32 5))))
     = take 8 (the (crypto_scalarmult toy_nacl (replicate 32 3) (replicate 32 5)))"
  by (rule kex_trace_shows_secret) (simp_all add: toy_nacl_def)

end
