(* ===== verification/Ssh_Policy.thy ===== *)
theory Ssh_Policy
  imports Ssh_Safety
begin

text \<open>
  What the ssh module lets libssh2 negotiate and in which order it proceeds: no handshake before the six
  algorithm preferences of \<open>ssh_session_make_new\<close> have been accepted for the session, and no credentials,
  commands or transfers before the handshake of the session has succeeded. Both are read off the trace
  of calls and hold in every state a program reaches.
\<close>

section \<open>The order of the calls\<close>

definition policy :: "(ssh_method \<times> string) list" where
  "policy =
     [(METHOD_HOSTKEY, ''ssh-ed25519''), (METHOD_KEX, ''curve25519-sha256,curve25519-sha256@libssh.org''),
      (METHOD_CRYPT_CS, ''aes256-ctr,aes128-ctr''), (METHOD_CRYPT_SC, ''aes256-ctr,aes128-ctr''),
      (METHOD_MAC_CS, ''hmac-sha2-256,hmac-sha1''), (METHOD_MAC_SC, ''hmac-sha2-256,hmac-sha1'')]"

text \<open>The preference in force for a session: the last one accepted since the session was created.\<close>

fun pref_of :: "int \<Rightarrow> ssh_method \<Rightarrow> trace \<Rightarrow> string option" where
  "pref_of p m [] = None"
| "pref_of p m ((Session_init, r) # t) = (if r_val r = p then None else pref_of p m t)"
| "pref_of p m ((Method_pref q k v, r) # t) = (if q = p \<and> k = m \<and> r_val r = 0 then Some v else pref_of p m t)"
| "pref_of p m (_ # t) = pref_of p m t"

text \<open>The last handshake of a session, since it was created, succeeded.\<close>

fun secured :: "int \<Rightarrow> trace \<Rightarrow> bool" where
  "secured p [] = False"
| "secured p ((Session_init, r) # t) = (r_val r \<noteq> p \<and> secured p t)"
| "secured p ((Handshake q fd, r) # t) = (if q = p then r_val r = 0 else secured p t)"
| "secured p (_ # t) = secured p t"

text \<open>The calls that send something over a session.\<close>

fun uses_session :: "call \<Rightarrow> int option" where
  "uses_session (Userauth_password p u pw) = Some p"
| "uses_session (Userauth_publickey p u pub priv pass) = Some p"
| "uses_session (Channel_open p) = Some p"
| "uses_session (Scp_recv p path) = Some p"
| "uses_session (Scp_send p path mode n) = Some p"
| "uses_session (Sftp_init p) = Some p"
| "uses_session _ = None"

fun in_order :: "call \<Rightarrow> trace \<Rightarrow> bool" where
  "in_order (Handshake p fd) t = (\<forall>(m, v) \<in> set policy. pref_of p m t = Some v)"
| "in_order c t = (case uses_session c of None \<Rightarrow> True | Some p \<Rightarrow> secured p t)"

fun ordered :: "trace \<Rightarrow> bool" where
  "ordered [] = True"
| "ordered ((c, r) # t) = (ordered t \<and> in_order c t)"

section \<open>Lemmas\<close>

subsection \<open>Calls that change neither\<close>

definition tame_call :: "int set \<Rightarrow> call \<Rightarrow> bool" where
  "tame_call S c \<longleftrightarrow> c \<noteq> Session_init \<and> (\<forall>p fd. c \<noteq> Handshake p fd) \<and> (\<forall>p. uses_session c = Some p \<longrightarrow> p \<in> S)"

definition tame :: "int set \<Rightarrow> 'w ssh \<Rightarrow> 'w ssh \<Rightarrow> bool" where
  "tame S a b \<longleftrightarrow> (\<exists>x. calls b = x @ calls a \<and> (\<forall>(c, r) \<in> set x. tame_call S c))
     \<and> (\<forall>y\<in>set (sessions b). session y = 0 \<or> session y \<in> session ` set (sessions a))"

lemma tame_call_mono: "tame_call S c \<Longrightarrow> S \<subseteq> T \<Longrightarrow> tame_call T c"
  unfolding tame_call_def by blast

lemma secured_tame: "tame_call S c \<Longrightarrow> secured p ((c, r) # t) = secured p t"
  by (cases c) (auto simp: tame_call_def)

lemma in_order_tame: "tame_call S c \<Longrightarrow> \<forall>p\<in>S. secured p t \<Longrightarrow> in_order c t"
  by (cases c) (auto simp: tame_call_def)

lemma ordered_append:
  assumes "\<forall>(c, r) \<in> set x. tame_call S c" "\<forall>p\<in>S. secured p t" "ordered t"
  shows "ordered (x @ t) \<and> (\<forall>p. secured p (x @ t) = secured p t)"
  using assms(1)
proof (induction x)
  case (Cons e x)
  then have *: "ordered (x @ t)" "\<forall>p. secured p (x @ t) = secured p t" by auto
  obtain c r where e: "e = (c, r)" "tame_call S c" using Cons.prems by (cases e) auto
  then show ?case using * assms(2) secured_tame[OF e(2)] in_order_tame[OF e(2), of "x @ t"] by simp
qed (use assms(3) in simp)

lemma tame_refl [simp, intro]: "tame S a a"
  by (force simp: tame_def)

lemma tame_trans: "tame S a b \<Longrightarrow> tame S b c \<Longrightarrow> tame S a c"
  unfolding tame_def
proof (elim conjE exE, intro conjI)
  fix x y
  assume *: "calls b = x @ calls a" "\<forall>(c, r)\<in>set x. tame_call S c" "calls c = y @ calls b" "\<forall>(c, r)\<in>set y. tame_call S c"
  then show "\<exists>x. calls c = x @ calls a \<and> (\<forall>(c, r)\<in>set x. tame_call S c)" by (intro exI[of _ "y @ x"]) auto
qed force

lemma tame_objects [simp]:
  "tame S a (b\<lparr>sftps := x\<rparr>) = tame S a b" "tame S a (b\<lparr>files := y\<rparr>) = tame S a b" "tame S a (b\<lparr>dirs := z\<rparr>) = tame S a b"
  "tame S a (b\<lparr>initialized := i\<rparr>) = tame S a b"
  by (simp_all add: tame_def)

lemma tame_update:
  assumes "tame S a b" "session f = 0 \<or> session f = session (sessions b ! i)"
  shows "tame S a (b\<lparr>sessions := (sessions b)[i := f]\<rparr>)"
proof (cases "i < length (sessions b)")
  case True
  then have "sessions b ! i \<in> set (sessions b)" by simp
  with assms show ?thesis unfolding tame_def
    by (auto dest!: set_update_subset_insert[THEN subsetD])
next
  case False
  then show ?thesis using assms(1) by (simp add: tame_def list_update_beyond)
qed

lemma tame_invoke: "invoke l c s = (r, t) \<Longrightarrow> tame_call S c \<Longrightarrow> tame S a s \<Longrightarrow> tame S a t"
  by (rule tame_trans, assumption) (auto simp: tame_def elim!: invokeE)

lemma tame_run: "tame_call S c \<Longrightarrow> tame S a s \<Longrightarrow> tame S a (run l c s)"
  unfolding run_def by (metis prod.collapse tame_invoke)

lemma tame_extends: "extends P s t \<Longrightarrow> \<forall>c. P c \<longrightarrow> tame_call S c \<Longrightarrow> tame S a s \<Longrightarrow> tame S a t"
  by (rule tame_trans, assumption) (force simp: tame_def extends_def)

lemma tame_raise: "tame S a s \<Longrightarrow> tame S a (snd (ssh_raise_session_error l ses err fallback s))"
  unfolding snd_raise by (rule tame_run) (simp_all add: tame_call_def)

text \<open>Calls on channels and files are tame, for any set of sessions.\<close>

lemma channel_tame: "on_channel q c \<Longrightarrow> tame_call S c"
proof -
  assume a: "on_channel q c"
  then have "call_ok {Session p} c = (\<exists>h\<in>{Session p}. is_channel q h)" for p
    unfolding on_channel_def by blast
  then have "\<not> call_ok {Session p} c" for p by simp
  with a show ?thesis
    by (cases c) (auto simp: on_channel_def tame_call_def plain_def)
qed

lemma file_tame: "on_file q c \<Longrightarrow> tame_call S c"
proof -
  assume a: "on_file q c"
  then have "call_ok {Session p} c = (\<exists>h\<in>{Session p}. is_file q h)" for p
    unfolding on_file_def by blast
  then have "\<not> call_ok {Session p} c" for p by simp
  with a show ?thesis
    by (cases c) (auto simp: on_file_def tame_call_def plain_def)
qed

subsection \<open>The operations\<close>

text \<open>The sessions that are open in a state.\<close>

definition open_sessions :: "'w ssh \<Rightarrow> int set" where
  "open_sessions s = {p \<in> session ` set (sessions s). p \<noteq> 0}"

lemma open_sessions_at [simp]:
  "i < length (sessions s) \<Longrightarrow> session (sessions s ! i) \<noteq> 0 \<Longrightarrow> session (sessions s ! i) \<in> open_sessions s"
  by (simp add: open_sessions_def)

lemmas tame_intros = tame_run tame_raise tame_refl

lemma tame_password: "i < length (sessions s) \<Longrightarrow> tame (open_sessions s) s (snd (ssh_session_userauth_password l i user pw s))"
  by (auto simp: ssh_session_userauth_password_def Let_def tame_call_def split: prod.splits
      intro!: tame_intros tame_update elim!: tame_invoke)

lemma tame_publickey: "i < length (sessions s) \<Longrightarrow> tame (open_sessions s) s (snd (ssh_session_userauth_publickey l i user priv pub pass s))"
  by (auto simp: ssh_session_userauth_publickey_def Let_def tame_call_def split: prod.splits
      intro!: tame_intros tame_update elim!: tame_invoke)

lemma tame_sftp_ops:
  "tame S s (snd (ssh_sftp_mkdir l j path mode s))" "tame S s (snd (ssh_sftp_rmdir l j path s))"
  "tame S s (snd (ssh_sftp_unlink l j path s))" "tame S s (snd (ssh_sftp_rename l j path path' s))"
  "tame S s (snd (ssh_sftp_stat l j path s))" "tame S s (snd (ssh_sftp_realpath l j path s))"
  "tame S s (snd (ssh_sftp_open l j path fmode s))" "tame S s (snd (ssh_sftp_opendir l j path s))"
  "tame S s (snd (ssh_sftp_close l j s))" "tame S s (snd (ssh_sftp_file_close l j s))"
  "tame S s (snd (ssh_sftp_dir_close l j s))" "tame S s (snd (ssh_sftp_dir_read l j s))"
  by (auto simp: ssh_sftp_mkdir_def ssh_sftp_rmdir_def ssh_sftp_unlink_def ssh_sftp_rename_def ssh_sftp_stat_def
      ssh_sftp_realpath_def ssh_sftp_open_def ssh_sftp_opendir_def ssh_sftp_close_def ssh_sftp_file_close_def
      ssh_sftp_dir_close_def ssh_sftp_dir_read_def Let_def tame_call_def split: prod.splits option.splits
      intro!: tame_intros elim!: tame_invoke)

lemma tame_channel: "extends (on_channel ch) s t \<Longrightarrow> tame S a s \<Longrightarrow> tame S a t"
  by (rule tame_extends) (auto intro: channel_tame)

lemma tame_file: "extends (on_file h) s t \<Longrightarrow> tame S a s \<Longrightarrow> tame S a t"
  by (rule tame_extends) (auto intro: file_tame)

lemma tame_loops:
  "exec_loop l ch v s = Some (y, t) \<Longrightarrow> tame S a s \<Longrightarrow> tame S a t"
  "scp_recv_loop l ch v k s = Some (y, t) \<Longrightarrow> tame S a s \<Longrightarrow> tame S a t"
  "scp_write_loop l ch v s = Some (z, t) \<Longrightarrow> tame S a s \<Longrightarrow> tame S a t"
  "scp_nul_loop l ch s = Some t \<Longrightarrow> tame S a s \<Longrightarrow> tame S a t"
  "sftp_read_loop l ch m v s = Some (y, t) \<Longrightarrow> tame S a s \<Longrightarrow> tame S a t"
  "sftp_write_loop l ch v s = (u, t) \<Longrightarrow> tame S a s \<Longrightarrow> tame S a t"
  using tame_channel[OF exec_loop_extends] tame_channel[OF scp_recv_loop_extends] tame_channel[OF scp_write_loop_extends]
    tame_channel[OF scp_nul_loop_extends] tame_file[OF sftp_read_loop_extends] tame_file[OF sftp_write_loop_extends]
  by (metis snd_conv)+

lemma tame_file_ops:
  "ssh_sftp_file_read l k n s = Some y \<Longrightarrow> tame S s (snd y)" "tame S s (snd (ssh_sftp_file_write l k data s))"
  by (auto simp: ssh_sftp_file_read_def ssh_sftp_file_write_def Let_def
      split: prod.splits option.splits sum.splits if_splits intro!: tame_intros elim!: tame_loops)

lemma tame_exec:
  "i < length (sessions s) \<Longrightarrow> ssh_session_exec l i cmd s = Some y \<Longrightarrow> tame (open_sessions s) s (snd y)"
  by (auto simp: ssh_session_exec_def Let_def tame_call_def
      split: prod.splits option.splits sum.splits if_splits intro!: tame_intros elim!: tame_loops tame_invoke)

lemma tame_scp_recv:
  "i < length (sessions s) \<Longrightarrow> ssh_session_scp_recv l i path s = Some y \<Longrightarrow> tame (open_sessions s) s (snd y)"
  by (auto simp: ssh_session_scp_recv_def Let_def tame_call_def
      split: prod.splits option.splits sum.splits if_splits intro!: tame_intros elim!: tame_loops tame_invoke)

lemma tame_scp_send:
  "i < length (sessions s) \<Longrightarrow> ssh_session_scp_send l i path mode data s = Some y \<Longrightarrow> tame (open_sessions s) s (snd y)"
  by (auto simp: ssh_session_scp_send_def Let_def tame_call_def
      split: prod.splits option.splits sum.splits if_splits intro!: tame_intros elim!: tame_loops tame_invoke)

lemma tame_session_ops:
  "i < length (sessions s) \<Longrightarrow> tame (open_sessions s) s (snd (ssh_session_sftp l i s))"
  "tame S s (snd (ssh_session_close l i s))"
  by (auto simp: ssh_session_sftp_def ssh_session_close_def Let_def tame_call_def split: prod.splits
      intro!: tame_intros tame_update elim!: tame_invoke)

text \<open>Every operation but \<open>Session()\<close>.\<close>

lemma perform_tame:
  assumes "perform l c s = Some t" "has_object c s" "\<forall>so f. c \<noteq> New_session so f"
  shows "tame (open_sessions s) s t"
  using assms by (cases c) (auto intro: tame_password tame_publickey tame_sftp_ops tame_file_ops(2) tame_session_ops
      dest: tame_exec tame_scp_recv tame_scp_send tame_file_ops(1))

subsection \<open>\<open>Session()\<close>\<close>

lemma pref_set:
  assumes "invoke l (Method_pref p m v) s = (q, t)" "tame {} a s"
  shows "tame {} a t" "r_val q = 0 \<Longrightarrow> pref_of p k (calls t) = (if k = m then Some v else pref_of p k (calls s))"
  using assms by (auto intro: tame_invoke simp: tame_call_def elim: invokeE)

lemma pref_set2:
  assumes "method_pref2 l p m1 m2 v s = (q, t)" "tame {} a s"
  shows "tame {} a t"
    "q = 0 \<Longrightarrow> pref_of p k (calls t) = (if k = m1 \<or> k = m2 then Some v else pref_of p k (calls s))"
proof -
  obtain q\<^sub>1 b where b: "invoke l (Method_pref p m1 v) s = (q\<^sub>1, b)" by fastforce
  obtain q\<^sub>2 c where c: "invoke l (Method_pref p m2 v) b = (q\<^sub>2, c)" by fastforce
  note b' = pref_set[OF b assms(2)]
  note c' = pref_set[OF c b'(1)]
  from assms(1) b'(1) c'(1) show "tame {} a t"
    by (auto simp: method_pref2_def Let_def b c split: if_splits)
  assume "q = 0"
  with assms(1) show "pref_of p k (calls t) = (if k = m1 \<or> k = m2 then Some v else pref_of p k (calls s))"
    using b'(2)[of k] c'(2)[of k] by (auto simp: method_pref2_def Let_def b c split: if_splits)
qed

lemma make_new_order:
  assumes "invoke l Session_init (ssh_lazy_init l s) = (r, a)" "ssh_session_make_new l so is_stream s = (res, t)"
  obtains (refused) "t = ssh_lazy_init l s"
    | (early) "tame {} a t"
    | (failed) b q c where "tame {} a b" "\<forall>(m, v) \<in> set policy. pref_of (r_val r) m (calls b) = Some v"
        "invoke l (Handshake (r_val r) 0) b = (q, c)" "tame {} c t"
    | (secure) b q c where "tame {} a b" "\<forall>(m, v) \<in> set policy. pref_of (r_val r) m (calls b) = Some v"
        "invoke l (Handshake (r_val r) 0) b = (q, c)" "r_val q = 0"
        "t = c\<lparr>sessions := sessions c @ [\<lparr>session = r_val r, sock = so, authenticated = False\<rparr>]\<rparr>"
proof -
  let ?p = "r_val r"
  define b where "b = run l (Callback_set ?p CALLBACK_SEND) (run l (Callback_set ?p CALLBACK_RECV) (run l (Set_abstract ?p so) a))"
  obtain q\<^sub>1 c\<^sub>1 where c\<^sub>1: "invoke l (Method_pref ?p METHOD_HOSTKEY ''ssh-ed25519'') b = (q\<^sub>1, c\<^sub>1)" by fastforce
  obtain q\<^sub>2 c\<^sub>2 where c\<^sub>2: "invoke l (Method_pref ?p METHOD_KEX ''curve25519-sha256,curve25519-sha256@libssh.org'') c\<^sub>1 = (q\<^sub>2, c\<^sub>2)"
    by fastforce
  obtain q\<^sub>3 c\<^sub>3 where c\<^sub>3: "method_pref2 l ?p METHOD_CRYPT_CS METHOD_CRYPT_SC ''aes256-ctr,aes128-ctr'' c\<^sub>2 = (q\<^sub>3, c\<^sub>3)"
    by fastforce
  obtain q\<^sub>4 c\<^sub>4 where c\<^sub>4: "method_pref2 l ?p METHOD_MAC_CS METHOD_MAC_SC ''hmac-sha2-256,hmac-sha1'' c\<^sub>3 = (q\<^sub>4, c\<^sub>4)"
    by fastforce
  define c\<^sub>5 where "c\<^sub>5 = run l (Set_blocking ?p 1) c\<^sub>4"
  obtain q\<^sub>6 c\<^sub>6 where c\<^sub>6: "invoke l (Handshake ?p 0) c\<^sub>5 = (q\<^sub>6, c\<^sub>6)" by fastforce
  have "tame {} a b" unfolding b_def by (intro tame_run) (simp_all add: tame_call_def)
  note e\<^sub>1 = pref_set(1)[OF c\<^sub>1 this] and p\<^sub>1 = pref_set(2)[OF c\<^sub>1 this]
  note e\<^sub>2 = pref_set(1)[OF c\<^sub>2 e\<^sub>1] and p\<^sub>2 = pref_set(2)[OF c\<^sub>2 e\<^sub>1]
  note e\<^sub>3 = pref_set2(1)[OF c\<^sub>3 e\<^sub>2] and p\<^sub>3 = pref_set2(2)[OF c\<^sub>3 e\<^sub>2]
  note e\<^sub>4 = pref_set2(1)[OF c\<^sub>4 e\<^sub>3] and p\<^sub>4 = pref_set2(2)[OF c\<^sub>4 e\<^sub>3]
  have e\<^sub>5: "tame {} a c\<^sub>5" unfolding c\<^sub>5_def by (rule tame_run[OF _ e\<^sub>4]) (simp add: tame_call_def)
  have p\<^sub>5: "pref_of ?p k (calls c\<^sub>5) = pref_of ?p k (calls c\<^sub>4)" for k
    unfolding c\<^sub>5_def by (rule runE[of l "Set_blocking ?p 1" c\<^sub>4]) simp
  have set: "\<forall>(m, v) \<in> set policy. pref_of ?p m (calls c\<^sub>5) = Some v" if "r_val q\<^sub>1 = 0" "r_val q\<^sub>2 = 0" "q\<^sub>3 = 0" "q\<^sub>4 = 0"
    using that p\<^sub>1 p\<^sub>2 p\<^sub>3 p\<^sub>4 p\<^sub>5 by (simp add: policy_def)
  note calls = assms(1) c\<^sub>1 c\<^sub>2 c\<^sub>3 c\<^sub>4 c\<^sub>6 b_def[symmetric] c\<^sub>5_def[symmetric]
  have t: "t = snd (ssh_session_make_new l so is_stream s)" using assms(2) by simp
  let ?ok = "r_val q\<^sub>1 = 0 \<and> r_val q\<^sub>2 = 0 \<and> q\<^sub>3 = 0 \<and> q\<^sub>4 = 0"
  have "t = ssh_lazy_init l s \<or> tame {} a t \<or> (?ok \<and> tame {} c\<^sub>6 t) \<or> (?ok \<and> r_val q\<^sub>6 = 0
      \<and> t = c\<^sub>6\<lparr>sessions := sessions c\<^sub>6 @ [\<lparr>session = ?p, sock = so, authenticated = False\<rparr>]\<rparr>)"
    unfolding t using e\<^sub>1 e\<^sub>2 e\<^sub>3 e\<^sub>4
    by (auto simp: ssh_session_make_new_def Let_def calls intro: tame_raise)
  then show ?thesis
    using that set e\<^sub>5 c\<^sub>6 by metis
qed

subsection \<open>The invariant\<close>

definition order_inv :: "'w ssh \<Rightarrow> bool" where
  "order_inv s \<longleftrightarrow> (fresh (calls s) \<longrightarrow> ordered (calls s) \<and> (\<forall>p\<in>open_sessions s. secured p (calls s)))"

lemma order_tame:
  assumes "tame (open_sessions s) s t" "order_inv s"
  shows "order_inv t"
  unfolding order_inv_def
proof
  assume f: "fresh (calls t)"
  obtain x where x: "calls t = x @ calls s" "\<forall>(c, r)\<in>set x. tame_call (open_sessions s) c"
    and o: "open_sessions t \<subseteq> open_sessions s"
    using assms(1) unfolding tame_def open_sessions_def by auto
  from f x(1) have "fresh (calls s)" by (simp add: fresh_append)
  with assms(2) have s: "ordered (calls s)" "\<forall>p\<in>open_sessions s. secured p (calls s)" by (simp_all add: order_inv_def)
  with ordered_append[OF x(2)] x(1) o show "ordered (calls t) \<and> (\<forall>p\<in>open_sessions t. secured p (calls t))" by auto
qed

text \<open>Calls between \<open>Session_init\<close> and the end of \<open>Session()\<close>.\<close>

lemma tame_fresh: "tame S a b \<Longrightarrow> fresh (calls b) \<Longrightarrow> fresh (calls a)"
  unfolding tame_def using fresh_append by metis

lemma order_tail:
  assumes "tame {} a b" "ordered (calls a)"
  shows "ordered (calls b)" "secured p (calls b) = secured p (calls a)" "open_sessions b \<subseteq> open_sessions a"
proof -
  obtain x where x: "calls b = x @ calls a" "\<forall>(c, r)\<in>set x. tame_call {} c"
    and o: "open_sessions b \<subseteq> open_sessions a"
    using assms(1) unfolding tame_def open_sessions_def by auto
  with ordered_append[OF x(2) _ assms(2)]
  show "ordered (calls b)" "secured p (calls b) = secured p (calls a)" "open_sessions b \<subseteq> open_sessions a" by auto
qed

lemma order_handshake:
  assumes "invoke l (Handshake p 0) b = (q, c)" "\<forall>(m, v) \<in> set policy. pref_of p m (calls b) = Some v" "ordered (calls b)"
  shows "ordered (calls c)" "secured k (calls c) = (if k = p then r_val q = 0 else secured k (calls b))"
    "open_sessions c = open_sessions b" "fresh (calls c) = fresh (calls b)"
  using assms by (auto elim!: invokeE simp: open_sessions_def)

lemma invoke_fresh: "invoke l c s = (r, t) \<Longrightarrow> fresh (calls t) \<Longrightarrow> fresh (calls s)"
  by (auto elim: invokeE)

lemma lazy_tame: "tame S s (ssh_lazy_init l s)"
  by (auto simp: ssh_lazy_init_def intro!: tame_run simp: tame_call_def)

lemma order_make_new:
  assumes "order_inv s" "ssh_inv s"
  shows "order_inv (snd (ssh_session_make_new l so is_stream s))"
proof -
  obtain res t where t: "ssh_session_make_new l so is_stream s = (res, t)" by fastforce
  obtain r a where a: "invoke l Session_init (ssh_lazy_init l s) = (r, a)" by fastforce
  have z: "order_inv (ssh_lazy_init l s)" using lazy_tame assms(1) by (rule order_tame)
  have za: "calls a = (Session_init, r) # calls (ssh_lazy_init l s)" "sessions a = sessions (ssh_lazy_init l s)"
    using a by (auto elim: invokeE)
  have fa: "ordered (calls a) \<and> (\<forall>p\<in>open_sessions a. secured p (calls a) \<and> p \<noteq> r_val r)" if "fresh (calls a)"
  proof -
    have "objs_ok (ssh_lazy_init l s)" using inv_lazy_init[OF assms(2), of l] that za(1) by (auto simp: ssh_inv_def)
    then have "\<forall>p\<in>open_sessions a. Session p \<in> live (calls (ssh_lazy_init l s)) \<and> p \<noteq> 0"
      using za(2) by (auto simp: objs_ok_def open_sessions_def)
    then have "\<forall>p\<in>open_sessions a. p \<noteq> r_val r" using that za(1) by fastforce
    with z that za show ?thesis by (auto simp: order_inv_def open_sessions_def)
  qed
  show ?thesis
    using a t
  proof (cases rule: make_new_order)
    case refused
    with z t show ?thesis by simp
  next
    case early
    with order_tail[OF early] tame_fresh[OF early] fa t show ?thesis by (auto simp: order_inv_def)
  next
    case (failed b q c)
    show ?thesis unfolding order_inv_def t snd_conv
    proof
      assume "fresh (calls t)"
      then have "fresh (calls a)" using failed(1,3,4) tame_fresh invoke_fresh by metis
      note a = fa[OF this] and b = order_tail[OF failed(1) conjunct1[OF fa[OF this]]]
      note c = order_handshake[OF failed(3,2) b(1)]
      note d = order_tail[OF failed(4) c(1)]
      from a b(2,3) c(2,3) d show "ordered (calls t) \<and> (\<forall>p\<in>open_sessions t. secured p (calls t))" by auto
    qed
  next
    case (secure b q c)
    show ?thesis unfolding order_inv_def t snd_conv
    proof
      assume "fresh (calls t)"
      then have "fresh (calls a)" using secure(1,3,5) tame_fresh invoke_fresh[OF secure(3)] by auto
      note a = fa[OF this] and b = order_tail[OF secure(1) conjunct1[OF fa[OF this]]]
      note c = order_handshake[OF secure(3,2) b(1)]
      have "open_sessions t \<subseteq> insert (r_val r) (open_sessions c)" "calls t = calls c"
        using secure(5) by (auto simp: open_sessions_def)
      with a b(2,3) c(1-3) secure(4) show "ordered (calls t) \<and> (\<forall>p\<in>open_sessions t. secured p (calls t))" by auto
    qed
  qed
qed

lemma tidy_ordered: "tidy_reach l w s \<Longrightarrow> order_inv s"
proof (induction rule: tidy_reach.induct)
  case tidy_start
  show ?case by (simp add: order_inv_def start_def open_sessions_def)
next
  case (tidy_step s c s')
  note inv = tidy_inv[OF tidy_step(1)]
  show ?case
  proof (cases "\<exists>so f. c = New_session so f")
    case True
    with tidy_step inv show ?thesis by (auto intro: order_make_new)
  next
    case False
    with tidy_step have "tame (open_sessions s) s s'" by (blast intro: perform_tame)
    then show ?thesis using tidy_step.IH by (rule order_tame)
  qed
qed

section \<open>Properties\<close>

text \<open>
  C13. Nothing is sent over a session that is not secured. In every state that a program reaches, each
  handshake in the trace was made with all six algorithm preferences of the module in force for the
  session, so that the peer can only choose Ed25519 host keys, Curve25519, AES in counter mode and HMAC with SHA-2 or
  SHA-1; and each password, key, channel, transfer and SFTP start came after a handshake of that
  session that succeeded. The hypotheses are those of handle safety.
\<close>

theorem ssh_secured_before_use:
  assumes "tidy_reach l w s" "fresh (calls s)"
  shows "ordered (calls s) \<and> (\<forall>x\<in>set (sessions s). session x = 0 \<or> secured (session x) (calls s))"
  using tidy_ordered[OF assms(1)] assms(2) by (auto simp: order_inv_def open_sessions_def)

text \<open>A session is set up and a password sent.\<close>

definition demo_login :: "int ssh option" where
  "demo_login = tidy_run counting_lib [New_session 7 True, Auth_password 0 [0x75] [0x70]] (start 1)"

theorem ssh_secured_before_use_witness:
  "\<exists>s. demo_login = Some s \<and> ordered (calls s) \<and> secured 2 (calls s) \<and> length (calls s) = 14"
proof -
  have "demo_login \<noteq> None \<and> fresh (calls (the demo_login)) \<and> length (calls (the demo_login)) = 14
      \<and> map session (sessions (the demo_login)) = [2]"
    by (simp add: demo_login_def start_def ssh_session_make_new_def ssh_lazy_init_def method_pref2_def run_def invoke_def
        counting_lib_def counting_answer_def Let_def ssh_session_userauth_password_def)
  then obtain s where s: "demo_login = Some s" "fresh (calls s)" "length (calls s) = 14" "map session (sessions s) = [2]"
    by (metis option.exhaust_sel)
  from s(1) have "tidy_reach counting_lib 1 s"
    unfolding demo_login_def by (rule tidy_run_reach[OF tidy_start])
  from ssh_secured_before_use[OF this s(2)] s show ?thesis by (auto simp: map_eq_Cons_conv)
qed

end
