(* ===== verification/Ssh_Crypto_Api.thy ===== *)
theory Ssh_Crypto_Api
  imports Ssh_Backend Ssh_Cipher
begin

text \<open>
  \<open>libssh2_axtls.h\<close>: the names libssh2 calls its crypto backend by, as macros over the entry points of
  \<open>libssh2_axtls.c\<close>. The macros choose the algorithm numbers, and one of them changes the meaning of a
  result: \<open>_libssh2_bn_to_bin\<close> turns a byte count into a failure flag.
\<close>

section \<open>Definitions\<close>

subsection \<open>Hashes\<close>

definition MD5_DIGEST_LENGTH :: nat where "MD5_DIGEST_LENGTH = 16"
definition SHA_DIGEST_LENGTH :: nat where "SHA_DIGEST_LENGTH = 20"
definition SHA256_DIGEST_LENGTH :: nat where "SHA256_DIGEST_LENGTH = 32"
definition SHA384_DIGEST_LENGTH :: nat where "SHA384_DIGEST_LENGTH = 48"
definition SHA512_DIGEST_LENGTH :: nat where "SHA512_DIGEST_LENGTH = 64"

definition libssh2_sha1_init :: "'c axtls_hashes \<Rightarrow> 'c hash_ctx \<Rightarrow> bool \<times> 'c hash_ctx" where
  "libssh2_sha1_init ax = libssh2_axtls_hash_init ax LIBSSH2_AXTLS_HASH_SHA1"
definition libssh2_sha1_update :: "'c axtls_hashes \<Rightarrow> bytes \<Rightarrow> 'c hash_ctx \<Rightarrow> bool \<times> 'c hash_ctx" where
  "libssh2_sha1_update ax = libssh2_axtls_hash_update ax"
definition libssh2_sha1_final :: "'c axtls_hashes \<Rightarrow> 'c hash_ctx \<Rightarrow> bytes option \<times> 'c hash_ctx" where
  "libssh2_sha1_final ax = libssh2_axtls_hash_final ax"
definition libssh2_sha1 :: "'c axtls_hashes \<Rightarrow> 'c hash_ctx \<Rightarrow> bytes \<Rightarrow> bytes option" where
  "libssh2_sha1 ax c data = libssh2_axtls_hash ax c data LIBSSH2_AXTLS_HASH_SHA1"

definition libssh2_sha256_init :: "'c axtls_hashes \<Rightarrow> 'c hash_ctx \<Rightarrow> bool \<times> 'c hash_ctx" where
  "libssh2_sha256_init ax = libssh2_axtls_hash_init ax LIBSSH2_AXTLS_HASH_SHA256"
definition libssh2_sha256_update :: "'c axtls_hashes \<Rightarrow> bytes \<Rightarrow> 'c hash_ctx \<Rightarrow> bool \<times> 'c hash_ctx" where
  "libssh2_sha256_update ax = libssh2_axtls_hash_update ax"
definition libssh2_sha256_final :: "'c axtls_hashes \<Rightarrow> 'c hash_ctx \<Rightarrow> bytes option \<times> 'c hash_ctx" where
  "libssh2_sha256_final ax = libssh2_axtls_hash_final ax"
definition libssh2_sha256 :: "'c axtls_hashes \<Rightarrow> 'c hash_ctx \<Rightarrow> bytes \<Rightarrow> bytes option" where
  "libssh2_sha256 ax c data = libssh2_axtls_hash ax c data LIBSSH2_AXTLS_HASH_SHA256"

definition libssh2_sha384_init :: "'c axtls_hashes \<Rightarrow> 'c hash_ctx \<Rightarrow> bool \<times> 'c hash_ctx" where
  "libssh2_sha384_init ax = libssh2_axtls_hash_init ax LIBSSH2_AXTLS_HASH_SHA384"
definition libssh2_sha384_update :: "'c axtls_hashes \<Rightarrow> bytes \<Rightarrow> 'c hash_ctx \<Rightarrow> bool \<times> 'c hash_ctx" where
  "libssh2_sha384_update ax = libssh2_axtls_hash_update ax"
definition libssh2_sha384_final :: "'c axtls_hashes \<Rightarrow> 'c hash_ctx \<Rightarrow> bytes option \<times> 'c hash_ctx" where
  "libssh2_sha384_final ax = libssh2_axtls_hash_final ax"
definition libssh2_sha384 :: "'c axtls_hashes \<Rightarrow> 'c hash_ctx \<Rightarrow> bytes \<Rightarrow> bytes option" where
  "libssh2_sha384 ax c data = libssh2_axtls_hash ax c data LIBSSH2_AXTLS_HASH_SHA384"

definition libssh2_sha512_init :: "'c axtls_hashes \<Rightarrow> 'c hash_ctx \<Rightarrow> bool \<times> 'c hash_ctx" where
  "libssh2_sha512_init ax = libssh2_axtls_hash_init ax LIBSSH2_AXTLS_HASH_SHA512"
definition libssh2_sha512_update :: "'c axtls_hashes \<Rightarrow> bytes \<Rightarrow> 'c hash_ctx \<Rightarrow> bool \<times> 'c hash_ctx" where
  "libssh2_sha512_update ax = libssh2_axtls_hash_update ax"
definition libssh2_sha512_final :: "'c axtls_hashes \<Rightarrow> 'c hash_ctx \<Rightarrow> bytes option \<times> 'c hash_ctx" where
  "libssh2_sha512_final ax = libssh2_axtls_hash_final ax"
definition libssh2_sha512 :: "'c axtls_hashes \<Rightarrow> 'c hash_ctx \<Rightarrow> bytes \<Rightarrow> bytes option" where
  "libssh2_sha512 ax c data = libssh2_axtls_hash ax c data LIBSSH2_AXTLS_HASH_SHA512"

definition libssh2_md5_init :: "'c axtls_hashes \<Rightarrow> 'c hash_ctx \<Rightarrow> bool \<times> 'c hash_ctx" where
  "libssh2_md5_init ax = libssh2_axtls_hash_init ax LIBSSH2_AXTLS_HASH_MD5"
definition libssh2_md5_update :: "'c axtls_hashes \<Rightarrow> bytes \<Rightarrow> 'c hash_ctx \<Rightarrow> bool \<times> 'c hash_ctx" where
  "libssh2_md5_update ax = libssh2_axtls_hash_update ax"
definition libssh2_md5_final :: "'c axtls_hashes \<Rightarrow> 'c hash_ctx \<Rightarrow> bytes option \<times> 'c hash_ctx" where
  "libssh2_md5_final ax = libssh2_axtls_hash_final ax"

subsection \<open>Ciphers\<close>

definition cipher_3des :: int where "cipher_3des = 7"
definition cipher_blowfish :: int where "cipher_blowfish = 8"
definition cipher_arcfour :: int where "cipher_arcfour = 9"
definition cipher_cast5 :: int where "cipher_cast5 = 10"
definition cipher_aes128_gcm :: int where "cipher_aes128_gcm = 11"
definition cipher_aes256_gcm :: int where "cipher_aes256_gcm = 12"
definition cipher_chacha20 :: int where "cipher_chacha20 = 13"

definition libssh2_cipher_init :: "'k aes \<Rightarrow> 'k cipher_ctx \<Rightarrow> int \<Rightarrow> bytes \<Rightarrow> bytes \<Rightarrow> bool \<Rightarrow> int \<times> 'k cipher_ctx" where
  "libssh2_cipher_init ax ctx ty iv secret encrypt = libssh2_axtls_cipher_init ax ctx ty iv secret encrypt"

text \<open>The type is a parameter of the macro and of the function behind it, which does not use it.\<close>

definition libssh2_cipher_crypt :: "'k aes \<Rightarrow> int \<Rightarrow> bool \<Rightarrow> bytes \<Rightarrow> 'k cipher_ctx \<Rightarrow> bytes \<times> 'k cipher_ctx" where
  "libssh2_cipher_crypt ax ty encrypt block ctx = libssh2_axtls_cipher_crypt ax encrypt block ctx"

text \<open>\<open>memset\<close> of the whole context; \<open>z\<close> is the zeroed key schedule.\<close>

definition libssh2_axtls_cipher_dtor :: "'k \<Rightarrow> 'k cipher_ctx" where
  "libssh2_axtls_cipher_dtor z = \<lparr>keylen_bits = 0, ctr_iv = replicate 16 0, is_ctr = False, ci_storage = z\<rparr>"

definition libssh2_cipher_dtor :: "'k \<Rightarrow> 'k cipher_ctx" where
  "libssh2_cipher_dtor z = libssh2_axtls_cipher_dtor z"

subsection \<open>Big numbers\<close>

definition libssh2_bn_init :: bn_impl where
  "libssh2_bn_init = bn_init"

definition libssh2_bn_init_from_bin :: bn_impl where
  "libssh2_bn_init_from_bin = libssh2_bn_init"

definition libssh2_bn_set_word :: "malloc \<Rightarrow> bn_impl \<Rightarrow> u32 \<Rightarrow> bn_impl" where
  "libssh2_bn_set_word malloc bn val = bn_set_word malloc bn val"

definition libssh2_bn_from_bin :: "malloc \<Rightarrow> bn_impl option \<Rightarrow> int \<Rightarrow> bytes \<Rightarrow> int \<times> bn_impl option" where
  "libssh2_bn_from_bin malloc bn len val = bn_from_bin malloc bn len val"

text \<open>The bytes stored, and whether the macro says it failed.\<close>

definition libssh2_bn_to_bin :: "bn_impl option \<Rightarrow> bool \<times> bytes" where
  "libssh2_bn_to_bin bn = (let out = bn_to_bin bn in (length out \<le> 0, out))"

definition libssh2_bn_bytes :: "bn_impl option \<Rightarrow> nat" where
  "libssh2_bn_bytes bn = bn_bytes bn"

definition libssh2_bn_bits :: "bn_impl option \<Rightarrow> nat" where
  "libssh2_bn_bits bn = bn_bits bn"

definition libssh2_bn_free :: "bn_impl option \<Rightarrow> nat" where
  "libssh2_bn_free bn = bn_free bn"

subsection \<open>Diffie-Hellman contexts\<close>

text \<open>\<open>None\<close> is the null pointer; nothing is ever stored in a context.\<close>

record 'p dh_ctx =
  dh_x :: "'p option"
  dh_e :: "'p option"
  dh_p :: "'p option"
  dh_g :: "'p option"
  dh_bi_ctx :: "'p option"

definition libssh2_axtls_dh_init :: "'p dh_ctx" where
  "libssh2_axtls_dh_init = \<lparr>dh_x = None, dh_e = None, dh_p = None, dh_g = None, dh_bi_ctx = None\<rparr>"

definition libssh2_axtls_dh_dtor :: "'p dh_ctx \<Rightarrow> 'p dh_ctx" where
  "libssh2_axtls_dh_dtor dhctx = dhctx"

text \<open>A number needs no context of its own: the null pointer, and nothing to free.\<close>

definition bn_ctx_new :: "'p dh_ctx option" where "bn_ctx_new = None"
definition bn_ctx_free :: "'m \<Rightarrow> 'm" where "bn_ctx_free m = m"

definition libssh2_axtls_free :: "'m \<Rightarrow> 'm" where
  "libssh2_axtls_free m = m"

subsection \<open>Key exchange and keys\<close>

definition libssh2_curve25519_new :: "nacl \<Rightarrow> bytes \<Rightarrow> heap \<Rightarrow> (bytes \<times> bytes) option \<times> heap" where
  "libssh2_curve25519_new na rnd h = curve25519_new na rnd h"

definition libssh2_curve25519_gen_k :: "nacl \<Rightarrow> malloc \<Rightarrow> bn_impl option \<Rightarrow> bytes \<Rightarrow> bytes \<Rightarrow> int \<times> bn_impl option" where
  "libssh2_curve25519_gen_k na malloc k p srv_pub = curve25519_gen_k na malloc k p srv_pub"

section \<open>Lemmas\<close>

lemma hash_stream:
  assumes "hash_switch ax algo = Some d" "digest_law d H n"
  shows "fst (libssh2_axtls_hash_final ax
    (fold (\<lambda>m x. snd (libssh2_axtls_hash_update ax m x)) ms (snd (libssh2_axtls_hash_init ax algo c)))) = Some (H (concat ms))"
proof -
  have "fold (\<lambda>m x. snd (libssh2_axtls_hash_update ax m x)) ms x = x\<lparr>hc_storage := fold (d_update d) ms (hc_storage x)\<rparr>"
    if "hc_algo x = algo" for x :: "'a hash_ctx"
    using that assms(1) by (induction ms arbitrary: x) (simp_all add: libssh2_axtls_hash_update_def)
  then show ?thesis
    using assms(1) digest_law.streams[OF assms(2), of ms]
    by (simp add: libssh2_axtls_hash_init_def libssh2_axtls_hash_final_def Let_def split_beta)
qed

lemma switch_algos:
  "hash_switch ax LIBSSH2_AXTLS_HASH_SHA1 = Some (SHA1 ax)" "hash_switch ax LIBSSH2_AXTLS_HASH_SHA256 = Some (SHA256 ax)"
  "hash_switch ax LIBSSH2_AXTLS_HASH_SHA384 = Some (SHA384 ax)" "hash_switch ax LIBSSH2_AXTLS_HASH_SHA512 = Some (SHA512 ax)"
  "hash_switch ax LIBSSH2_AXTLS_HASH_MD5 = Some (MD5 ax)"
  by (simp_all add: hash_switch_def)

lemmas hash_api_defs = libssh2_sha1_init_def libssh2_sha1_update_def libssh2_sha1_final_def libssh2_sha1_def
  libssh2_sha256_init_def libssh2_sha256_update_def libssh2_sha256_final_def libssh2_sha256_def
  libssh2_sha384_init_def libssh2_sha384_update_def libssh2_sha384_final_def libssh2_sha384_def
  libssh2_sha512_init_def libssh2_sha512_update_def libssh2_sha512_final_def libssh2_sha512_def
  libssh2_md5_init_def libssh2_md5_update_def libssh2_md5_final_def

lemma strip_zeros_Nil: "strip_zeros bs = [] \<longleftrightarrow> bs = replicate (length bs) 0"
  by (induction bs) auto

text \<open>A hash that keeps the whole message until the end.\<close>

definition buffered :: "(bytes \<Rightarrow> bytes) \<Rightarrow> bytes digest" where
  "buffered H = \<lparr>d_init = [], d_update = (\<lambda>m c. c @ m), d_final = (\<lambda>c. (H c, c))\<rparr>"

lemma buffered_law: "(\<And>m. length (H m) = n) \<Longrightarrow> digest_law (buffered H) H n"
proof (unfold_locales)
  have "fold (\<lambda>m c. c @ m) ms a = a @ concat ms" for a and ms :: "bytes list" by (induction ms arbitrary: a) simp_all
  then show "fst (d_final (buffered H) (fold (d_update (buffered H)) ms (d_init (buffered H)))) = H (concat ms)" for ms
    by (simp add: buffered_def)
qed

section \<open>Properties\<close>

text \<open>
  The hash functions libssh2 sees. When axTLS's five hashes are hash functions of the lengths that the
  header announces, each family of macros computes its own hash: initialised, fed in any pieces
  and finished, or in one call, over a context that held anything before.
\<close>

theorem ssh_hash_api:
  assumes "digest_law (SHA1 ax) h1 SHA_DIGEST_LENGTH" "digest_law (SHA256 ax) h256 SHA256_DIGEST_LENGTH"
    and "digest_law (SHA384 ax) h384 SHA384_DIGEST_LENGTH" "digest_law (SHA512 ax) h512 SHA512_DIGEST_LENGTH"
    and "digest_law (MD5 ax) h5 MD5_DIGEST_LENGTH"
  shows "fst (libssh2_sha1_final ax (fold (\<lambda>m x. snd (libssh2_sha1_update ax m x)) ms (snd (libssh2_sha1_init ax c)))) = Some (h1 (concat ms))
    \<and> fst (libssh2_sha256_final ax (fold (\<lambda>m x. snd (libssh2_sha256_update ax m x)) ms (snd (libssh2_sha256_init ax c)))) = Some (h256 (concat ms))
    \<and> fst (libssh2_sha384_final ax (fold (\<lambda>m x. snd (libssh2_sha384_update ax m x)) ms (snd (libssh2_sha384_init ax c)))) = Some (h384 (concat ms))
    \<and> fst (libssh2_sha512_final ax (fold (\<lambda>m x. snd (libssh2_sha512_update ax m x)) ms (snd (libssh2_sha512_init ax c)))) = Some (h512 (concat ms))
    \<and> fst (libssh2_md5_final ax (fold (\<lambda>m x. snd (libssh2_md5_update ax m x)) ms (snd (libssh2_md5_init ax c)))) = Some (h5 (concat ms))
    \<and> libssh2_sha1 ax c m = Some (h1 m) \<and> libssh2_sha256 ax c m = Some (h256 m)
    \<and> libssh2_sha384 ax c m = Some (h384 m) \<and> libssh2_sha512 ax c m = Some (h512 m)"
  unfolding hash_api_defs using assms switch_algos[of ax]
  by (intro conjI hash_stream hash_one_shot) assumption+

definition five_hashes :: "bytes axtls_hashes" where
  "five_hashes = \<lparr>SHA1 = buffered (\<lambda>m. replicate 20 1), SHA256 = buffered (\<lambda>m. replicate 32 2), SHA384 = buffered (\<lambda>m. replicate 48 3),
     SHA512 = buffered (\<lambda>m. replicate 64 4), MD5 = buffered (\<lambda>m. replicate 16 5)\<rparr>"

theorem ssh_hash_api_witness:
  "libssh2_sha384 five_hashes \<lparr>hc_algo = 0, hc_storage = []\<rparr> [1, 2] = Some (replicate 48 3)"
proof -
  have l: "digest_law (SHA1 five_hashes) (\<lambda>m. replicate 20 1) SHA_DIGEST_LENGTH"
    "digest_law (SHA256 five_hashes) (\<lambda>m. replicate 32 2) SHA256_DIGEST_LENGTH"
    "digest_law (SHA384 five_hashes) (\<lambda>m. replicate 48 3) SHA384_DIGEST_LENGTH"
    "digest_law (SHA512 five_hashes) (\<lambda>m. replicate 64 4) SHA512_DIGEST_LENGTH"
    "digest_law (MD5 five_hashes) (\<lambda>m. replicate 16 5) MD5_DIGEST_LENGTH"
    by (simp_all add: five_hashes_def buffered_law SHA_DIGEST_LENGTH_def SHA256_DIGEST_LENGTH_def SHA384_DIGEST_LENGTH_def
        SHA512_DIGEST_LENGTH_def MD5_DIGEST_LENGTH_def)
  show ?thesis using ssh_hash_api[OF l] by blast
qed

text \<open>
  C23. The shared secret as libssh2 serialises it. After a key exchange that computed a secret, the macro
  hands out the secret without leading zero bytes, with the byte and bit lengths of the same number,
  and it reports failure exactly when the secret is zero: a peer that sends a point of small order
  is turned away here, as RFC 8731 demands, and no other secret is.
\<close>

theorem kex_refuses_zero_secret:
  assumes "malloc_ok malloc" "bn_wf b" "crypto_scalarmult na priv spub = Some secret" "length secret = 32"
    and "libssh2_curve25519_gen_k na malloc (Some b) priv spub = (0, k)"
  shows "libssh2_bn_to_bin k = (secret = replicate 32 0, strip_zeros secret)
    \<and> libssh2_bn_bytes k = length (strip_zeros secret) \<and> libssh2_bn_bits k = bit_length (be_val secret)"
proof -
  obtain ok c where c: "bn_ensure malloc b (length (strip_zeros secret)) = (ok, c)" by fastforce
  then have ok: ok and k: "k = Some (bn_fill c (strip_zeros secret))"
    using assms(3-5) by (auto simp: libssh2_curve25519_gen_k_def curve25519_gen_k_def bn_from_bin_def split: if_splits)
  have "bn_wf (bn_fill c (strip_zeros secret)) \<and> bn_val (bn_fill c (strip_zeros secret)) = be_val secret"
    using bn_ensure_wf[OF assms(2,1)] c ok bn_fill_wf[OF _ _ strip_zeros_head] by simp
  moreover have "bn_to_bin k = strip_zeros secret" "bn_bytes k = length (strip_zeros secret)"
    by (simp_all add: k bn_to_bin_def bn_bytes_def bn_fill_def)
  moreover have "length (strip_zeros secret) \<le> 0 \<longleftrightarrow> secret = replicate 32 0"
    using strip_zeros_Nil[of secret] assms(4) by simp
  ultimately show ?thesis
    using bn_bits_val[of "bn_fill c (strip_zeros secret)"]
    by (simp add: k libssh2_bn_to_bin_def libssh2_bn_bytes_def libssh2_bn_bits_def)
qed

text \<open>Keys whose secret is zero, and keys whose secret is not.\<close>

theorem kex_refuses_zero_secret_witness:
  "fst (libssh2_bn_to_bin (snd (libssh2_curve25519_gen_k toy_nacl (\<lambda>n. Some (replicate n 0)) (Some bn_init) (replicate 32 0) (replicate 32 0))))
   \<and> snd (libssh2_bn_to_bin (snd (libssh2_curve25519_gen_k toy_nacl (\<lambda>n. Some (replicate n 0)) (Some bn_init) (replicate 32 0) (1 # replicate 31 0))))
      = replicate 32 1"
proof -
  have m: "malloc_ok (\<lambda>n. Some (replicate n 0))" "bn_wf bn_init" by (simp_all add: malloc_ok_def bn_wf_def bn_init_def)
  have g: "libssh2_curve25519_gen_k toy_nacl (\<lambda>n. Some (replicate n 0)) (Some bn_init) p q
      = (0, snd (libssh2_curve25519_gen_k toy_nacl (\<lambda>n. Some (replicate n 0)) (Some bn_init) p q))" for p q
    by (simp add: libssh2_curve25519_gen_k_def curve25519_gen_k_def toy_nacl_def bn_from_bin_def bn_ensure_def Let_def)
  note r = kex_refuses_zero_secret[OF m _ _ g]
  have "sum_bytes (replicate n 0) = 0" for n by (induction n) (simp_all add: sum_bytes_def)
  then have s: "crypto_scalarmult toy_nacl (replicate 32 0) (replicate 32 0) = Some (replicate 32 0)"
    "crypto_scalarmult toy_nacl (replicate 32 0) (1 # replicate 31 0) = Some (replicate 32 1)"
    by (simp_all add: toy_nacl_def) (simp add: sum_bytes_def)
  show ?thesis using r[OF s(1)] r[OF s(2)] by (simp add: numeral_eq_Suc)
qed

end
