(* ===== verification/Hash_Shim.thy ===== *)
theory Hash_Shim
  imports Sha256
begin

text \<open>
  \<open>lib/axtls/crypto/crypto.h\<close>: the wrappers through which \<open>hashlib\<close> calls Brad Conte's MD5 and SHA-1 by the
  names and argument orders of axTLS.

  The wrapped functions are not part of the repository: a record of functions that take the context first
  and a \<open>size_t\<close> length, with the contract that the digest is that of the bytes fed in. The wrappers take an
  \<open>int\<close> length. The SHA-256 of the repository is of the same family and meets the contract.
\<close>

section \<open>Definitions\<close>

record 'c bcon =
  b_init :: 'c
  b_update :: "'c \<Rightarrow> bytes \<Rightarrow> u32 \<Rightarrow> 'c"
  b_final :: "'c \<Rightarrow> bytes \<times> 'c"

text \<open>The functions of the two algorithms.\<close>

record ('m, 's) bcon_lib =
  md5 :: "'m bcon"
  sha1 :: "'s bcon"

definition MD5_SIZE :: nat where "MD5_SIZE = 16"
definition SHA1_SIZE :: nat where "SHA1_SIZE = 20"

definition MD5_Init :: "('m, 's) bcon_lib \<Rightarrow> 'm" where
  "MD5_Init b = b_init (md5 b)"

definition MD5_Update :: "('m, 's) bcon_lib \<Rightarrow> 'm \<Rightarrow> bytes \<Rightarrow> int \<Rightarrow> 'm" where
  "MD5_Update b ctx msg len = b_update (md5 b) ctx msg (word_of_int len)"

definition MD5_Final :: "('m, 's) bcon_lib \<Rightarrow> 'm \<Rightarrow> bytes \<times> 'm" where
  "MD5_Final b ctx = b_final (md5 b) ctx"

definition SHA1_Init :: "('m, 's) bcon_lib \<Rightarrow> 's" where
  "SHA1_Init b = b_init (sha1 b)"

definition SHA1_Update :: "('m, 's) bcon_lib \<Rightarrow> 's \<Rightarrow> bytes \<Rightarrow> int \<Rightarrow> 's" where
  "SHA1_Update b ctx msg len = b_update (sha1 b) ctx msg (word_of_int len)"

definition SHA1_Final :: "('m, 's) bcon_lib \<Rightarrow> 's \<Rightarrow> bytes \<times> 's" where
  "SHA1_Final b ctx = b_final (sha1 b) ctx"

section \<open>The contract\<close>

text \<open>An implementation with a \<open>size_t\<close> length, fed in pieces; \<open>feed\<close> calls it as the wrappers do.\<close>

definition feed :: "'c bcon \<Rightarrow> bytes \<Rightarrow> 'c \<Rightarrow> 'c" where
  "feed b m c = b_update b c m (word_of_int (int (length m)))"

locale bcon_law =
  fixes b :: "'c bcon" and H :: "bytes \<Rightarrow> bytes" and n :: nat
  assumes fed: "\<forall>m\<in>set ms. length m < 2 ^ 32 \<Longrightarrow>
      fst (b_final b (fold (\<lambda>m c. b_update b c m (of_nat (length m))) ms (b_init b))) = H (concat ms)"
    and hash_size: "length (H m) = n"
begin

text \<open>Pieces of less than \<open>2 ^ 31\<close> bytes, whose length an \<open>int\<close> holds, pass the wrapper unchanged.\<close>

lemma wrapped:
  assumes "\<forall>m\<in>set ms. length m < 2 ^ 31"
  shows "fst (b_final b (fold (feed b) ms (b_init b))) = H (concat ms)"
proof -
  have "\<forall>m\<in>set ms. length m < 2 ^ 32" using assms by fastforce
  then show ?thesis using fed[of ms] by (simp add: feed_def[abs_def])
qed

lemma digest_length: "\<forall>m\<in>set ms. length m < 2 ^ 31 \<Longrightarrow> length (fst (b_final b (fold (feed b) ms (b_init b)))) = n"
  by (simp add: wrapped hash_size)

end

text \<open>The patched SHA-256 behind the same interface.\<close>

definition sha256_bcon :: "sha_ctx bcon" where
  "sha256_bcon = \<lparr>b_init = sha256_init (replicate 64 0), b_update = (\<lambda>c m k. sha256_update (take (unat k) m) c), b_final = sha256_final\<rparr>"

interpretation sha_bcon: bcon_law sha256_bcon fips_sha256 32
proof unfold_locales
  fix ms :: "bytes list"
  assume "\<forall>m\<in>set ms. length m < 2 ^ 32"
  then have "fold (\<lambda>m c. sha256_update (take (unat (word_of_nat (length m) :: u32)) m) c) ms a = fold sha256_update ms a" for a
    by (induction ms arbitrary: a) (simp_all add: unat_of_nat take_bit_eq_mod flip: take_bit_eq_mod)
  with sha.streams[of ms]
  show "fst (b_final sha256_bcon (fold (\<lambda>m c. b_update sha256_bcon c m (word_of_nat (length m))) ms (b_init sha256_bcon))) = fips_sha256 (concat ms)"
    by (simp add: sha256_bcon_def sha256_digest_def)
qed (rule sha.digest_size)

section \<open>Properties\<close>

text \<open>
  The wrappers keep the hashes. Over implementations that meet the contract, what \<open>hashlib\<close> computes by
  \<open>Init\<close>, any number of updates of less than \<open>2 ^ 31\<close> bytes each and \<open>Final\<close> is the MD5 and the SHA-1 of the
  concatenation.
\<close>

theorem shim_hashes:
  assumes "bcon_law (md5 b) h5 MD5_SIZE" "bcon_law (sha1 b) h1 SHA1_SIZE" "\<forall>m\<in>set ms. length m < 2 ^ 31"
  shows "fst (MD5_Final b (fold (\<lambda>m c. MD5_Update b c m (int (length m))) ms (MD5_Init b))) = h5 (concat ms)
    \<and> fst (SHA1_Final b (fold (\<lambda>m c. SHA1_Update b c m (int (length m))) ms (SHA1_Init b))) = h1 (concat ms)"
  using bcon_law.wrapped[OF assms(1,3)] bcon_law.wrapped[OF assms(2,3)]
  by (simp add: MD5_Final_def MD5_Update_def MD5_Init_def SHA1_Final_def SHA1_Update_def SHA1_Init_def feed_def[abs_def])

text \<open>Implementations that keep the message and give constant digests.\<close>

definition plain_bcon :: "bytes \<Rightarrow> bytes bcon" where
  "plain_bcon h = \<lparr>b_init = [], b_update = (\<lambda>c m k. c @ take (unat k) m), b_final = (\<lambda>c. (h, c))\<rparr>"

theorem shim_hashes_witness:
  "fst (MD5_Final \<lparr>md5 = plain_bcon (replicate 16 5), sha1 = plain_bcon (replicate 20 1)\<rparr>
     (MD5_Update \<lparr>md5 = plain_bcon (replicate 16 5), sha1 = plain_bcon (replicate 20 1)\<rparr>
       (MD5_Init \<lparr>md5 = plain_bcon (replicate 16 5), sha1 = plain_bcon (replicate 20 1)\<rparr>) [1, 2] 2)) = replicate 16 5"
proof -
  have l: "bcon_law (plain_bcon h) (\<lambda>m. h) (length h)" for h by unfold_locales (simp_all add: plain_bcon_def)
  let ?b = "\<lparr>md5 = plain_bcon (replicate 16 5), sha1 = plain_bcon (replicate 20 1)\<rparr>"
  have "bcon_law (md5 ?b) (\<lambda>m. replicate 16 5) MD5_SIZE" "bcon_law (sha1 ?b) (\<lambda>m. replicate 20 1) SHA1_SIZE"
    using l[of "replicate 16 5"] l[of "replicate 20 1"] by (simp_all add: MD5_SIZE_def SHA1_SIZE_def)
  from shim_hashes[OF this, of "[[1, 2]]"] show ?thesis by simp
qed

end
