(* ===== verification/Rm_Exec.thy ===== *)
theory Rm_Exec
  imports Dpmi
begin

text \<open>
  Real mode under the DPMI host, for the thunks the program writes into conventional memory: a processor
  that executes the instructions they are made of at CS:IP, with the handlers of the interrupt table as a
  parameter. \<open>Dpmi\<close> leaves DPMI 0x0301 open; here a host is built on it that runs the bytes it is pointed
  at until they return.

  The step relation is the definition of the processor; \<open>rm_run\<close> executes it and is shown to agree.
\<close>

section \<open>Definitions\<close>

text \<open>The handler of interrupt \<open>n\<close> in real mode: registers, memory and the world before and after.\<close>

type_synonym 'h services = "byte \<Rightarrow> dos_rmcs \<Rightarrow> mem \<Rightarrow> 'h \<Rightarrow> dos_rmcs \<times> mem \<times> 'h"

type_synonym 'h rm_state = "dos_rmcs \<times> mem \<times> 'h"

datatype instr = Nop | Mov_ah byte | Int_n byte | Retf

fun decode :: "byte \<Rightarrow> byte \<Rightarrow> instr option" where
  "decode op arg =
     (if op = 0x90 then Some Nop
      else if op = 0xB4 then Some (Mov_ah arg)
      else if op = 0xCD then Some (Int_n arg)
      else if op = 0xCB then Some Retf
      else None)"

text \<open>The byte \<open>k\<close> behind CS:IP, at the linear address real mode gives it.\<close>

definition code_at :: "dos_rmcs \<Rightarrow> mem \<Rightarrow> u16 \<Rightarrow> byte" where
  "code_at rm m k = m (push_bit 4 (ucast (cs rm)) + ucast (ip rm + k))"

definition fetch :: "'h rm_state \<Rightarrow> instr option" where
  "fetch = (\<lambda>(rm, m, h). decode (code_at rm m 0) (code_at rm m 1))"

text \<open>An interrupt returns behind the instruction, on the stack it found.\<close>

definition int_return :: "dos_rmcs \<Rightarrow> dos_rmcs \<Rightarrow> dos_rmcs" where
  "int_return rm rm' = rm'\<lparr>cs := cs rm, ip := ip rm + 2, ss := ss rm, sp := sp rm\<rparr>"

definition set_ah :: "byte \<Rightarrow> dos_rmcs \<Rightarrow> dos_rmcs" where
  "set_ah b rm = rm\<lparr>eax := (eax rm AND 0xFFFF00FF) OR push_bit 8 (ucast b)\<rparr>"

inductive rm_step :: "'h services \<Rightarrow> 'h rm_state \<Rightarrow> 'h rm_state \<Rightarrow> bool" for svc where
  step_nop: "fetch (rm, m, h) = Some Nop \<Longrightarrow> rm_step svc (rm, m, h) (rm\<lparr>ip := ip rm + 1\<rparr>, m, h)"
| step_mov: "fetch (rm, m, h) = Some (Mov_ah b) \<Longrightarrow> rm_step svc (rm, m, h) ((set_ah b rm)\<lparr>ip := ip rm + 2\<rparr>, m, h)"
| step_int: "fetch (rm, m, h) = Some (Int_n n) \<Longrightarrow> svc n rm m h = (rm', m', h') \<Longrightarrow>
    rm_step svc (rm, m, h) (int_return rm rm', m', h')"

definition rm_returns :: "'h services \<Rightarrow> 'h rm_state \<Rightarrow> 'h rm_state \<Rightarrow> bool" where
  "rm_returns svc a b \<longleftrightarrow> (rm_step svc)\<^sup>*\<^sup>* a b \<and> fetch b = Some Retf"

subsection \<open>Execution\<close>

definition exec1 :: "'h services \<Rightarrow> instr \<Rightarrow> 'h rm_state \<Rightarrow> 'h rm_state" where
  "exec1 svc i = (\<lambda>(rm, m, h). case i of
     Nop \<Rightarrow> (rm\<lparr>ip := ip rm + 1\<rparr>, m, h)
   | Mov_ah b \<Rightarrow> ((set_ah b rm)\<lparr>ip := ip rm + 2\<rparr>, m, h)
   | Int_n n \<Rightarrow> (case svc n rm m h of (rm', m', h') \<Rightarrow> (int_return rm rm', m', h'))
   | Retf \<Rightarrow> (rm, m, h))"

fun rm_run :: "'h services \<Rightarrow> nat \<Rightarrow> 'h rm_state \<Rightarrow> 'h rm_state option" where
  "rm_run svc 0 a = None"
| "rm_run svc (Suc n) a =
     (case fetch a of
        None \<Rightarrow> None
      | Some Retf \<Rightarrow> Some a
      | Some i \<Rightarrow> rm_run svc n (exec1 svc i a))"

text \<open>DPMI 0x0301 on this processor. Four instructions are enough for every thunk of the program.\<close>

definition exec_call :: "'h services \<Rightarrow> dos_rmcs \<Rightarrow> mem \<Rightarrow> 'h \<Rightarrow> bool \<times> dos_rmcs \<times> mem \<times> 'h" where
  "exec_call svc rm m h =
     (case rm_run svc 4 (rm, m, h) of
        None \<Rightarrow> (True, rm, m, h)
      | Some (rm', m', h') \<Rightarrow> (False, rm', m', h'))"

text \<open>The interrupt by itself, which a thunk stands for.\<close>

definition int_call :: "'h services \<Rightarrow> byte \<Rightarrow> dos_rmcs \<Rightarrow> mem \<Rightarrow> 'h \<Rightarrow> bool \<times> dos_rmcs \<times> mem \<times> 'h" where
  "int_call svc n rm m h = (case svc n rm m h of (rm', m', h') \<Rightarrow> (False, int_return rm rm', m', h'))"

text \<open>A handler that leaves one byte of memory alone, the far return of a thunk.\<close>

definition spares :: "'h services \<Rightarrow> byte \<Rightarrow> u32 \<Rightarrow> bool" where
  "spares svc n a \<longleftrightarrow> (\<forall>rm m h. case svc n rm m h of (rm', m', h') \<Rightarrow> m' a = m a)"

section \<open>Lemmas\<close>

lemma sparesD: "spares svc n a \<Longrightarrow> svc n rm m h = (rm', m', h') \<Longrightarrow> m' a = m a"
  unfolding spares_def by (drule spec[of _ rm], drule spec[of _ m], drule spec[of _ h]) simp

subsection \<open>The relation and its execution\<close>

inductive_cases rm_stepE: "rm_step svc (rm, m, h) b"

lemma rm_step_exec1: "rm_step svc a b \<longleftrightarrow> (\<exists>i. fetch a = Some i \<and> i \<noteq> Retf \<and> b = exec1 svc i a)"
proof (cases a)
  case (fields rm m h)
  show ?thesis
  proof
    assume "rm_step svc a b"
    then show "\<exists>i. fetch a = Some i \<and> i \<noteq> Retf \<and> b = exec1 svc i a"
      unfolding fields by (elim rm_stepE) (simp_all add: exec1_def)
  next
    assume "\<exists>i. fetch a = Some i \<and> i \<noteq> Retf \<and> b = exec1 svc i a"
    then obtain i where "fetch (rm, m, h) = Some i" "i \<noteq> Retf" "b = exec1 svc i (rm, m, h)"
      unfolding fields by blast
    then show "rm_step svc a b"
      unfolding fields by (cases i) (simp_all add: exec1_def rm_step.intros split: prod.split)
  qed
qed

lemma rm_step_deterministic: "rm_step svc a b \<Longrightarrow> rm_step svc a c \<Longrightarrow> b = c"
  by (auto simp: rm_step_exec1)

lemma no_step_at_retf: "fetch a = Some Retf \<Longrightarrow> \<not> rm_step svc a b"
  by (simp add: rm_step_exec1)

lemma rm_run_step: "fetch a = Some i \<Longrightarrow> rm_run svc (Suc n) a = (if i = Retf then Some a else rm_run svc n (exec1 svc i a))"
  by (cases i) simp_all

lemma rm_run_sound: "rm_run svc n a = Some b \<Longrightarrow> rm_returns svc a b"
proof (induction n arbitrary: a)
  case (Suc n)
  then obtain i where i: "fetch a = Some i" by (cases "fetch a") simp_all
  show ?case
  proof (cases "i = Retf")
    case True
    with Suc.prems i show ?thesis by (simp add: rm_run_step[OF i] rm_returns_def del: rm_run.simps)
  next
    case False
    with Suc i have "rm_returns svc (exec1 svc i a) b" by (simp add: rm_run_step[OF i] del: rm_run.simps)
    moreover have "rm_step svc a (exec1 svc i a)" using i False by (simp add: rm_step_exec1)
    ultimately show ?thesis unfolding rm_returns_def by (blast intro: converse_rtranclp_into_rtranclp)
  qed
qed simp

text \<open>What has returned does not go on, so there is one result.\<close>

lemma rm_returns_step: "rm_step svc a b \<Longrightarrow> rm_returns svc a c \<Longrightarrow> rm_returns svc b c"
  unfolding rm_returns_def by (blast elim: converse_rtranclpE dest: rm_step_deterministic no_step_at_retf)

lemma rm_returns_retf: "rm_returns svc a c \<Longrightarrow> fetch a = Some Retf \<Longrightarrow> c = a"
  unfolding rm_returns_def by (blast elim: converse_rtranclpE dest: no_step_at_retf)

lemma rm_returns_unique: "rm_returns svc a b \<Longrightarrow> rm_returns svc a c \<Longrightarrow> b = c"
proof -
  assume a: "rm_returns svc a b" "rm_returns svc a c"
  then have "(rm_step svc)\<^sup>*\<^sup>* a b" and b: "fetch b = Some Retf" by (simp_all add: rm_returns_def)
  from this(1) a(2) show "b = c"
  proof (induction rule: converse_rtranclp_induct)
    case base
    then show ?case using rm_returns_retf b by blast
  next
    case (step y z)
    then show ?case using rm_returns_step by blast
  qed
qed

lemma exec_call_returns:
  assumes "exec_call svc rm m h = (False, rm', m', h')"
  shows "rm_returns svc (rm, m, h) b \<longleftrightarrow> b = (rm', m', h')"
proof -
  have "rm_run svc 4 (rm, m, h) = Some (rm', m', h')"
    using assms by (simp add: exec_call_def split: option.splits prod.splits)
  then have "rm_returns svc (rm, m, h) (rm', m', h')" by (rule rm_run_sound)
  then show ?thesis using rm_returns_unique by blast
qed

subsection \<open>The thunk INT n, RETF\<close>

lemma code_at_start:
  assumes "ip rm = 0" "cs rm = ucast seg" "seg \<le> 0xFFFF"
  shows "code_at rm m k = m (push_bit 4 seg + ucast k)"
proof -
  have "unat seg < 2 ^ 16" using assms(3) by (simp add: word_le_nat_alt)
  then have "unat (ucast (ucast seg :: u16) :: u32) = unat seg"
    by (simp add: unsigned_ucast_eq unsigned_take_bit_eq take_bit_nat_eq_self)
  then have "ucast (ucast seg :: u16) = (seg :: u32)" by (simp only: word_unat_eq_iff)
  with assms show ?thesis by (simp add: code_at_def)
qed

lemma exec_int_thunk:
  assumes "ip rm = 0" "cs rm = ucast seg" "seg \<le> 0xFFFF"
    and "m (push_bit 4 seg) = 0xCD" "m (push_bit 4 seg + 1) = n" "m (push_bit 4 seg + 2) = 0xCB"
    and "spares svc n (push_bit 4 seg + 2)"
  shows "exec_call svc rm m h = int_call svc n rm m h"
proof -
  obtain rm' m' h' where s: "svc n rm m h = (rm', m', h')" by (cases "svc n rm m h")
  have m': "m' (push_bit 4 seg + 2) = 0xCB" using sparesD[OF assms(7) s] assms(6) by simp
  have f: "fetch (rm, m, h) = Some (Int_n n)"
    using assms(4,5) by (simp add: fetch_def code_at_start[OF assms(1-3)])
  have "code_at (int_return rm rm') m' 0 = m' (push_bit 4 seg + 2)"
    using code_at_start[OF assms(1-3), of m' 2] assms(1) by (simp add: code_at_def int_return_def)
  then have g: "fetch (int_return rm rm', m', h') = Some Retf" by (simp add: fetch_def m')
  have "rm_run svc (Suc (Suc (Suc (Suc 0)))) (rm, m, h) = Some (int_return rm rm', m', h')"
    by (simp add: rm_run_step[OF f] rm_run_step[OF g] exec1_def s del: rm_run.simps)
  then show ?thesis by (simp add: exec_call_def int_call_def s numeral_eq_Suc del: rm_run.simps)
qed

end
