(* ===== verification/Dos_Exec.thy ===== *)
theory Dos_Exec
  imports Rm_Exec File_Io
begin

text \<open>
  The DOS file services on the processor of \<open>Rm_Exec\<close>. The model of \<open>Dos_Int21\<close> hands registers and
  memory to the DPMI host; here the host executes the code it is pointed at, and the services are shown to
  be the interrupt itself: the bytes \<open>CD 21 CB\<close> in the thunk paragraph, the CS:IP of the call and the repair of
  the thunk fit together. What is proved of the file objects over a DOS service holds over the machine
  code.
\<close>

section \<open>Definitions\<close>

text \<open>A host that executes, and one that issues INT 21h without any code.\<close>

definition executed :: "('h, 'x) dpmi_scheme \<Rightarrow> 'h services \<Rightarrow> ('h, 'x) dpmi_scheme" where
  "executed d svc = d\<lparr>rm_call := exec_call svc\<rparr>"

definition direct :: "('h, 'x) dpmi_scheme \<Rightarrow> 'h services \<Rightarrow> ('h, 'x) dpmi_scheme" where
  "direct d svc = d\<lparr>rm_call := int_call svc 0x21\<rparr>"

text \<open>
  An armed thunk whose linear address is that of its paragraph, in memory that can be written, and a DOS
  that leaves its far return alone.
\<close>

definition thunk_sound :: "('h, 'x) dpmi_scheme \<Rightarrow> 'h services \<Rightarrow> 'h dos \<Rightarrow> bool" where
  "thunk_sound d svc s \<longleftrightarrow> thunk_ready s \<and> thunk_seg s \<le> 0xFFFF \<and> thunk_linear s = push_bit 4 (thunk_seg s)
     \<and> thunk_linear s \<noteq> 0 \<and> (\<forall>i<3. writable d (thunk_linear s + of_nat i)) \<and> spares svc 0x21 (thunk_linear s + 2)"

section \<open>Lemmas\<close>

subsection \<open>One call\<close>

lemma store_bytes_rm_call: "store_bytes (d\<lparr>rm_call := rc\<rparr>) a bs m = store_bytes d a bs m"
  by (induction bs arbitrary: a m) (simp_all add: store_def)

lemma thunk_sound_mem [simp]:
  "thunk_sound d svc (s\<lparr>d_mem := m\<rparr>) = thunk_sound d svc s" "thunk_sound d svc (s\<lparr>d_host := h\<rparr>) = thunk_sound d svc s"
  by (simp_all add: thunk_sound_def)

lemma call_sound: "thunk_sound d svc s \<Longrightarrow> thunk_sound d svc (snd (snd (dos_int21_call e rm s)))"
  by (simp add: dos_int21_call_def dos_int21_thunk_init_def split_beta) (simp add: thunk_sound_def)

lemma call_executed:
  assumes "thunk_sound d svc s"
  shows "dos_int21_call (executed d svc) rm s = dos_int21_call (direct d svc) rm s"
proof -
  let ?m = "thunk_repair d s" and ?a = "push_bit 4 (thunk_seg s)"
  have s: "thunk_ready s" "thunk_seg s \<le> 0xFFFF" "thunk_linear s = ?a" "spares svc 0x21 (?a + 2)"
    "thunk_linear s \<noteq> 0" "\<forall>i<3. writable d (thunk_linear s + of_nat i)"
    using assms unfolding thunk_sound_def by metis+
  have "thunk_intact ?m ?a"
    using thunk_repair_intact[OF s(5,6)] s(3) by simp
  moreover have "ip (rm_prepare s rm) = 0" "cs (rm_prepare s rm) = ucast (thunk_seg s)"
    by (simp_all add: rm_prepare_def Let_def)
  ultimately have "exec_call svc (rm_prepare s rm) ?m (d_host s) = int_call svc 0x21 (rm_prepare s rm) ?m (d_host s)"
    using s(2,4) by (intro exec_int_thunk) (auto simp: thunk_intact_def)
  then show ?thesis
    using s(1) by (simp add: dos_int21_call_def executed_def direct_def thunk_rm_call dos_int21_thunk_init_def)
qed

subsection \<open>The services\<close>

lemma result_executed:
  "thunk_sound d svc s \<Longrightarrow> int21_result (executed d svc) rm s f = int21_result (direct d svc) rm s f"
  by (simp add: int21_result_def call_executed)

lemma result_sound: "thunk_sound d svc s \<Longrightarrow> thunk_sound d svc (snd (snd (int21_result e rm s f)))"
  using call_sound[of d svc s e rm] by (simp add: int21_result_def split_beta)

lemma store_executed:
  "store_bytes (executed d svc) = store_bytes d" "store_bytes (direct d svc) = store_bytes d"
  by (simp_all add: fun_eq_iff executed_def direct_def store_bytes_rm_call)

lemmas service_defs = dos_int21_open_def dos_int21_creat_def dos_int21_read_def dos_int21_write_def
  dos_int21_close_def dos_int21_lseek_def

lemma services_executed:
  assumes "thunk_sound d svc s"
  shows "dos_int21_open (executed d svc) path mode s = dos_int21_open (direct d svc) path mode s"
    "dos_int21_creat (executed d svc) path s = dos_int21_creat (direct d svc) path s"
    "dos_int21_read (executed d svc) fd n s = dos_int21_read (direct d svc) fd n s"
    "dos_int21_write (executed d svc) fd buf s = dos_int21_write (direct d svc) fd buf s"
    "dos_int21_close (executed d svc) fd s = dos_int21_close (direct d svc) fd s"
    "dos_int21_lseek (executed d svc) fd offset whence s = dos_int21_lseek (direct d svc) fd offset whence s"
  using assms by (simp_all add: service_defs store_executed result_executed call_executed Let_def)

lemma services_sound:
  assumes "thunk_sound d svc s"
  shows "thunk_sound d svc (snd (snd (dos_int21_open e path mode s)))"
    "thunk_sound d svc (snd (snd (dos_int21_creat e path s)))"
    "thunk_sound d svc (snd (snd (snd (dos_int21_read e fd n s))))"
    "thunk_sound d svc (snd (snd (dos_int21_write e fd buf s)))"
    "thunk_sound d svc (snd (snd (dos_int21_close e fd s)))"
    "thunk_sound d svc (snd (snd (dos_int21_lseek e fd offset whence s)))"
  using assms by (simp_all add: service_defs result_sound call_sound Let_def split_beta)

lemma fsize_executed:
  "thunk_sound d svc s \<Longrightarrow> dos_int21_fsize (executed d svc) fd s = dos_int21_fsize (direct d svc) fd s"
  by (simp add: dos_int21_fsize_def services_executed(6) services_sound(6) split_beta)

subsection \<open>The loops\<close>

text \<open>Two readers that agree on the states reached give the same loop.\<close>

lemma read_loop_cong:
  assumes "\<And>s n. I s \<Longrightarrow> rd s n = rd' s n" "\<And>s n. I s \<Longrightarrow> I (snd (snd (rd' s n)))"
  shows "I s \<Longrightarrow> read_loop rd sz tot buf s = read_loop rd' sz tot buf s"
proof (induction "sz - tot" arbitrary: tot buf s rule: less_induct)
  case less
  obtain n data u where r: "rd' s (sz - tot) = (n, data, u)" by (cases "rd' s (sz - tot)")
  have "I u" using assms(2)[OF less.prems, of "sz - tot"] r by simp
  then have "0 < n \<Longrightarrow> tot < sz \<Longrightarrow> read_loop rd sz (tot + nat n) (buf @ data) u = read_loop rd' sz (tot + nat n) (buf @ data) u"
    by (intro less.hyps) auto
  then show ?case
    using r assms(1)[OF less.prems, of "sz - tot"] by (subst (1 2) read_loop.simps) (auto simp: not_less)
qed

lemma write_loop_cong:
  assumes "\<And>s b. I s \<Longrightarrow> wr s b = wr' s b" "\<And>s b. I s \<Longrightarrow> I (snd (wr' s b))"
  shows "I s \<Longrightarrow> write_loop wr buf tot s = write_loop wr' buf tot s"
proof (induction "length buf - tot" arbitrary: tot s rule: less_induct)
  case less
  obtain n u where r: "wr' s (drop tot buf) = (n, u)" by (cases "wr' s (drop tot buf)")
  have "I u" using assms(2)[OF less.prems, of "drop tot buf"] r by simp
  then have "0 < n \<Longrightarrow> tot < length buf \<Longrightarrow> write_loop wr buf (tot + nat n) u = write_loop wr' buf (tot + nat n) u"
    by (intro less.hyps) auto
  then show ?case
    using r assms(1)[OF less.prems, of "drop tot buf"] by (subst (1 2) write_loop.simps) (auto simp: not_less)
qed

lemma files_executed:
  assumes "thunk_sound d svc s"
  shows "uc386dos_file_read (executed d svc) f n s = uc386dos_file_read (direct d svc) f n s"
    "uc386dos_file_write (executed d svc) f buf s = uc386dos_file_write (direct d svc) f buf s"
proof -
  have "dos_reader (executed d svc) fd s n = dos_reader (direct d svc) fd s n"
    "thunk_sound d svc (snd (snd (dos_reader (direct d svc) fd s n)))"
    "dos_writer (executed d svc) fd s b = dos_writer (direct d svc) fd s b"
    "thunk_sound d svc (snd (dos_writer (direct d svc) fd s b))"
    if "thunk_sound d svc s" for fd s n b
    using services_executed[OF that] services_sound[OF that, of "direct d svc"]
    by (simp_all add: dos_reader_def dos_writer_def split_beta)
  note rw = this
  show "uc386dos_file_read (executed d svc) f n s = uc386dos_file_read (direct d svc) f n s"
    using read_loop_cong[where I = "thunk_sound d svc", OF rw(1,2) assms] by (simp add: uc386dos_file_read_def)
  show "uc386dos_file_write (executed d svc) f buf s = uc386dos_file_write (direct d svc) f buf s"
    using write_loop_cong[where I = "thunk_sound d svc", OF rw(3,4) assms] by (simp add: uc386dos_file_write_def)
qed

text \<open>What a DOS does with the registers and memory of a call is the same for the two hosts.\<close>

lemma int_return_regs [simp]:
  "eax (int_return rm rm') = eax rm'" "flags (int_return rm rm') = flags rm'"
  "carry (int_return rm rm') = carry rm'" "ax (int_return rm rm') = ax rm'"
  by (simp_all add: int_return_def carry_def ax_def)

text \<open>A service of another machine as a handler of INT 21h.\<close>

definition as_handler :: "(dos_rmcs \<Rightarrow> mem \<Rightarrow> 'h \<Rightarrow> bool \<times> dos_rmcs \<times> mem \<times> 'h) \<Rightarrow> 'h services" where
  "as_handler f n rm m h = (case f rm m h of (cf, rm', m', h') \<Rightarrow> (rm', m', h'))"

lemma direct_call:
  "rm_call (direct d (as_handler f)) rm m h = (case f rm m h of (cf, rm', m', h') \<Rightarrow> (False, int_return rm rm', m', h'))"
  by (simp add: direct_def int_call_def as_handler_def split: prod.split)

lemma ram_reads_direct:
  "dos_read_service (direct (ram_host linear) (as_handler (ram_service linear))) fd seg linear (\<lambda>(c, pos). drop pos c)"
  unfolding dos_read_service_def
proof (intro allI impI)
  fix p :: dos_rmcs and m and h :: "bytes \<times> nat"
  assume p: "eax p = 0x3F00 \<and> ebx p = word_of_int fd \<and> ecx p \<noteq> 0 \<and> ds p = ucast seg \<and> edx p = 1024"
  obtain cf p' m' h' where c: "ram_service linear p m h = (cf, p', m', h')" by (cases "ram_service linear p m h") auto
  then have "rm_call (ram_host linear) p m h = (cf, p', m', h')" by (simp add: ram_host_def)
  from dos_read_serviceD[OF ram_reads[of linear fd seg] _ _ _ _ _ this] p
  have f: "\<not> carry p' \<and> ax p' \<le> uint (ecx p)
      \<and> (case h of (c, pos) \<Rightarrow> drop pos c) = load_bytes m' (linear + 1024) (nat (ax p')) @ (case h' of (c, pos) \<Rightarrow> drop pos c)
      \<and> (ax p' = 0 \<longrightarrow> (case h of (c, pos) \<Rightarrow> drop pos c) = [])" by blast
  have e: "rm_call (direct (ram_host linear) (as_handler (ram_service linear))) p m h = (False, int_return p p', m', h')"
    by (simp add: direct_call c)
  show "case rm_call (direct (ram_host linear) (as_handler (ram_service linear))) p m h of (cf, p', m', h') \<Rightarrow>
      \<not> cf \<and> \<not> carry p' \<and> ax p' \<le> uint (ecx p)
      \<and> (case h of (c, pos) \<Rightarrow> drop pos c) = load_bytes m' (linear + 1024) (nat (ax p')) @ (case h' of (c, pos) \<Rightarrow> drop pos c)
      \<and> (ax p' = 0 \<longrightarrow> (case h of (c, pos) \<Rightarrow> drop pos c) = [])"
    unfolding e prod.case int_return_regs using f by blast
qed

lemma ram_sound: "thunk_sound (ram_host 0x10000) (as_handler (ram_service 0x10000)) (ram_state c)"
proof -
  have "spares (as_handler (ram_service 0x10000)) 0x21 0x8002"
    by (auto simp: spares_def as_handler_def ram_service_def Let_def)
  then show ?thesis by (simp add: thunk_sound_def ram_state_def ram_host_def)
qed

section \<open>Properties\<close>

text \<open>
  C15. The thunk is INT 21h. On a host that executes the code it is pointed at, every DOS service of the program
  does what it would do with the interrupt itself: same result, same error, same memory and world
  afterwards; and the thunk stays fit for the next call.
\<close>

theorem dos_services_on_machine_code:
  assumes "thunk_sound d svc s"
  shows "dos_int21_open (executed d svc) path mode s = dos_int21_open (direct d svc) path mode s
    \<and> dos_int21_creat (executed d svc) path s = dos_int21_creat (direct d svc) path s
    \<and> dos_int21_read (executed d svc) fd n s = dos_int21_read (direct d svc) fd n s
    \<and> dos_int21_write (executed d svc) fd buf s = dos_int21_write (direct d svc) fd buf s
    \<and> dos_int21_close (executed d svc) fd s = dos_int21_close (direct d svc) fd s
    \<and> dos_int21_lseek (executed d svc) fd offset whence s = dos_int21_lseek (direct d svc) fd offset whence s
    \<and> dos_int21_fsize (executed d svc) fd s = dos_int21_fsize (direct d svc) fd s
    \<and> thunk_sound d svc (snd (snd (dos_int21_call (executed d svc) rm s)))"
  using services_executed[OF assms] fsize_executed[OF assms] call_sound[OF assms] by simp

theorem dos_services_on_machine_code_witness:
  "dos_int21_close (executed (ram_host 0x10000) (as_handler (ram_service 0x10000))) 5 (ram_state [])
     = dos_int21_close (direct (ram_host 0x10000) (as_handler (ram_service 0x10000))) 5 (ram_state [])"
  using dos_services_on_machine_code[OF ram_sound] by blast

text \<open>
  C14. Reading a file, from Python down to the machine code: over a DOS whose INT 21h reads the file, \<open>read(n)\<close> of a
  file object returns the next \<open>n\<close> bytes or what is left, through the loop, the bounce buffer, the DPMI call
  and the three bytes of the thunk.
\<close>

theorem file_read_on_machine_code:
  assumes "thunk_sound d svc s" "dos_read_service (direct d svc) (f_fd f) seg linear R" "io_ready seg linear s" "0 \<le> f_fd f"
  shows "\<exists>t. uc386dos_file_read (executed d svc) f n s = (Inr (take n (R (d_host s))), t) \<and> R (d_host t) = drop n (R (d_host s))"
  using read_loop_delivers[OF dos_reader_delivers[OF assms(2)] assms(3), of 0 n "[]"] assms(4)
  by (auto simp: files_executed[OF assms(1)]) (auto simp: uc386dos_file_read_def)

theorem file_read_on_machine_code_witness:
  "fst (uc386dos_file_read (executed (ram_host 0x10000) (as_handler (ram_service 0x10000))) \<lparr>f_fd = 5, f_text = False\<rparr> 4
     (ram_state (str ''import''))) = Inr (str ''impo'')"
proof -
  have "take 4 (str ''import'') = str ''impo''" by code_simp
  then show ?thesis
    using file_read_on_machine_code[OF ram_sound ram_reads_direct ram_ready[of "str ''import''"],
        where f = "\<lparr>f_fd = 5, f_text = False\<rparr>" and n = 4]
    by (auto simp: ram_state_def)
qed

end
