(* ===== verification/Pkt_Exec.thy ===== *)
theory Pkt_Exec
  imports Rm_Exec Pktdrv
begin

text \<open>
  The calls of the packet driver on the processor of \<open>Rm_Exec\<close>: which interrupt the thunk raises, whatever
  vector the driver was found at.
\<close>

section \<open>Lemmas\<close>

lemma probe_keeps:
  "pktdrv_probe_slot d n s = (r, t) \<Longrightarrow> pk_thunk_seg t = pk_thunk_seg s \<and> prealloc_thunk_seg t = prealloc_thunk_seg s"
  by (auto simp: pktdrv_probe_slot_def pktdrv_simulate_real_int_def Let_def split: prod.splits if_splits)

lemma detect_loop_keeps:
  "detect_loop d is s = (n, t) \<Longrightarrow> pk_thunk_seg t = pk_thunk_seg s \<and> prealloc_thunk_seg t = prealloc_thunk_seg s
    \<and> (n \<noteq> 0 \<longrightarrow> int_num t = n)"
proof (induction "is" arbitrary: s)
  case (Cons i "is")
  obtain r u where u: "pktdrv_probe_slot d (of_nat i) s = (r, u)" by fastforce
  with Cons probe_keeps[OF u] show ?case by (auto split: if_splits)
qed simp

lemma detect_keeps:
  "pktdrv_detect d s = (n, t) \<Longrightarrow> pk_thunk_seg t = pk_thunk_seg s \<and> prealloc_thunk_seg t = prealloc_thunk_seg s
    \<and> (n \<noteq> 0 \<longrightarrow> int_num t = n)"
  using detect_loop_keeps[of d "[0x60..<0x80]" s] by (auto simp: pktdrv_detect_def split: if_splits)

lemma bounce_keeps:
  "pktdrv_alloc_bounce s = (r, t) \<Longrightarrow> pk_thunk_seg t = pk_thunk_seg s \<and> prealloc_thunk_seg t = prealloc_thunk_seg s
    \<and> int_num t = int_num s"
  by (auto simp: pktdrv_alloc_bounce_def split: if_splits)

lemma alloc_thunk_head:
  assumes "pk_thunk_seg s = 0" "prealloc_thunk_seg s \<noteq> 0"
    and "\<forall>x. in_block (push_bit 4 (prealloc_thunk_seg s)) 0x50 x \<longrightarrow> writable d x"
    and "pktdrv_alloc_thunk d s = (r, t)"
  shows "r = 0" "pk_thunk_seg t = prealloc_thunk_seg s" "int_num t = int_num s" "load_bytes (p_mem t) (thunk_lin t) 3 = [0xCD, 0x60, 0xCB]"
  using assms(4) thunk_image_pieces(1)[OF assms(3), of "pk_bounce_seg s" "p_mem s"]
  by (auto simp: pktdrv_alloc_thunk_def assms(1,2) thunk_image_def thunk_lin_def thunk_head_def Let_def)

lemma int60_executed:
  assumes "pk_thunk_seg s \<noteq> 0" "pk_thunk_seg s \<le> 0xFFFF" "load_bytes (p_mem s) (thunk_lin s) 3 = [0xCD, 0x60, 0xCB]"
    and "spares svc 0x60 (thunk_lin s + 2)"
  shows "int60 (d\<lparr>rm_call := exec_call svc\<rparr>) rm s =
    (let p = rm\<lparr>cs := ucast (pk_thunk_seg s), ip := 0, ss := 0, sp := 0\<rparr>
     in case svc 0x60 p (p_mem s) (p_host s) of (rm', m', h') \<Rightarrow> (False, int_return p rm', s\<lparr>p_mem := m', p_host := h'\<rparr>))"
proof -
  let ?p = "rm\<lparr>cs := ucast (pk_thunk_seg s), ip := 0, ss := 0, sp := 0\<rparr>" and ?a = "push_bit 4 (pk_thunk_seg s)"
  have "p_mem s ?a = 0xCD" "p_mem s (?a + 1) = 0x60" "p_mem s (?a + 2) = 0xCB"
    using assms(3) by (simp_all add: thunk_lin_def numeral_3_eq_3 add.commute)
  then have "exec_call svc ?p (p_mem s) (p_host s) = int_call svc 0x60 ?p (p_mem s) (p_host s)"
    using assms(2,4) by (intro exec_int_thunk) (simp_all add: thunk_lin_def)
  then show ?thesis
    using assms(1) by (simp add: int60_def pktdrv_call_int60_thunk_def int_call_def Let_def split: prod.split)
qed

section \<open>Properties\<close>

text \<open>
  C32. The driver is called at 60h wherever it is. When the search of the vectors 60h to 7Fh finds it at \<open>n\<close> and the
  thunk is set up as initialisation does, a driver call raises INT 60h, with the caller's registers, and
  gives its answer; the vector \<open>n\<close> that was found plays no part. A driver at another vector is found,
  and then never called.
\<close>

theorem driver_called_at_60:
  assumes "pktdrv_detect d s = (n, s1)" "n \<noteq> 0" "pktdrv_alloc_bounce s1 = (r2, s2)" "pktdrv_alloc_thunk d s2 = (r3, t)"
    and "pk_thunk_seg s = 0" "prealloc_thunk_seg s \<noteq> 0" "prealloc_thunk_seg s \<le> 0xFFFF"
    and "\<forall>x. in_block (push_bit 4 (prealloc_thunk_seg s)) 0x50 x \<longrightarrow> writable d x"
    and "spares svc 0x60 (thunk_lin t + 2)"
  shows "int_num t = n \<and> int60 (d\<lparr>rm_call := exec_call svc\<rparr>) rm t =
    (let p = rm\<lparr>cs := ucast (prealloc_thunk_seg s), ip := 0, ss := 0, sp := 0\<rparr>
     in case svc 0x60 p (p_mem t) (p_host t) of (rm', m', h') \<Rightarrow> (False, int_return p rm', t\<lparr>p_mem := m', p_host := h'\<rparr>))"
proof -
  have s2: "pk_thunk_seg s2 = 0" "prealloc_thunk_seg s2 = prealloc_thunk_seg s" "int_num s2 = n"
    using detect_keeps[OF assms(1)] bounce_keeps[OF assms(3)] assms(2,5) by simp_all
  with alloc_thunk_head[OF _ _ _ assms(4)] assms(6,8)
  have t: "pk_thunk_seg t = prealloc_thunk_seg s" "int_num t = n" "load_bytes (p_mem t) (thunk_lin t) 3 = [0xCD, 0x60, 0xCB]"
    by simp_all
  with int60_executed[OF _ _ t(3) assms(9)] assms(6,7) show ?thesis by simp
qed

text \<open>A machine with a packet driver at 62h and something else at 60h, which refuses every call.\<close>

definition host62 :: "unit pkt_host" where
  "host62 = demo_host\<lparr>sim_rm_int := (\<lambda>n r m h. (n \<noteq> 0x62, r\<lparr>ebx := 0x0100, edx := 0x0100, flags := 0\<rparr>, m, h))\<rparr>"

definition handlers62 :: "unit services" where
  "handlers62 n rm m h = (rm\<lparr>flags := (if n = 0x62 then 0 else 1)\<rparr>, m, h)"

lemma detect62: "pktdrv_detect host62 demo_pkt = (0x62, demo_pkt\<lparr>int_num := 0x62\<rparr>)"
proof -
  have l: "[0x60..<0x80] = 0x60 # 0x61 # 0x62 # [0x63..<0x80::nat]" by (simp add: upt_rec)
  show ?thesis
    unfolding pktdrv_detect_def l
    by (simp add: pktdrv_probe_slot_def pktdrv_simulate_real_int_def driver_info_ok_def host62_def demo_host_def demo_pkt_def Let_def)
qed

theorem driver_called_at_60_witness:
  "\<exists>t. pktdrv_alloc_thunk host62 (snd (pktdrv_alloc_bounce (snd (pktdrv_detect host62 demo_pkt)))) = (0, t) \<and> int_num t = 0x62
     \<and> flags (fst (snd (int60 (host62\<lparr>rm_call := exec_call handlers62\<rparr>) (rmcs0\<lparr>eax := 0x0400\<rparr>) t))) = 1"
proof -
  obtain r2 s2 where 2: "pktdrv_alloc_bounce (demo_pkt\<lparr>int_num := 0x62\<rparr>) = (r2, s2)" by fastforce
  obtain r3 t where 3: "pktdrv_alloc_thunk host62 s2 = (r3, t)" by fastforce
  have s2: "pk_thunk_seg s2 = 0" "prealloc_thunk_seg s2 = 0x2000"
    using bounce_keeps[OF 2] by (simp_all add: demo_pkt_def)
  then have r3: "r3 = 0" using 3 by (simp add: pktdrv_alloc_thunk_def Let_def)
  have sp: "spares handlers62 0x60 a" for a by (simp add: spares_def handlers62_def)
  have "int_num t = 0x62 \<and> int60 (host62\<lparr>rm_call := exec_call handlers62\<rparr>) (rmcs0\<lparr>eax := 0x0400\<rparr>) t =
    (let p = (rmcs0\<lparr>eax := 0x0400\<rparr>)\<lparr>cs := ucast (prealloc_thunk_seg demo_pkt), ip := 0, ss := 0, sp := 0\<rparr>
     in case handlers62 0x60 p (p_mem t) (p_host t) of (rm', m', h') \<Rightarrow> (False, int_return p rm', t\<lparr>p_mem := m', p_host := h'\<rparr>))"
    by (rule driver_called_at_60[OF detect62 _ 2 3 _ _ _ _ sp]) (simp_all add: demo_pkt_def host62_def demo_host_def)
  then show ?thesis
    using 2 3 r3 by (simp add: detect62 handlers62_def int_return_def Let_def)
qed

end
