(* ===== verification/Pktdrv_Wf.thy ===== *)
theory Pktdrv_Wf
  imports Pktdrv
begin

text \<open>
  The receive buffer of the packet driver stays well-formed: \<open>pktdrv_rx_buf\<close> keeps its 1518 bytes and the
  stored length never exceeds them, through every operation, so that no copy into it or out of it leaves
  the array.
\<close>

section \<open>Definitions\<close>

definition pkt_wf :: "('h, 'n) pkt \<Rightarrow> bool" where
  "pkt_wf s \<longleftrightarrow> length (rx_buf s) = PKTDRV_MAX_FRAME \<and> rx_len s \<le> PKTDRV_MAX_FRAME"

text \<open>The operations that leave the receive buffer alone.\<close>

definition rx_same :: "('h, 'n) pkt \<Rightarrow> ('h, 'n) pkt \<Rightarrow> bool" where
  "rx_same s t \<longleftrightarrow> rx_buf t = rx_buf s \<and> rx_len t = rx_len s"

section \<open>Lemmas\<close>

lemma rx_same_trans: "rx_same s t \<Longrightarrow> rx_same t u \<Longrightarrow> rx_same s u"
  by (simp add: rx_same_def)

lemma rx_same_wf: "rx_same s t \<Longrightarrow> pkt_wf s \<Longrightarrow> pkt_wf t"
  by (simp add: rx_same_def pkt_wf_def)

lemma calls_rx_same:
  "rx_same s (snd (pktdrv_alloc_bounce s))"
  "rx_same s (snd (pktdrv_alloc_thunk d s))"
  "rx_same s (snd (snd (pktdrv_call_int60_thunk d rm s)))"
  "rx_same s (snd (snd (int60 hst rm s)))"
  "rx_same s (snd (pktdrv_alloc_dpmi_callback hst s))"
  by (auto simp: rx_same_def pktdrv_alloc_bounce_def pktdrv_alloc_thunk_def pktdrv_call_int60_thunk_def int60_def
      pktdrv_alloc_dpmi_callback_def Let_def split_beta)

lemmas calls_rx_same_fields [frame_rules] = calls_rx_same[unfolded rx_same_def]

lemma steps_rx_same:
  "rx_same s (snd (choose_receiver d s))"
  "rx_same s (release_all d s)"
  "rx_same s (set_rcv_mode d s)"
  "rx_same s (pktdrv_register_polling_rx d s)"
  "rx_same s (snd (pktdrv_get_addr d s))"
  "rx_same s (snd (pktdrv_access_one d r off s))"
  by (simp_all add: rx_same_def choose_receiver_def release_all_def set_rcv_mode_def frame_rules
      pktdrv_register_polling_rx_def pktdrv_get_addr_def pktdrv_access_one_def Let_def split_beta)

lemmas steps_rx_same_fields [frame_rules] = steps_rx_same[unfolded rx_same_def]

lemma access_rx_same: "rx_same s (snd (pktdrv_access d r s))"
  by (simp add: rx_same_def pktdrv_access_def frame_rules Let_def split_beta)

lemma probe_rx_same: "rx_same s (snd (pktdrv_probe_slot d n s))"
  by (auto simp: rx_same_def pktdrv_probe_slot_def pktdrv_simulate_real_int_def Let_def split_beta)

lemma detect_rx_same: "rx_same s (snd (detect_loop d is s))"
proof (induction "is" arbitrary: s)
  case (Cons i "is")
  show ?case
    using Cons.IH[of "snd (pktdrv_probe_slot d (of_nat i) s)"] probe_rx_same[of s d "of_nat i"]
    by (auto simp: rx_same_def Let_def split_beta)
qed (simp add: rx_same_def)

lemma detect_rx: "rx_same s (snd (pktdrv_detect d s))"
  using detect_rx_same[of s d "[0x60..<0x80]"] by (simp add: pktdrv_detect_def rx_same_def)

lemma int_num_rx_same: "rx_same s (t\<lparr>int_num := n\<rparr>) = rx_same s t" "rx_same s (t\<lparr>p_ne2k := ne\<rparr>) = rx_same s t"
  "rx_same (t\<lparr>p_ne2k := ne\<rparr>) s = rx_same t s"
  by (simp_all add: rx_same_def)

lemma crynwr_init_rx_same: "rx_same s (snd (crynwr_init d s))"
proof -
  define s1 where "s1 = snd (pktdrv_detect d s)"
  define s2 where "s2 = snd (pktdrv_alloc_bounce s1)"
  define s3 where "s3 = snd (pktdrv_alloc_thunk d s2)"
  define s4 where "s4 = snd (choose_receiver d s3)"
  define s5 where "s5 = release_all d s4"
  define s6 where "s6 = snd (pktdrv_access d (fst (choose_receiver d s3)) s5)"
  define s8 where "s8 = snd (pktdrv_get_addr d (set_rcv_mode d s6))"
  have 1: "rx_same s s1" unfolding s1_def by (rule detect_rx)
  then have 6: "rx_same s s6"
    unfolding s2_def s3_def s4_def s5_def s6_def
    by (meson calls_rx_same steps_rx_same access_rx_same rx_same_trans)
  then have 8: "rx_same s s8" and 9: "rx_same s (pktdrv_register_polling_rx d s8)"
    unfolding s8_def by (meson steps_rx_same rx_same_trans)+
  have "snd (crynwr_init d s) \<in> {s1, s6\<lparr>int_num := 0\<rparr>, s8\<lparr>int_num := 0\<rparr>, pktdrv_register_polling_rx d s8}"
    by (simp add: crynwr_init_def Let_def split_beta s1_def s2_def s3_def s4_def s5_def s6_def s8_def)
  with 1 6 8 9 show ?thesis by (auto simp: int_num_rx_same)
qed

lemma init_rx_same: "rx_same s (snd (pktdrv_init d nic s))"
  by (simp add: pktdrv_init_def rx_same_def crynwr_init_rx_same[unfolded rx_same_def] Let_def split_beta)

lemma send_rx_same: "pktdrv_send d nic buf n s = Some (r, t) \<Longrightarrow> rx_same s t"
  by (auto simp: pktdrv_send_def rx_same_def frame_rules Let_def split_beta split: if_splits)

lemma copy_to_rx_length: "n \<le> length buf \<Longrightarrow> length (copy_to_rx m a n buf) = length buf"
  by (simp add: copy_to_rx_def)

lemma poll_wf: "pkt_wf s \<Longrightarrow> pkt_wf (pktdrv_poll_rmstub d s)"
  by (simp add: pkt_wf_def pktdrv_poll_rmstub_def copy_to_rx_length Let_def)

lemma recv_wf: "pkt_wf s \<Longrightarrow> pkt_wf (snd (pktdrv_recv d nic maxlen s))"
  using poll_wf[of s d] by (simp add: pktdrv_recv_def Let_def split_beta pkt_wf_def)

lemma receiver_wf: "pkt_wf s \<Longrightarrow> pkt_wf (snd (uc386dos_pktdrv_receiver d phase len s))"
  by (simp add: pkt_wf_def uc386dos_pktdrv_receiver_def copy_to_rx_length Let_def)

lemma rmcs_unchanged: "\<exists>x. t = t\<lparr>p_rmcs := x\<rparr>"
  by (rule exI[of _ "p_rmcs t"]) simp

lemma dpmi_thunk_wf: "pkt_wf s \<Longrightarrow> pkt_wf (uc386dos_pktdrv_dpmi_thunk_c d s)"
proof -
  assume wf: "pkt_wf s"
  define phase where "phase = eax (p_rmcs s) AND 0xFFFF"
  define len where "len = unat (ecx (p_rmcs s) AND 0xFFFF)"
  define s1 where "s1 = s\<lparr>thunk_invocations := thunk_invocations s + 1\<rparr>"
  define s2 where "s2 = (if phase = 0 then s1\<lparr>thunk_phase0_count := thunk_phase0_count s1 + 1\<rparr> else s1)"
  define s3 where "s3 = (if phase = 1 then s2\<lparr>thunk_phase1_count := thunk_phase1_count s2 + 1\<rparr> else s2)"
  have "pkt_wf s3" using wf by (simp add: s1_def s2_def s3_def pkt_wf_def)
  then have r: "pkt_wf (snd (uc386dos_pktdrv_receiver d phase len s3))" by (rule receiver_wf)
  have "\<exists>x. uc386dos_pktdrv_dpmi_thunk_c d s = (snd (uc386dos_pktdrv_receiver d phase len s3))\<lparr>p_rmcs := x\<rparr>"
    unfolding uc386dos_pktdrv_dpmi_thunk_c_def Let_def phase_def[symmetric] len_def[symmetric]
      s1_def[symmetric] s2_def[symmetric] s3_def[symmetric]
    by (cases "uc386dos_pktdrv_receiver d phase len s3") (auto split: option.splits intro: rmcs_unchanged)
  with r show ?thesis by (auto simp: pkt_wf_def)
qed

text \<open>The states the operations lead to from \<open>s\<close>, in any order.\<close>

inductive pkt_reach :: "('h, 'x) pkt_host_scheme \<Rightarrow> ('n, 'y) nic_scheme \<Rightarrow> ('h, 'n) pkt \<Rightarrow> ('h, 'n) pkt \<Rightarrow> bool"
  for d nic s where
  reach_start: "pkt_reach d nic s s"
| reach_init: "pkt_reach d nic s t \<Longrightarrow> pkt_reach d nic s (snd (pktdrv_init d nic t))"
| reach_send: "pkt_reach d nic s t \<Longrightarrow> pktdrv_send d nic buf n t = Some (r, u) \<Longrightarrow> pkt_reach d nic s u"
| reach_recv: "pkt_reach d nic s t \<Longrightarrow> pkt_reach d nic s (snd (pktdrv_recv d nic maxlen t))"
| reach_thunk: "pkt_reach d nic s t \<Longrightarrow>
    pkt_reach d nic s (uc386dos_pktdrv_dpmi_thunk_c d (t\<lparr>p_rmcs := rm\<rparr>))"
| reach_host: "pkt_reach d nic s t \<Longrightarrow> pkt_reach d nic s (t\<lparr>p_mem := m, p_host := h\<rparr>)"

section \<open>Properties\<close>

text \<open>
  C30. Every operation keeps the receive buffer well-formed: however initialisation, sending, receiving,
  callbacks of the packet driver with any registers, and changes of memory by anyone else follow each
  other, the buffer has its 1518 bytes and the stored length does not exceed them.
\<close>

theorem pkt_wf_preserved:
  assumes "pkt_reach d nic s t" "pkt_wf s"
  shows "pkt_wf t"
  using assms
proof (induction rule: pkt_reach.induct)
  case (reach_init t)
  then show ?case using rx_same_wf[OF init_rx_same] by blast
next
  case (reach_send t buf n r u)
  then show ?case using rx_same_wf[OF send_rx_same] by blast
next
  case (reach_thunk t rm)
  then show ?case by (intro dpmi_thunk_wf) (simp add: pkt_wf_def)
next
  case (reach_host t m h)
  then show ?case by (simp add: pkt_wf_def)
qed (auto intro: recv_wf)

theorem pkt_wf_preserved_witness:
  "pkt_wf (snd (pktdrv_recv demo_host (const_nic 0) 64
     (uc386dos_pktdrv_dpmi_thunk_c demo_host (demo_pkt\<lparr>p_rmcs := rmcs0\<lparr>ecx := 60000\<rparr>\<rparr>))))"
  by (rule pkt_wf_preserved[of demo_host "const_nic 0" demo_pkt])
    (intro reach_recv reach_thunk reach_start, simp add: pkt_wf_def demo_pkt_def)

end
