(* ===== verification/Net_Diag.thy ===== *)
theory Net_Diag
  imports Net_Stack Console
begin

text \<open>
  What is left of \<open>lwip_uc386dos.c\<close> and \<open>uc386_net_uc386dos.c\<close>: the set-up of the ethernet interface as
  lwIP calls it back, and the diagnostics of the \<open>uc386_net\<close> module, with what they print.
\<close>

section \<open>Definitions\<close>

subsection \<open>The interface\<close>

text \<open>The fields \<open>netif_add\<close> lets the callback fill in. The flag bits and the functions are lwIP's.\<close>

record ('o, 'k) nif =
  nif_name :: bytes
  nif_output :: "'o option"
  nif_linkoutput :: "'k option"
  nif_mtu :: nat
  nif_hwaddr_len :: nat
  nif_flags :: byte

definition uc386dos_eth_netif_init_cb ::
  "'o \<Rightarrow> 'k \<Rightarrow> byte \<Rightarrow> byte \<Rightarrow> byte \<Rightarrow> ('o, 'k) nif \<Rightarrow> bool \<times> ('o, 'k) nif" where
  "uc386dos_eth_netif_init_cb etharp_output linkoutput FLAG_BROADCAST FLAG_ETHARP FLAG_ETHERNET netif =
     (True, netif\<lparr>nif_name := str ''en'', nif_output := Some etharp_output, nif_linkoutput := Some linkoutput,
        nif_mtu := 1500, nif_hwaddr_len := 6, nif_flags := FLAG_BROADCAST OR FLAG_ETHARP OR FLAG_ETHERNET\<rparr>)"

subsection \<open>Diagnostics of the module\<close>

text \<open>
  \<open>MP_OBJ_NEW_SMALL_INT\<close> shifts its argument left by one bit in 32 bits; the small integer is what an
  arithmetic shift to the right gives back.
\<close>

definition small_int :: "u32 \<Rightarrow> int" where
  "small_int v = signed_take_bit 30 (uint v)"

text \<open>The diagnostics call \<open>pktdrv_int_invoke\<close> and print; each gives its result, the output and the host.\<close>

definition mod_uc386_net_dos_alloc_test :: "('h, 'x) dpmi_scheme \<Rightarrow> 'h \<Rightarrow> int \<times> bytes \<times> 'h" where
  "mod_uc386_net_dos_alloc_test d h =
     (let out = str ''[bisect:alloc-pre]'';
          (cf, r, h) = int_invoke d 0x21 (regs0\<lparr>R_EAX := 0x4800, R_EBX := 1\<rparr>) h
      in (0, out @ str ''[bisect:alloc-post]'', h))"

definition mod_uc386_net_int60_then_alloc :: "('h, 'x) dpmi_scheme \<Rightarrow> 'h \<Rightarrow> int \<times> bytes \<times> 'h" where
  "mod_uc386_net_int60_then_alloc d h =
     (let out = str ''[bi:60pre]'';
          (cf, r1, h) = int_invoke d 0x60 (regs0\<lparr>R_EAX := 0x0100, R_EBX := 0xFFFF\<rparr>) h;
          out = out @ str ''[bi:60post]'' @ str ''[bi:21pre]'';
          (cf, r2, h) = int_invoke d 0x21 (regs0\<lparr>R_EAX := 0x4800, R_EBX := 1\<rparr>) h
      in (0, out @ str ''[bi:21post]'', h))"

definition mod_uc386_net_pktdrv_diag :: "('h, 'n) pkt \<Rightarrow> int list" where
  "mod_uc386_net_pktdrv_diag s =
     [small_int (thunk_invocations s), small_int (thunk_phase0_count s), small_int (thunk_phase1_count s),
      small_int (last_handle s), small_int (dpmi_seg s), small_int (dpmi_off s)]"

section \<open>Lemmas\<close>

lemma small_int_exact: "v < 0x40000000 \<Longrightarrow> small_int v = uint v"
  unfolding small_int_def
  by (rule signed_take_bit_int_eq_self) (use order.trans[OF _ uint_ge_0[of v], of "- (2 ^ 30)"] in \<open>simp_all add: word_less_def\<close>)

text \<open>The callback of the packet driver as the diagnostics see it: invocation and phase counters move together.\<close>

lemma thunk_counts:
  "thunk_invocations (uc386dos_pktdrv_dpmi_thunk_c d s) = thunk_invocations s + 1"
  "thunk_phase0_count (uc386dos_pktdrv_dpmi_thunk_c d s)
     = thunk_phase0_count s + (if eax (p_rmcs s) AND 0xFFFF = 0 then 1 else 0)"
  "thunk_phase1_count (uc386dos_pktdrv_dpmi_thunk_c d s)
     = thunk_phase1_count s + (if eax (p_rmcs s) AND 0xFFFF = 1 then 1 else 0)"
  by (auto simp: uc386dos_pktdrv_dpmi_thunk_c_def uc386dos_pktdrv_receiver_def Let_def split: if_splits option.splits)

lemma thunk_count_fold:
  "thunk_invocations (fold (\<lambda>rm s. uc386dos_pktdrv_dpmi_thunk_c d (s\<lparr>p_rmcs := rm\<rparr>)) rms s)
     = thunk_invocations s + of_nat (length rms)"
  by (induction rms arbitrary: s) (simp_all add: thunk_counts)

section \<open>Properties\<close>

text \<open>
  The diagnostic of the driver counts the callbacks: after \<open>n\<close> of them from a fresh driver its first
  item is \<open>n\<close>, as long as the small integer holds it.
\<close>

theorem diag_counts_callbacks:
  assumes "thunk_invocations s = 0" "length rms < 0x40000000"
  shows "hd (mod_uc386_net_pktdrv_diag (fold (\<lambda>rm s. uc386dos_pktdrv_dpmi_thunk_c d (s\<lparr>p_rmcs := rm\<rparr>)) rms s))
     = int (length rms)"
proof -
  have "uint (of_nat (length rms) :: u32) = int (length rms)"
    using assms(2) by (simp add: uint_nat unat_of_nat take_bit_nat_eq_self)
  then show ?thesis
    using assms by (simp add: mod_uc386_net_pktdrv_diag_def thunk_count_fold assms(1) small_int_exact word_less_def)
qed

theorem diag_counts_callbacks_witness:
  "hd (mod_uc386_net_pktdrv_diag (fold (\<lambda>rm s. uc386dos_pktdrv_dpmi_thunk_c demo_host (s\<lparr>p_rmcs := rm\<rparr>))
     [rmcs0, rmcs0\<lparr>eax := 1\<rparr>] demo_pkt)) = 2"
  by (subst diag_counts_callbacks) (simp_all add: demo_pkt_def)

end
