(* ===== verification/Bigint_Bench.thy ===== *)
theory Bigint_Bench
  imports Console
begin

text \<open>
  The multiplication benchmark of \<open>rigs/bigint-bench/main.c\<close>: \<open>regular_multiply\<close>, the schoolbook product
  of two numbers of 32-bit limbs, lowest first, and the program around it. The readings of the BIOS clock
  are arguments of the program; \<open>unsigned long\<close> has 32 bits.
\<close>

section \<open>Definitions\<close>

type_synonym u64 = "64 word"

text \<open>One round of the inner loop: the row of \<open>b = sb[i]\<close>, column \<open>j\<close>.\<close>

definition mul_step :: "u32 list \<Rightarrow> u32 \<Rightarrow> nat \<Rightarrow> nat \<Rightarrow> u32 list \<times> u32 \<Rightarrow> u32 list \<times> u32" where
  "mul_step sa b i j = (\<lambda>(sr, carry).
     let r = i + j;
         tmp = (ucast (sr ! r) :: u64) + ucast (sa ! j) * ucast b + ucast carry
     in (sr[r := ucast tmp], ucast (drop_bit 32 tmp)))"

definition mul_row :: "u32 list \<Rightarrow> u32 list \<Rightarrow> nat \<Rightarrow> nat \<Rightarrow> u32 list \<Rightarrow> u32 list" where
  "mul_row sa sb n i sr =
     (let (sr, carry) = fold (mul_step sa (sb ! i) i) [0..<n] (sr, 0) in sr[i + n := carry])"

definition regular_multiply :: "u32 list \<Rightarrow> u32 list \<Rightarrow> u32 list \<Rightarrow> nat \<Rightarrow> u32 list" where
  "regular_multiply sr sa sb n = fold (mul_row sa sb n) [0..<n] sr"

abbreviation bench_N :: nat where "bench_N \<equiv> 64"
abbreviation N_MUL_ITERS :: nat where "N_MUL_ITERS \<equiv> 600"

definition bench_sa :: "u32 list" where
  "bench_sa = map (\<lambda>i. 0x12345600 + of_nat i * 0x01010101) [0..<bench_N]"

definition bench_sb :: "u32 list" where
  "bench_sb = map (\<lambda>i. 0xabcdef00 + of_nat i * 0x10101010) [0..<bench_N]"

text \<open>The accumulator is cleared before every product.\<close>

definition bench_iter :: "u32 list \<Rightarrow> u32 list" where
  "bench_iter sr = regular_multiply (map (\<lambda>_. 0) sr) bench_sa bench_sb bench_N"

definition bench_sr :: "u32 list" where
  "bench_sr = (bench_iter ^^ N_MUL_ITERS) (replicate (2 * bench_N) 0)"

definition bench_report :: "u32 \<Rightarrow> u32 \<Rightarrow> bytes" where
  "bench_report t0 t1 =
     (let crlf = [ch_cr, ch_lf];
          ticks = t1 - t0;
          ms = ticks * 55;
          inner = of_nat N_MUL_ITERS * of_nat bench_N * of_nat bench_N
      in emit ''[bench:ticks=]'' @ emit_dec crlf ticks
         @ emit ''[bench:mul-iters=]'' @ emit_dec crlf (of_nat N_MUL_ITERS)
         @ emit ''[bench:inner=]'' @ emit_dec crlf inner
         @ emit ''[bench:ms=]'' @ emit_dec crlf ms
         @ (if inner > 0 then emit ''[bench:us/inner_x10=]'' @ emit_dec crlf (ms * 10000 div inner) else []))"

definition bench_main :: "u32 \<Rightarrow> u32 \<Rightarrow> bytes \<times> int" where
  "bench_main t0 t1 =
     (let crlf = [ch_cr, ch_lf]
      in (emit ''[bench:start]'' @ crlf
          @ emit ''[bench:t0=]'' @ emit_hex8 crlf t0
          @ emit ''[bench:t1=]'' @ emit_hex8 crlf t1
          @ bench_report t0 t1
          @ emit ''[bench:sr0=]'' @ emit_hex8 crlf (bench_sr ! 0)
          @ emit ''[bench:srN-1=]'' @ emit_hex8 crlf (bench_sr ! (2 * bench_N - 1))
          @ emit ''[bench:done]'' @ crlf, 0))"

section \<open>Lemmas\<close>

text \<open>The number a list of limbs stands for, lowest limb first.\<close>

fun limbs :: "u32 list \<Rightarrow> nat" where
  "limbs [] = 0"
| "limbs (x # xs) = unat x + 2 ^ 32 * limbs xs"

abbreviation base :: nat where "base \<equiv> 2 ^ 32"

lemma limbs_append: "limbs (xs @ ys) = limbs xs + base ^ length xs * limbs ys"
  by (induction xs) (simp_all add: algebra_simps)

lemma limbs_snoc: "limbs (xs @ [x]) = limbs xs + base ^ length xs * unat x"
  by (simp add: limbs_append)

lemma limbs_take_Suc: "k < length xs \<Longrightarrow> limbs (take (Suc k) xs) = limbs (take k xs) + base ^ k * unat (xs ! k)"
  by (simp add: take_Suc_conv_app_nth limbs_snoc)

lemma limbs_update:
  "k < length xs \<Longrightarrow> limbs (xs[k := v]) + base ^ k * unat (xs ! k) = limbs xs + base ^ k * unat v"
proof (induction xs arbitrary: k)
  case (Cons x xs)
  show ?case
  proof (cases k)
    case (Suc j)
    then have "limbs (xs[j := v]) + base ^ j * unat (xs ! j) = limbs xs + base ^ j * unat v"
      using Cons by simp
    then have "base * (limbs (xs[j := v]) + base ^ j * unat (xs ! j)) = base * (limbs xs + base ^ j * unat v)"
      by (rule arg_cong)
    then show ?thesis unfolding Suc by (simp add: algebra_simps)
  qed simp
qed simp

lemma limbs_zero: "limbs (replicate n 0) = 0"
  by (induction n) simp_all

text \<open>The 64-bit sum of a step does not wrap: its two halves are the sum.\<close>

lemma step_sum:
  fixes x a b c :: u32
  defines "tmp \<equiv> (ucast x :: u64) + ucast a * ucast b + ucast c"
  shows "unat (ucast tmp :: u32) + base * unat (ucast (drop_bit 32 tmp) :: u32) = unat x + unat a * unat b + unat c"
proof -
  have lt: "unat w < base" for w :: u32 using unsigned_less[of w, where ?'a = nat] by simp
  have "unat a * unat b \<le> (base - 1) * (base - 1)"
    using lt[of a] lt[of b] by (intro mult_mono) simp_all
  then have sum: "unat x + unat a * unat b + unat c < 2 ^ 64"
    using lt[of x] lt[of c] by simp
  have u: "unat (ucast w :: u64) = unat w" for w :: u32
    using lt[of w] by (simp add: unsigned_ucast_eq take_bit_nat_eq_self)
  have t: "unat tmp = unat x + unat a * unat b + unat c"
    using sum unfolding tmp_def by (simp add: unat_word_ariths u)
  have lo: "unat (ucast tmp :: u32) = unat tmp mod base"
    by (simp add: unsigned_ucast_eq take_bit_eq_mod)
  have "unat (drop_bit 32 tmp) = unat tmp div base"
    using unsigned_less[of tmp, where ?'a = nat]
    by (subst unsigned_drop_bit_eq) (simp add: drop_bit_eq_div take_bit_nat_eq_self)
  moreover have "unat tmp div base < base"
    using unsigned_less[of tmp, where ?'a = nat] by (simp add: less_mult_imp_div_less)
  ultimately have "unat (ucast (drop_bit 32 tmp) :: u32) = unat tmp div base"
    by (simp add: unsigned_ucast_eq take_bit_nat_eq_self)
  with lo t show ?thesis by simp
qed

lemma mul_step_apply:
  "mul_step sa b i j (sr, carry) =
     (let tmp = (ucast (sr ! (i + j)) :: u64) + ucast (sa ! j) * ucast b + ucast carry
      in (sr[i + j := ucast tmp], ucast (drop_bit 32 tmp)))"
  by (simp add: mul_step_def Let_def)

lemma mul_steps:
  assumes "k \<le> length sa" "i + k \<le> length sr" "fold (mul_step sa b i) [0..<k] (sr, 0) = (sr', carry)"
  shows "length sr' = length sr \<and> (\<forall>m. i + k \<le> m \<and> m < length sr \<longrightarrow> sr' ! m = sr ! m)
    \<and> limbs sr' + base ^ (i + k) * unat carry = limbs sr + base ^ i * (limbs (take k sa) * unat b)"
  using assms
proof (induction k arbitrary: sr' carry)
  case (Suc k)
  obtain s c where s: "fold (mul_step sa b i) [0..<k] (sr, 0) = (s, c)"
    by (cases "fold (mul_step sa b i) [0..<k] (sr, 0)")
  define tmp where "tmp = (ucast (s ! (i + k)) :: u64) + ucast (sa ! k) * ucast b + ucast c"
  have sr': "sr' = s[i + k := ucast tmp]" "carry = ucast (drop_bit 32 tmp)"
    using Suc.prems(3) mul_step_apply[of sa b i k s c] by (simp_all add: s tmp_def Let_def)
  have IH: "length s = length sr" "\<forall>m. i + k \<le> m \<and> m < length sr \<longrightarrow> s ! m = sr ! m"
    "limbs s + base ^ (i + k) * unat c = limbs sr + base ^ i * (limbs (take k sa) * unat b)"
    using Suc.IH[OF _ _ s] Suc.prems by simp_all
  have "limbs sr' + base ^ (i + k) * unat (s ! (i + k)) = limbs s + base ^ (i + k) * unat (ucast tmp :: u32)"
    unfolding sr'(1) using Suc.prems(2) IH(1) by (intro limbs_update) simp
  moreover have "base ^ (i + k) * (unat (ucast tmp :: u32) + base * unat carry)
      = base ^ (i + k) * (unat (s ! (i + k)) + unat (sa ! k) * unat b + unat c)"
    using step_sum[of "s ! (i + k)" "sa ! k" b c] by (simp only: tmp_def sr'(2))
  ultimately have "limbs sr' + base ^ (i + Suc k) * unat carry
      = limbs s + base ^ (i + k) * unat c + base ^ (i + k) * (unat (sa ! k) * unat b)"
    by (simp add: algebra_simps)
  also have "\<dots> = limbs sr + base ^ i * (limbs (take (Suc k) sa) * unat b)"
    using Suc.prems(1) IH(3) by (simp add: limbs_take_Suc power_add algebra_simps)
  finally show ?case using IH(1,2) by (simp add: sr'(1))
qed simp

lemma mul_row_spec:
  assumes "length sa = n" "i + n < length sr" "sr ! (i + n) = 0"
  shows "length (mul_row sa sb n i sr) = length sr"
    and "\<And>m. i + n < m \<Longrightarrow> m < length sr \<Longrightarrow> mul_row sa sb n i sr ! m = sr ! m"
    and "limbs (mul_row sa sb n i sr) = limbs sr + base ^ i * (limbs sa * unat (sb ! i))"
proof -
  obtain s c where s: "fold (mul_step sa (sb ! i) i) [0..<n] (sr, 0) = (s, c)"
    by (cases "fold (mul_step sa (sb ! i) i) [0..<n] (sr, 0)")
  have r: "mul_row sa sb n i sr = s[i + n := c]" by (simp add: mul_row_def s)
  have m: "length s = length sr" "\<forall>m. i + n \<le> m \<and> m < length sr \<longrightarrow> s ! m = sr ! m"
    "limbs s + base ^ (i + n) * unat c = limbs sr + base ^ i * (limbs (take n sa) * unat (sb ! i))"
    using mul_steps[OF _ _ s] assms by simp_all
  show "length (mul_row sa sb n i sr) = length sr" by (simp add: r m(1))
  show "mul_row sa sb n i sr ! k = sr ! k" if "i + n < k" "k < length sr" for k
    using that m(2) by (simp add: r)
  have "s ! (i + n) = 0" using m(2) assms(2,3) by simp
  with limbs_update[of "i + n" s c] m(1,3) assms(1,2)
  show "limbs (mul_row sa sb n i sr) = limbs sr + base ^ i * (limbs sa * unat (sb ! i))"
    by (simp add: r)
qed

lemma multiply_rows:
  assumes "length sa = n" "length sb = n" "length sr = 2 * n" "\<forall>m. n \<le> m \<and> m < 2 * n \<longrightarrow> sr ! m = 0" "k \<le> n"
  shows "length (fold (mul_row sa sb n) [0..<k] sr) = 2 * n
    \<and> (\<forall>m. n + k \<le> m \<and> m < 2 * n \<longrightarrow> fold (mul_row sa sb n) [0..<k] sr ! m = 0)
    \<and> limbs (fold (mul_row sa sb n) [0..<k] sr) = limbs sr + limbs sa * limbs (take k sb)"
  using assms(5)
proof (induction k)
  case 0
  then show ?case using assms by simp
next
  case (Suc k)
  let ?s = "fold (mul_row sa sb n) [0..<k] sr"
  have IH: "length ?s = 2 * n" "\<forall>m. n + k \<le> m \<and> m < 2 * n \<longrightarrow> ?s ! m = 0"
    "limbs ?s = limbs sr + limbs sa * limbs (take k sb)"
    using Suc by simp_all
  have z: "k + n < length ?s" "?s ! (k + n) = 0" using IH Suc.prems by simp_all
  note row = mul_row_spec[OF assms(1) z, where sb = sb]
  have "limbs (mul_row sa sb n k ?s) = limbs sr + limbs sa * limbs (take (Suc k) sb)"
    using Suc.prems assms(2) row(3) IH(3) by (simp add: limbs_take_Suc algebra_simps)
  then show ?case using row(1,2) IH(1,2) by simp
qed

lemma multiply_value:
  assumes "length sa = n" "length sb = n" "length sr = 2 * n" "\<forall>m. m < 2 * n \<longrightarrow> sr ! m = 0"
  shows "length (regular_multiply sr sa sb n) = 2 * n \<and> limbs (regular_multiply sr sa sb n) = limbs sa * limbs sb"
proof -
  have "sr = replicate (2 * n) 0" using assms(3,4) by (simp add: list_eq_iff_nth_eq)
  then have "limbs sr = 0" using limbs_zero by simp
  with multiply_rows[OF assms(1-3), of n] assms show ?thesis by (simp add: regular_multiply_def)
qed

lemma bench_iter_value:
  assumes "length sr = 2 * bench_N"
  shows "length (bench_iter sr) = 2 * bench_N \<and> limbs (bench_iter sr) = limbs bench_sa * limbs bench_sb"
  using assms multiply_value[of bench_sa bench_N bench_sb "map (\<lambda>_. 0) sr"]
  by (simp add: bench_iter_def bench_sa_def bench_sb_def)

section \<open>Properties\<close>

text \<open>
  C27. Schoolbook multiplication with 64-bit intermediate sums is multiplication: over a cleared accumulator
  of \<open>2 n\<close> limbs the result is the product of the two numbers, for all \<open>n\<close> and all limbs; no carry is
  lost and no limb outside the accumulator is touched.
\<close>

theorem regular_multiply_is_product:
  assumes "length sa = n" "length sb = n"
  shows "limbs (regular_multiply (replicate (2 * n) 0) sa sb n) = limbs sa * limbs sb
    \<and> length (regular_multiply (replicate (2 * n) 0) sa sb n) = 2 * n"
  using multiply_value[OF assms, of "replicate (2 * n) 0"] by simp

theorem regular_multiply_is_product_witness:
  "limbs (regular_multiply (replicate (2 * 2) 0) [0xFFFFFFFF, 0xFFFFFFFF] [0xFFFFFFFF, 0xFFFFFFFF] 2)
     = (2 ^ 64 - 1) * (2 ^ 64 - 1)
   \<and> length (regular_multiply (replicate (2 * 2) 0) [0xFFFFFFFF, 0xFFFFFFFF] [0xFFFFFFFF, 0xFFFFFFFF] 2) = 2 * 2"
  using regular_multiply_is_product[of "[0xFFFFFFFF, 0xFFFFFFFF]" 2 "[0xFFFFFFFF, 0xFFFFFFFF]"] by simp

text \<open>What the benchmark leaves in the accumulator, and prints two limbs of, is the product of its operands.\<close>

theorem bench_computes_product: "limbs bench_sr = limbs bench_sa * limbs bench_sb"
proof -
  have *: "length ((bench_iter ^^ k) (replicate (2 * bench_N) 0)) = 2 * bench_N" for k
    by (induction k) (use bench_iter_value in simp_all)
  have "N_MUL_ITERS = Suc 599" by simp
  then have "bench_sr = bench_iter ((bench_iter ^^ 599) (replicate (2 * bench_N) 0))"
    unfolding bench_sr_def by (simp only: funpow.simps comp_apply)
  with bench_iter_value[OF *[of 599]] show ?thesis by (simp only:)
qed

end
