(* ===== verification/Smoke_Socket.thy ===== *)
theory Smoke_Socket
  imports Console
begin

text \<open>
  The socket of the TLS smoke test, \<open>rigs/tls-smoke/main.c\<close> and \<open>tls_glue.c\<close>: a 4096-byte ring that lwIP's
  receive callback fills and axTLS drains, with free-running 32-bit indices, and the blocking read with
  its ten-second budget.

  lwIP and the clock are functions of the record \<open>smoke_env\<close> over a world \<open>'w\<close>; \<open>tick_pump\<close> may run the
  callbacks and so change the socket. A pbuf chain is the list of its payloads, and its \<open>tot_len\<close> the sum
  of their lengths; the errors are lwIP's codes, 0 for \<open>ERR_OK\<close>.
\<close>

section \<open>Definitions\<close>

abbreviation ERR_MEM :: int where "ERR_MEM \<equiv> -1"

record 'p smoke_sock =
  s_pcb :: "'p option"
  s_connected :: bool
  s_closed :: bool
  s_rx :: bytes
  s_head :: u32
  s_tail :: u32

record ('p, 'w) smoke_env =
  sm_pbuf_free :: "bytes list \<Rightarrow> 'w \<Rightarrow> 'w"
  sm_tcp_recved :: "'p \<Rightarrow> nat \<Rightarrow> 'w \<Rightarrow> 'w"
  sm_tcp_write :: "'p \<Rightarrow> bytes \<Rightarrow> 'w \<Rightarrow> int \<times> 'w"
  sm_tcp_output :: "'p \<Rightarrow> 'w \<Rightarrow> 'w"
  sm_ticks :: "'w \<Rightarrow> u32 \<times> 'w"
  sm_pump :: "'p smoke_sock \<Rightarrow> 'w \<Rightarrow> ('p smoke_sock \<times> 'w) option"

subsection \<open>Callbacks\<close>

text \<open>\<open>memcpy\<close> into the ring; bytes past its end would make the list longer.\<close>

definition put_at :: "nat \<Rightarrow> bytes \<Rightarrow> bytes \<Rightarrow> bytes" where
  "put_at t q buf = take t buf @ q @ drop (t + length q) buf"

text \<open>One pbuf of the chain, at offset \<open>t\<close>.\<close>

definition ring_copy :: "bytes \<Rightarrow> nat \<times> bytes \<Rightarrow> nat \<times> bytes" where
  "ring_copy q = (\<lambda>(t, buf).
     let n = length q; first = 4096 - t
     in if n \<le> first then ((t + n) mod 4096, put_at t q buf)
        else (n - first, put_at 0 (drop first q) (put_at t (take first q) buf)))"

definition smoke_recv_cb ::
  "('p, 'w, 'x) smoke_env_scheme \<Rightarrow> 'p \<Rightarrow> bytes list option \<Rightarrow> int \<Rightarrow> 'p smoke_sock \<Rightarrow> 'w \<Rightarrow> int \<times> 'p smoke_sock \<times> 'w" where
  "smoke_recv_cb e pcb p err s w =
     (case p of
        None \<Rightarrow> (0, s\<lparr>s_closed := True\<rparr>, w)
      | Some ps \<Rightarrow>
          if err \<noteq> 0 then (err, s, sm_pbuf_free e ps w)
          else let free_room = 4096 - (s_tail s - s_head s);
                   tot_len = length (concat ps)
               in if tot_len > unat free_room then (ERR_MEM, s, w)
                  else let t = unat (s_tail s AND 4095);
                           (t, buf) = fold ring_copy ps (t, s_rx s)
                       in (0, s\<lparr>s_rx := buf, s_tail := s_tail s + of_nat tot_len\<rparr>,
                           sm_pbuf_free e ps (sm_tcp_recved e pcb tot_len w)))"

definition smoke_connected_cb :: "int \<Rightarrow> 'p smoke_sock \<Rightarrow> int \<times> 'p smoke_sock" where
  "smoke_connected_cb err s = (0, if err = 0 then s\<lparr>s_connected := True\<rparr> else s)"

definition smoke_err_cb :: "'p smoke_sock \<Rightarrow> 'p smoke_sock" where
  "smoke_err_cb s = s\<lparr>s_closed := True, s_pcb := None\<rparr>"

subsection \<open>Reading and writing\<close>

text \<open>The bytes the two \<open>memcpy\<close>s take from the ring, and the head after them.\<close>

definition ring_take :: "nat \<Rightarrow> 'p smoke_sock \<Rightarrow> bytes \<times> 'p smoke_sock" where
  "ring_take maxlen s =
     (let avail = unat (s_tail s - s_head s);
          maxlen = (if maxlen > avail then avail else maxlen);
          h = unat (s_head s AND 4095);
          first = 4096 - h
      in (if maxlen \<le> first then take maxlen (drop h (s_rx s))
          else take first (drop h (s_rx s)) @ take (maxlen - first) (s_rx s),
          s\<lparr>s_head := s_head s + of_nat maxlen\<rparr>))"

text \<open>The number of bytes returned is the length of the list; \<open>None\<close> is a pump that never returns.\<close>

partial_function (option) sock_read_loop ::
  "('p, 'w, 'x) smoke_env_scheme \<Rightarrow> u32 \<Rightarrow> nat \<Rightarrow> 'p smoke_sock \<Rightarrow> 'w \<Rightarrow> (bytes \<times> 'p smoke_sock \<times> 'w) option" where
  "sock_read_loop e start maxlen s w =
     (if s_tail s - s_head s > 0 then (case ring_take maxlen s of (out, s) \<Rightarrow> Some (out, s, w))
      else if s_closed s then Some ([], s, w)
      else case sm_pump e s w of
             None \<Rightarrow> None
           | Some (s, w) \<Rightarrow>
               (case sm_ticks e w of (now, w) \<Rightarrow>
                  if now - start > 10 * 18 then Some ([], s, w) else sock_read_loop e start maxlen s w))"

definition smoke_sock_read ::
  "('p, 'w, 'x) smoke_env_scheme \<Rightarrow> nat \<Rightarrow> 'p smoke_sock \<Rightarrow> 'w \<Rightarrow> (bytes \<times> 'p smoke_sock \<times> 'w) option" where
  "smoke_sock_read e maxlen s w = (case sm_ticks e w of (start, w) \<Rightarrow> sock_read_loop e start maxlen s w)"

text \<open>The source keeps a non-blocking variant that nothing calls.\<close>

definition smoke_sock_read_nb :: "nat \<Rightarrow> 'p smoke_sock \<Rightarrow> int \<times> bytes \<times> 'p smoke_sock" where
  "smoke_sock_read_nb maxlen s =
     (if s_tail s - s_head s = 0 then (if s_closed s then 0 else -1, [], s)
      else case ring_take maxlen s of (out, s) \<Rightarrow> (int (length out), out, s))"

text \<open>
  What the program does with the socket in turn: \<open>None\<close> lets lwIP run, \<open>Some m\<close> reads up to \<open>m\<close> bytes.
  The first component are the bytes read, in order.
\<close>

fun sock_run :: "('p, 'w, 'x) smoke_env_scheme \<Rightarrow> nat option list \<Rightarrow> 'p smoke_sock \<Rightarrow> 'w \<Rightarrow> (bytes \<times> 'p smoke_sock \<times> 'w) option" where
  "sock_run e [] s w = Some ([], s, w)"
| "sock_run e (None # ops) s w = (case sm_pump e s w of None \<Rightarrow> None | Some (s, w) \<Rightarrow> sock_run e ops s w)"
| "sock_run e (Some m # ops) s w =
     (case smoke_sock_read e m s w of
        None \<Rightarrow> None
      | Some (out, s, w) \<Rightarrow> map_option (\<lambda>(outs, s, w). (out @ outs, s, w)) (sock_run e ops s w))"

definition smoke_sock_write ::
  "('p, 'w, 'x) smoke_env_scheme \<Rightarrow> bytes \<Rightarrow> 'p smoke_sock \<Rightarrow> 'w \<Rightarrow> int \<times> 'w" where
  "smoke_sock_write e buf s w =
     (case s_pcb s of
        None \<Rightarrow> (-1, w)
      | Some pcb \<Rightarrow>
          if s_closed s then (-1, w)
          else case sm_tcp_write e pcb buf w of (er, w) \<Rightarrow>
                 if er \<noteq> 0 then (-1, w) else (int (length buf), sm_tcp_output e pcb w))"

subsection \<open>The glue to axTLS\<close>

definition glue_hex :: "string \<Rightarrow> u32 \<Rightarrow> bytes" where
  "glue_hex tag v =
     emit tag @ map (\<lambda>i. hex_tab ! unat (drop_bit ((3 - i) * 4) v AND 0xF)) [0..<4] @ [ch_space]"

text \<open>The first component is what goes to the console.\<close>

definition mp_stream_posix_read ::
  "('p, 'w, 'x) smoke_env_scheme \<Rightarrow> nat \<Rightarrow> 'p smoke_sock \<Rightarrow> 'w \<Rightarrow> (bytes \<times> bytes \<times> 'p smoke_sock \<times> 'w) option" where
  "mp_stream_posix_read e sz s w =
     map_option (\<lambda>(out, s, w). (glue_hex ''[sr:'' (of_nat sz) @ glue_hex ''='' (of_nat (length out)), out, s, w))
       (smoke_sock_read e sz s w)"

definition mp_stream_posix_write ::
  "('p, 'w, 'x) smoke_env_scheme \<Rightarrow> bytes \<Rightarrow> 'p smoke_sock \<Rightarrow> 'w \<Rightarrow> bytes \<times> int \<times> 'w" where
  "mp_stream_posix_write e buf s w =
     (case smoke_sock_write e buf s w of (r, w) \<Rightarrow>
        (glue_hex ''[sw:'' (of_nat (length buf)) @ glue_hex ''='' (word_of_int r), r, w))"

section \<open>Lemmas\<close>

subsection \<open>A window of the ring\<close>

text \<open>The \<open>c\<close> bytes that start at offset \<open>k\<close> and wrap at 4096.\<close>

definition window :: "bytes \<Rightarrow> nat \<Rightarrow> nat \<Rightarrow> bytes" where
  "window buf k c = map (\<lambda>i. buf ! ((k + i) mod 4096)) [0..<c]"

lemma window_shift: "window buf ((k + m) mod 4096) c = map (\<lambda>i. buf ! ((k + m + i) mod 4096)) [0..<c]"
  by (simp add: window_def mod_add_left_eq)

lemma window_take: "m \<le> c \<Longrightarrow> take m (window buf k c) = window buf k m"
  by (simp add: window_def take_map)

lemma window_drop: "drop m (window buf k c) = window buf ((k + m) mod 4096) (c - m)"
  unfolding window_shift unfolding window_def by (simp add: drop_map drop_upt list_eq_iff_nth_eq add.assoc)

text \<open>How far behind offset \<open>t\<close> the offset \<open>k\<close> lies in the ring.\<close>

lemma dist_cases: "k < 4096 \<Longrightarrow> t < 4096 \<Longrightarrow> (k + 4096 - t) mod 4096 = (if t \<le> k then k - t else k + 4096 - t)" for k t :: nat
  by (auto simp: le_mod_geq)

lemma dist_window:
  fixes k i c :: nat
  assumes "i < 4096" "c \<le> 4096"
  shows "((k + i) mod 4096 + 4096 - (k + c) mod 4096) mod 4096 = (i + 4096 - c) mod 4096"
proof -
  have "(k + c) mod 4096 \<le> 4096" by (simp add: less_imp_le)
  then have "int (((k + i) mod 4096 + 4096 - (k + c) mod 4096) mod 4096)
      = (int (k + i) mod 4096 + 4096 - int (k + c) mod 4096) mod 4096"
    by (simp add: of_nat_diff zmod_int)
  also have "\<dots> = (int (k + i) + 0 - int (k + c)) mod 4096"
    by (intro mod_diff_cong mod_add_cong) simp_all
  finally have "int (((k + i) mod 4096 + 4096 - (k + c) mod 4096) mod 4096) = (int i - int c) mod 4096"
    by simp
  moreover have "int ((i + 4096 - c) mod 4096) = (int i + 4096 - int c) mod 4096"
    using assms(2) by (simp add: of_nat_diff zmod_int)
  moreover have "(int i + 4096 - int c) mod 4096 = (int i + 0 - int c) mod 4096"
    by (intro mod_diff_cong mod_add_cong) simp_all
  ultimately show ?thesis by simp
qed

lemma put_at_nth:
  assumes "t + length q \<le> length buf" "k < length buf"
  shows "put_at t q buf ! k = (if t \<le> k \<and> k < t + length q then q ! (k - t) else buf ! k)"
  using assms by (auto simp: put_at_def nth_append min_def)

lemma length_put_at: "t + length q \<le> length buf \<Longrightarrow> length (put_at t q buf) = length buf"
  by (simp add: put_at_def)

lemma ring_copy_nth:
  assumes "length buf = 4096" "t < 4096" "length q \<le> 4096" "ring_copy q (t, buf) = (t', buf')"
  shows "length buf' = 4096 \<and> t' = (t + length q) mod 4096
    \<and> (\<forall>k<4096. buf' ! k = (let i = (k + 4096 - t) mod 4096 in if i < length q then q ! i else buf ! k))"
proof (cases "length q \<le> 4096 - t")
  case True
  then have "t' = (t + length q) mod 4096" "buf' = put_at t q buf"
    using assms(4) by (simp_all add: ring_copy_def)
  with True assms(1,2) show ?thesis
    by (auto simp: length_put_at put_at_nth dist_cases Let_def)
next
  case False
  let ?first = "4096 - t"
  have "t' = length q - ?first" "buf' = put_at 0 (drop ?first q) (put_at t (take ?first q) buf)"
    using assms(4) False by (simp_all add: ring_copy_def Let_def)
  moreover have "(t + length q) mod 4096 = length q - ?first"
    using False assms(2,3) by (simp add: le_mod_geq)
  moreover have "length (put_at t (take ?first q) buf) = 4096"
    using False assms(1,2) by (subst length_put_at) simp_all
  ultimately show ?thesis
    using False assms(1-3)
    by (auto simp: length_put_at put_at_nth dist_cases Let_def add.commute)
qed

lemma ring_copy_window:
  assumes "length buf = 4096" "t = (k + c) mod 4096" "c + length q \<le> 4096" "ring_copy q (t, buf) = (t', buf')"
  shows "length buf' = 4096 \<and> t' = (k + (c + length q)) mod 4096
    \<and> window buf' k (c + length q) = window buf k c @ q"
proof -
  have t: "t < 4096" "length q \<le> 4096" using assms(2,3) by simp_all
  note r = ring_copy_nth[OF assms(1) t assms(4)]
  have "window buf' k (c + length q) ! i = (window buf k c @ q) ! i" if i: "i < c + length q" for i
  proof -
    define p where "p = (k + i) mod 4096"
    have p: "p < 4096" by (simp add: p_def)
    have "(p + 4096 - t) mod 4096 = (if c \<le> i then i - c else i + 4096 - c)"
      using i assms(2,3) dist_window[of i c k] unfolding p_def by (auto simp: le_mod_geq)
    then show ?thesis
      using r p i assms(3) by (auto simp: window_def nth_append Let_def p_def[symmetric])
  qed
  moreover have "t' = (k + (c + length q)) mod 4096"
    using r assms(2) by (simp add: mod_simps add.assoc)
  ultimately show ?thesis
    using r by (auto intro!: nth_equalityI simp: window_def)
qed

lemma ring_copies_window:
  "length buf = 4096 \<Longrightarrow> c + length (concat ps) \<le> 4096 \<Longrightarrow> fold ring_copy ps ((k + c) mod 4096, buf) = (t', buf') \<Longrightarrow>
    length buf' = 4096 \<and> window buf' k (c + length (concat ps)) = window buf k c @ concat ps"
proof (induction ps arbitrary: c buf)
  case (Cons q ps)
  obtain t1 buf1 where r: "ring_copy q ((k + c) mod 4096, buf) = (t1, buf1)"
    by (cases "ring_copy q ((k + c) mod 4096, buf)")
  have "c + length q \<le> 4096" using Cons.prems(2) by simp
  note s = ring_copy_window[OF Cons.prems(1) refl this r]
  have "fold ring_copy ps ((k + (c + length q)) mod 4096, buf1) = (t', buf')"
    using Cons.prems(3) r s by simp
  with Cons.IH[of buf1 "c + length q"] Cons.prems(2) s show ?case by (simp add: add.assoc)
qed simp

lemma window_flat:
  assumes "length buf = 4096" "k < 4096" "m \<le> 4096"
  shows "window buf k m = (if m \<le> 4096 - k then take m (drop k buf)
    else take (4096 - k) (drop k buf) @ take (m - (4096 - k)) buf)"
  using assms
  by (auto intro!: nth_equalityI simp: window_def nth_append le_mod_geq add.commute)

subsection \<open>The socket as a queue\<close>

definition ring_count :: "'p smoke_sock \<Rightarrow> nat" where
  "ring_count s = unat (s_tail s - s_head s)"

definition ring_bytes :: "'p smoke_sock \<Rightarrow> bytes" where
  "ring_bytes s = window (s_rx s) (unat (s_head s) mod 4096) (ring_count s)"

definition ring_ok :: "'p smoke_sock \<Rightarrow> bool" where
  "ring_ok s \<longleftrightarrow> length (s_rx s) = 4096 \<and> ring_count s \<le> 4096"

lemma and_4095: "unat (x AND 4095) = unat (x :: u32) mod 4096"
proof -
  have "(4095 :: u32) = mask 12" by (simp add: mask_eq_exp_minus_1)
  then have "x AND 4095 = take_bit 12 x" by (simp only: take_bit_eq_mask)
  then show ?thesis by (simp add: take_bit_eq_mod unat_mod)
qed

text \<open>The indices wrap at 2^32, a multiple of the size of the ring.\<close>

lemma index_add: "unat (x + of_nat m :: u32) mod 4096 = (unat x + m) mod 4096"
proof -
  have "unat (x + of_nat m :: u32) = (unat x + m) mod 2 ^ 32"
    by (simp add: unat_word_ariths unat_of_nat take_bit_eq_mod mod_simps)
  moreover have "(4096 :: nat) dvd 2 ^ 32" by simp
  ultimately show ?thesis by (simp only: mod_mod_cancel)
qed

lemma tail_offset: "unat (s_tail s) mod 4096 = (unat (s_head s) mod 4096 + ring_count s) mod 4096"
  using index_add[of "s_head s" "ring_count s"] by (simp add: ring_count_def mod_simps)

lemma length_ring_bytes: "length (ring_bytes s) = ring_count s"
  by (simp add: ring_bytes_def window_def)

lemma unat_add_small: "unat (x :: u32) + m < 2 ^ 32 \<Longrightarrow> unat (x + of_nat m) = unat x + m"
  by (simp add: unat_word_ariths unat_of_nat take_bit_nat_eq_self)

lemma recv_cb_data:
  assumes "ring_ok s" "smoke_recv_cb e pcb (Some ps) 0 s w = (r, t, v)"
  shows "ring_ok t \<and> (if ring_count s + length (concat ps) \<le> 4096
      then r = 0 \<and> ring_bytes t = ring_bytes s @ concat ps
      else r = ERR_MEM \<and> t = s \<and> v = w)"
proof -
  have c: "ring_count s \<le> 4096" "length (s_rx s) = 4096" using assms(1) by (simp_all add: ring_ok_def)
  then have room: "unat (4096 - (s_tail s - s_head s)) = 4096 - ring_count s"
    by (simp add: ring_count_def unat_sub word_le_nat_alt)
  show ?thesis
  proof (cases "ring_count s + length (concat ps) \<le> 4096")
    case True
    obtain t' buf where f: "fold ring_copy ps ((unat (s_head s) mod 4096 + ring_count s) mod 4096, s_rx s) = (t', buf)"
      by (cases "fold ring_copy ps ((unat (s_head s) mod 4096 + ring_count s) mod 4096, s_rx s)")
    have t: "r = 0" "t = s\<lparr>s_rx := buf, s_tail := s_tail s + of_nat (length (concat ps))\<rparr>"
      using assms(2) True f c unfolding smoke_recv_cb_def Let_def and_4095 tail_offset room
      by (auto simp del: length_concat split: if_splits)
    have "ring_count t = ring_count s + length (concat ps)"
      using unat_add_small[of "s_tail s - s_head s" "length (concat ps)"] True
      unfolding t(2) ring_count_def by (simp add: algebra_simps)
    with ring_copies_window[OF c(2) True f] True t show ?thesis
      by (simp add: ring_ok_def ring_bytes_def)
  next
    case False
    then have "length (concat ps) > 4096 - ring_count s" using c(1) by linarith
    with assms False show ?thesis
      unfolding smoke_recv_cb_def Let_def room by (auto simp del: length_concat)
  qed
qed

lemma ring_take_bytes:
  assumes "ring_ok s" "ring_take m s = (out, t)"
  shows "ring_ok t \<and> out = take m (ring_bytes s) \<and> ring_bytes t = drop m (ring_bytes s)
    \<and> s_closed t = s_closed s \<and> s_pcb t = s_pcb s \<and> s_connected t = s_connected s"
proof -
  define n where "n = min m (ring_count s)"
  have c: "ring_count s \<le> 4096" "length (s_rx s) = 4096" using assms(1) by (simp_all add: ring_ok_def)
  have n: "n \<le> ring_count s" "n \<le> 4096" using c by (simp_all add: n_def)
  have m: "(if m > unat (s_tail s - s_head s) then unat (s_tail s - s_head s) else m) = n"
    by (simp add: n_def ring_count_def min_def)
  have t: "t = s\<lparr>s_head := s_head s + of_nat n\<rparr>" "out = window (s_rx s) (unat (s_head s) mod 4096) n"
    using assms(2) window_flat[OF c(2) _ n(2), of "unat (s_head s) mod 4096"]
    unfolding ring_take_def m Let_def and_4095 by (simp_all split: if_splits)
  have "ring_count t = ring_count s - n"
  proof -
    have "of_nat n \<le> s_tail s - s_head s"
      using n by (simp add: word_le_nat_alt ring_count_def unat_of_nat take_bit_nat_eq_self)
    from unat_sub[OF this] show ?thesis
      using n by (simp add: t(1) ring_count_def unat_of_nat take_bit_nat_eq_self diff_diff_eq)
  qed
  moreover have "ring_bytes t = drop n (ring_bytes s)"
    using \<open>ring_count t = ring_count s - n\<close> unfolding ring_bytes_def window_drop
    by (simp add: t(1) index_add mod_simps)
  moreover have "out = take n (ring_bytes s)"
    using n(1) by (simp add: t(2) ring_bytes_def window_take)
  moreover have "take n (ring_bytes s) = take m (ring_bytes s)" "drop n (ring_bytes s) = drop m (ring_bytes s)"
    by (auto simp: n_def min_def length_ring_bytes)
  ultimately show ?thesis using c by (simp add: ring_ok_def t(1))
qed

subsection \<open>A byte queue\<close>

text \<open>
  What a reader of a byte queue relies on when other code feeds it: a step of the feeder adds the bytes
  it accepts at the end and logs them in \<open>accepted\<close>, and a read, during which the feeder may run, hands out
  bytes from the front, no more than asked for.
\<close>

locale byte_queue =
  fixes ok :: "'s \<Rightarrow> bool"
    and contents accepted :: "'s \<Rightarrow> bytes"
    and feed :: "'s \<Rightarrow> 's option"
    and read :: "nat \<Rightarrow> 's \<Rightarrow> (bytes \<times> 's) option"
  assumes feed: "ok s \<Longrightarrow> feed s = Some t \<Longrightarrow> ok t \<and> (\<exists>i. accepted t = accepted s @ i \<and> contents t = contents s @ i)"
    and read: "ok s \<Longrightarrow> read n s = Some (out, t) \<Longrightarrow>
      ok t \<and> length out \<le> n \<and> (\<exists>i. accepted t = accepted s @ i \<and> out @ contents t = contents s @ i)"

text \<open>A schedule of feeder steps and reads.\<close>

fun queue_run :: "('s \<Rightarrow> 's option) \<Rightarrow> (nat \<Rightarrow> 's \<Rightarrow> (bytes \<times> 's) option) \<Rightarrow> nat option list \<Rightarrow> 's \<Rightarrow> (bytes \<times> 's) option" where
  "queue_run feed read [] s = Some ([], s)"
| "queue_run feed read (None # ops) s = (case feed s of None \<Rightarrow> None | Some s \<Rightarrow> queue_run feed read ops s)"
| "queue_run feed read (Some n # ops) s =
     (case read n s of None \<Rightarrow> None
      | Some (out, s) \<Rightarrow> map_option (\<lambda>(outs, s). (out @ outs, s)) (queue_run feed read ops s))"

context byte_queue
begin

lemma stream:
  "ok s \<Longrightarrow> queue_run feed read ops s = Some (out, t) \<Longrightarrow>
    ok t \<and> (\<exists>i. accepted t = accepted s @ i \<and> out @ contents t = contents s @ i)"
proof (induction ops arbitrary: s out)
  case Nil
  then show ?case by simp
next
  case (Cons q ops)
  show ?case
  proof (cases q)
    case None
    then obtain u where u: "feed s = Some u" "queue_run feed read ops u = Some (out, t)"
      using Cons.prems(2) by (auto split: option.splits)
    with local.feed[OF Cons.prems(1) u(1)] Cons.IH[OF _ u(2)] show ?thesis by auto
  next
    case (Some n)
    then obtain a u b where u: "read n s = Some (a, u)" "queue_run feed read ops u = Some (b, t)" "out = a @ b"
      using Cons.prems(2) by (auto split: option.splits)
    obtain i where i: "ok u" "accepted u = accepted s @ i" "a @ contents u = contents s @ i"
      using local.read[OF Cons.prems(1) u(1)] by blast
    obtain j where j: "ok t" "accepted t = accepted u @ j" "b @ contents t = contents u @ j"
      using Cons.IH[OF i(1) u(2)] by blast
    have "out @ contents t = contents s @ i @ j" using i(3) j(3) u(3) by (metis append.assoc)
    with i(2) j(1,2) show ?thesis by auto
  qed
qed

end

text \<open>
  What lwIP does with the socket while it runs: it calls the registered callbacks. \<open>fed s i t\<close>: some
  calls lead from \<open>s\<close> to \<open>t\<close>, and \<open>i\<close> are the bytes they accepted, by returning \<open>ERR_OK\<close>.
\<close>

inductive fed :: "('p, 'w, 'x) smoke_env_scheme \<Rightarrow> 'p smoke_sock \<Rightarrow> bytes \<Rightarrow> 'p smoke_sock \<Rightarrow> bool" for e s where
  fed_none: "fed e s [] s"
| fed_recv: "fed e s i t \<Longrightarrow> smoke_recv_cb e pcb p err t w = (r, u, v) \<Longrightarrow>
    fed e s (i @ (if r = 0 then concat (case p of None \<Rightarrow> [] | Some ps \<Rightarrow> ps) else [])) u"
| fed_connected: "fed e s i t \<Longrightarrow> fed e s i (snd (smoke_connected_cb err t))"
| fed_err: "fed e s i t \<Longrightarrow> fed e s i (smoke_err_cb t)"

text \<open>The world logs in \<open>A\<close> the bytes the callbacks accepted; the clock leaves the log alone.\<close>

definition pump_feeds :: "('p, 'w, 'x) smoke_env_scheme \<Rightarrow> ('w \<Rightarrow> bytes) \<Rightarrow> bool" where
  "pump_feeds e A \<longleftrightarrow>
     (\<forall>s w t v. sm_pump e s w = Some (t, v) \<longrightarrow> (\<exists>i. fed e s i t \<and> A v = A w @ i))
     \<and> (\<forall>w. A (snd (sm_ticks e w)) = A w)"

lemma fed_ring: "fed e s i t \<Longrightarrow> ring_ok s \<Longrightarrow> ring_ok t \<and> ring_bytes t = ring_bytes s @ i"
proof (induction rule: fed.induct)
  case fed_none
  then show ?case by simp
next
  case (fed_recv i t pcb p err w r u v)
  then have t: "ring_ok t" "ring_bytes t = ring_bytes s @ i" by simp_all
  show ?case
  proof (cases "p = None \<or> err \<noteq> 0")
    case True
    then show ?thesis
      using t fed_recv.hyps(2)
      by (auto simp: smoke_recv_cb_def ring_ok_def ring_bytes_def ring_count_def split: option.splits if_splits)
  next
    case False
    then obtain ps where "p = Some ps" "err = 0" by auto
    with recv_cb_data[OF t(1), of e pcb ps w r u v] fed_recv.hyps(2) t show ?thesis
      by (auto split: if_splits)
  qed
next
  case (fed_connected i t err)
  then show ?case by (simp add: smoke_connected_cb_def ring_ok_def ring_bytes_def ring_count_def)
next
  case (fed_err i t)
  then show ?case by (simp add: smoke_err_cb_def ring_ok_def ring_bytes_def ring_count_def)
qed

lemma pump_ring:
  assumes "pump_feeds e A" "ring_ok s" "sm_pump e s w = Some (t, v)"
  shows "ring_ok t \<and> (\<exists>i. A v = A w @ i \<and> ring_bytes t = ring_bytes s @ i)"
  using assms fed_ring unfolding pump_feeds_def by metis

lemma ring_empty: "ring_bytes s = [] \<longleftrightarrow> \<not> s_tail s - s_head s > 0"
  using length_ring_bytes[of s] by (simp add: ring_count_def word_gt_0 unat_eq_zero flip: length_0_conv)

text \<open>
  The blocking read hands out what stands in front, also when it arrived while it waited, and comes back
  with nothing only when the ring is empty and the peer has closed, or when the budget is used up.
\<close>

lemma read_loop_ring:
  assumes "sock_read_loop e start m s w = Some (out, t, v)" "pump_feeds e A" "ring_ok s"
  shows "ring_ok t \<and> length out \<le> m \<and> (\<exists>i. A v = A w @ i \<and> out @ ring_bytes t = ring_bytes s @ i)
    \<and> (out = [] \<and> 0 < m \<longrightarrow> ring_bytes t = [] \<and> s_closed t \<or> (\<exists>x. snd (sm_ticks e x) = v \<and> fst (sm_ticks e x) - start > 180))"
proof -
  have "pump_feeds e A \<longrightarrow> ring_ok s \<longrightarrow> (case (out, t, v) of (out, t, v) \<Rightarrow>
      ring_ok t \<and> length out \<le> m \<and> (\<exists>i. A v = A w @ i \<and> out @ ring_bytes t = ring_bytes s @ i)
      \<and> (out = [] \<and> 0 < m \<longrightarrow> ring_bytes t = [] \<and> s_closed t \<or> (\<exists>x. snd (sm_ticks e x) = v \<and> fst (sm_ticks e x) - start > 180)))"
    using assms(1)
  proof (induction rule: sock_read_loop.raw_induct[rotated 1, consumes 1])
    case (1 rec e start m s w r)
    show ?case
    proof (intro impI)
      assume A: "pump_feeds e A" and ok: "ring_ok s"
      consider (data) "s_tail s - s_head s > 0" | (closed) "\<not> s_tail s - s_head s > 0" "s_closed s"
        | (wait) "\<not> s_tail s - s_head s > 0" "\<not> s_closed s" by blast
      then show "case r of (out, t, v) \<Rightarrow>
          ring_ok t \<and> length out \<le> m \<and> (\<exists>i. A v = A w @ i \<and> out @ ring_bytes t = ring_bytes s @ i)
          \<and> (out = [] \<and> 0 < m \<longrightarrow> ring_bytes t = [] \<and> s_closed t \<or> (\<exists>x. snd (sm_ticks e x) = v \<and> fst (sm_ticks e x) - start > 180))"
      proof cases
        case data
        obtain o' t' where k: "ring_take m s = (o', t')" by (cases "ring_take m s")
        then have "r = (o', t', w)" using "1.hyps" data by simp
        moreover have "ring_bytes s \<noteq> []" using data by (simp add: ring_empty)
        ultimately show ?thesis using ring_take_bytes[OF ok k] by auto
      next
        case closed
        then have "r = ([], s, w)" using "1.hyps" by simp
        with ok closed show ?thesis by (simp add: ring_empty)
      next
        case wait
        obtain s1 w1 where p: "sm_pump e s w = Some (s1, w1)" using "1.hyps" wait by (auto split: option.splits)
        obtain now w2 where n: "sm_ticks e w1 = (now, w2)" by (cases "sm_ticks e w1")
        obtain i where i: "ring_ok s1" "A w1 = A w @ i" "ring_bytes s1 = ring_bytes s @ i"
          using pump_ring[OF A ok p] by blast
        have w2: "A w2 = A w1" using A n unfolding pump_feeds_def by (metis snd_conv)
        show ?thesis
        proof (cases "now - start > 10 * 18")
          case True
          then have "r = ([], s1, w2)" using "1.hyps" wait p n by simp
          with True n i w2 show ?thesis by (auto intro!: exI[of _ w1])
        next
          case False
          then have "rec e start m s1 w2 = Some r" using "1.hyps" wait p n by simp
          from "1.IH"[OF this] A i w2 show ?thesis by (fastforce split: prod.splits)
        qed
      qed
    qed
  qed
  with assms(2,3) show ?thesis by simp
qed

lemma sock_read_ring:
  assumes "pump_feeds e A" "ring_ok s" "smoke_sock_read e m s w = Some (out, t, v)"
  shows "ring_ok t \<and> length out \<le> m \<and> (\<exists>i. A v = A w @ i \<and> out @ ring_bytes t = ring_bytes s @ i)"
    and "out = [] \<Longrightarrow> 0 < m \<Longrightarrow> ring_bytes t = [] \<and> s_closed t
      \<or> (\<exists>x. snd (sm_ticks e x) = v \<and> fst (sm_ticks e x) - fst (sm_ticks e w) > 180)"
proof -
  obtain start u where n: "sm_ticks e w = (start, u)" by (cases "sm_ticks e w")
  have "A u = A w" using assms(1) n unfolding pump_feeds_def by (metis snd_conv)
  moreover have "sock_read_loop e start m s u = Some (out, t, v)" using assms(3) n by (simp add: smoke_sock_read_def)
  note read_loop_ring[OF this assms(1,2)]
  ultimately show "ring_ok t \<and> length out \<le> m \<and> (\<exists>i. A v = A w @ i \<and> out @ ring_bytes t = ring_bytes s @ i)"
    "out = [] \<Longrightarrow> 0 < m \<Longrightarrow> ring_bytes t = [] \<and> s_closed t
      \<or> (\<exists>x. snd (sm_ticks e x) = v \<and> fst (sm_ticks e x) - fst (sm_ticks e w) > 180)"
    using n by simp_all
qed

text \<open>The two ends of the ring: lwIP's run of the callbacks, and the read that axTLS is wired to.\<close>

definition ring_feed :: "('p, 'w, 'x) smoke_env_scheme \<Rightarrow> 'p smoke_sock \<times> 'w \<Rightarrow> ('p smoke_sock \<times> 'w) option" where
  "ring_feed e = (\<lambda>(s, w). sm_pump e s w)"

definition ring_read :: "('p, 'w, 'x) smoke_env_scheme \<Rightarrow> nat \<Rightarrow> 'p smoke_sock \<times> 'w \<Rightarrow> (bytes \<times> 'p smoke_sock \<times> 'w) option" where
  "ring_read e m = (\<lambda>(s, w). smoke_sock_read e m s w)"

interpretation ring: byte_queue "\<lambda>x. ring_ok (fst x) \<and> pump_feeds e A" "\<lambda>x. ring_bytes (fst x)" "\<lambda>x. A (snd x)"
    "ring_feed e" "ring_read e"
  for e :: "('p, 'w, 'x) smoke_env_scheme" and A
proof
  fix x y :: "'p smoke_sock \<times> 'w" and n out
  assume ok: "ring_ok (fst x) \<and> pump_feeds e A"
  show "(ring_ok (fst y) \<and> pump_feeds e A) \<and> (\<exists>i. A (snd y) = A (snd x) @ i \<and> ring_bytes (fst y) = ring_bytes (fst x) @ i)"
    if "ring_feed e x = Some y"
    using that pump_ring[of e A "fst x" "snd x" "fst y" "snd y"] ok by (simp add: ring_feed_def split_beta)
  show "(ring_ok (fst y) \<and> pump_feeds e A) \<and> length out \<le> n
      \<and> (\<exists>i. A (snd y) = A (snd x) @ i \<and> out @ ring_bytes (fst y) = ring_bytes (fst x) @ i)"
    if "ring_read e n x = Some (out, y)"
    using that sock_read_ring(1)[of e A "fst x" n "snd x" out "fst y" "snd y"] ok by (simp add: ring_read_def split_beta)
qed

lemma sock_run_queue: "sock_run e ops s w = queue_run (ring_feed e) (ring_read e) ops (s, w)"
  by (induction ops arbitrary: s w rule: list.induct, simp)
    (rename_tac q ops s w, case_tac q; auto simp: ring_feed_def ring_read_def split: option.splits)

subsection \<open>The blocking read\<close>

text \<open>The \<open>n\<close>-th state of the socket while nothing arrives and the budget lasts.\<close>

fun pumped :: "('p, 'w, 'x) smoke_env_scheme \<Rightarrow> nat \<Rightarrow> 'p smoke_sock \<Rightarrow> 'w \<Rightarrow> ('p smoke_sock \<times> u32 \<times> 'w) option" where
  "pumped e 0 s w = None"
| "pumped e (Suc n) s w =
     (case sm_pump e s w of None \<Rightarrow> None
      | Some (s, w) \<Rightarrow> (case sm_ticks e w of (now, w) \<Rightarrow> if n = 0 then Some (s, now, w) else pumped e n s w))"

lemma read_loop_stops:
  assumes "ring_ok s" "s_tail s - s_head s > 0 \<or> s_closed s"
  shows "\<exists>out t. sock_read_loop e start m s w = Some (out, t, w) \<and> ring_ok t
    \<and> out = take m (ring_bytes s) \<and> ring_bytes t = drop m (ring_bytes s)"
proof (cases "s_tail s - s_head s > 0")
  case True
  obtain out t where r: "ring_take m s = (out, t)" by (cases "ring_take m s")
  have "sock_read_loop e start m s w = Some (out, t, w)"
    using True by (subst sock_read_loop.simps) (simp only: r if_True prod.case)
  with ring_take_bytes[OF assms(1) r] show ?thesis by blast
next
  case False
  then have "s_tail s - s_head s = 0" by (simp add: word_gt_0)
  then have "ring_bytes s = []" by (simp add: ring_bytes_def ring_count_def window_def)
  moreover have "sock_read_loop e start m s w = Some ([], s, w)"
    using False assms(2) by (subst sock_read_loop.simps) simp
  ultimately show ?thesis using assms(1) by simp
qed

lemma read_loop_pumps:
  assumes "\<not> (s_tail s - s_head s > 0 \<or> s_closed s)" "sm_pump e s w = Some (t, v)" "sm_ticks e v = (now, u)"
  shows "sock_read_loop e start m s w = (if now - start > 180 then Some ([], t, u) else sock_read_loop e start m t u)"
  using assms by (subst sock_read_loop.simps) simp

text \<open>With a pump that returns and keeps the ring well-formed, the loop ends by the time the clock has
  moved on far enough.\<close>

lemma read_loop_returns:
  assumes pump: "\<And>s w. ring_ok s \<Longrightarrow> \<exists>t v. sm_pump e s w = Some (t, v) \<and> ring_ok t"
    and "pumped e (Suc n) s w = Some (t', late, v')" "late - start > 180" "ring_ok s"
  shows "\<exists>out t v. sock_read_loop e start m s w = Some (out, t, v) \<and> ring_ok t \<and> length out \<le> m"
  using assms(2,4)
proof (induction n arbitrary: s w)
  case (0 s w)
  show ?case
  proof (cases "s_tail s - s_head s > 0 \<or> s_closed s")
    case True
    from read_loop_stops[OF 0(2) this, of e start m w] show ?thesis by fastforce
  next
    case False
    obtain t v where p: "sm_pump e s w = Some (t, v)" "ring_ok t" using pump[OF 0(2)] by blast
    obtain now u where c: "sm_ticks e v = (now, u)" by (cases "sm_ticks e v")
    have "now = late" using 0(1) by (simp add: p c)
    with read_loop_pumps[OF False p(1) c, of start m] assms(3) p(2) show ?thesis by simp
  qed
next
  case (Suc n s w)
  show ?case
  proof (cases "s_tail s - s_head s > 0 \<or> s_closed s")
    case True
    from read_loop_stops[OF Suc.prems(2) this, of e start m w] show ?thesis by fastforce
  next
    case False
    obtain t v where p: "sm_pump e s w = Some (t, v)" "ring_ok t" using pump[OF Suc.prems(2)] by blast
    obtain now u where c: "sm_ticks e v = (now, u)" by (cases "sm_ticks e v")
    have "pumped e (Suc n) t u = Some (t', late, v')"
      using Suc.prems(1) by (subst (asm) pumped.simps) (simp add: p c)
    from Suc.IH[OF this p(2)] read_loop_pumps[OF False p(1) c, of start m] p(2) show ?thesis
      by (cases "now - start > 180") simp_all
  qed
qed

section \<open>Properties\<close>

text \<open>
  C28. What axTLS reads through the ring is what lwIP delivered. Let lwIP run and the socket be read in
  any order, where lwIP, also when it runs inside a read, calls the registered callbacks and logs the bytes
  they accept in \<open>A\<close>. Then the bytes read, followed by those still in the ring, are those that were there
  followed by those accepted, in order, without gap or repeat, wherever in the 2^32 range the indices
  start. At every such moment the next read hands out what the ring holds without letting lwIP run, also
  when the peer has closed already; and a read that comes back with nothing found the ring empty and the
  peer gone, or has used up its ten seconds.
\<close>

theorem smoke_ring_stream:
  assumes "pump_feeds e A" "ring_ok s" "sock_run e ops s w = Some (out, t, v)"
  shows "ring_ok t \<and> (\<exists>i. A v = A w @ i \<and> out @ ring_bytes t = ring_bytes s @ i)
    \<and> (ring_bytes t \<noteq> [] \<longrightarrow> (\<exists>t'. smoke_sock_read e m t v = Some (take m (ring_bytes t), t', snd (sm_ticks e v))
        \<and> ring_bytes t' = drop m (ring_bytes t)))
    \<and> (\<forall>t' v'. smoke_sock_read e m t v = Some ([], t', v') \<and> 0 < m \<longrightarrow> ring_bytes t' = [] \<and> s_closed t'
        \<or> (\<exists>x. snd (sm_ticks e x) = v' \<and> fst (sm_ticks e x) - fst (sm_ticks e v) > 180))"
proof -
  have r: "ring_ok t" "\<exists>i. A v = A w @ i \<and> out @ ring_bytes t = ring_bytes s @ i"
    using ring.stream[of "(s, w)" e A ops out "(t, v)"] assms by (simp_all add: sock_run_queue)
  have "\<exists>t'. smoke_sock_read e m t v = Some (take m (ring_bytes t), t', snd (sm_ticks e v)) \<and> ring_bytes t' = drop m (ring_bytes t)"
    if "ring_bytes t \<noteq> []"
    using read_loop_stops[OF r(1), of e "fst (sm_ticks e v)" m "snd (sm_ticks e v)"] that
    by (auto simp: ring_empty smoke_sock_read_def split_beta)
  with r sock_read_ring(2)[OF assms(1) r(1)] show ?thesis by blast
qed

text \<open>
  For the witness a socket whose indices are about to wrap, and an lwIP that delivers four bytes in two
  pbufs when it runs for the first time, and then the end of the stream; it logs what was accepted.
\<close>

definition idle_sock :: "unit smoke_sock" where
  "idle_sock = \<lparr>s_pcb = None, s_connected = False, s_closed = False, s_rx = replicate 4096 0,
     s_head = 0xFFFFFFFE, s_tail = 0xFFFFFFFE\<rparr>"

definition idle_env :: "(unit, nat) smoke_env" where
  "idle_env = \<lparr>sm_pbuf_free = (\<lambda>_ w. w), sm_tcp_recved = (\<lambda>_ _ w. w), sm_tcp_write = (\<lambda>_ _ w. (0, w)),
     sm_tcp_output = (\<lambda>_ w. w), sm_ticks = (\<lambda>w. (of_nat w, w)), sm_pump = (\<lambda>s w. Some (s, w + 100))\<rparr>"

definition talk_base :: "(unit, bytes) smoke_env" where
  "talk_base = \<lparr>sm_pbuf_free = (\<lambda>_ w. w), sm_tcp_recved = (\<lambda>_ _ w. w), sm_tcp_write = (\<lambda>_ _ w. (0, w)),
     sm_tcp_output = (\<lambda>_ w. w), sm_ticks = (\<lambda>w. (0, w)), sm_pump = (\<lambda>_ _. None)\<rparr>"

definition talk_env :: "(unit, bytes) smoke_env" where
  "talk_env = talk_base\<lparr>sm_pump := (\<lambda>s w.
     case smoke_recv_cb talk_base () (if w = [] then Some [[1, 2], [3, 4]] else None) 0 s w of
       (r, t, v) \<Rightarrow> Some (t, if w = [] \<and> r = 0 then [1, 2, 3, 4] else w))\<rparr>"

lemma idle_sock_ok: "ring_ok idle_sock" "ring_bytes idle_sock = []"
  by (simp_all add: ring_ok_def ring_bytes_def ring_count_def window_def idle_sock_def)

lemma talk_recv: "smoke_recv_cb talk_env = smoke_recv_cb talk_base"
proof -
  have "sm_pbuf_free talk_env = sm_pbuf_free talk_base" "sm_tcp_recved talk_env = sm_tcp_recved talk_base"
    by (simp_all add: talk_env_def)
  then show ?thesis unfolding smoke_recv_cb_def by (intro ext) (simp only:)
qed

lemma talk_feeds: "pump_feeds talk_env (\<lambda>w. w)"
proof -
  have "\<exists>i. fed talk_env s i t \<and> v = w @ i" if p: "sm_pump talk_env s w = Some (t, v)" for s w t v
  proof -
    let ?p = "if w = [] then Some [[1, 2], [3, 4 :: byte]] else None"
    obtain r u x where r: "smoke_recv_cb talk_base () ?p 0 s w = (r, u, x)" by (cases "smoke_recv_cb talk_base () ?p 0 s w") auto
    then have "t = u" "v = (if w = [] \<and> r = 0 then [1, 2, 3, 4] else w)" using p by (auto simp: talk_env_def)
    with fed_recv[OF fed_none, of talk_env "()" ?p 0 s w r u x] r show ?thesis
      by (intro exI[of _ "if r = 0 then concat (case ?p of None \<Rightarrow> [] | Some ps \<Rightarrow> ps) else []"]) (auto simp: talk_recv)
  qed
  then show ?thesis by (auto simp: pump_feeds_def talk_env_def talk_base_def)
qed

lemma talk_pumps:
  "ring_ok s \<Longrightarrow> ring_bytes s = [] \<Longrightarrow> \<exists>t. sm_pump talk_env s [] = Some (t, [1, 2, 3, 4]) \<and> ring_ok t \<and> ring_bytes t = [1, 2, 3, 4]"
  "sm_pump talk_env s [1, 2, 3, 4] = Some (s\<lparr>s_closed := True\<rparr>, [1, 2, 3, 4])"
proof -
  assume s: "ring_ok s" "ring_bytes s = []"
  obtain r t v where r: "smoke_recv_cb talk_base () (Some [[1, 2], [3, 4]]) 0 s [] = (r, t, v)" by (metis prod_cases3)
  have "ring_count s = 0" using length_ring_bytes[of s] s(2) by simp
  with recv_cb_data[OF s(1) r] s(2) r show "\<exists>t. sm_pump talk_env s [] = Some (t, [1, 2, 3, 4]) \<and> ring_ok t \<and> ring_bytes t = [1, 2, 3, 4]"
    by (simp add: talk_env_def)
qed (simp add: talk_env_def smoke_recv_cb_def)

theorem smoke_ring_stream_witness:
  "\<exists>t v. sock_run talk_env [Some 3, None, Some 9] idle_sock [] = Some ([1, 2, 3, 4], t, v) \<and> ring_bytes t = []"
proof -
  have clock: "sm_ticks talk_env w = (0, w)" for w by (simp add: talk_env_def talk_base_def)
  obtain s1 where s1: "sm_pump talk_env idle_sock [] = Some (s1, [1, 2, 3, 4])" "ring_ok s1" "ring_bytes s1 = [1, 2, 3, 4]"
    using talk_pumps(1)[OF idle_sock_ok] by blast
  have idle: "\<not> (s_tail idle_sock - s_head idle_sock > 0 \<or> s_closed idle_sock)" by (simp add: idle_sock_def)
  have data: "s_tail s1 - s_head s1 > 0 \<or> s_closed s1" using s1(3) ring_empty[of s1] by simp
  obtain s2 where s2: "sock_read_loop talk_env 0 3 s1 [1, 2, 3, 4] = Some ([1, 2, 3], s2, [1, 2, 3, 4])" "ring_ok s2" "ring_bytes s2 = [4]"
    using read_loop_stops[OF s1(2) data, of talk_env 0 3 "[1, 2, 3, 4]"] s1(3) by auto
  have first: "smoke_sock_read talk_env 3 idle_sock [] = Some ([1, 2, 3], s2, [1, 2, 3, 4])"
    using read_loop_pumps[OF idle s1(1) clock, of 0 3] s2(1) by (simp add: smoke_sock_read_def clock)
  then have run: "sock_run talk_env [Some 3, None] idle_sock [] = Some ([1, 2, 3], s2\<lparr>s_closed := True\<rparr>, [1, 2, 3, 4])"
    by (simp add: talk_pumps(2))
  have rest: "ring_bytes (s2\<lparr>s_closed := True\<rparr>) = [4]" using s2(3) by (simp add: ring_bytes_def ring_count_def)
  obtain t where "smoke_sock_read talk_env 9 (s2\<lparr>s_closed := True\<rparr>) [1, 2, 3, 4] = Some ([4], t, [1, 2, 3, 4])" "ring_bytes t = []"
    using smoke_ring_stream[OF talk_feeds idle_sock_ok(1) run, of 9] rest by (auto simp: clock)
  with first show ?thesis by (simp add: talk_pumps(2))
qed

text \<open>
  The blocking read ends: when the pump returns and leaves the ring well-formed, and the clock passes
  the ten-second budget after some number of pumps, the call returns, with no more bytes than asked for.
\<close>

theorem smoke_sock_read_returns:
  assumes "\<And>s w. ring_ok s \<Longrightarrow> \<exists>t v. sm_pump e s w = Some (t, v) \<and> ring_ok t"
    and "sm_ticks e w = (start, u)" "pumped e (Suc n) s u = Some (t, late, v)" "late - start > 180" "ring_ok s"
  shows "\<exists>out t' v'. smoke_sock_read e m s w = Some (out, t', v') \<and> ring_ok t' \<and> length out \<le> m"
  using read_loop_returns[OF assms(1,3-5)] by (simp add: smoke_sock_read_def assms(2))

theorem smoke_sock_read_returns_witness:
  "\<exists>out t v. smoke_sock_read idle_env 64 idle_sock 0 = Some (out, t, v) \<and> ring_ok t \<and> length out \<le> 64"
proof (rule smoke_sock_read_returns[of idle_env 0 0 0 1 idle_sock idle_sock 200 200 64])
  show "pumped idle_env (Suc 1) idle_sock 0 = Some (idle_sock, 200, 200)"
    by (simp add: idle_env_def)
qed (simp_all add: idle_env_def idle_sock_ok)

end
