(* ===== verification/Smoke_Tls.thy ===== *)
theory Smoke_Tls
  imports Smoke_Socket Dpmi "HOL-Library.Sublist"
begin

text \<open>
  The program of \<open>rigs/tls-smoke/main.c\<close>: it allocates the real-mode buffers, brings up Ethernet, sends an
  ARP request, opens a TCP connection and a TLS session over the socket of \<open>Smoke_Socket\<close>, sends a greeting
  and prints the answer.

  The stages of \<open>main\<close> are functions on a state of console output, socket, globals and world, in its order;
  each gives the exit status when \<open>main\<close> returns there. The port, lwIP, axTLS and the interrupt entry are
  functions of the record \<open>tls_env\<close>, which extends the one of the socket; those that run lwIP or read the
  socket may not return (\<open>None\<close>), and give what they print.
\<close>

section \<open>Definitions\<close>

record ('p, 'c, 'l, 'w) tls_env = "('p, 'w) smoke_env" +
  sm_int :: "u32 \<Rightarrow> regs \<Rightarrow> 'w \<Rightarrow> bool \<times> regs \<times> 'w"
  sm_lwip_init :: "'w \<Rightarrow> 'w"
  sm_eth_start :: "'w \<Rightarrow> int \<times> 'w"
  sm_set_addr :: "u32 \<Rightarrow> u32 \<Rightarrow> u32 \<Rightarrow> 'w \<Rightarrow> 'w"
  sm_is_up :: "'w \<Rightarrow> int"
  sm_pktdrv_send :: "bytes \<Rightarrow> 'w \<Rightarrow> (int \<times> 'w) option"
  sm_tcp_new :: "'w \<Rightarrow> 'p option \<times> 'w"
  sm_tcp_callbacks :: "'p \<Rightarrow> 'w \<Rightarrow> 'w"
  sm_tcp_connect :: "'p \<Rightarrow> u32 \<Rightarrow> nat \<Rightarrow> 'p smoke_sock \<Rightarrow> 'w \<Rightarrow> int \<times> 'p smoke_sock \<times> 'w"
  sm_ssl_ctx_new :: "'w \<Rightarrow> 'c option \<times> 'w"
  sm_ssl_client_new :: "'c \<Rightarrow> 'p smoke_sock \<Rightarrow> 'w \<Rightarrow> ('l option \<times> bytes \<times> 'p smoke_sock \<times> 'w) option"
  sm_ssl_handshake_status :: "'l \<Rightarrow> 'w \<Rightarrow> int"
  sm_ssl_read :: "'l \<Rightarrow> 'p smoke_sock \<Rightarrow> 'w \<Rightarrow> (int \<times> bytes \<times> bytes \<times> 'p smoke_sock \<times> 'w) option"
  sm_ssl_write :: "'l \<Rightarrow> bytes \<Rightarrow> 'p smoke_sock \<Rightarrow> 'w \<Rightarrow> (int \<times> bytes \<times> 'p smoke_sock \<times> 'w) option"
  sm_ssl_free :: "'l \<Rightarrow> 'w \<Rightarrow> 'w"
  sm_ssl_ctx_free :: "'c \<Rightarrow> 'w \<Rightarrow> 'w"
  sm_SSL_OK :: int
  sm_SSL_NOT_OK :: int

record ('p, 'w) smoke_st =
  m_out :: bytes
  m_sock :: "'p smoke_sock"
  m_w :: 'w
  g_bounce_seg :: u32
  g_bounce_linear :: u32
  g_thunk_seg :: u32
  g_int21_thunk_seg :: u32

definition say :: "bytes \<Rightarrow> ('p, 'w) smoke_st \<Rightarrow> ('p, 'w) smoke_st" where
  "say b s = s\<lparr>m_out := m_out s @ b\<rparr>"

abbreviation line :: "string \<Rightarrow> bytes" where "line t \<equiv> emit t @ [ch_lf]"
abbreviation hexl :: "u32 \<Rightarrow> bytes" where "hexl v \<equiv> emit_hex8 [ch_lf] v"

definition tick_pump :: "('p, 'c, 'l, 'w, 'x) tls_env_scheme \<Rightarrow> ('p, 'w) smoke_st \<Rightarrow> ('p, 'w) smoke_st option" where
  "tick_pump e s = map_option (\<lambda>(k, w). s\<lparr>m_sock := k, m_w := w\<rparr>) (sm_pump e (m_sock s) (m_w s))"

definition clock :: "('p, 'c, 'l, 'w, 'x) tls_env_scheme \<Rightarrow> ('p, 'w) smoke_st \<Rightarrow> u32 \<times> ('p, 'w) smoke_st" where
  "clock e s = (case sm_ticks e (m_w s) of (now, w) \<Rightarrow> (now, s\<lparr>m_w := w\<rparr>))"

definition invoke_int :: "('p, 'c, 'l, 'w, 'x) tls_env_scheme \<Rightarrow> u32 \<Rightarrow> regs \<Rightarrow> ('p, 'w) smoke_st \<Rightarrow> bool \<times> regs \<times> ('p, 'w) smoke_st" where
  "invoke_int e n r s = (case sm_int e n r (m_w s) of (cf, r, w) \<Rightarrow> (cf, r, s\<lparr>m_w := w\<rparr>))"

subsection \<open>Allocation\<close>

definition preallocate_dpmi_resources :: "('p, 'c, 'l, 'w, 'x) tls_env_scheme \<Rightarrow> ('p, 'w) smoke_st \<Rightarrow> ('p, 'w) smoke_st" where
  "preallocate_dpmi_resources e s =
     (let s = say (line ''[prealloc:enter]'') s;
          (cf, r, s) = invoke_int e 0x21 (regs0\<lparr>R_EAX := 0x4800, R_EBX := 128\<rparr>) s
      in if cf then say (line ''[prealloc:bounce-FAIL]'') s
         else let seg = R_EAX r AND 0xFFFF;
                  s = s\<lparr>g_bounce_seg := seg\<rparr>;
                  (cf2, r2, s) = invoke_int e 0x31 (regs0\<lparr>R_EAX := 0x0002, R_EBX := seg\<rparr>) s;
                  sel = R_EAX r2 AND 0xFFFF;
                  (cf3, r3, s) = invoke_int e 0x31 (regs0\<lparr>R_EAX := 0x0006, R_EBX := sel\<rparr>) s;
                  s = s\<lparr>g_bounce_linear := push_bit 16 (R_ECX r3 AND 0xFFFF) OR (R_EDX r3 AND 0xFFFF)\<rparr>;
                  (cft, rt, s) = invoke_int e 0x31 (regs0\<lparr>R_EAX := 0x0100, R_EBX := 1\<rparr>) s;
                  s = (if cft then s else s\<lparr>g_thunk_seg := R_EAX rt AND 0xFFFF\<rparr>);
                  (cfu, ru, s) = invoke_int e 0x31 (regs0\<lparr>R_EAX := 0x0100, R_EBX := 1\<rparr>) s;
                  s = (if cfu then s else s\<lparr>g_int21_thunk_seg := R_EAX ru AND 0xFFFF\<rparr>)
              in say (line ''[prealloc:done]'') s)"

subsection \<open>Stages 0 and 1\<close>

text \<open>\<open>Inl\<close> is the value \<open>main\<close> returns.\<close>

definition smoke_eth :: "('p, 'c, 'l, 'w, 'x) tls_env_scheme \<Rightarrow> ('p, 'w) smoke_st \<Rightarrow> (int \<times> ('p, 'w) smoke_st) + ('p, 'w) smoke_st" where
  "smoke_eth e s =
     (let s = say (line ''[smoke:start]'') s;
          s = preallocate_dpmi_resources e s;
          s = s\<lparr>m_w := sm_lwip_init e (m_w s)\<rparr>;
          s = say (line ''[smoke:lwip-init-done]'') s;
          s = say (line ''[s0:eth-init-pre]'') s;
          (rc, w) = sm_eth_start e (m_w s);
          s = say (emit ''[s0:eth-init-rc=]'' @ hexl (word_of_int rc)) (s\<lparr>m_w := w\<rparr>)
      in if rc \<noteq> 0 then Inl (1, say (line ''[s0:FAIL]'') s)
         else Inr (say (line ''[s1:static-ip-set]'')
                (s\<lparr>m_w := sm_set_addr e 0x0F02000A 0x00FFFFFF 0x0202000A (m_w s)\<rparr>)))"

fun pump_times :: "('p, 'c, 'l, 'w, 'x) tls_env_scheme \<Rightarrow> nat \<Rightarrow> ('p, 'w) smoke_st \<Rightarrow> ('p, 'w) smoke_st option" where
  "pump_times e 0 s = Some s"
| "pump_times e (Suc n) s = (case tick_pump e s of None \<Rightarrow> None | Some s \<Rightarrow> pump_times e n s)"

definition smoke_arp :: bytes where
  "smoke_arp =
     [0xFF, 0xFF, 0xFF, 0xFF, 0xFF, 0xFF, 0x52, 0x54, 0x00, 0x12, 0x34, 0x56, 0x08, 0x06,
      0x00, 0x01, 0x08, 0x00, 6, 4, 0x00, 0x01, 0x52, 0x54, 0x00, 0x12, 0x34, 0x56, 10, 0, 2, 15]
     @ replicate 6 0 @ [10, 0, 2, 2]"

definition be_word :: "bytes \<Rightarrow> nat \<Rightarrow> u32" where
  "be_word b k = push_bit 24 (ucast (b ! k)) OR push_bit 16 (ucast (b ! (k + 1)))
     OR push_bit 8 (ucast (b ! (k + 2))) OR ucast (b ! (k + 3))"

definition smoke_arp_diag :: "('p, 'c, 'l, 'w, 'x) tls_env_scheme \<Rightarrow> ('p, 'w) smoke_st \<Rightarrow> ('p, 'w) smoke_st option" where
  "smoke_arp_diag e s =
     (let s = say (emit ''[s1:up=]'' @ hexl (word_of_int (sm_is_up e (m_w s)))) s;
          s = say (emit ''[diag:arp-mem0=]'' @ hexl (be_word smoke_arp 0)
                   @ emit ''[diag:arp-mem4=]'' @ hexl (be_word smoke_arp 4)
                   @ emit ''[diag:arp-mem8=]'' @ hexl (be_word smoke_arp 8)
                   @ emit ''[diag:arp-mem12=]'' @ hexl (be_word smoke_arp 12)
                   @ line ''[diag:arp-send-pre]'') s
      in map_option (\<lambda>(sr, w). say (emit ''[diag:arp-send-rc=]'' @ hexl (word_of_int sr)) (s\<lparr>m_w := w\<rparr>))
           (sm_pktdrv_send e smoke_arp (m_w s)))"

subsection \<open>Stages 2 and 3: the connection\<close>

definition smoke_connect ::
  "('p, 'c, 'l, 'w, 'x) tls_env_scheme \<Rightarrow> ('p, 'w) smoke_st \<Rightarrow> (int \<times> ('p, 'w) smoke_st) + ('p, 'w) smoke_st" where
  "smoke_connect e s =
     (let s = say (line ''[s2:tcp-new]'') s;
          (pcb, w) = sm_tcp_new e (m_w s);
          s = s\<lparr>m_sock := (m_sock s)\<lparr>s_pcb := pcb\<rparr>, m_w := w\<rparr>
      in case pcb of
           None \<Rightarrow> Inl (2, say (line ''[s2:tcp_new-FAIL]'') s)
         | Some pcb \<Rightarrow>
             let s = s\<lparr>m_w := sm_tcp_callbacks e pcb (m_w s)\<rparr>;
                 (ce, k, w) = sm_tcp_connect e pcb 0x0202000A 8443 (m_sock s) (m_w s);
                 s = say (emit ''[s2:tcp_connect-rc=]'' @ hexl (word_of_int ce)) (s\<lparr>m_sock := k, m_w := w\<rparr>)
             in if ce \<noteq> 0 then Inl (3, say (line ''[s2:FAIL]'') s) else Inr s)"

text \<open>
  A loop: \<open>body\<close> gives the result that leaves it (\<open>Inl\<close>) or the next state, and \<open>None\<close> when it does not
  return.
\<close>

partial_function (option) until :: "('s \<Rightarrow> ('r + 's) option) \<Rightarrow> 's \<Rightarrow> 'r option" where
  "until body s = (case body s of None \<Rightarrow> None | Some (Inl r) \<Rightarrow> Some r | Some (Inr s) \<Rightarrow> until body s)"

declare until.simps [code]

text \<open>The wait for the connection; the state carries the time of the last heartbeat.\<close>

definition connect_body ::
  "('p, 'c, 'l, 'w, 'x) tls_env_scheme \<Rightarrow> u32 \<Rightarrow> u32 \<times> ('p, 'w) smoke_st
     \<Rightarrow> (((int \<times> ('p, 'w) smoke_st) + ('p, 'w) smoke_st) + (u32 \<times> ('p, 'w) smoke_st)) option" where
  "connect_body e start = (\<lambda>(last_hb, s).
     if \<not> s_connected (m_sock s) \<and> \<not> s_closed (m_sock s)
     then case tick_pump e s of
            None \<Rightarrow> None
          | Some s \<Rightarrow>
              let (now, s) = clock e s;
                  (last_hb, s) = (if now - last_hb > 18 then (now, say (line ''[s3:tick]'') s) else (last_hb, s))
              in if now - start > 30 * 18 then Some (Inl (Inl (4, say (line ''[s3:connect-TIMEOUT]'') s)))
                 else Some (Inr (last_hb, s))
     else if s_closed (m_sock s) then Some (Inl (Inl (5, say (line ''[s3:closed-before-connect]'') s)))
     else Some (Inl (Inr (say (line ''[s3:tcp-connected]'') s))))"

definition smoke_wait ::
  "('p, 'c, 'l, 'w, 'x) tls_env_scheme \<Rightarrow> ('p, 'w) smoke_st \<Rightarrow> ((int \<times> ('p, 'w) smoke_st) + ('p, 'w) smoke_st) option" where
  "smoke_wait e s = (let (start, s) = clock e s in until (connect_body e start) (start, s))"

subsection \<open>Stages 4 and 5: the TLS session\<close>

definition smoke_ssl ::
  "('p, 'c, 'l, 'w, 'x) tls_env_scheme \<Rightarrow> ('p, 'w) smoke_st
     \<Rightarrow> ((int \<times> ('p, 'w) smoke_st) + ('c \<times> 'l \<times> ('p, 'w) smoke_st)) option" where
  "smoke_ssl e s =
     (let s = say (line ''[s4:ssl-ctx-new-pre]'') s;
          (ctx, w) = sm_ssl_ctx_new e (m_w s);
          s = s\<lparr>m_w := w\<rparr>
      in case ctx of
           None \<Rightarrow> Some (Inl (6, say (line ''[s4:ctx-new-FAIL]'') s))
         | Some ctx \<Rightarrow>
             let s = say (line ''[s4:ssl-client-new-pre]'') s
             in case sm_ssl_client_new e ctx (m_sock s) (m_w s) of
                  None \<Rightarrow> None
                | Some (ssl, b, k, w) \<Rightarrow>
                    let s = say b (s\<lparr>m_sock := k, m_w := w\<rparr>)
                    in (case ssl of
                          None \<Rightarrow> Some (Inl (7, (say (line ''[s4:client-new-FAIL]'') s)\<lparr>m_w := sm_ssl_ctx_free e ctx (m_w s)\<rparr>))
                        | Some ssl \<Rightarrow> Some (Inr (ctx, ssl, say (line ''[s4:ssl-created]'') s))))"

definition read_ssl ::
  "('p, 'c, 'l, 'w, 'x) tls_env_scheme \<Rightarrow> 'l \<Rightarrow> ('p, 'w) smoke_st \<Rightarrow> (int \<times> bytes \<times> ('p, 'w) smoke_st) option" where
  "read_ssl e ssl s =
     map_option (\<lambda>(r, data, b, k, w). (r, data, say b (s\<lparr>m_sock := k, m_w := w\<rparr>))) (sm_ssl_read e ssl (m_sock s) (m_w s))"

definition handshake_body ::
  "('p, 'c, 'l, 'w, 'x) tls_env_scheme \<Rightarrow> 'l \<Rightarrow> u32 \<Rightarrow> ('p, 'w) smoke_st
     \<Rightarrow> (((int \<times> ('p, 'w) smoke_st) + ('p, 'w) smoke_st) + ('p, 'w) smoke_st) option" where
  "handshake_body e ssl start s =
     (case tick_pump e s of
        None \<Rightarrow> None
      | Some s \<Rightarrow>
          let hs = sm_ssl_handshake_status e ssl (m_w s)
          in if hs = sm_SSL_OK e then Some (Inl (Inr (say (line ''[s5:handshake-OK]'') s)))
             else if hs < 0 \<and> hs \<noteq> sm_SSL_NOT_OK e
             then Some (Inl (Inl (8, say (emit ''[s5:handshake-err=]'' @ hexl (word_of_int hs)) s)))
             else case read_ssl e ssl s of
                    None \<Rightarrow> None
                  | Some (r, data, s) \<Rightarrow>
                      if r < 0 \<and> r \<noteq> sm_SSL_OK e \<and> r \<noteq> sm_SSL_NOT_OK e
                      then Some (Inl (Inl (9, say (emit ''[s5:read-err=]'' @ hexl (word_of_int r)) s)))
                      else let (now, s) = clock e s
                           in if now - start > 30 * 18
                              then Some (Inl (Inl (10, say (line ''[s5:handshake-TIMEOUT]'') s)))
                              else Some (Inr s))"

definition smoke_handshake ::
  "('p, 'c, 'l, 'w, 'x) tls_env_scheme \<Rightarrow> 'l \<Rightarrow> ('p, 'w) smoke_st
     \<Rightarrow> ((int \<times> ('p, 'w) smoke_st) + ('p, 'w) smoke_st) option" where
  "smoke_handshake e ssl s = (let (start, s) = clock e s in until (handshake_body e ssl start) s)"

subsection \<open>Stage 6: the exchange\<close>

definition smoke_hello :: bytes where
  "smoke_hello = str ''hi-from-uc386''"

definition answer_body ::
  "('p, 'c, 'l, 'w, 'x) tls_env_scheme \<Rightarrow> 'l \<Rightarrow> u32 \<Rightarrow> ('p, 'w) smoke_st
     \<Rightarrow> (((int \<times> ('p, 'w) smoke_st) + (bytes \<times> ('p, 'w) smoke_st)) + ('p, 'w) smoke_st) option" where
  "answer_body e ssl start s =
     (case tick_pump e s of
        None \<Rightarrow> None
      | Some s \<Rightarrow>
          (case read_ssl e ssl s of
             None \<Rightarrow> None
           | Some (n, resp, s) \<Rightarrow>
               if n > 0 then Some (Inl (Inr (take (nat n) resp, s)))
               else if n < 0 \<and> n \<noteq> sm_SSL_OK e \<and> n \<noteq> sm_SSL_NOT_OK e
               then Some (Inl (Inl (12, say (emit ''[s6:read-err=]'' @ hexl (word_of_int n)) s)))
               else let (now, s) = clock e s
                    in if now - start > 10 * 18 then Some (Inl (Inl (13, say (line ''[s6:read-TIMEOUT]'') s)))
                       else Some (Inr s)))"

definition smoke_exchange ::
  "('p, 'c, 'l, 'w, 'x) tls_env_scheme \<Rightarrow> 'l \<Rightarrow> ('p, 'w) smoke_st
     \<Rightarrow> ((int \<times> ('p, 'w) smoke_st) + (bytes \<times> ('p, 'w) smoke_st)) option" where
  "smoke_exchange e ssl s =
     (case sm_ssl_write e ssl smoke_hello (m_sock s) (m_w s) of
        None \<Rightarrow> None
      | Some (wr, b, k, w) \<Rightarrow>
          let s = say b (s\<lparr>m_sock := k, m_w := w\<rparr>);
              s = say (emit ''[s6:ssl-write-rc=]'' @ hexl (word_of_int wr)) s
          in if wr \<le> 0 then Some (Inl (11, say (line ''[s6:write-FAIL]'') s))
             else let (start, s) = clock e s in until (answer_body e ssl start) s)"

subsection \<open>The program\<close>

definition smoke_session ::
  "('p, 'c, 'l, 'w, 'x) tls_env_scheme \<Rightarrow> 'c \<Rightarrow> 'l \<Rightarrow> ('p, 'w) smoke_st \<Rightarrow> (int \<times> ('p, 'w) smoke_st) option" where
  "smoke_session e ctx ssl s =
     (case smoke_handshake e ssl s of
        None \<Rightarrow> None
      | Some (Inl r) \<Rightarrow> Some r
      | Some (Inr s) \<Rightarrow>
          (case smoke_exchange e ssl s of
             None \<Rightarrow> None
           | Some (Inl r) \<Rightarrow> Some r
           | Some (Inr (resp, s)) \<Rightarrow>
               let s = say (emit ''[s6:bytes='' @ resp @ line '']'') s;
                   s = s\<lparr>m_w := sm_ssl_ctx_free e ctx (sm_ssl_free e ssl (m_w s))\<rparr>
               in Some (0, say (line ''[smoke:PASS]'') s)))"

definition smoke_main :: "('p, 'c, 'l, 'w, 'x) tls_env_scheme \<Rightarrow> ('p, 'w) smoke_st \<Rightarrow> (int \<times> ('p, 'w) smoke_st) option" where
  "smoke_main e s =
     (case smoke_eth e s of
        Inl r \<Rightarrow> Some r
      | Inr s \<Rightarrow>
        (case pump_times e 10 s of
           None \<Rightarrow> None
         | Some s \<Rightarrow>
           (case smoke_arp_diag e s of
              None \<Rightarrow> None
            | Some s \<Rightarrow>
              (case smoke_connect e s of
                 Inl r \<Rightarrow> Some r
               | Inr s \<Rightarrow>
                 (case smoke_wait e s of
                    None \<Rightarrow> None
                  | Some (Inl r) \<Rightarrow> Some r
                  | Some (Inr s) \<Rightarrow>
                    (case smoke_ssl e s of
                       None \<Rightarrow> None
                     | Some (Inl r) \<Rightarrow> Some r
                     | Some (Inr (ctx, ssl, s)) \<Rightarrow> smoke_session e ctx ssl s))))))"

section \<open>Lemmas\<close>

text \<open>A loop whose body always returns, and comes closer to its end, ends with a result of the body.\<close>

lemma until_ends:
  fixes m :: "'s \<Rightarrow> nat"
  assumes "\<And>s. (\<exists>r. body s = Some (Inl r) \<and> R r) \<or> (\<exists>t. body s = Some (Inr t) \<and> m t < m s)"
  shows "\<exists>r. until body s = Some r \<and> R r"
proof (induction "m s" arbitrary: s rule: less_induct)
  case less
  show ?case
    using assms[of s]
  proof (elim disjE exE conjE)
    fix r assume "body s = Some (Inl r)" "R r"
    then show ?thesis by (subst until.simps) simp
  next
    fix t assume "body s = Some (Inr t)" "m t < m s"
    with less show ?thesis by (subst until.simps) simp
  qed
qed

text \<open>
  The world the program needs: lwIP, axTLS and the packet driver return, and whatever the time a wait
  starts at, the clock comes closer to its deadline with every reading that is not yet past it; pumping
  and reading do not turn it back.
\<close>

definition world_returns :: "('p, 'c, 'l, 'w, 'x) tls_env_scheme \<Rightarrow> bool" where
  "world_returns e \<longleftrightarrow>
     (\<forall>k w. sm_pump e k w \<noteq> None) \<and> (\<forall>p w. sm_pktdrv_send e p w \<noteq> None)
     \<and> (\<forall>c k w. sm_ssl_client_new e c k w \<noteq> None) \<and> (\<forall>l k w. sm_ssl_read e l k w \<noteq> None)
     \<and> (\<forall>l b k w. sm_ssl_write e l b k w \<noteq> None)"

definition clock_runs :: "('p, 'c, 'l, 'w, 'x) tls_env_scheme \<Rightarrow> u32 \<Rightarrow> ('w \<Rightarrow> nat) \<Rightarrow> bool" where
  "clock_runs e start left \<longleftrightarrow>
     (\<forall>w. case sm_ticks e w of (now, v) \<Rightarrow> now - start > 540 \<or> left v < left w)
     \<and> (\<forall>k w. case sm_pump e k w of None \<Rightarrow> True | Some (_, v) \<Rightarrow> left v \<le> left w)
     \<and> (\<forall>l k w. case sm_ssl_read e l k w of None \<Rightarrow> True | Some (_, _, _, _, v) \<Rightarrow> left v \<le> left w)"

lemma say_simps [simp]:
  "m_w (say b s) = m_w s" "m_sock (say b s) = m_sock s" "m_out (say b s) = m_out s @ b"
  by (simp_all add: say_def)

lemma pump_returns: "world_returns e \<Longrightarrow> \<exists>t. tick_pump e s = Some t"
  by (auto simp: world_returns_def tick_pump_def)

lemma read_returns: "world_returns e \<Longrightarrow> \<exists>r data t. read_ssl e ssl s = Some (r, data, t)"
proof -
  assume "world_returns e"
  then have "sm_ssl_read e ssl (m_sock s) (m_w s) \<noteq> None" unfolding world_returns_def by blast
  then show ?thesis by (cases "sm_ssl_read e ssl (m_sock s) (m_w s)") (auto simp: read_ssl_def)
qed

lemma pump_left: "clock_runs e start left \<Longrightarrow> tick_pump e s = Some t \<Longrightarrow> left (m_w t) \<le> left (m_w s)"
  by (auto simp: clock_runs_def tick_pump_def split: option.splits)

lemma read_left: "clock_runs e start left \<Longrightarrow> read_ssl e ssl s = Some (r, data, t) \<Longrightarrow> left (m_w t) \<le> left (m_w s)"
  by (fastforce simp: clock_runs_def read_ssl_def split: option.splits)

lemma clock_left: "clock_runs e start left \<Longrightarrow> clock e s = (now, t) \<Longrightarrow> now - start > 540 \<or> left (m_w t) < left (m_w s)"
  by (fastforce simp: clock_runs_def clock_def split: prod.splits)

text \<open>Statuses the waits may end with.\<close>

definition ends_in :: "int set \<Rightarrow> (int \<times> 'a) + 'b \<Rightarrow> bool" where
  "ends_in C r \<longleftrightarrow> (case r of Inl (rc, _) \<Rightarrow> rc \<in> C | Inr _ \<Rightarrow> True)"

lemma wait_ends:
  assumes "world_returns e" "\<And>start. \<exists>left. clock_runs e start left"
  shows "\<exists>r. smoke_wait e s = Some r \<and> ends_in {4, 5} r"
proof -
  obtain start u where c: "clock e s = (start, u)" by (cases "clock e s")
  obtain left where l: "clock_runs e start left" using assms(2) by blast
  have "\<exists>r. until (connect_body e start) (start, u) = Some r \<and> ends_in {4, 5} r"
  proof (rule until_ends[where m = "\<lambda>(_, s). left (m_w s)"])
    fix x :: "u32 \<times> ('a, 'b) smoke_st"
    obtain hb v where x: "x = (hb, v)" by (cases x)
    obtain v1 where p: "tick_pump e v = Some v1" using pump_returns[OF assms(1)] by blast
    obtain now v2 where k: "clock e v1 = (now, v2)" by (cases "clock e v1")
    have "now - start > 540 \<or> left (m_w v2) < left (m_w v)"
      using pump_left[OF l p] clock_left[OF l k] by linarith
    then show "(\<exists>r. connect_body e start x = Some (Inl r) \<and> ends_in {4, 5} r)
        \<or> (\<exists>t. connect_body e start x = Some (Inr t) \<and> (case t of (_, s) \<Rightarrow> left (m_w s)) < (case x of (_, s) \<Rightarrow> left (m_w s)))"
      by (auto simp: connect_body_def x p k ends_in_def Let_def)
  qed
  then show ?thesis by (simp add: smoke_wait_def c)
qed

lemma handshake_ends:
  assumes "world_returns e" "\<And>start. \<exists>left. clock_runs e start left"
  shows "\<exists>r. smoke_handshake e ssl s = Some r \<and> ends_in {8, 9, 10} r"
proof -
  obtain start u where c: "clock e s = (start, u)" by (cases "clock e s")
  obtain left where l: "clock_runs e start left" using assms(2) by blast
  have "\<exists>r. until (handshake_body e ssl start) u = Some r \<and> ends_in {8, 9, 10} r"
  proof (rule until_ends[where m = "\<lambda>s. left (m_w s)"])
    fix v :: "('a, 'b) smoke_st"
    obtain v1 where p: "tick_pump e v = Some v1" using pump_returns[OF assms(1)] by blast
    obtain r data v2 where d: "read_ssl e ssl v1 = Some (r, data, v2)" using read_returns[OF assms(1)] by blast
    obtain now v3 where k: "clock e v2 = (now, v3)" by (cases "clock e v2")
    have "now - start > 540 \<or> left (m_w v3) < left (m_w v)"
      using pump_left[OF l p] read_left[OF l d] clock_left[OF l k] by linarith
    then show "(\<exists>r. handshake_body e ssl start v = Some (Inl r) \<and> ends_in {8, 9, 10} r)
        \<or> (\<exists>t. handshake_body e ssl start v = Some (Inr t) \<and> left (m_w t) < left (m_w v))"
      by (auto simp: handshake_body_def p d k ends_in_def Let_def)
  qed
  then show ?thesis by (simp add: smoke_handshake_def c)
qed

lemma exchange_ends:
  assumes "world_returns e" "\<And>start. \<exists>left. clock_runs e start left"
  shows "\<exists>r. smoke_exchange e ssl s = Some r \<and> ends_in {11, 12, 13} r"
proof -
  obtain wr b k w where w: "sm_ssl_write e ssl smoke_hello (m_sock s) (m_w s) = Some (wr, b, k, w)"
    using assms(1) unfolding world_returns_def by (metis not_None_eq prod_cases4)
  define s1 where "s1 = say (emit ''[s6:ssl-write-rc=]'' @ hexl (word_of_int wr)) (say b (s\<lparr>m_sock := k, m_w := w\<rparr>))"
  obtain start u where c: "clock e s1 = (start, u)" by (cases "clock e s1")
  obtain left where l: "clock_runs e start left" using assms(2) by blast
  have "\<exists>r. until (answer_body e ssl start) u = Some r \<and> ends_in {11, 12, 13} r"
  proof (rule until_ends[where m = "\<lambda>s. left (m_w s)"])
    fix v :: "('a, 'b) smoke_st"
    obtain v1 where p: "tick_pump e v = Some v1" using pump_returns[OF assms(1)] by blast
    obtain r data v2 where d: "read_ssl e ssl v1 = Some (r, data, v2)" using read_returns[OF assms(1)] by blast
    obtain now v3 where k: "clock e v2 = (now, v3)" by (cases "clock e v2")
    have "now - start > 540 \<or> left (m_w v3) < left (m_w v)"
      using pump_left[OF l p] read_left[OF l d] clock_left[OF l k] by linarith
    moreover have "now - start > 540 \<Longrightarrow> now - start > 180" by (simp add: word_less_nat_alt)
    ultimately show "(\<exists>r. answer_body e ssl start v = Some (Inl r) \<and> ends_in {11, 12, 13} r)
        \<or> (\<exists>t. answer_body e ssl start v = Some (Inr t) \<and> left (m_w t) < left (m_w v))"
      by (auto simp: answer_body_def p d k ends_in_def Let_def)
  qed
  then show ?thesis by (auto simp: smoke_exchange_def w c s1_def[symmetric] ends_in_def Let_def)
qed

lemma session_ends:
  assumes "world_returns e" "\<And>start. \<exists>left. clock_runs e start left"
  shows "\<exists>rc t. smoke_session e ctx ssl s = Some (rc, t) \<and> rc \<in> {0, 8, 9, 10, 11, 12, 13}
    \<and> (rc = 0 \<longrightarrow> suffix (line ''[smoke:PASS]'') (m_out t))"
proof -
  obtain r where r: "smoke_handshake e ssl s = Some r" "ends_in {8, 9, 10} r" using handshake_ends[OF assms] by blast
  show ?thesis
  proof (cases r)
    case (Inl x)
    with r show ?thesis by (cases x) (auto simp: smoke_session_def ends_in_def)
  next
    case (Inr v)
    obtain q where q: "smoke_exchange e ssl v = Some q" "ends_in {11, 12, 13} q" using exchange_ends[OF assms] by blast
    show ?thesis
    proof (cases q)
      case (Inl x)
      with r Inr q show ?thesis by (cases x) (auto simp: smoke_session_def ends_in_def)
    next
      case (Inr y)
      with r \<open>r = Inr v\<close> q show ?thesis by (cases y) (auto simp: smoke_session_def Let_def suffix_def)
    qed
  qed
qed

lemma pump_times_returns: "world_returns e \<Longrightarrow> \<exists>t. pump_times e n s = Some t"
proof (induction n arbitrary: s)
  case (Suc n)
  then show ?case using pump_returns[OF Suc.prems, of s] by auto
qed simp

lemma arp_returns: "world_returns e \<Longrightarrow> \<exists>t. smoke_arp_diag e s = Some t"
  by (auto simp: world_returns_def smoke_arp_diag_def Let_def)

lemma ssl_returns:
  assumes "world_returns e"
  shows "\<exists>r. smoke_ssl e s = Some r \<and> ends_in {6, 7} r"
proof -
  obtain ctx w where c: "sm_ssl_ctx_new e (m_w s) = (ctx, w)" by (cases "sm_ssl_ctx_new e (m_w s)")
  show ?thesis
  proof (cases ctx)
    case None
    then show ?thesis by (simp add: smoke_ssl_def c ends_in_def Let_def)
  next
    case (Some x)
    have "sm_ssl_client_new e x (m_sock s) w \<noteq> None" using assms unfolding world_returns_def by blast
    then obtain l b k v where "sm_ssl_client_new e x (m_sock s) w = Some (l, b, k, v)" by auto
    with Some show ?thesis by (cases l) (simp_all add: smoke_ssl_def c ends_in_def Let_def)
  qed
qed

text \<open>A loop that ended did so by its body.\<close>

lemma until_result: "until body s = Some r \<Longrightarrow> \<exists>t. body t = Some (Inl r)"
proof (induction rule: until.raw_induct[rotated 1, consumes 1])
  case (1 f body s r)
  then show ?case by (auto split: option.splits sum.splits)
qed

lemma wait_connected:
  assumes "smoke_wait e s = Some (Inr t)"
  shows "s_connected (m_sock t)"
proof -
  obtain start u where c: "clock e s = (start, u)" by (cases "clock e s")
  obtain x where "connect_body e start x = Some (Inl (Inr t))"
    using assms until_result[of "connect_body e start"] by (fastforce simp: smoke_wait_def c)
  then show ?thesis
    by (cases x) (auto simp: connect_body_def Let_def split: if_splits option.splits prod.splits)
qed

lemma handshake_done:
  assumes "smoke_handshake e ssl s = Some (Inr t)"
  shows "sm_ssl_handshake_status e ssl (m_w t) = sm_SSL_OK e"
proof -
  obtain start u where c: "clock e s = (start, u)" by (cases "clock e s")
  obtain x where "handshake_body e ssl start x = Some (Inl (Inr t))"
    using assms until_result[of "handshake_body e ssl start"] by (fastforce simp: smoke_handshake_def c)
  then show ?thesis
    by (auto simp: handshake_body_def Let_def split: if_splits option.splits prod.splits)
qed

lemma exchange_done:
  assumes "smoke_exchange e ssl s = Some (Inr (out, t))"
  shows "\<exists>wr b k w n resp v. sm_ssl_write e ssl smoke_hello (m_sock s) (m_w s) = Some (wr, b, k, w) \<and> wr > 0
    \<and> read_ssl e ssl v = Some (n, resp, t) \<and> n > 0 \<and> out = take (nat n) resp"
proof -
  obtain wr b k w where w: "sm_ssl_write e ssl smoke_hello (m_sock s) (m_w s) = Some (wr, b, k, w)" "wr > 0"
    using assms by (auto simp: smoke_exchange_def Let_def not_le split: option.splits if_splits)
  define s1 where "s1 = say (emit ''[s6:ssl-write-rc=]'' @ hexl (word_of_int wr)) (say b (s\<lparr>m_sock := k, m_w := w\<rparr>))"
  obtain start u where c: "clock e s1 = (start, u)" by (cases "clock e s1")
  have "until (answer_body e ssl start) u = Some (Inr (out, t))"
    using assms w(2) by (simp add: smoke_exchange_def w c s1_def[symmetric] Let_def)
  from until_result[OF this] obtain v where v: "answer_body e ssl start v = Some (Inl (Inr (out, t)))" by blast
  then obtain v1 where p: "tick_pump e v = Some v1"
    by (cases "tick_pump e v") (auto simp: answer_body_def)
  with v obtain n resp v2 where r: "read_ssl e ssl v1 = Some (n, resp, v2)"
    by (cases "read_ssl e ssl v1") (auto simp: answer_body_def)
  obtain now v3 where "clock e v2 = (now, v3)" by (cases "clock e v2")
  with v p r have "n > 0" "out = take (nat n) resp" "t = v2"
    by (simp_all add: answer_body_def Let_def split: if_splits)
  with w r show ?thesis by blast
qed

text \<open>The statuses of the stages, so that 0 comes from the end of the program only.\<close>

lemma stage_codes:
  "smoke_eth e s = Inl (rc, t) \<Longrightarrow> rc = 1"
  "smoke_connect e s = Inl (rc, t) \<Longrightarrow> rc = 2 \<or> rc = 3"
  "smoke_ssl e s = Some (Inl (rc, t)) \<Longrightarrow> rc = 6 \<or> rc = 7"
  by (auto simp: smoke_eth_def smoke_connect_def smoke_ssl_def Let_def split: prod.splits option.splits if_splits)

lemma wait_code:
  assumes "smoke_wait e s = Some (Inl (rc, t))"
  shows "rc = 4 \<or> rc = 5"
proof -
  obtain start u where c: "clock e s = (start, u)" by (cases "clock e s")
  obtain x where "connect_body e start x = Some (Inl (Inl (rc, t)))"
    using assms until_result[of "connect_body e start"] by (fastforce simp: smoke_wait_def c)
  then show ?thesis
    by (cases x) (auto simp: connect_body_def Let_def split: if_splits option.splits prod.splits)
qed

lemma handshake_code:
  assumes "smoke_handshake e ssl s = Some (Inl (rc, t))"
  shows "rc \<noteq> 0"
proof -
  obtain start u where c: "clock e s = (start, u)" by (cases "clock e s")
  obtain x where "handshake_body e ssl start x = Some (Inl (Inl (rc, t)))"
    using assms until_result[of "handshake_body e ssl start"] by (fastforce simp: smoke_handshake_def c)
  then show ?thesis
    by (auto simp: handshake_body_def Let_def split: if_splits option.splits prod.splits)
qed

lemma exchange_code:
  assumes "smoke_exchange e ssl s = Some (Inl (rc, t))"
  shows "rc \<noteq> 0"
proof -
  have body: "rc \<noteq> 0" if "answer_body e ssl start x = Some (Inl (Inl (rc, t)))" for start x
    using that by (auto simp: answer_body_def Let_def split: if_splits option.splits prod.splits)
  show ?thesis
  proof (cases "sm_ssl_write e ssl smoke_hello (m_sock s) (m_w s)")
    case None
    with assms show ?thesis by (simp add: smoke_exchange_def)
  next
    case (Some r)
    with assms body until_result show ?thesis
      by (cases r) (fastforce simp: smoke_exchange_def Let_def split: if_splits prod.splits)
  qed
qed

lemma main_passes:
  assumes "smoke_main e s = Some (0, t)"
  shows "\<exists>x conn ctx ssl y. smoke_wait e x = Some (Inr conn) \<and> smoke_session e ctx ssl y = Some (0, t)"
proof -
  obtain u where u: "smoke_eth e s = Inr u"
    using assms stage_codes(1)[of e s] by (cases "smoke_eth e s") (auto simp: smoke_main_def)
  obtain v where v: "pump_times e 10 u = Some v"
    using assms u by (cases "pump_times e 10 u") (auto simp: smoke_main_def)
  obtain x where x: "smoke_arp_diag e v = Some x"
    using assms u v by (cases "smoke_arp_diag e v") (auto simp: smoke_main_def)
  obtain y where y: "smoke_connect e x = Inr y"
    using assms stage_codes(2)[of e x] u v x by (cases "smoke_connect e x") (auto simp: smoke_main_def)
  obtain r where r: "smoke_wait e y = Some r"
    using assms u v x y by (cases "smoke_wait e y") (auto simp: smoke_main_def)
  then obtain conn where c: "r = Inr conn"
    using assms wait_code[of e y] u v x y by (cases r) (auto simp: smoke_main_def)
  obtain q where q: "smoke_ssl e conn = Some q"
    using assms u v x y r c by (cases "smoke_ssl e conn") (auto simp: smoke_main_def)
  then obtain ctx ssl z where "q = Inr (ctx, ssl, z)"
    using assms stage_codes(3)[of e conn] u v x y r c by (cases q) (auto simp: smoke_main_def)
  with assms u v x y r c q show ?thesis by (auto simp: smoke_main_def)
qed

section \<open>Properties\<close>

text \<open>
  The smoke test ends. If lwIP, axTLS and the packet driver return from their calls and the clock runs,
  no wait of the program lasts for ever: \<open>main\<close> returns one of its fourteen statuses, and 0 only after it
  has printed \<open>[smoke:PASS]\<close>.
\<close>

theorem smoke_main_ends:
  assumes "world_returns e" "\<And>start. \<exists>left. clock_runs e start left"
  shows "\<exists>rc t. smoke_main e s = Some (rc, t) \<and> rc \<in> {0..13} \<and> (rc = 0 \<longrightarrow> suffix (line ''[smoke:PASS]'') (m_out t))"
proof (cases "smoke_eth e s")
  case (Inl r)
  then have "fst r = 1" by (auto simp: smoke_eth_def Let_def split: prod.splits if_splits)
  with Inl show ?thesis by (cases r) (simp add: smoke_main_def)
next
  case eth: (Inr u)
  obtain v where v: "pump_times e 10 u = Some v" using pump_times_returns[OF assms(1)] by blast
  obtain x where x: "smoke_arp_diag e v = Some x" using arp_returns[OF assms(1)] by blast
  show ?thesis
  proof (cases "smoke_connect e x")
    case (Inl r)
    then have "fst r \<in> {2, 3}" by (auto simp: smoke_connect_def Let_def split: prod.splits option.splits if_splits)
    with eth v x Inl show ?thesis by (cases r) (auto simp: smoke_main_def)
  next
    case con: (Inr y)
    obtain r where r: "smoke_wait e y = Some r" "ends_in {4, 5} r" using wait_ends[OF assms] by blast
    show ?thesis
    proof (cases r)
      case (Inl q)
      with eth v x con r show ?thesis by (cases q) (auto simp: smoke_main_def ends_in_def)
    next
      case wt: (Inr z)
      obtain q where q: "smoke_ssl e z = Some q" "ends_in {6, 7} q" using ssl_returns[OF assms(1)] by blast
      show ?thesis
      proof (cases q)
        case (Inl p)
        with eth v x con r wt q show ?thesis by (cases p) (auto simp: smoke_main_def ends_in_def)
      next
        case (Inr p)
        obtain ctx ssl s' where p: "p = (ctx, ssl, s')" by (cases p) auto
        from session_ends[OF assms, of ctx ssl s'] eth v x con r wt q Inr show ?thesis
          by (auto simp: smoke_main_def p)
      qed
    qed
  qed
qed

text \<open>A world for the witness: the connection is made at once, the handshake is done and the server answers.\<close>

definition happy_env :: "(unit, unit, unit, nat) tls_env" where
  "happy_env = \<lparr>sm_pbuf_free = (\<lambda>_ w. w), sm_tcp_recved = (\<lambda>_ _ w. w), sm_tcp_write = (\<lambda>_ _ w. (0, w)),
     sm_tcp_output = (\<lambda>_ w. w), sm_ticks = (\<lambda>w. (of_nat w, Suc w)), sm_pump = (\<lambda>k w. Some (k, w)),
     sm_int = (\<lambda>_ r w. (False, r, w)), sm_lwip_init = (\<lambda>w. w), sm_eth_start = (\<lambda>w. (0, w)),
     sm_set_addr = (\<lambda>_ _ _ w. w), sm_is_up = (\<lambda>_. 1), sm_pktdrv_send = (\<lambda>_ w. Some (0, w)),
     sm_tcp_new = (\<lambda>w. (Some (), w)), sm_tcp_callbacks = (\<lambda>_ w. w),
     sm_tcp_connect = (\<lambda>_ _ _ k w. (0, k\<lparr>s_connected := True\<rparr>, w)),
     sm_ssl_ctx_new = (\<lambda>w. (Some (), w)), sm_ssl_client_new = (\<lambda>_ k w. Some (Some (), [], k, w)),
     sm_ssl_handshake_status = (\<lambda>_ _. 0), sm_ssl_read = (\<lambda>_ k w. Some (2, [0x6F, 0x6B], [], k, w)),
     sm_ssl_write = (\<lambda>_ b k w. Some (int (length b), [], k, w)), sm_ssl_free = (\<lambda>_ w. w),
     sm_ssl_ctx_free = (\<lambda>_ w. w), sm_SSL_OK = 0, sm_SSL_NOT_OK = -1\<rparr>"

definition happy_st :: "(unit, nat) smoke_st" where
  "happy_st = \<lparr>m_out = [], m_sock = idle_sock, m_w = 0, g_bounce_seg = 0, g_bounce_linear = 0, g_thunk_seg = 0,
     g_int21_thunk_seg = 0\<rparr>"

lemma happy_fields:
  "sm_ticks happy_env = (\<lambda>w. (of_nat w, Suc w))" "sm_pump happy_env = (\<lambda>k w. Some (k, w))"
  "sm_int happy_env = (\<lambda>_ r w. (False, r, w))" "sm_lwip_init happy_env = (\<lambda>w. w)"
  "sm_eth_start happy_env = (\<lambda>w. (0, w))" "sm_set_addr happy_env = (\<lambda>_ _ _ w. w)"
  "sm_pktdrv_send happy_env = (\<lambda>_ w. Some (0, w))" "sm_tcp_new happy_env = (\<lambda>w. (Some (), w))"
  "sm_tcp_callbacks happy_env = (\<lambda>_ w. w)"
  "sm_tcp_connect happy_env = (\<lambda>_ _ _ k w. (0, k\<lparr>s_connected := True\<rparr>, w))"
  "sm_ssl_ctx_new happy_env = (\<lambda>w. (Some (), w))" "sm_ssl_client_new happy_env = (\<lambda>_ k w. Some (Some (), [], k, w))"
  "sm_ssl_handshake_status happy_env = (\<lambda>_ _. 0)" "sm_ssl_read happy_env = (\<lambda>_ k w. Some (2, [0x6F, 0x6B], [], k, w))"
  "sm_ssl_write happy_env = (\<lambda>_ b k w. Some (int (length b), [], k, w))" "sm_SSL_OK happy_env = 0"
  by (simp_all add: happy_env_def)

lemma happy_clock: "\<exists>left. clock_runs happy_env start left"
proof -
  define late where "late w \<longleftrightarrow> of_nat w - start > (540 :: u32)" for w :: nat
  define left where "left w = (LEAST j. late (w + j))" for w
  have "left (Suc w) < left w" if "\<not> late w" for w
  proof -
    have "late (w + unat (start - of_nat w - 1))" by (simp add: late_def)
    then have j: "late (w + left w)" unfolding left_def by (rule LeastI)
    with that have "left w \<noteq> 0" by (metis add.right_neutral)
    then obtain i where i: "left w = Suc i" using not0_implies_Suc by blast
    with j have "late (Suc w + i)" by simp
    then have "left (Suc w) \<le> i" unfolding left_def by (rule Least_le)
    with i show ?thesis by simp
  qed
  then have "clock_runs happy_env start left"
    unfolding clock_runs_def by (auto simp: happy_env_def late_def)
  then show ?thesis by blast
qed

theorem smoke_main_ends_witness:
  "\<exists>rc t. smoke_main happy_env happy_st = Some (rc, t) \<and> rc \<in> {0..13}"
  using smoke_main_ends[of happy_env happy_st] happy_clock by (auto simp: world_returns_def happy_env_def)

text \<open>
  What a passed test has shown. Status 0 means that TCP connected, that axTLS then reported the handshake
  complete, accepted the greeting and later handed over an answer, and that this answer is what the
  program printed before \<open>[smoke:PASS]\<close>.
\<close>

theorem smoke_pass_shows:
  fixes e :: "('p, 'c, 'l, 'w, 'x) tls_env_scheme"
  assumes "smoke_main e s = Some (0, t)"
  shows "\<exists>ssl (conn :: ('p, 'w) smoke_st) (hs :: ('p, 'w) smoke_st) wr rest n resp rd rd'. s_connected (m_sock conn)
    \<and> sm_ssl_handshake_status e ssl (m_w hs) = sm_SSL_OK e
    \<and> sm_ssl_write e ssl smoke_hello (m_sock hs) (m_w hs) = Some (wr, rest) \<and> wr > 0
    \<and> read_ssl e ssl rd = Some (n, resp, rd') \<and> n > 0
    \<and> m_out t = m_out rd' @ emit ''[s6:bytes='' @ take (nat n) resp @ line '']'' @ line ''[smoke:PASS]''"
proof -
  obtain x conn ctx ssl y where m: "smoke_wait e x = Some (Inr conn)" "smoke_session e ctx ssl y = Some (0, t)"
    using main_passes[OF assms] by blast
  then obtain hs where hs: "smoke_handshake e ssl y = Some (Inr hs)"
    using handshake_code by (fastforce simp: smoke_session_def split: option.splits sum.splits)
  with m(2) obtain out u where u: "smoke_exchange e ssl hs = Some (Inr (out, u))"
    using exchange_code by (fastforce simp: smoke_session_def split: option.splits sum.splits)
  obtain wr b k w n resp v where x: "sm_ssl_write e ssl smoke_hello (m_sock hs) (m_w hs) = Some (wr, b, k, w)"
    "wr > 0" "read_ssl e ssl v = Some (n, resp, u)" "n > 0" "out = take (nat n) resp"
    using exchange_done[OF u] by blast
  have "m_out t = m_out u @ emit ''[s6:bytes='' @ take (nat n) resp @ line '']'' @ line ''[smoke:PASS]''"
    using m(2) hs u unfolding x(5) by (auto simp: smoke_session_def Let_def)
  with x(1-4) wait_connected[OF m(1)] handshake_done[OF hs] show ?thesis by blast
qed

theorem smoke_pass_shows_witness:
  "\<exists>t n resp rd rd'. smoke_main happy_env happy_st = Some (0, t) \<and> read_ssl happy_env () rd = Some (n, resp, rd')
    \<and> m_out t = m_out rd' @ emit ''[s6:bytes='' @ take (nat n) resp @ line '']'' @ line ''[smoke:PASS]''"
proof -
  have pump [simp]: "tick_pump happy_env s = Some s" for s
    by (simp add: tick_pump_def happy_env_def)
  have pumps [simp]: "pump_times happy_env n s = Some s" for n s
    by (induction n) simp_all
  have "\<exists>t. smoke_main happy_env happy_st = Some (0, t)"
    by (simp add: smoke_main_def smoke_eth_def preallocate_dpmi_resources_def invoke_int_def smoke_arp_diag_def
        smoke_connect_def smoke_wait_def until.simps connect_body_def clock_def smoke_ssl_def smoke_session_def
        smoke_handshake_def handshake_body_def smoke_exchange_def answer_body_def read_ssl_def Let_def happy_st_def
        idle_sock_def smoke_hello_def str_def happy_fields)
  then obtain t where t: "smoke_main happy_env happy_st = Some (0, t)" by blast
  from smoke_pass_shows[OF this] t show ?thesis by (metis (full_types) old.unit.exhaust)
qed

end
