(* ===== verification/Int21_Smoke.thy ===== *)
theory Int21_Smoke
  imports Console Dpmi "HOL-Library.Sublist"
begin

text \<open>
  The program of \<open>rigs/dpmi-int21-smoke/main.c\<close>: it puts hand-assembled thunks into one paragraph of
  real-mode memory, the only one it allocates, and calls DOS through them with DPMI 0x0301: get date, open,
  read, close.

  Memory and host are those of \<open>Dpmi\<close>; the stages of \<open>main\<close> are functions on a state of memory, host and
  console output, each of which gives the exit status when \<open>main\<close> returns there.
\<close>

section \<open>Definitions\<close>

record 'h smoke21 =
  i_mem :: mem
  i_host :: 'h
  i_out :: bytes

type_synonym ('h, 'a) stage = "(int \<times> 'h smoke21) + ('a \<times> 'h smoke21)"

definition prn :: "bytes \<Rightarrow> 'h smoke21 \<Rightarrow> 'h smoke21" where
  "prn b s = s\<lparr>i_out := i_out s @ b\<rparr>"

abbreviation mark :: "string \<Rightarrow> bytes" where "mark t \<equiv> emit t @ [ch_lf]"
abbreviation hexln :: "u32 \<Rightarrow> bytes" where "hexln v \<equiv> emit_hex8 [ch_lf] v"

definition rig_alloc_dos_mem :: "('h, 'x) dpmi_scheme \<Rightarrow> u32 \<Rightarrow> 'h smoke21 \<Rightarrow> int \<times> 'h smoke21" where
  "rig_alloc_dos_mem d paragraphs s =
     (let (cf, r, h) = int_invoke d 0x31 (regs0\<lparr>R_EAX := 0x0100, R_EBX := paragraphs\<rparr>) (i_host s)
      in (if cf then -1 else uint (R_EAX r AND 0xFFFF), s\<lparr>i_host := h\<rparr>))"

definition rig_seg_to_linear :: "('h, 'x) dpmi_scheme \<Rightarrow> u32 \<Rightarrow> 'h smoke21 \<Rightarrow> u32 \<times> 'h smoke21" where
  "rig_seg_to_linear d seg s =
     (let (cf, r2, h) = int_invoke d 0x31 (regs0\<lparr>R_EAX := 0x0002, R_EBX := seg\<rparr>) (i_host s)
      in if cf then (0, s\<lparr>i_host := h\<rparr>)
         else let sel = R_EAX r2 AND 0xFFFF;
                  (cf, r3, h) = int_invoke d 0x31 (regs0\<lparr>R_EAX := 0x0006, R_EBX := sel\<rparr>) h
              in (if cf then 0 else push_bit 16 (R_ECX r3 AND 0xFFFF) OR (R_EDX r3 AND 0xFFFF), s\<lparr>i_host := h\<rparr>))"

text \<open>DPMI 0x0301, which the host answers with \<open>rm_call\<close>.\<close>

definition rig_call_rm :: "('h, 'x) dpmi_scheme \<Rightarrow> dos_rmcs \<Rightarrow> 'h smoke21 \<Rightarrow> int \<times> dos_rmcs \<times> 'h smoke21" where
  "rig_call_rm d rm s =
     (let (cf, rm, m, h) = rm_call d rm (i_mem s) (i_host s)
      in (if cf then -1 else 0, rm, s\<lparr>i_mem := m, i_host := h\<rparr>))"

definition poke :: "('h, 'x) dpmi_scheme \<Rightarrow> u32 \<Rightarrow> bytes \<Rightarrow> 'h smoke21 \<Rightarrow> 'h smoke21" where
  "poke d a b s = s\<lparr>i_mem := store_bytes d a b (i_mem s)\<rparr>"

subsection \<open>Stages 0 to 3: the paragraph and an empty thunk\<close>

definition stage_alloc :: "('h, 'x) dpmi_scheme \<Rightarrow> 'h smoke21 \<Rightarrow> ('h, u32 \<times> u32) stage" where
  "stage_alloc d s =
     (let s = prn (mark ''[smoke:start]'') s;
          (thunk_seg, s) = rig_alloc_dos_mem d 1 s;
          s = prn (emit ''[s0:thunk_seg=]'' @ hexln (word_of_int thunk_seg)) s
      in if thunk_seg < 0 then Inl (1, prn (mark ''[s0:FAIL]'') s)
         else let (thunk_lin, s) = rig_seg_to_linear d (word_of_int thunk_seg) s;
                  s = prn (emit ''[s1:thunk_lin=]'' @ hexln thunk_lin) s
              in if thunk_lin = 0 then Inl (1, prn (mark ''[s1:FAIL]'') s)
                 else Inr ((word_of_int thunk_seg, thunk_lin), s))"

definition stage_nop :: "('h, 'x) dpmi_scheme \<Rightarrow> u32 \<Rightarrow> u32 \<Rightarrow> 'h smoke21 \<Rightarrow> ('h, unit) stage" where
  "stage_nop d seg lin s =
     (let s = poke d lin [0x90, 0xCB] s;
          rb = push_bit 8 (ucast (i_mem s lin)) OR ucast (i_mem s (lin + 1));
          s = prn (emit ''[s2:thunk_rb=]'' @ hexln rb @ mark ''[s3:pre-dispatch]'') s;
          (rc, rm, s) = rig_call_rm d (rmcs0\<lparr>cs := ucast seg\<rparr>) s
      in if rc \<noteq> 0 then Inl (1, prn (mark ''[s3:DISPATCH-FAIL]'') s)
         else Inr ((), prn (mark ''[s3:post-dispatch]'') s))"

subsection \<open>Stage 4: the date\<close>

definition stage_date :: "('h, 'x) dpmi_scheme \<Rightarrow> u32 \<Rightarrow> u32 \<Rightarrow> 'h smoke21 \<Rightarrow> ('h, unit) stage" where
  "stage_date d seg lin s =
     (let s = poke d lin [0xB4, 0x2A, 0xCD, 0x21, 0xCB] s;
          s = prn (mark ''[s4:pre-dispatch]'') s;
          (rc, rm, s) = rig_call_rm d (rmcs0\<lparr>cs := ucast seg\<rparr>) s
      in if rc \<noteq> 0 then Inl (1, prn (mark ''[s4:DISPATCH-FAIL]'') s)
         else Inr ((), prn (mark ''[s4:post-dispatch]'' @ emit ''[s4:cx=]'' @ hexln (ecx rm AND 0xFFFF)
                            @ emit ''[s4:dx=]'' @ hexln (edx rm AND 0xFFFF)) s))"

subsection \<open>Stage 5: opening the file\<close>

definition fname :: bytes where
  "fname = str ''TESTCA.PEM''"

text \<open>The thunk, the name behind it and its terminator.\<close>

definition open_setup :: "('h, 'x) dpmi_scheme \<Rightarrow> u32 \<Rightarrow> 'h smoke21 \<Rightarrow> 'h smoke21" where
  "open_setup d lin s = poke d (lin + 3 + of_nat (length fname)) [0] (poke d (lin + 3) fname (poke d lin [0xCD, 0x21, 0xCB] s))"

definition stage_open :: "('h, 'x) dpmi_scheme \<Rightarrow> u32 \<Rightarrow> u32 \<Rightarrow> 'h smoke21 \<Rightarrow> ('h, u32) stage" where
  "stage_open d seg lin s =
     (let s = prn (mark ''[s5:pre-dispatch]'') (open_setup d lin s);
          (rc, rm, s) = rig_call_rm d (rmcs0\<lparr>cs := ucast seg, eax := 0x3D00, ds := ucast seg, edx := 3\<rparr>) s
      in if rc \<noteq> 0 then Inl (1, prn (mark ''[s5:DISPATCH-FAIL]'') s)
         else let s = prn (mark ''[s5:post-dispatch]'' @ emit ''[s5:flags=]'' @ hexln (ucast (flags rm))
                           @ emit ''[s5:ax=]'' @ hexln (eax rm AND 0xFFFF)) s
              in if flags rm AND 1 \<noteq> 0 then Inl (1, prn (mark ''[s5:open-error]'') s)
                 else let fd = eax rm AND 0xFFFF
                      in Inr (fd, prn (emit ''[s5:fd=]'' @ hexln fd) s))"

subsection \<open>Stage 6: reading a byte, and closing\<close>

definition stage_read :: "('h, 'x) dpmi_scheme \<Rightarrow> u32 \<Rightarrow> u32 \<Rightarrow> u32 \<Rightarrow> 'h smoke21 \<Rightarrow> ('h, unit) stage" where
  "stage_read d seg lin fd s =
     (let s = poke d lin [0xCD, 0x21, 0xCB] s;
          t012 = push_bit 16 (ucast (i_mem s lin)) OR push_bit 8 (ucast (i_mem s (lin + 1))) OR ucast (i_mem s (lin + 2));
          s = prn (emit ''[s6:thunk012=]'' @ hexln t012 @ mark ''[s6:pre-dispatch]'') s;
          (rc, rm, s) = rig_call_rm d (rmcs0\<lparr>cs := ucast seg, eax := 0x3F00, ebx := fd, ecx := 1, ds := ucast seg, edx := 3\<rparr>) s
      in if rc \<noteq> 0 then Inl (1, prn (mark ''[s6:DISPATCH-FAIL]'') s)
         else let s = prn (mark ''[s6:post-dispatch]'' @ emit ''[s6:flags=]'' @ hexln (ucast (flags rm))
                           @ emit ''[s6:ax=]'' @ hexln (eax rm AND 0xFFFF)) s
              in if flags rm AND 1 \<noteq> 0 then Inl (1, prn (mark ''[s6:read-error]'') s)
                 else let n = unat (eax rm AND 0xFFFF);
                          n = (if n > 13 then 13 else n);
                          s = prn (emit ''[s6:bytes=]'' @ load_bytes (i_mem s) (lin + 3) n
                                   @ [ch_lf] @ mark ''[smoke:PASS]'') s
                      in Inr ((), s))"

definition stage_close :: "('h, 'x) dpmi_scheme \<Rightarrow> u32 \<Rightarrow> u32 \<Rightarrow> u32 \<Rightarrow> 'h smoke21 \<Rightarrow> 'h smoke21" where
  "stage_close d seg lin fd s =
     (let s = poke d lin [0xCD, 0x21, 0xCB] s;
          (rc, rm, s) = rig_call_rm d (rmcs0\<lparr>cs := ucast seg, eax := 0x3E00, ebx := fd\<rparr>) s
      in s)"

definition smoke21_main :: "('h, 'x) dpmi_scheme \<Rightarrow> 'h smoke21 \<Rightarrow> int \<times> 'h smoke21" where
  "smoke21_main d s =
     (case stage_alloc d s of Inl r \<Rightarrow> r
      | Inr ((seg, lin), s) \<Rightarrow>
        (case stage_nop d seg lin s of Inl r \<Rightarrow> r
         | Inr (_, s) \<Rightarrow>
           (case stage_date d seg lin s of Inl r \<Rightarrow> r
            | Inr (_, s) \<Rightarrow>
              (case stage_open d seg lin s of Inl r \<Rightarrow> r
               | Inr (fd, s) \<Rightarrow>
                 (case stage_read d seg lin fd s of Inl r \<Rightarrow> r
                  | Inr (_, s) \<Rightarrow> (0, stage_close d seg lin fd s))))))"

section \<open>Lemmas\<close>

text \<open>The state a stage leaves, whichever way.\<close>

definition left_in :: "(int \<times> 'h smoke21) + ('a \<times> 'h smoke21) \<Rightarrow> 'h smoke21" where
  "left_in r = (case r of Inl (_, s) \<Rightarrow> s | Inr (_, s) \<Rightarrow> s)"

lemma prn_mem [simp]: "i_mem (prn b s) = i_mem s" "i_host (prn b s) = i_host s" "i_out (prn b s) = i_out s @ b"
  by (simp_all add: prn_def)

text \<open>What no call of the host changes at \<open>x\<close>.\<close>

definition host_keeps :: "('h, 'x) dpmi_scheme \<Rightarrow> u32 \<Rightarrow> bool" where
  "host_keeps d x \<longleftrightarrow> (\<forall>rm m h. case rm_call d rm m h of (cf, rm', m', h') \<Rightarrow> m' x = m x)"

lemma call_rm_keeps: "host_keeps d x \<Longrightarrow> i_mem (snd (snd (rig_call_rm d rm s))) x = i_mem s x"
  by (auto simp: host_keeps_def rig_call_rm_def split_beta)

lemma poke_keeps: "\<not> in_block lin 16 x \<Longrightarrow> length b \<le> 16 \<Longrightarrow> i_mem (poke d lin b s) x = i_mem s x"
  by (simp add: poke_def in_block_def store_bytes_other)

lemma poke_offset_keeps:
  assumes "\<not> in_block lin 16 x" "k + length b \<le> 16"
  shows "i_mem (poke d (lin + of_nat k) b s) x = i_mem s x"
proof -
  have "\<not> in_block (lin + of_nat k) (length b) x"
  proof
    assume i: "in_block (lin + of_nat k) (length b) x"
    define y where "y = x - (lin + of_nat k)"
    have "unat (y + of_nat k) = unat y + k"
      using i assms(2) unfolding in_block_def y_def[symmetric]
      by (simp add: unat_word_ariths unat_of_nat take_bit_nat_eq_self)
    with i assms show False by (simp add: in_block_def y_def)
  qed
  then show ?thesis by (simp add: poke_def store_bytes_other)
qed

lemma length_fname: "length fname = 10"
  by (simp add: fname_def str_def)

lemma open_setup_keeps:
  assumes "\<not> in_block lin 16 x"
  shows "i_mem (open_setup d lin s) x = i_mem s x"
proof -
  note k = poke_offset_keeps[OF assms, of 13 "[0]" d] poke_offset_keeps[OF assms, of 3 fname d]
  show ?thesis
    using k by (simp add: open_setup_def length_fname add.assoc poke_keeps[OF assms])
qed

lemma alloc_mem: "i_mem (snd (rig_alloc_dos_mem d n s)) = i_mem s" "i_mem (snd (rig_seg_to_linear d seg s)) = i_mem s"
  by (simp_all add: rig_alloc_dos_mem_def rig_seg_to_linear_def Let_def split_beta)

text \<open>Outside the paragraph every stage leaves what the host leaves.\<close>

lemma stages_keep:
  assumes "host_keeps d x" "\<not> in_block lin 16 x"
  shows "i_mem (left_in (stage_nop d seg lin s)) x = i_mem s x"
    "i_mem (left_in (stage_date d seg lin s)) x = i_mem s x"
    "i_mem (left_in (stage_open d seg lin s)) x = i_mem s x"
    "i_mem (left_in (stage_read d seg lin fd s)) x = i_mem s x"
    "i_mem (stage_close d seg lin fd s) x = i_mem s x"
  using assms
  by (simp_all add: stage_nop_def stage_date_def stage_open_def stage_read_def stage_close_def left_in_def Let_def
      split_beta call_rm_keeps poke_keeps open_setup_keeps)

lemma stage_alloc_keeps: "i_mem (left_in (stage_alloc d s)) = i_mem s"
  by (simp add: stage_alloc_def left_in_def Let_def split_beta alloc_mem)

lemma store_bytes_append:
  "store_bytes d a (xs @ ys) m = store_bytes d (a + of_nat (length xs)) ys (store_bytes d a xs m)"
  by (induction xs arbitrary: a m) (simp_all add: algebra_simps)

lemma open_setup_bytes:
  assumes "\<forall>x. in_block lin 16 x \<longrightarrow> writable d x"
  shows "load_bytes (i_mem (open_setup d lin s)) lin 14 = [0xCD, 0x21, 0xCB] @ fname @ [0]"
proof -
  let ?all = "[0xCD, 0x21, 0xCB] @ fname @ [0]"
  have "i_mem (open_setup d lin s) = store_bytes d lin ?all (i_mem s)"
    by (simp only: store_bytes_append open_setup_def poke_def)
      (simp add: length_fname add.assoc del: store_bytes.simps)
  moreover have "load_bytes (store_bytes d lin ?all (i_mem s)) lin (length ?all) = ?all"
    using assms by (intro store_bytes_load) (auto simp: length_fname in_block_def)
  ultimately show ?thesis by (simp add: length_fname del: store_bytes.simps load_bytes.simps)
qed

lemma left_in_simps [simp]: "left_in (Inl r) = snd r" "left_in (Inr q) = snd q"
  by (simp_all add: left_in_def split_beta)

section \<open>Properties\<close>

text \<open>
  The program keeps to its paragraph: a byte that the host's calls leave alone and that is not one of the
  sixteen it allocated has the same value when \<open>main\<close> returns, whichever stage it returns from.
\<close>

theorem smoke21_stays_in_paragraph:
  assumes "host_keeps d x" "\<And>seg lin u. stage_alloc d s = Inr ((seg, lin), u) \<Longrightarrow> \<not> in_block lin 16 x"
  shows "i_mem (snd (smoke21_main d s)) x = i_mem s x"
proof (cases "stage_alloc d s")
  case (Inl r)
  then show ?thesis using stage_alloc_keeps[of d s] by (simp add: smoke21_main_def)
next
  case (Inr q)
  obtain seg lin u where q: "q = ((seg, lin), u)" by (cases q) auto
  have lin: "\<not> in_block lin 16 x" using assms(2) Inr q by blast
  have u: "i_mem u = i_mem s" using stage_alloc_keeps[of d s] Inr q by simp
  note k = stages_keep[OF assms(1) lin]
  show ?thesis
    using k(1)[of seg u] k(2)[of seg] k(3)[of seg] k(4)[of seg] k(5)[of seg] u
    by (auto simp: smoke21_main_def Inr q split: sum.splits prod.splits dest!: arg_cong[where f = left_in])
qed

text \<open>A host for the witnesses: it has a paragraph at 2000h, and its DOS opens file 5 and reads one byte.\<close>

definition host21 :: "unit dpmi" where
  "host21 = \<lparr>writable = (\<lambda>_. True),
     int_invoke = (\<lambda>_ r h. (False, r\<lparr>R_EAX := (if R_EAX r = 0x0100 then 0x2000 else 0x0F), R_ECX := 2, R_EDX := 0\<rparr>, h)),
     rm_call = (\<lambda>rm m h. (False, rm\<lparr>eax := (if eax rm = 0x3D00 then 5 else 1)\<rparr>, m, h)), ds_selector = 0\<rparr>"

definition state21 :: "unit smoke21" where
  "state21 = \<lparr>i_mem = (\<lambda>_. 0), i_host = (), i_out = []\<rparr>"

lemma host21_lin: "stage_alloc host21 state21 = Inr ((seg, lin), u) \<Longrightarrow> lin = 0x20000"
  by (simp add: stage_alloc_def rig_alloc_dos_mem_def rig_seg_to_linear_def host21_def Let_def split: if_splits)

theorem smoke21_stays_in_paragraph_witness: "i_mem (snd (smoke21_main host21 state21)) 0x20010 = 0"
proof -
  have "\<not> in_block lin 16 0x20010" if "stage_alloc host21 state21 = Inr ((seg, lin), u)" for seg lin u
    using host21_lin[OF that] by (simp add: in_block_def)
  then show ?thesis
    using smoke21_stays_in_paragraph[of host21 "0x20010" state21]
    by (simp add: host_keeps_def host21_def state21_def)
qed

text \<open>
  What DOS is asked to open. Stage 5 calls the host with AH=3Dh and DS:DX three bytes into the paragraph,
  and at that moment the paragraph holds the thunk \<open>CD 21 CB\<close> followed by the zero-terminated name; the
  stage goes on with the handle in AX exactly when neither the host nor DOS reports an error.
\<close>

theorem smoke21_asks_for_file:
  assumes "\<forall>x. in_block lin 16 x \<longrightarrow> writable d x"
  shows "\<exists>m. load_bytes m lin 14 = [0xCD, 0x21, 0xCB] @ fname @ [0]
    \<and> (case rm_call d (rmcs0\<lparr>cs := ucast seg, eax := 0x3D00, ds := ucast seg, edx := 3\<rparr>) m (i_host s) of
         (cf, rm, _) \<Rightarrow> (case stage_open d seg lin s of
            Inl (rc, _) \<Rightarrow> rc = 1 \<and> (cf \<or> flags rm AND 1 \<noteq> 0)
          | Inr (fd, _) \<Rightarrow> \<not> cf \<and> flags rm AND 1 = 0 \<and> fd = eax rm AND 0xFFFF))"
proof (intro exI conjI)
  show "load_bytes (i_mem (open_setup d lin s)) lin 14 = [0xCD, 0x21, 0xCB] @ fname @ [0]"
    by (rule open_setup_bytes[OF assms])
  have h: "i_host (open_setup d lin s) = i_host s" by (simp add: open_setup_def poke_def)
  show "case rm_call d (rmcs0\<lparr>cs := ucast seg, eax := 0x3D00, ds := ucast seg, edx := 3\<rparr>) (i_mem (open_setup d lin s)) (i_host s) of
         (cf, rm, _) \<Rightarrow> (case stage_open d seg lin s of
            Inl (rc, _) \<Rightarrow> rc = 1 \<and> (cf \<or> flags rm AND 1 \<noteq> 0)
          | Inr (fd, _) \<Rightarrow> \<not> cf \<and> flags rm AND 1 = 0 \<and> fd = eax rm AND 0xFFFF)"
    by (simp add: stage_open_def rig_call_rm_def h Let_def split_beta)
qed

theorem smoke21_asks_for_file_witness:
  "\<exists>m. load_bytes m 0x20000 14 = [0xCD, 0x21, 0xCB] @ fname @ [0]
    \<and> (case rm_call host21 (rmcs0\<lparr>cs := ucast (0x2000 :: u32), eax := 0x3D00, ds := ucast (0x2000 :: u32), edx := 3\<rparr>) m () of
         (cf, rm, _) \<Rightarrow> (case stage_open host21 0x2000 0x20000 state21 of
            Inl (rc, _) \<Rightarrow> rc = 1 \<and> (cf \<or> flags rm AND 1 \<noteq> 0)
          | Inr (fd, _) \<Rightarrow> \<not> cf \<and> flags rm AND 1 = 0 \<and> fd = eax rm AND 0xFFFF))"
  using smoke21_asks_for_file[of "0x20000" host21 "0x2000" state21] by (simp add: host21_def state21_def)

text \<open>\<open>main\<close> returns 0, with \<open>[smoke:PASS]\<close> the last line printed, or 1.\<close>

theorem smoke21_status:
  "case smoke21_main d s of (rc, t) \<Rightarrow> (rc = 0 \<and> suffix (mark ''[smoke:PASS]'') (i_out t)) \<or> rc = 1"
proof -
  have codes: "\<And>r s. stage_alloc d s = Inl r \<Longrightarrow> fst r = 1" "\<And>seg lin s r. stage_nop d seg lin s = Inl r \<Longrightarrow> fst r = 1"
    "\<And>seg lin s r. stage_date d seg lin s = Inl r \<Longrightarrow> fst r = 1" "\<And>seg lin s r. stage_open d seg lin s = Inl r \<Longrightarrow> fst r = 1"
    "\<And>seg lin fd s r. stage_read d seg lin fd s = Inl r \<Longrightarrow> fst r = 1"
    by (auto simp: stage_alloc_def stage_nop_def stage_date_def stage_open_def stage_read_def Let_def split_beta
        split: if_splits)
  have "suffix (mark ''[smoke:PASS]'') (i_out t)" if "stage_read d seg lin fd s = Inr (u, t)" for seg lin fd s u t
    using that by (auto simp: stage_read_def Let_def split_beta suffix_def split: if_splits)
  moreover have "i_out (stage_close d seg lin fd s) = i_out s" for seg lin fd s
    by (simp add: stage_close_def poke_def rig_call_rm_def Let_def split_beta)
  ultimately show ?thesis
    using codes by (auto simp: smoke21_main_def split: sum.split prod.split)
qed

end
