(* ===== verification/Send_Loop.thy ===== *)
theory Send_Loop
  imports Console Pkt_Exec
begin

text \<open>
  The program of \<open>rigs/crynwr-send-loop/main.c\<close>: it allocates the driver's real-mode buffers, initialises
  the packet driver and sends one ARP request five times. It is built with \<open>PKTDRV_FORCE_CRYNWR\<close>, so
  \<open>pktdrv_init\<close> is \<open>crynwr_init\<close>.

  The state is that of \<open>Pktdrv\<close>, whose \<open>prealloc_\<close> fields are the globals the program sets, and the console
  output; \<open>None\<close> is a send that does not return.
\<close>

section \<open>Definitions\<close>

type_synonym ('h, 'n) loop_st = "('h, 'n) pkt \<times> bytes"

abbreviation crlf :: bytes where "crlf \<equiv> [ch_cr, ch_lf]"
abbreviation tell :: "string \<Rightarrow> bytes" where "tell t \<equiv> emit t @ crlf"

definition dos_alloc_int21_AH48 :: "('h, 'x) dpmi_scheme \<Rightarrow> u32 \<Rightarrow> ('h, 'n) pkt \<Rightarrow> u32 option \<times> ('h, 'n) pkt" where
  "dos_alloc_int21_AH48 d paras s =
     (let (cf, r, h) = int_invoke d 0x21 (regs0\<lparr>R_EAX := 0x4800, R_EBX := paras\<rparr>) (p_host s)
      in (if cf then None else Some (R_EAX r AND 0xFFFF), s\<lparr>p_host := h\<rparr>))"

definition resolve_seg_to_linear :: "('h, 'x) dpmi_scheme \<Rightarrow> u32 \<Rightarrow> ('h, 'n) pkt \<Rightarrow> u32 option \<times> ('h, 'n) pkt" where
  "resolve_seg_to_linear d seg s =
     (let (cf, r2, h) = int_invoke d 0x31 (regs0\<lparr>R_EAX := 0x0002, R_EBX := seg\<rparr>) (p_host s)
      in if cf then (None, s\<lparr>p_host := h\<rparr>)
         else let sel = R_EAX r2 AND 0xFFFF;
                  (cf, r3, h) = int_invoke d 0x31 (regs0\<lparr>R_EAX := 0x0006, R_EBX := sel\<rparr>) h
              in (if cf then None else Some (push_bit 16 (R_ECX r3 AND 0xFFFF) OR (R_EDX r3 AND 0xFFFF)), s\<lparr>p_host := h\<rparr>))"

definition dpmi_alloc_dos_mem :: "('h, 'x) dpmi_scheme \<Rightarrow> u32 \<Rightarrow> ('h, 'n) pkt \<Rightarrow> u32 option \<times> ('h, 'n) pkt" where
  "dpmi_alloc_dos_mem d paras s =
     (let (cf, r, h) = int_invoke d 0x31 (regs0\<lparr>R_EAX := 0x0100, R_EBX := paras\<rparr>) (p_host s)
      in (if cf then None else Some (R_EAX r AND 0xFFFF), s\<lparr>p_host := h\<rparr>))"

text \<open>The allocations at the start of \<open>main\<close>: a pad, the bounce buffer and its address, the thunk. The
  result is the status returned by a failed one.\<close>

definition loop_prealloc :: "('h, 'x) dpmi_scheme \<Rightarrow> ('h, 'n) pkt \<Rightarrow> int option \<times> ('h, 'n) loop_st" where
  "loop_prealloc d s =
     (let out = tell ''[boot]'' @ tell ''[prealloc:enter]'';
          (pad, s) = dos_alloc_int21_AH48 d 0x100 s
      in case pad of
           None \<Rightarrow> (Some 1, s, out @ tell ''[prealloc:dummy-pad-FAIL]'')
         | Some pad \<Rightarrow>
             let out = out @ emit ''[prealloc:dummy-pad-seg=]'' @ emit_hex8 crlf pad;
                 (bseg, s) = dos_alloc_int21_AH48 d 128 s
             in (case bseg of
                   None \<Rightarrow> (Some 1, s, out @ tell ''[prealloc:bounce-FAIL]'')
                 | Some bseg \<Rightarrow>
                     let s = s\<lparr>prealloc_bounce_seg := bseg\<rparr>;
                         (lin, s) = resolve_seg_to_linear d bseg s
                     in (case lin of
                           None \<Rightarrow> (Some 1, s, out @ tell ''[prealloc:bounce-linear-FAIL]'')
                         | Some lin \<Rightarrow>
                             let s = s\<lparr>prealloc_bounce_linear := lin\<rparr>;
                                 out = out @ emit ''[prealloc:bounce-seg=]'' @ emit_hex8 crlf bseg
                                       @ emit ''[prealloc:bounce-linear=]'' @ emit_hex8 crlf lin;
                                 (tseg, s) = dpmi_alloc_dos_mem d 1 s
                             in (case tseg of
                                   None \<Rightarrow> (Some 2, s, out @ tell ''[prealloc:thunk-FAIL]'')
                                 | Some tseg \<Rightarrow>
                                     (None, s\<lparr>prealloc_thunk_seg := tseg\<rparr>,
                                      out @ emit ''[prealloc:thunk-seg=]'' @ emit_hex8 crlf tseg @ tell ''[prealloc:done]'')))))"

definition loop_arp :: "bytes \<Rightarrow> bytes" where
  "loop_arp mac = [0xFF, 0xFF, 0xFF, 0xFF, 0xFF, 0xFF] @ mac @ [0x08, 0x06, 0x00, 0x01, 0x08, 0x00, 6, 4, 0x00, 0x01]
     @ mac @ [10, 0, 2, 15] @ replicate 6 0 @ [10, 0, 2, 2]"

definition loop_round ::
  "('h, 'x) pkt_host_scheme \<Rightarrow> ('n, 'y) nic_scheme \<Rightarrow> bytes \<Rightarrow> nat \<Rightarrow> ('h, 'n) loop_st \<Rightarrow> ('h, 'n) loop_st option" where
  "loop_round d nic arp i = (\<lambda>(s, out).
     let n = emit_dec [] (of_nat i);
         out = out @ emit ''[send '' @ n @ emit '' thunk-inv=]'' @ emit_hex8 crlf (thunk_invocations s)
               @ emit ''[send '' @ n @ tell '' pre]''
     in map_option (\<lambda>(sr, s).
          (s, out @ emit ''[send '' @ n @ emit '' rc=]'' @ emit_hex8 crlf (word_of_int sr)
              @ emit ''[send '' @ n @ (if sr \<noteq> 0 then tell '' FAIL]'' else tell '' OK]'')))
        (pktdrv_send d nic arp 42 s))"

fun loop_rounds ::
  "('h, 'x) pkt_host_scheme \<Rightarrow> ('n, 'y) nic_scheme \<Rightarrow> bytes \<Rightarrow> nat list \<Rightarrow> ('h, 'n) loop_st \<Rightarrow> ('h, 'n) loop_st option" where
  "loop_rounds d nic arp [] st = Some st"
| "loop_rounds d nic arp (i # is) st =
     (case loop_round d nic arp i st of None \<Rightarrow> None | Some st \<Rightarrow> loop_rounds d nic arp is st)"

definition loop_main ::
  "('h, 'x) pkt_host_scheme \<Rightarrow> ('n, 'y) nic_scheme \<Rightarrow> ('h, 'n) pkt \<Rightarrow> (int \<times> ('h, 'n) loop_st) option" where
  "loop_main d nic s =
     (case loop_prealloc d s of
        (Some rc, st) \<Rightarrow> Some (rc, st)
      | (None, s, out) \<Rightarrow>
          let ((rc, mac), s) = crynwr_init d s;
              out = out @ crlf @ emit ''[pi:rc=]'' @ emit_hex8 crlf (word_of_int rc)
          in if rc \<noteq> 0 then Some (3, s, out @ tell ''[pi:FAIL]'')
             else if \<not> pktdrv_is_active s then Some (4, s, out @ tell ''[pi:not-active]'')
             else map_option (\<lambda>(s, out). (0, s, out @ tell ''[bench:done]''))
                    (loop_rounds d nic (loop_arp mac) [0..<5] (s, out)))"

section \<open>Lemmas\<close>

lemma alloc_keeps:
  "dos_alloc_int21_AH48 d n s = (r, t) \<Longrightarrow> p_ne2k t = p_ne2k s \<and> int_num t = int_num s"
  "resolve_seg_to_linear d n s = (r, t) \<Longrightarrow> p_ne2k t = p_ne2k s \<and> int_num t = int_num s"
  "dpmi_alloc_dos_mem d n s = (r, t) \<Longrightarrow> p_ne2k t = p_ne2k s \<and> int_num t = int_num s"
  by (auto simp: dos_alloc_int21_AH48_def resolve_seg_to_linear_def dpmi_alloc_dos_mem_def Let_def
      split: prod.splits if_splits)

lemma prealloc_keeps:
  assumes "loop_prealloc d s = (r, t, out)"
  shows "p_ne2k t = p_ne2k s \<and> int_num t = int_num s \<and> (case r of None \<Rightarrow> True | Some rc \<Rightarrow> rc \<in> {1, 2})"
  using assms unfolding loop_prealloc_def Let_def
  by (auto split: prod.splits option.splits dest!: alloc_keeps)

text \<open>Without the NE2000 driver a send returns and leaves it uninitialised.\<close>

lemma send_crynwr:
  assumes "\<not> ne2k_initialized (p_ne2k s)"
  shows "\<exists>r t. pktdrv_send d nic p n s = Some (r, t) \<and> \<not> ne2k_initialized (p_ne2k t)"
  using assms by (simp add: pktdrv_send_def Let_def split_beta)

lemma rounds_return:
  "\<not> ne2k_initialized (p_ne2k (fst st)) \<Longrightarrow> \<exists>u. loop_rounds d nic arp is st = Some u"
proof (induction "is" arbitrary: st)
  case (Cons i "is")
  obtain s out where st: "st = (s, out)" by (cases st)
  obtain r t where "pktdrv_send d nic arp 42 s = Some (r, t)" "\<not> ne2k_initialized (p_ne2k t)"
    using send_crynwr[of s d nic arp 42] Cons.prems st by auto
  with Cons.IH show ?case by (simp add: st loop_round_def Let_def)
qed simp

text \<open>
  What DPMI's \<open>0x0100\<close> promises: a request for \<open>n\<close> paragraphs that succeeds answers with a segment at which
  \<open>n\<close> paragraphs now belong to the program. \<open>paras h seg\<close> is the size of the block at \<open>seg\<close> in host state \<open>h\<close>.
\<close>

definition dos_blocks :: "('h, 'x) dpmi_scheme \<Rightarrow> ('h \<Rightarrow> u32 \<Rightarrow> nat) \<Rightarrow> bool" where
  "dos_blocks d paras \<longleftrightarrow> (\<forall>h n r h'. int_invoke d 0x31 (regs0\<lparr>R_EAX := 0x0100, R_EBX := n\<rparr>) h = (False, r, h')
     \<longrightarrow> R_EAX r AND 0xFFFF \<noteq> 0 \<and> paras h' (R_EAX r AND 0xFFFF) = unat (n AND 0xFFFF))"

lemma prealloc_thunk:
  assumes "loop_prealloc d s = (None, t, out)"
  shows "\<exists>h r. int_invoke d 0x31 (regs0\<lparr>R_EAX := 0x0100, R_EBX := 1\<rparr>) h = (False, r, p_host t)
    \<and> prealloc_thunk_seg t = R_EAX r AND 0xFFFF \<and> pk_thunk_seg t = pk_thunk_seg s"
  using assms unfolding loop_prealloc_def Let_def
  by (auto simp: dos_alloc_int21_AH48_def resolve_seg_to_linear_def dpmi_alloc_dos_mem_def Let_def
      split: prod.splits option.splits if_splits) (rule exI, rule exI, rule conjI, assumption, simp)

lemma prealloc_block:
  assumes "dos_blocks d paras" "loop_prealloc d s = (None, t, out)"
  shows "paras (p_host t) (prealloc_thunk_seg t) = 1" "prealloc_thunk_seg t \<noteq> 0" "pk_thunk_seg t = pk_thunk_seg s"
  using prealloc_thunk[OF assms(2)] assms(1) by (auto simp: dos_blocks_def)

lemma alloc_thunk_image:
  assumes "pk_thunk_seg s = 0" "prealloc_thunk_seg s \<noteq> 0"
    and "\<forall>x. in_block (push_bit 4 (prealloc_thunk_seg s)) 0x50 x \<longrightarrow> writable d x"
    and "pktdrv_alloc_thunk d s = (r, t)"
  shows "load_bytes (p_mem t) (push_bit 4 (prealloc_thunk_seg s) + 0x10) 47 = rcv_code"
    "load_bytes (p_mem t) (push_bit 4 (prealloc_thunk_seg s) + 0x40) 6 = stub_vars (pk_bounce_seg s)"
  using assms(4) thunk_image_pieces(3,4)[OF assms(3), of "pk_bounce_seg s" "p_mem s"]
  by (auto simp: pktdrv_alloc_thunk_def assms(1,2) thunk_image_def Let_def)

subsection \<open>A host that keeps count of its blocks\<close>

definition block_host :: "(u32 \<Rightarrow> nat) pkt_host" where
  "block_host = \<lparr>writable = (\<lambda>_. True),
     int_invoke = (\<lambda>n r h. if n = 0x31 \<and> R_EAX r = 0x0100
        then (False, r\<lparr>R_EAX := 0x2000\<rparr>, h(0x2000 := unat (R_EBX r AND 0xFFFF)))
        else (False, r\<lparr>R_EAX := 0x3000\<rparr>, h)),
     rm_call = (\<lambda>r m h. (True, r, m, h)), ds_selector = 0,
     sim_rm_int = (\<lambda>n r m h. (n \<noteq> 0x60, r\<lparr>ebx := 0x0100, edx := 0x0100, flags := 0\<rparr>, m, h)),
     bare_int = (\<lambda>_ r _ h. (True, r, [], h)), addr_rx_buf = 0x400000, addr_rx_pending = 0x400800,
     addr_rx_len = 0x400804, addr_rmcs = 0x400808, addr_dpmi_thunk = 0x410000, addr_receiver = 0x410100\<rparr>"

definition block_pkt :: "(u32 \<Rightarrow> nat, unit) pkt" where
  "block_pkt = \<lparr>p_mem = (\<lambda>_. 0), p_host = (\<lambda>_. 0), p_ne2k = \<lparr>n_dev = (), ne2k_initialized = False, ne2k_mac = []\<rparr>,
     int_num = 0, handle = -1, handle_arp = -1, mac_cache = replicate 6 0, rx_buf = replicate 1518 0,
     rx_pending = False, rx_len = 0, p_rmcs = rmcs0, dpmi_seg = 0, dpmi_off = 0, thunk_invocations = 0,
     thunk_phase0_count = 0, thunk_phase1_count = 0, last_handle = 0, pk_bounce_seg = 0, pk_bounce_linear = 0,
     pk_thunk_seg = 0, prealloc_bounce_seg = 0, prealloc_bounce_linear = 0, prealloc_thunk_seg = 0\<rparr>"

lemma block_host_blocks: "dos_blocks block_host (\<lambda>h seg. h seg)"
  by (auto simp: dos_blocks_def block_host_def)

lemma block_prealloc:
  "\<exists>t out. loop_prealloc block_host block_pkt = (None, t, out) \<and> prealloc_thunk_seg t = 0x2000"
  by (simp add: loop_prealloc_def dos_alloc_int21_AH48_def resolve_seg_to_linear_def dpmi_alloc_dos_mem_def
      block_host_def block_pkt_def Let_def)

lemma block_detect: "int_num s = 0 \<Longrightarrow> \<exists>u. pktdrv_detect block_host s = (0x60, u)"
proof -
  assume "int_num s = 0"
  moreover have l: "[0x60..<0x80] = 0x60 # [0x61..<0x80::nat]" by (simp add: upt_rec)
  ultimately show ?thesis
    unfolding pktdrv_detect_def l
    by (simp add: pktdrv_probe_slot_def pktdrv_simulate_real_int_def driver_info_ok_def block_host_def Let_def)
qed

section \<open>Properties\<close>

text \<open>
  The send loop ends: over a driver that is not yet initialised, whatever DOS, the host and the packet
  driver answer, \<open>main\<close> returns 0 to 3. It never finds the driver inactive after a successful
  initialisation, so status 4 does not occur.
\<close>

theorem loop_main_ends:
  assumes "int_num s = 0" "\<not> ne2k_initialized (p_ne2k s)"
  shows "\<exists>rc st. loop_main d nic s = Some (rc, st) \<and> rc \<in> {0, 1, 2, 3}"
proof -
  obtain r t out where p: "loop_prealloc d s = (r, t, out)" by (cases "loop_prealloc d s") auto
  note k = prealloc_keeps[OF p]
  show ?thesis
  proof (cases r)
    case (Some rc)
    with k p show ?thesis by (auto simp: loop_main_def)
  next
    case None
    obtain rc mac u where c: "crynwr_init d t = ((rc, mac), u)" by (cases "crynwr_init d t") auto
    have init: "p_ne2k u = p_ne2k s" "rc = 0 \<Longrightarrow> pktdrv_is_active u"
      using crynwr_init_result[of t d] k assms(1) c by (auto simp: pktdrv_is_active_def split: if_splits)
    define st where "st = (u, out @ crlf @ emit ''[pi:rc=]'' @ emit_hex8 crlf (word_of_int rc))"
    obtain v where "loop_rounds d nic (loop_arp mac) [0..<5] st = Some v"
      using rounds_return[of st d nic "loop_arp mac" "[0..<5]"] assms(2) init(1) by (auto simp: st_def)
    with None p c init(2) show ?thesis by (cases v) (auto simp: loop_main_def st_def Let_def)
  qed
qed

theorem loop_main_ends_witness: "\<exists>rc st. loop_main demo_host (const_nic 0) demo_pkt = Some (rc, st) \<and> rc \<in> {0, 1, 2, 3}"
  by (rule loop_main_ends) (simp_all add: demo_pkt_def)

text \<open>
  C37. The thunk does not fit what the rig allocates for it. When the allocations of \<open>main\<close> succeed and
  \<open>pktdrv_init\<close> finds a driver and builds its thunk, the receiver code lies behind the end of the block DPMI
  gave the program for the thunk (one paragraph: \<open>paras\<close> is the size on the host's books), and the receiver's
  variables lie 48 bytes further on, in memory that belongs to somebody else.
\<close>

theorem rig_thunk_overruns:
  assumes "dos_blocks d paras" "loop_prealloc d s = (None, t, out)" "pk_thunk_seg s = 0"
    and "pktdrv_detect d t = (n, s1)" "n \<noteq> 0" "pktdrv_alloc_bounce s1 = (r2, s2)" "pktdrv_alloc_thunk d s2 = (r3, u)"
    and "\<forall>x. in_block (push_bit 4 (prealloc_thunk_seg t)) 0x50 x \<longrightarrow> writable d x"
    and "block_end = push_bit 4 (prealloc_thunk_seg t) + 16 * of_nat (paras (p_host t) (prealloc_thunk_seg t))"
  shows "load_bytes (p_mem u) block_end 47 = rcv_code
    \<and> load_bytes (p_mem u) (block_end + 0x30) 6 = stub_vars (pk_bounce_seg s2)"
proof -
  note p = prealloc_block[OF assms(1,2)]
  have s2: "pk_thunk_seg s2 = 0" "prealloc_thunk_seg s2 = prealloc_thunk_seg t"
    using detect_keeps[OF assms(4)] bounce_keeps[OF assms(6)] assms(3) p(3) by simp_all
  with alloc_thunk_image[OF s2(1) _ _ assms(7)] p(1,2) assms(8,9) show ?thesis by (simp add: add.assoc)
qed

theorem rig_thunk_overruns_witness:
  "\<exists>t s1 s2 r u out. loop_prealloc block_host block_pkt = (None, t, out) \<and> pktdrv_detect block_host t = (0x60, s1)
    \<and> s2 = snd (pktdrv_alloc_bounce s1) \<and> pktdrv_alloc_thunk block_host s2 = (r, u)
    \<and> load_bytes (p_mem u) 0x20010 47 = rcv_code"
proof -
  obtain t out where t: "loop_prealloc block_host block_pkt = (None, t, out)" "prealloc_thunk_seg t = 0x2000"
    using block_prealloc by blast
  have "int_num t = 0" using prealloc_keeps[OF t(1)] by (simp add: block_pkt_def)
  then obtain s1 where s1: "pktdrv_detect block_host t = (0x60, s1)" using block_detect by blast
  obtain r2 s2 where s2: "pktdrv_alloc_bounce s1 = (r2, s2)" by fastforce
  obtain r3 u where u: "pktdrv_alloc_thunk block_host s2 = (r3, u)" by fastforce
  have w: "writable block_host x" for x by (simp add: block_host_def)
  have one: "p_host t 0x2000 = 1" using prealloc_block(1)[OF block_host_blocks t(1)] t(2) by simp
  have "load_bytes (p_mem u) (push_bit 4 (prealloc_thunk_seg t) + 16 * of_nat (p_host t (prealloc_thunk_seg t))) 47 = rcv_code"
    using rig_thunk_overruns[OF block_host_blocks t(1) _ s1 _ s2 u _ refl] w by (simp add: block_pkt_def)
  with t(2) one have "load_bytes (p_mem u) 0x20010 47 = rcv_code" by simp
  with t(1) s1 s2 u show ?thesis by (metis snd_conv)
qed

end
