(* ===== verification/Spec2Isabelle.thy ===== *)
theory Spec2Isabelle
  imports Base64 Urllib_Parse Math_Gamma Time_Clock File_Io Shutil Tempfile Net_Irq Ssh_Hash Ssh_Cipher Ssh_Keys Ssh_Safety Ssh_Transfer Tls
    Ssh_Backend Ssh_Policy Ssh_Crypto_Api Hash_Shim Dos_Exec Pkt_Exec Pktdrv_Wf Net_Diag Bigint_Bench Smoke_Tls Int21_Smoke Send_Loop
begin

text \<open>
  Verification of the FreeDOS port of MicroPython: the C files of
  \<open>src/src/freedos_micro_python/port/\<close> (below: the port) and the C programs of \<open>src/rigs/\<close>. The program is a
  32-bit protected-mode DOS executable. Python modules written in C sit on DOS and BIOS services that it
  reaches through a DPMI host, on an ethernet card that it drives itself or through a Crynwr packet
  driver in real mode, on lwIP for TCP/IP, on axTLS and TweetNaCl for cryptography and on libssh2 for SSH.

  \<^bold>\<open>Conventions.\<close> A C structure or the globals of a file are a \<open>record\<close>; a w-bit integer is a \<open>w word\<close>, and
  where C's \<open>int\<close> matters in a calculation it is an \<open>int\<close> with the wrap-around written out; a buffer is a
  list of bytes; a function that raises returns a sum with the exception on the left; a C function keeps
  its name, less a leading underscore. A loop whose end the code does not control is a
  \<open>partial_function\<close>: \<open>None\<close> is a loop that never returns, and the theorems about it show that it returns.
  Code outside the repository is a parameter, a record of functions over a world of its own.

  \<^bold>\<open>Parts, theories and definitions.\<close>

  \<^item> \<open>Prelude\<close>, \<open>Big_Endian\<close>, \<open>Console\<close>: bytes, C strings and exceptions; numbers as big-endian bytes; the
    console printers of the rigs and of the diagnostics.
  \<^item> Text modules. \<open>Base64\<close> (\<open>base64_uc386dos.c\<close>), \<open>Urllib_Parse\<close> (\<open>urllib_parse_uc386dos.c\<close>) and \<open>Dos_Path\<close>
    (\<open>path_uc386dos.c\<close>) are pure functions on byte lists: round trips, the encoder against the bit stream of
    RFC 4648, normal form of \<open>normpath\<close>, the error branches.
  \<^item> \<open>Math_Gamma\<close> (\<open>math_gamma.c\<close>): over the operations on \<open>double\<close> as a record; the recursion ends.
  \<^item> \<open>Time_Clock\<close> (\<open>time_real_uc386dos.c\<close>, \<open>mphal_uc386dos.c\<close>, \<open>modtime_uc386dos.c\<close>): calendar arithmetic at 32
    bits, tick counters, delays.
  \<^item> \<open>Dpmi\<close>: the flat address space, the register blocks and the DPMI host that the next three parts share.
    A real-mode call may change any byte of memory.
  \<^item> \<open>Dos_Int21\<close> (\<open>dosint21_uc386dos.c\<close>): the record \<open>dos\<close>, the thunk \<open>CD 21 CB\<close>, the bounce buffer, \<open>dos_int21_call\<close>
    and one function per DOS service. \<open>int21_call_safe_dispatch\<close>: no call leaves protected mode unless the
    thunk was armed and reads back right. \<open>File_Io\<close> (\<open>file_uc386dos.c\<close>) is \<open>open\<close>, the stream methods and the
    import hooks over it. \<open>Rm_Exec\<close> is the processor that runs the thunks in real mode, as a step relation with its
    execution, and \<open>Dos_Exec\<close> shows on it that the bytes of the thunk, the CS:IP of the call and its repair make
    each service the interrupt itself (\<open>dos_services_on_machine_code\<close>), so that reading a file holds down to the
    machine code.
  \<^item> \<open>Os_Module\<close>, \<open>Shutil\<close>, \<open>Tempfile\<close> (\<open>os_uc386dos.c\<close>, \<open>shutil_uc386dos.c\<close>, \<open>tempfile_uc386dos.c\<close>): over the C
    library as a record of functions.
  \<^item> Network. \<open>Ne2k\<close> is the protected-mode driver of \<open>pktdrv_uc386dos.c\<close>; \<open>Rcv_Stub\<close> executes the 47 bytes of
    its real-mode receiver with the meaning of the 8086 instructions they hold; \<open>Pktdrv\<close> is the rest of the file,
    with the record \<open>pkt\<close>; \<open>Pktdrv_Wf\<close> its buffer invariant under every order of operations, \<open>Pkt_Exec\<close> what its call thunk does on the
    processor of \<open>Rm_Exec\<close>. \<open>Net_Glue\<close> is
    \<open>lwip_uc386dos.c\<close> and \<open>uc386_net_uc386dos.c\<close> over any driver, \<open>Net_Stack\<close> puts the two together, \<open>Net_Diag\<close> holds the
    interface set-up and the diagnostics. \<open>Pkt_Irq\<close> and \<open>Net_Irq\<close> are the same driver and the same stack with the
    interrupts of the card at any moment: frames arrive between any two accesses to the memory the driver
    shares with its stub, the single bytes of a \<open>memcpy\<close> included; with no arrivals they agree with \<open>Pktdrv\<close>.
    The path of a received frame is proved from the bytes of the stub (\<open>stub_correct\<close>) through the shared memory
    (\<open>irq_frame_is_stub\<close>) and the receive call (\<open>rx_in_order\<close> in \<open>Pkt_Irq\<close>) to what lwIP is handed
    (\<open>stack_delivers_in_order\<close> in \<open>Net_Irq\<close>). Both theorems say what the code guarantees, windows of frames in
    the order of arrival, and that frames come whole when no arrival falls into a copy; the witness of the first
    is a frame torn by one that does.
  \<^item> Cryptography for SSH. \<open>Sha256\<close> (\<open>rigs/tls-smoke/patches/sha256.c\<close>) against FIPS 180-4, whose constants,
    schedule and padding are written down again in the theory; \<open>Ssh_Hash\<close>, \<open>Ssh_Cipher\<close>, \<open>Ssh_Bignum\<close>, \<open>Ssh_Keys\<close>
    and \<open>Ssh_Backend\<close> are the parts of \<open>libssh2_axtls.c\<close>: HMAC against RFC 2104, counter mode against NIST SP
    800-38A, numbers refining natural numbers, key agreement, absence of leaks on every allocation
    failure, and what the traces print. \<open>Ssh_Crypto_Api\<close> holds the macros of \<open>libssh2_axtls.h\<close> by which libssh2 calls them.
    \<open>Hash_Shim\<close> is \<open>lib/axtls/crypto/crypto.h\<close>, through which \<open>hashlib\<close> gets MD5 and SHA-1.
  \<^item> SSH. \<open>Ssh_Api\<close> is the interface to libssh2 as a type of calls and a trace of answers; \<open>Ssh_Session\<close> is
    \<open>modssh_uc386dos.c\<close>; \<open>Ssh_Safety\<close> shows that a program which closes what belongs to a session first never
    hands libssh2 a dead handle; \<open>Ssh_Policy\<close> that no handshake runs without the algorithm preferences and nothing
    is sent before it succeeded (\<open>ssh_secured_before_use\<close>); \<open>Ssh_Transfer\<close> shows what the transfer loops deliver.
  \<^item> \<open>Tls\<close> (\<open>modtls_axtls_uc386dos.c\<close>): contexts and sockets over axTLS; a client never starts with the
    verification it was asked for switched off, and reading gives the stream of the peer.
  \<^item> Rigs, the programs under \<open>rigs/\<close>: \<open>Bigint_Bench\<close> (the schoolbook product against natural numbers),
    \<open>Int21_Smoke\<close> over the machine of \<open>Dpmi\<close>, \<open>Send_Loop\<close> over the driver of \<open>Pktdrv\<close>, and \<open>Smoke_Tls\<close> over the
    socket ring of \<open>Smoke_Socket\<close>.

  \<^bold>\<open>Interfaces.\<close> \<open>field_quoting\<close> (\<open>Urllib_Parse\<close>): what \<open>urlencode\<close> needs of \<open>quote\<close> to be read back; \<open>chunk_reader\<close>
  (\<open>File_Io\<close>): a DOS read that gives a prefix of what is left; \<open>digest_law\<close> (\<open>Digest\<close>): an incremental hash is a
  function of the bytes fed in; \<open>bcon_law\<close> (\<open>Hash_Shim\<close>): the same with lengths of 32 bits; \<open>frame_driver\<close> (\<open>Net_Glue\<close>): a driver hands out what waits, in order;
  \<open>byte_queue\<close> (\<open>Smoke_Socket\<close>): a buffer between a writer and a reader is a queue of bytes. Each is interpreted on the model of the code that
  provides it.

  \<^bold>\<open>Assumptions.\<close> Hypotheses about parameters state documented behaviour and are named: \<open>send_keeps\<close> (the
  send service leaves foreign memory alone), \<open>lwip_takes\<close> and \<open>lwip_live\<close>
  (lwIP consumes a frame and touches the driver by sending only), \<open>dos_disk\<close> (open, read and seek work on a disk of
  named files), \<open>file_library\<close> (the C library on named files, where opening with \<open>O_TRUNC\<close> empties one), \<open>dos_blocks\<close> (DPMI
  grants as many paragraphs as it was asked for), \<open>pump_feeds\<close> (lwIP reaches the ring through the registered
  callbacks), \<open>x25519_law\<close> (Diffie-Hellman
  commutes), \<open>ed25519_pair\<close> (what is signed opens), and the like. Every theorem that has hypotheses is
  followed by a witness on a concrete instance.

  \<^bold>\<open>Bounds.\<close> The busy-waits of the NE2000 driver keep their counters of 100000 and 1000000 as words; \<open>mktemp\<close>
  tries 1024 names; \<open>scp_recv\<close> gives up after 21 empty polls, once it has a byte; the smoke test waits 180
  ticks for data and 540 for the connection. Fuel occurs twice: 13 instructions are enough for every
  path through the 47 bytes of the receiver stub, as \<open>stub_correct\<close> shows, and 4 for the thunks of \<open>Rm_Exec\<close>, as
  \<open>exec_int_thunk\<close> shows.

  \<^bold>\<open>Not modelled.\<close> \<open>urllib_uc386dos.c\<close> and the other module tables, \<open>mpconfigport.h\<close> but for its poll hook,
  \<open>lwipopts.h\<close> and the architecture headers (configuration), the assembly files, the Python and shell tooling
  and tests. Console traces of the port are left out where no theorem is about them, debug macros expand
  to nothing as in the default build, the printed form of a file object is MicroPython's formatting, and
  the checks of argument types that MicroPython makes before a function of a module runs are its own. The
  growth of a result buffer does not fail (\<open>Ssh_Session\<close>). The time the hardware takes is not modelled. Outside
  \<open>Pkt_Irq\<close> and \<open>Net_Irq\<close> the functions of the driver run without interrupts inside them, which is how \<open>Pktdrv\<close> and
  \<open>Net_Stack\<close> state what a single call does; in \<open>Pkt_Irq\<close> an arrival is handled to its end before the program goes
  on, so the stub itself is not interrupted.
\<close>

section \<open>Properties that span components\<close>

text \<open>
  C31. The two directions share one buffer. A send while a received frame waits for the next poll
  overwrites that frame: the poll then hands out, under the length of the frame that arrived, the bytes
  that were sent followed by the rest of the frame.
\<close>

theorem send_corrupts_waiting_frame:
  assumes "pk_ready d a s" "waiting s = [f]" "send_keeps d a 0x50" "send_keeps d (pk_bounce_linear s) 2048"
    and "Pktdrv.pktdrv_send d nic p (length p) s = Some (rc, t)" "length p \<le> 1514"
  shows "fst (Pktdrv.pktdrv_recv d nic maxlen t) = take maxlen (take (length f) p @ drop (length p) f)"
proof -
  have p: "length p \<le> 2048" using assms(6) by simp
  have "pk_ready d a t" by (rule send_keeps_ready(1)[OF assms(1,5) p])
  with send_overwrites[OF assms(1,2,5) p assms(3,4)] recv_ready[of d a t nic maxlen]
  show ?thesis by (cases "Pktdrv.pktdrv_recv d nic maxlen t") simp
qed

theorem send_corrupts_waiting_frame_witness:
  "\<exists>rc t. Pktdrv.pktdrv_send demo_host (const_nic 0) [9] 1 (irq_frame demo_host [1, 2, 3] demo_up) = Some (rc, t)
     \<and> fst (Pktdrv.pktdrv_recv demo_host (const_nic 0) 1514 t) = [9, 2, 3]"
proof -
  let ?s = "irq_frame demo_host [1, 2, 3] demo_up"
  have up: "pk_ready demo_host 0x20000 demo_up" "rx_layout demo_host demo_up"
    using demo_up_idle by (simp_all add: pk_idle_def pk_ready_def)
  have r: "pk_ready demo_host 0x20000 ?s" using up(1) by (simp add: irq_ready)
  have w: "waiting ?s = [[1, 2, 3]]" by (simp add: waiting_irq[OF up(2)])
  obtain rc t where "Pktdrv.pktdrv_send demo_host (const_nic 0) [9] (length [9 :: byte]) ?s = Some (rc, t)"
    using send_returns_ready[OF r] by blast
  with send_corrupts_waiting_frame[OF r w demo_send_keeps demo_send_keeps this, of 1514] show ?thesis by auto
qed

end
